(* ===== verification/Osexp_Prelude.thy ===== *)
theory Osexp_Prelude
  imports Main "HOL-Library.Word"
begin

section \<open>Shared vocabulary of the development\<close>

text \<open>
  What every component uses: the errno values of the kernel sources as a datatype (a function
  that returns \<open>-EXXX\<close> returns \<open>Inl EXXX\<close>), the widths of the machine integers, C strings
  and fixed character arrays as lists of characters, decimal and hexadecimal printing as
  \<^verbatim>\<open>snprintf\<close> does it, and the list lemmas the component proofs share.

  A C string is the list of its characters without the terminating NUL.  A character array
  (\<^verbatim>\<open>char buf[16]\<close>) is the list of all its bytes, NULs included; \<open>cstr\<close> reads the C string
  a buffer holds.
\<close>

subsection \<open>Error numbers, result and integer types\<close>

datatype errno =
    EPERM | ENOENT | ESRCH | EINTR | EIO | E2BIG | EBADF | ECHILD | EAGAIN | ENOMEM
  | EACCES | EFAULT | EBUSY | EINVAL | ERANGE | ERESTARTNOINTR

type_synonym 'a result = "errno + 'a"

type_synonym u32 = "32 word"
type_synonym u64 = "64 word"

named_theorems res_simps \<open>evaluation of result-valued steps\<close>
named_theorems frame \<open>what an operation leaves unchanged\<close>
named_theorems balance \<open>reference counting facts of the event traces\<close>

definition is_err :: "'a result \<Rightarrow> bool" where
  "is_err r = (case r of Inl _ \<Rightarrow> True | Inr _ \<Rightarrow> False)"

lemma is_err_simps [simp]: "is_err (Inl e)" "\<not> is_err (Inr v)"
  by (simp_all add: is_err_def)

lemma not_is_err_iff: "\<not> is_err r \<longleftrightarrow> (\<exists>v. r = Inr v)"
  by (cases r) auto

subsection \<open>C strings and buffers\<close>

abbreviation NUL :: char where "NUL \<equiv> CHR 0x00"
abbreviation NL :: char where "NL \<equiv> CHR 0x0A"
abbreviation TAB :: char where "TAB \<equiv> CHR 0x09"
abbreviation SPC :: char where "SPC \<equiv> CHR 0x20"

definition cstr :: "char list \<Rightarrow> string" where
  "cstr buf = takeWhile (\<lambda>c. c \<noteq> NUL) buf"

lemma cstr_append_NUL [simp]: "NUL \<notin> set s \<Longrightarrow> cstr (s @ NUL # t) = s"
  unfolding cstr_def by (induction s) auto

lemma cstr_id [simp]: "NUL \<notin> set s \<Longrightarrow> cstr s = s"
  unfolding cstr_def by (induction s) auto

lemma cstr_append: "NUL \<notin> set s \<Longrightarrow> cstr (s @ t) = s @ cstr t"
  unfolding cstr_def by (induction s) auto

lemma cstr_Cons: "cstr (c # t) = (if c = NUL then [] else c # cstr t)"
  by (simp add: cstr_def)

lemma NUL_notin_cstr [simp]: "NUL \<notin> set (cstr b)"
  unfolding cstr_def by (auto dest: set_takeWhileD)

lemma length_cstr: "length (cstr b) \<le> length b"
  unfolding cstr_def by (rule length_takeWhile_le)

lemma length_cstr_less: "NUL \<in> set b \<Longrightarrow> length (cstr b) < length b"
  unfolding cstr_def by (induction b) auto

text \<open>\<^verbatim>\<open>strncmp(a, b, n) == 0\<close>: the byte-wise loop of the C library, where reading past the
  end of the list reads the terminating NUL.\<close>

fun strncmp_eq :: "char list \<Rightarrow> char list \<Rightarrow> nat \<Rightarrow> bool" where
  "strncmp_eq a b 0 = True"
| "strncmp_eq [] [] (Suc n) = True"
| "strncmp_eq [] (y # ys) (Suc n) = (y = NUL)"
| "strncmp_eq (x # xs) [] (Suc n) = (x = NUL)"
| "strncmp_eq (x # xs) (y # ys) (Suc n) = (x = y \<and> (x = NUL \<or> strncmp_eq xs ys n))"

lemma strncmp_eq_iff: "strncmp_eq a b n \<longleftrightarrow> take n (cstr a) = take n (cstr b)"
  by (induction a b n rule: strncmp_eq.induct) (auto simp: cstr_def)

lemma strncmp_eq_long:
  "length (cstr a) \<le> n \<Longrightarrow> length (cstr b) \<le> n \<Longrightarrow> strncmp_eq a b n \<longleftrightarrow> cstr a = cstr b"
  by (simp add: strncmp_eq_iff)

lemma strncmp_eq_prefix:
  "length (cstr b) = n \<Longrightarrow> strncmp_eq a b n \<longleftrightarrow> (\<exists>r. cstr a = cstr b @ r)"
  by (auto simp: strncmp_eq_iff) (metis append_take_drop_id)

subsection \<open>Printing numbers\<close>

definition digit_char :: "nat \<Rightarrow> char" where
  "digit_char d = char_of (if d < 10 then 48 + d else 87 + d)"

fun dec_nat :: "nat \<Rightarrow> string" where
  "dec_nat n = (if n < 10 then [digit_char n] else dec_nat (n div 10) @ [digit_char (n mod 10)])"

declare dec_nat.simps [simp del]

text \<open>\<^verbatim>\<open>%d\<close> / \<^verbatim>\<open>%ld\<close>: a sign and the decimal digits.\<close>

definition dec_int :: "int \<Rightarrow> string" where
  "dec_int i = (if i < 0 then CHR ''-'' # dec_nat (nat (- i)) else dec_nat (nat i))"

fun hex_nat :: "nat \<Rightarrow> string" where
  "hex_nat n = (if n < 16 then [digit_char n] else hex_nat (n div 16) @ [digit_char (n mod 16)])"

declare hex_nat.simps [simp del]

text \<open>\<^verbatim>\<open>snprintf(buf, size, ...)\<close> keeps at most \<open>size - 1\<close> characters.\<close>

definition snprintf_trunc :: "nat \<Rightarrow> string \<Rightarrow> string" where
  "snprintf_trunc n s = take (n - 1) s"

lemma digit_char_bounds: "d < 10 \<Longrightarrow> 48 \<le> (of_char (digit_char d) :: nat) \<and> (of_char (digit_char d) :: nat) < 58"
  by (simp add: digit_char_def)

lemma of_char_digit: "d < 10 \<Longrightarrow> (of_char (digit_char d) :: nat) = 48 + d"
  by (simp add: digit_char_def)

lemma dec_nat_nonempty [simp]: "dec_nat n \<noteq> []"
  by (subst dec_nat.simps) simp

definition is_digit :: "char \<Rightarrow> bool" where
  "is_digit c \<longleftrightarrow> 48 \<le> (of_char c :: nat) \<and> (of_char c :: nat) < 58"

lemma dec_nat_chars: "\<forall>c \<in> set (dec_nat n). 48 \<le> (of_char c :: nat) \<and> (of_char c :: nat) < 58"
proof (induction n rule: dec_nat.induct)
  case (1 n)
  then show ?case
    by (subst dec_nat.simps) (auto simp: of_char_digit)
qed

lemma dec_nat_digits: "list_all is_digit (dec_nat n)"
  using dec_nat_chars [of n] by (auto simp: list_all_iff is_digit_def)

lemma dec_nat_not: "of_char c < (48::nat) \<or> (58::nat) \<le> of_char c \<Longrightarrow> c \<notin> set (dec_nat n)"
  using dec_nat_chars [of n] by auto

lemma length_dec_nat: "n < 10 ^ k \<Longrightarrow> 0 < k \<Longrightarrow> length (dec_nat n) \<le> k"
proof (induction n arbitrary: k rule: dec_nat.induct)
  case (1 n)
  show ?case
  proof (cases "n < 10")
    case True
    with 1 show ?thesis by (subst dec_nat.simps) simp
  next
    case False
    with "1.prems" obtain j where k: "k = Suc j" "0 < j" by (cases k; cases "k - 1") auto
    have "n div 10 < 10 ^ j" using "1.prems" k by (simp add: div_less_iff_less_mult mult.commute)
    then have "length (dec_nat (n div 10)) \<le> j" using "1.IH" [OF False] k by blast
    with False k show ?thesis by (subst dec_nat.simps) simp
  qed
qed

text \<open>The value a digit string denotes; printing and reading are inverse.\<close>

definition dec_val :: "string \<Rightarrow> nat" where
  "dec_val s = foldl (\<lambda>a c. 10 * a + (of_char c - 48)) 0 s"

lemma dec_val_snoc [simp]: "dec_val (s @ [c]) = 10 * dec_val s + (of_char c - 48)"
  by (simp add: dec_val_def)

lemma dec_val_dec_nat [simp]: "dec_val (dec_nat n) = n"
proof (induction n rule: dec_nat.induct)
  case (1 n)
  show ?case
  proof (cases "n < 10")
    case True
    then show ?thesis by (subst dec_nat.simps) (simp add: dec_val_def of_char_digit)
  next
    case False
    then show ?thesis using 1 by (subst dec_nat.simps) (simp add: of_char_digit)
  qed
qed

lemma dec_nat_inj [simp]: "dec_nat m = dec_nat n \<longleftrightarrow> m = n"
  by (metis dec_val_dec_nat)

subsection \<open>Lists\<close>

lemma in_set_butlast_or_last: "x \<in> set xs \<Longrightarrow> x \<noteq> last xs \<Longrightarrow> x \<in> set (butlast xs)"
  by (induction xs) (auto split: if_splits)

lemma takeWhile_dropWhile_length: "length (takeWhile P xs) + length (dropWhile P xs) = length xs"
  by (metis length_append takeWhile_dropWhile_id)

lemma filter_mem_split: "x \<in> set (filter P xs) \<longleftrightarrow> x \<in> set xs \<and> P x"
  by auto

subsection \<open>Words\<close>

lemma unat_of_nat_small: "m < 2 ^ LENGTH('a) \<Longrightarrow> unat (of_nat m :: 'a::len word) = m"
  by (simp add: unsigned_of_nat take_bit_nat_eq_self)

lemma unat_u32_of_nat: "m < 2 ^ 32 \<Longrightarrow> unat (of_nat m :: u32) = m"
  by (simp add: unsigned_of_nat take_bit_nat_eq_self)

lemma u32_not_minus_one: "m < 2 ^ 32 - 1 \<Longrightarrow> (of_nat m :: u32) \<noteq> - 1"
proof
  assume m: "m < 2 ^ 32 - 1" and "(of_nat m :: u32) = - 1"
  then have "unat (of_nat m :: u32) = unat (- 1 :: u32)" by simp
  also have "\<dots> = 2 ^ 32 - 1" by (simp add: unsigned_minus_1_eq_mask mask_eq_exp_minus_1)
  finally show False using m unat_u32_of_nat [of m] by simp
qed

lemma unat_less_64: "unat (a :: u64) < 2 ^ 64"
  using unsigned_less [of a] by simp

end
