(* ===== verification/Runs.thy ===== *)
theory Runs
  imports Osexp_Prelude
begin

section \<open>Runs of labelled steps\<close>

text \<open>
  A run is a sequence of steps with their labels.  The locale \<open>labelled\<close> is invariance along runs: a property that
  every allowed step keeps holds at the end of every run of allowed steps.  It is interpreted for the calls of the
  patched kernel, for the cache of kernel stacks and for the life of address spaces, of signal
  structures and of the inodes of a process.
  The locale \<open>simulation\<close> adds an abstract machine that answers one request per step: a run is then seen as serving the
  requests of its steps, one after the other.  It is interpreted for what the patch is required to do.
\<close>

inductive run :: "('l \<Rightarrow> 's \<Rightarrow> 's \<Rightarrow> bool) \<Rightarrow> 's \<Rightarrow> 'l list \<Rightarrow> 's \<Rightarrow> bool" for step where
  run_Nil: "run step s [] s"
| run_Cons: "step l s s' \<Longrightarrow> run step s' ls s'' \<Longrightarrow> run step s (l # ls) s''"

inductive_simps run_simps: "run step s [] s'" "run step s (l # ls) s'"

locale labelled =
  fixes step :: "'l \<Rightarrow> 's \<Rightarrow> 's \<Rightarrow> bool"
    and inv :: "'s \<Rightarrow> bool"
    and allowed :: "'l \<Rightarrow> 's \<Rightarrow> bool"
  assumes keeps: "step l s s' \<Longrightarrow> inv s \<Longrightarrow> allowed l s \<Longrightarrow> inv s'"
begin

lemma invariant: "run step s ls s' \<Longrightarrow> inv s \<Longrightarrow> (\<And>l s. l \<in> set ls \<Longrightarrow> allowed l s) \<Longrightarrow> inv s'"
  by (induction rule: run.induct) (auto intro: keeps)

end

locale simulation = labelled step inv "\<lambda>_ _. True"
  for step :: "'l \<Rightarrow> 's \<Rightarrow> 's \<Rightarrow> bool" and inv :: "'s \<Rightarrow> bool" +
  fixes seen :: "'s \<Rightarrow> 'a"
    and asks :: "'l \<Rightarrow> 's \<Rightarrow> 'r"
    and answer :: "'r \<Rightarrow> 'a \<Rightarrow> 'a"
  assumes simulates: "step l s s' \<Longrightarrow> inv s \<Longrightarrow> seen s' = answer (asks l s) (seen s)"
begin

lemma serves_requests:
  "run step s ls s' \<Longrightarrow> inv s \<Longrightarrow>
   \<exists>rs. list_all2 (\<lambda>l r. \<exists>m. inv m \<and> r = asks l m) ls rs \<and> seen s' = fold answer rs (seen s)"
proof (induction rule: run.induct)
  case (run_Nil s)
  then show ?case by simp
next
  case (run_Cons l s s' ls s'')
  then obtain rs where "list_all2 (\<lambda>l r. \<exists>m. inv m \<and> r = asks l m) ls rs" "seen s'' = fold answer rs (seen s')"
    using keeps by blast
  then have "list_all2 (\<lambda>l r. \<exists>m. inv m \<and> r = asks l m) (l # ls) (asks l s # rs)"
    "seen s'' = fold answer (asks l s # rs) (seen s)"
    using run_Cons.prems simulates [OF run_Cons.hyps(1)] by auto
  then show ?case by blast
qed

text \<open>What no request of the run's steps can change is the same at the end.\<close>

lemma untouched:
  assumes "run step s ls s'" "inv s" "\<And>l m a. l \<in> set ls \<Longrightarrow> obs (answer (asks l m) a) = obs a"
  shows "obs (seen s') = obs (seen s)"
  using assms
proof (induction rule: run.induct)
  case (run_Cons l s s' ls s'')
  have "inv s'" using keeps [OF run_Cons.hyps(1)] run_Cons.prems(1) by simp
  then have "obs (seen s'') = obs (seen s')" using run_Cons.IH run_Cons.prems(2) by simp
  then show ?case using simulates [OF run_Cons.hyps(1) run_Cons.prems(1)] run_Cons.prems(2) by simp
qed simp

end

lemma run_append: "run step s (ls @ ls') s' \<longleftrightarrow> (\<exists>m. run step s ls m \<and> run step m ls' s')"
  by (induction ls arbitrary: s) (auto simp: run_simps)

end
