(* ===== verification/Task.thy ===== *)
theory Task
  imports Osexp_Prelude
begin

unbundle bit_operations_syntax

section \<open>Tasks: \<^verbatim>\<open>include/linux/sched.h\<close>\<close>

text \<open>
  The part of \<^verbatim>\<open>struct task_struct\<close> that the modelled kernel code reads or writes, with the
  patch's \<^verbatim>\<open>cloak\<close> field, the task flags and states of the header, and its inline helpers.
  A field \<open>x\<close> of \<^verbatim>\<open>struct task_struct\<close> is the record field \<open>t_x\<close>.  Pointers are natural
  numbers: \<open>tptr\<close> names a task structure, \<open>pidptr\<close> a \<^verbatim>\<open>struct pid\<close>, \<open>sigptr\<close> a
  \<^verbatim>\<open>struct signal_struct\<close>, \<open>mmptr\<close> a \<^verbatim>\<open>struct mm_struct\<close>; a pointer that may be NULL is an
  option.  \<^verbatim>\<open>pid_t\<close> and \<^verbatim>\<open>int\<close> are mathematical integers, unsigned integers are words.

  The store \<open>kernel\<close> maps task pointers to their structures and keeps the list
  \<^verbatim>\<open>for_each_process\<close> walks (the thread group leaders, in list order) and the global
  \<^verbatim>\<open>hidden_flag\<close> of \<^verbatim>\<open>include/linux/var_defs.h\<close>.
\<close>

type_synonym tptr = nat
type_synonym pidptr = nat
type_synonym sigptr = nat
type_synonym mmptr = nat
type_synonym uptr = u64

subsection \<open>Task states and flags\<close>

definition TASK_RUNNING :: u32 where "TASK_RUNNING = 0x0000"
definition TASK_INTERRUPTIBLE :: u32 where "TASK_INTERRUPTIBLE = 0x0001"
definition TASK_UNINTERRUPTIBLE :: u32 where "TASK_UNINTERRUPTIBLE = 0x0002"
definition TASK_STOPPED_BIT :: u32 where "TASK_STOPPED_BIT = 0x0004"
definition TASK_TRACED_BIT :: u32 where "TASK_TRACED_BIT = 0x0008"
definition EXIT_DEAD :: u32 where "EXIT_DEAD = 0x0010"
definition EXIT_ZOMBIE :: u32 where "EXIT_ZOMBIE = 0x0020"
definition TASK_PARKED :: u32 where "TASK_PARKED = 0x0040"
definition TASK_DEAD :: u32 where "TASK_DEAD = 0x0080"
definition TASK_NOLOAD :: u32 where "TASK_NOLOAD = 0x0400"

definition TASK_IDLE :: u32 where
  "TASK_IDLE = TASK_UNINTERRUPTIBLE OR TASK_NOLOAD"

definition TASK_REPORT :: u32 where
  "TASK_REPORT = TASK_RUNNING OR TASK_INTERRUPTIBLE OR TASK_UNINTERRUPTIBLE OR TASK_STOPPED_BIT
     OR TASK_TRACED_BIT OR EXIT_DEAD OR EXIT_ZOMBIE OR TASK_PARKED"

definition TASK_REPORT_IDLE :: u32 where "TASK_REPORT_IDLE = TASK_REPORT + 1"
definition TASK_REPORT_MAX :: u32 where "TASK_REPORT_MAX = push_bit 1 TASK_REPORT_IDLE"

lemmas task_state_defs =
  TASK_RUNNING_def TASK_INTERRUPTIBLE_def TASK_UNINTERRUPTIBLE_def TASK_STOPPED_BIT_def
  TASK_TRACED_BIT_def EXIT_DEAD_def EXIT_ZOMBIE_def TASK_PARKED_def TASK_DEAD_def
  TASK_NOLOAD_def TASK_IDLE_def TASK_REPORT_def TASK_REPORT_IDLE_def TASK_REPORT_MAX_def

definition PF_IDLE :: u32 where "PF_IDLE = 0x00000002"
definition PF_IO_WORKER :: u32 where "PF_IO_WORKER = 0x00000010"
definition PF_WQ_WORKER :: u32 where "PF_WQ_WORKER = 0x00000020"
definition PF_FORKNOEXEC :: u32 where "PF_FORKNOEXEC = 0x00000040"
definition PF_SUPERPRIV :: u32 where "PF_SUPERPRIV = 0x00000100"
definition PF_NPROC_EXCEEDED :: u32 where "PF_NPROC_EXCEEDED = 0x00001000"
definition PF_USED_MATH :: u32 where "PF_USED_MATH = 0x00002000"
definition PF_KTHREAD :: u32 where "PF_KTHREAD = 0x00200000"
definition PF_NO_SETAFFINITY :: u32 where "PF_NO_SETAFFINITY = 0x04000000"

lemmas pf_defs =
  PF_IDLE_def PF_IO_WORKER_def PF_WQ_WORKER_def PF_FORKNOEXEC_def PF_SUPERPRIV_def
  PF_NPROC_EXCEEDED_def PF_USED_MATH_def PF_KTHREAD_def PF_NO_SETAFFINITY_def

definition TASK_COMM_LEN :: nat where "TASK_COMM_LEN = 16"

subsection \<open>The task structure\<close>

record task_struct =
  t_state :: u32
  t_exit_state :: u32
  t_flags :: u32
  t_cloak :: u32
  t_pid :: int
  t_tgid :: int
  t_comm :: "char list"
  t_uid :: u32
  t_euid :: u32
  t_egid :: u32
  t_thread_pid :: "pidptr option"
  t_group_leader :: tptr
  t_real_parent :: tptr
  t_signal :: sigptr
  t_mm :: "mmptr option"
  t_vfork_done :: bool
  t_timer_slack_ns :: u64
  t_default_timer_slack_ns :: u64
  t_make_it_fail :: int
  t_fail_nth :: u32
  t_personality :: u32

text \<open>What a thread group shares (\<^verbatim>\<open>struct signal_struct\<close>) and an address space
  (\<^verbatim>\<open>struct mm_struct\<close>), reduced in the same way; \<open>sg_rlim\<close> is the table of resource limits, soft and hard.\<close>

record signal_struct =
  sg_nr_threads :: int
  sg_live :: int
  sg_sigcnt :: int
  sg_flags :: u32
  sg_oom_score_adj :: int
  sg_oom_score_adj_min :: int
  sg_rlim :: "(u64 \<times> u64) list"

record mm_struct =
  mm_flags :: u64
  mm_users :: int
  mm_arg_start :: u64
  mm_arg_end :: u64
  mm_env_start :: u64
  mm_env_end :: u64

record kernel =
  tasks :: "tptr \<rightharpoonup> task_struct"
  process_list :: "tptr list"
  hidden_flag :: int
  signals :: "sigptr \<rightharpoonup> signal_struct"
  mms :: "mmptr \<rightharpoonup> mm_struct"

text \<open>Every process on the list exists and occurs once.\<close>

definition wf_kernel :: "kernel \<Rightarrow> bool" where
  "wf_kernel k \<longleftrightarrow> distinct (process_list k) \<and> (\<forall>p \<in> set (process_list k). tasks k p \<noteq> None)
     \<and> (\<forall>p t. tasks k p = Some t \<longrightarrow> length (t_comm t) = TASK_COMM_LEN \<and> NUL \<in> set (t_comm t))"

definition update_task :: "tptr \<Rightarrow> (task_struct \<Rightarrow> task_struct) \<Rightarrow> kernel \<Rightarrow> kernel" where
  "update_task p f k = k\<lparr>tasks := (tasks k)(p := map_option f (tasks k p))\<rparr>"

lemma update_task_frame [simp]:
  "process_list (update_task p f k) = process_list k"
  "hidden_flag (update_task p f k) = hidden_flag k"
  "signals (update_task p f k) = signals k"
  "mms (update_task p f k) = mms k"
  by (simp_all add: update_task_def)

lemma tasks_update_task [simp]:
  "tasks (update_task p f k) q = (if q = p then map_option f (tasks k p) else tasks k q)"
  by (simp add: update_task_def)

definition update_signal :: "sigptr \<Rightarrow> (signal_struct \<Rightarrow> signal_struct) \<Rightarrow> kernel \<Rightarrow> kernel" where
  "update_signal s f k = k\<lparr>signals := (signals k)(s := map_option f (signals k s))\<rparr>"

lemma update_signal_simps [simp]:
  "tasks (update_signal s f k) = tasks k" "process_list (update_signal s f k) = process_list k"
  "hidden_flag (update_signal s f k) = hidden_flag k" "mms (update_signal s f k) = mms k"
  "signals (update_signal s f k) r = (if r = s then map_option f (signals k s) else signals k r)"
  by (simp_all add: update_signal_def)

definition update_mm :: "mmptr \<Rightarrow> (mm_struct \<Rightarrow> mm_struct) \<Rightarrow> kernel \<Rightarrow> kernel" where
  "update_mm m f k = k\<lparr>mms := (mms k)(m := map_option f (mms k m))\<rparr>"

lemma update_mm_simps [simp]:
  "tasks (update_mm m f k) = tasks k" "process_list (update_mm m f k) = process_list k"
  "hidden_flag (update_mm m f k) = hidden_flag k" "signals (update_mm m f k) = signals k"
  "mms (update_mm m f k) r = (if r = m then map_option f (mms k m) else mms k r)"
  by (simp_all add: update_mm_def)

lemma wf_update_task:
  "wf_kernel k \<Longrightarrow> (\<And>t. t_comm (f t) = t_comm t) \<Longrightarrow> wf_kernel (update_task p f k)"
  unfolding wf_kernel_def by (auto split: if_splits)

subsection \<open>Calls into the rest of the kernel\<close>

text \<open>
  Calls whose only effect is outside the modelled state are recorded, in the order in which the
  code makes them, as events of a trace: messages, references taken and dropped, cache
  invalidation.  A property such as ``every reference taken is dropped'' is a statement about
  the trace of a call.
\<close>

datatype karg = KInt int | KStr string

datatype kevent =
    Printk string "karg list"
  | Get_pid "pidptr option"
  | Put_pid "pidptr option"
  | Proc_flush_pid "pidptr option"
  | Get_task tptr
  | Put_task tptr

fun task_ref :: "tptr \<Rightarrow> kevent \<Rightarrow> int" where
  "task_ref p (Get_task q) = (if p = q then 1 else 0)"
| "task_ref p (Put_task q) = (if p = q then -1 else 0)"
| "task_ref p _ = 0"

fun pid_ref :: "kevent \<Rightarrow> int" where
  "pid_ref (Get_pid p) = 1"
| "pid_ref (Put_pid p) = -1"
| "pid_ref _ = 0"

definition task_refs :: "tptr \<Rightarrow> kevent list \<Rightarrow> int" where
  "task_refs p ev = sum_list (map (task_ref p) ev)"

definition pid_refs :: "kevent list \<Rightarrow> int" where
  "pid_refs ev = sum_list (map pid_ref ev)"

lemma refs_simps [simp]:
  "task_refs p [] = 0" "task_refs p (e # ev) = task_ref p e + task_refs p ev"
  "task_refs p (ev @ ev') = task_refs p ev + task_refs p ev'"
  "pid_refs [] = 0" "pid_refs (e # ev) = pid_ref e + pid_refs ev"
  "pid_refs (ev @ ev') = pid_refs ev + pid_refs ev'"
  by (simp_all add: task_refs_def pid_refs_def)

subsection \<open>Inline helpers of the header\<close>

definition task_pid_nr :: "task_struct \<Rightarrow> int" where "task_pid_nr t = t_pid t"
definition task_tgid_nr :: "task_struct \<Rightarrow> int" where "task_tgid_nr t = t_tgid t"

definition pid_alive :: "task_struct \<Rightarrow> bool" where
  "pid_alive t \<longleftrightarrow> t_thread_pid t \<noteq> None"

definition is_global_init :: "task_struct \<Rightarrow> bool" where
  "is_global_init t \<longleftrightarrow> task_tgid_nr t = 1"

definition is_idle_task :: "task_struct \<Rightarrow> bool" where
  "is_idle_task t \<longleftrightarrow> t_flags t AND PF_IDLE \<noteq> 0"

text \<open>\<^verbatim>\<open>fls(x)\<close>: the number of the highest set bit, counted from 1, and 0 for 0.\<close>

definition fls :: "u32 \<Rightarrow> nat" where
  "fls x = foldl (\<lambda>a i. if bit x i then Suc i else a) 0 [0..<32]"

definition task_state_index :: "task_struct \<Rightarrow> nat" where
  "task_state_index t =
     (let tsk_state = t_state t;
          st = (tsk_state OR t_exit_state t) AND TASK_REPORT;
          st = (if tsk_state = TASK_IDLE then TASK_REPORT_IDLE else st)
      in fls st)"

definition state_char :: string where "state_char = ''RSDTtXZPI''"

definition task_index_to_char :: "nat \<Rightarrow> char" where
  "task_index_to_char i = (if i < length state_char then state_char ! i else NUL)"

definition task_state_to_char :: "task_struct \<Rightarrow> char" where
  "task_state_to_char t = task_index_to_char (task_state_index t)"

text \<open>\<^verbatim>\<open>current_restore_flags\<close>: take the bits under the mask from the saved flags.\<close>

definition current_restore_flags :: "u32 \<Rightarrow> u32 \<Rightarrow> task_struct \<Rightarrow> task_struct" where
  "current_restore_flags orig_flags fl t =
     (let t = t\<lparr>t_flags := t_flags t AND NOT fl\<rparr> in t\<lparr>t_flags := t_flags t OR (orig_flags AND fl)\<rparr>)"

lemma fls_upper: "(\<And>i. k \<le> i \<Longrightarrow> \<not> bit x i) \<Longrightarrow> fls x \<le> k"
proof -
  assume h: "\<And>i. k \<le> i \<Longrightarrow> \<not> bit x i"
  have "foldl (\<lambda>a i. if bit x i then Suc i else a) a is \<le> k" if "a \<le> k" for a "is"
    using that
  proof (induction "is" arbitrary: a)
    case (Cons i "is")
    have "(if bit x i then Suc i else a) \<le> k" using h [of i] Cons.prems
      by (metis not_less_eq_eq)
    then show ?case using Cons.IH by simp
  qed simp
  then show ?thesis by (simp add: fls_def)
qed

lemma TASK_REPORT_mask: "TASK_REPORT = mask 7"
  by (simp add: task_state_defs mask_eq_exp_minus_1)

lemma bit_TASK_REPORT: "bit TASK_REPORT i \<Longrightarrow> i < 7"
  by (simp add: TASK_REPORT_mask bit_mask_iff)

lemma task_state_index_bound: "task_state_index t \<le> 8"
proof (cases "t_state t = TASK_IDLE")
  case True
  have "fls TASK_REPORT_IDLE = 8" by (simp add: fls_def task_state_defs upt_rec)
  with True show ?thesis by (simp add: task_state_index_def)
next
  case False
  then show ?thesis
    by (fastforce simp: task_state_index_def bit_simps intro!: fls_upper dest: bit_TASK_REPORT)
qed

text \<open>
  The state letter \<^verbatim>\<open>/proc\<close> prints is always inside the table \<^verbatim>\<open>"RSDTtXZPI"\<close>: no state a
  task can have, whatever bits are set, makes \<^verbatim>\<open>task_index_to_char\<close> read past the array.\<close>

theorem task_state_to_char_in_table: "task_state_to_char t \<in> set ''RSDTtXZPI''"
proof -
  have "task_state_index t < length state_char"
    using task_state_index_bound [of t] by (simp add: state_char_def)
  then show ?thesis
    by (simp add: task_state_to_char_def task_index_to_char_def state_char_def nth_mem
        del: set_simps)
qed

end
