(* ===== verification/Hide.thy ===== *)
theory Hide
  imports Task
begin

section \<open>The system calls \<^verbatim>\<open>hide\<close> and \<^verbatim>\<open>hide_user_processes\<close>\<close>

text \<open>
  \<^verbatim>\<open>kernel/hide.c\<close> and \<^verbatim>\<open>kernel/hide_user_processes.c\<close> with their effect on the
  \<^verbatim>\<open>cloak\<close> fields of the task list.  What the code calls elsewhere in the kernel is a
  parameter: the caller's uid (\<^verbatim>\<open>current_uid().val\<close>), the pid lookup
  (\<^verbatim>\<open>pid_task(find_vpid(pid), PIDTYPE_PID)\<close>), \<^verbatim>\<open>__get_task_comm\<close> and
  \<^verbatim>\<open>strncpy_from_user\<close>.

  The interface of the component is the locale \<open>cloak_store\<close>: a store of cloaked processes
  that can be walked, and what a walk that cloaks (or uncloaks) the selected processes does to
  it.  It is interpreted on the kernel store below.
\<close>

subsection \<open>The operations\<close>

definition set_cloak :: "u32 \<Rightarrow> tptr \<Rightarrow> kernel \<Rightarrow> kernel" where
  "set_cloak v p k = update_task p (\<lambda>t. t\<lparr>t_cloak := v\<rparr>) k"

definition thread_pid_of :: "kernel \<Rightarrow> tptr \<Rightarrow> pidptr option" where
  "thread_pid_of k p = (case tasks k p of None \<Rightarrow> None | Some t \<Rightarrow> t_thread_pid t)"

definition hide :: "u32 \<Rightarrow> (int \<Rightarrow> tptr option) \<Rightarrow> int \<Rightarrow> int \<Rightarrow> kernel \<Rightarrow> int \<times> kernel \<times> kevent list" where
  "hide current_uid find_pid_task nr on k =
     (let ev = [Printk ''Syscall hide called.'' []]
      in if nr > 0 \<and> current_uid = 0 then
           (case find_pid_task nr of
              None \<Rightarrow> (1, k, ev)
            | Some p \<Rightarrow>
                let k1 = set_cloak (word_of_int on) p k;
                    ev1 = (if on = 1 then [Printk ''Process %d is hidden by root.'' [KInt nr]] else []);
                    ev2 = (if on = 0 then [Printk ''Process %d is displayed by root.'' [KInt nr]] else []);
                    thread_pid = thread_pid_of k1 p
                in (0, k1, ev @ ev1 @ ev2 @ [Get_pid thread_pid, Proc_flush_pid thread_pid]))
         else (0, k, ev @ [Printk ''Permission denied. You must be root to hide a process.'' []]))"

text \<open>The three \<^verbatim>\<open>for_each_process\<close> loops of \<^verbatim>\<open>hide_user_processes\<close>.\<close>

definition uid_is :: "u32 \<Rightarrow> kernel \<Rightarrow> tptr \<Rightarrow> bool" where
  "uid_is uid k p = (case tasks k p of None \<Rightarrow> False | Some t \<Rightarrow> t_uid t = uid)"

definition comm_is :: "(task_struct \<Rightarrow> char list) \<Rightarrow> char list \<Rightarrow> kernel \<Rightarrow> tptr \<Rightarrow> bool" where
  "comm_is get_task_comm kbinname k p =
     (case tasks k p of None \<Rightarrow> False
      | Some t \<Rightarrow> strncmp_eq (get_task_comm t) kbinname TASK_COMM_LEN)"

fun hide_by_uid :: "u32 \<Rightarrow> tptr list \<Rightarrow> kernel \<Rightarrow> kernel \<times> kevent list" where
  "hide_by_uid uid [] k = (k, [])"
| "hide_by_uid uid (p # ps) k =
     (if uid_is uid k p then
        let k1 = set_cloak 1 p k;
            (k2, ev) = hide_by_uid uid ps k1
        in (k2, Get_pid (thread_pid_of k1 p) # Proc_flush_pid (thread_pid_of k1 p) # ev)
      else hide_by_uid uid ps k)"

fun hide_by_name :: "(task_struct \<Rightarrow> char list) \<Rightarrow> char list \<Rightarrow> u32 \<Rightarrow> tptr list \<Rightarrow> kernel \<Rightarrow> kernel \<times> kevent list" where
  "hide_by_name get_task_comm kbinname uid [] k = (k, [])"
| "hide_by_name get_task_comm kbinname uid (p # ps) k =
     (if uid_is uid k p \<and> comm_is get_task_comm kbinname k p then
        let k1 = set_cloak 1 p k;
            (k2, ev) = hide_by_name get_task_comm kbinname uid ps k1
        in (k2, Printk ''Process %s of uid %d is hidden.'' [KStr (cstr kbinname), KInt (sint uid)]
                # Get_pid (thread_pid_of k1 p) # Proc_flush_pid (thread_pid_of k1 p) # ev)
      else hide_by_name get_task_comm kbinname uid ps k)"

fun recover_all :: "tptr list \<Rightarrow> kernel \<Rightarrow> kernel" where
  "recover_all [] k = k"
| "recover_all (p # ps) k = recover_all ps (set_cloak 0 p k)"

text \<open>\<open>stack\<close> is the uninitialised content of \<^verbatim>\<open>char kbinname[TASK_COMM_LEN]\<close>;
  \<open>strncpy_from_user dst src n\<close> gives the buffer after the copy and the returned length.\<close>

definition hide_user_processes ::
  "u32 \<Rightarrow> (task_struct \<Rightarrow> char list) \<Rightarrow> (char list \<Rightarrow> uptr \<Rightarrow> nat \<Rightarrow> char list \<times> int) \<Rightarrow> char list
   \<Rightarrow> u32 \<Rightarrow> uptr option \<Rightarrow> int \<Rightarrow> kernel \<Rightarrow> int \<times> kernel \<times> kevent list" where
  "hide_user_processes current_uid get_task_comm strncpy_from_user stack uid binname recover k =
     (if current_uid \<noteq> 0 then
        (1, k, [Printk ''Permission denied. Only root can call hide_user_processes.'' []])
      else if recover = 0 then
        (case binname of
           None \<Rightarrow>
             let (k1, ev) = hide_by_uid uid (process_list k) k
             in (0, k1, ev @ [Printk ''All processes of uid %d are hidden.'' [KInt (sint uid)]])
         | Some b \<Rightarrow>
             let kbinname = stack[TASK_COMM_LEN - 1 := NUL];
                 (kbinname, len) = strncpy_from_user kbinname b TASK_COMM_LEN
             in if len < 0 then (2, k, [Printk ''Unable to do strncpy_from_user'' []])
                else let (k1, ev) = hide_by_name get_task_comm kbinname uid (process_list k) k
                     in (0, k1, ev))
      else (0, recover_all (process_list k) k, []))"

subsection \<open>Which processes are cloaked\<close>

definition cloaked :: "kernel \<Rightarrow> tptr set" where
  "cloaked k = {p. \<exists>t. tasks k p = Some t \<and> t_cloak t = 1}"

definition present :: "kernel \<Rightarrow> tptr set" where
  "present k = dom (tasks k)"

locale cloak_store =
  fixes cl :: "'s \<Rightarrow> 'p set"
    and known :: "'s \<Rightarrow> 'p set"
    and cloak_on :: "'p \<Rightarrow> 's \<Rightarrow> 's"
    and cloak_off :: "'p \<Rightarrow> 's \<Rightarrow> 's"
  assumes cl_on: "p \<in> known s \<Longrightarrow> cl (cloak_on p s) = insert p (cl s)"
    and cl_off: "cl (cloak_off p s) = cl s - {p}"
    and known_on: "known (cloak_on p s) = known s"
    and known_off: "known (cloak_off p s) = known s"
begin

lemma walk_off:
  "cl (fold cloak_off ps s) = cl s - set ps"
  by (induction ps arbitrary: s) (auto simp: cl_off)

lemma walk_off_known: "known (fold cloak_off ps s) = known s"
  by (induction ps arbitrary: s) (auto simp: known_off)

end

locale cloak_walk = cloak_store cl known cloak_on cloak_off
  for cl :: "'s \<Rightarrow> 'p set" and known cloak_on cloak_off +
  fixes sel :: "'s \<Rightarrow> 'p \<Rightarrow> bool"
  assumes sel_on: "sel (cloak_on q s) p = sel s p"
begin

lemma walk_on:
  "set ps \<subseteq> known s \<Longrightarrow>
   cl (fold (\<lambda>p s. if sel s p then cloak_on p s else s) ps s) = cl s \<union> {p \<in> set ps. sel s p}"
proof (induction ps arbitrary: s)
  case Nil
  then show ?case by simp
next
  case (Cons p ps)
  show ?case
  proof (cases "sel s p")
    case True
    have "set ps \<subseteq> known (cloak_on p s)" using Cons.prems by (simp add: known_on)
    then have "cl (fold (\<lambda>p s. if sel s p then cloak_on p s else s) ps (cloak_on p s))
        = cl (cloak_on p s) \<union> {q \<in> set ps. sel (cloak_on p s) q}" by (rule Cons.IH)
    with True Cons.prems show ?thesis by (auto simp: cl_on sel_on)
  next
    case False
    with Cons show ?thesis by auto
  qed
qed

lemma walk_on_known:
  "known (fold (\<lambda>p s. if sel s p then cloak_on p s else s) ps s) = known s"
  by (induction ps arbitrary: s) (auto simp: known_on)

end

lemma cloaked_set_cloak:
  "cloaked (set_cloak v p k) = (if v = 1 \<and> p \<in> present k then insert p (cloaked k)
     else if v = 1 then cloaked k else cloaked k - {p})"
  by (auto simp: cloaked_def set_cloak_def present_def split: if_splits)

lemma present_set_cloak [simp]: "present (set_cloak v p k) = present k"
  by (auto simp: set_cloak_def present_def dom_def)

lemma uid_is_set_cloak [simp]: "uid_is uid (set_cloak v q k) = uid_is uid k"
  by (rule ext) (auto simp: uid_is_def set_cloak_def split: option.splits)

text \<open>What \<^verbatim>\<open>__get_task_comm\<close> and \<^verbatim>\<open>strncpy_from_user\<close> are documented to do: the first
  copies the 16 bytes of the name, the second copies the user string \<open>s\<close> at address \<open>b\<close> with
  its NUL if it fits in \<open>n\<close> bytes and returns its length, and fills the buffer without a NUL and
  returns \<open>n\<close> if it does not.\<close>

definition copies_comm :: "(task_struct \<Rightarrow> char list) \<Rightarrow> bool" where
  "copies_comm get_task_comm \<longleftrightarrow> (\<forall>t. get_task_comm t = t_comm t)"

definition copies_user_string :: "(char list \<Rightarrow> uptr \<Rightarrow> nat \<Rightarrow> char list \<times> int) \<Rightarrow> uptr \<Rightarrow> string \<Rightarrow> bool" where
  "copies_user_string f b s \<longleftrightarrow> (\<forall>dst. f dst b (length dst) =
     (if length s < length dst then (s @ NUL # drop (Suc (length s)) dst, int (length s))
      else (take (length dst) s, int (length dst))))"

lemma comm_is_set_cloak:
  "copies_comm g \<Longrightarrow> comm_is g b (set_cloak v q k) p = comm_is g b k p"
  by (auto simp: comm_is_def set_cloak_def copies_comm_def split: option.splits)

interpretation ks: cloak_store cloaked present "set_cloak 1" "set_cloak 0"
  by unfold_locales (auto simp: cloaked_set_cloak)

interpretation by_uid: cloak_walk cloaked present "set_cloak 1" "set_cloak 0" "uid_is uid" for uid
  by unfold_locales simp

interpretation by_comm: cloak_walk cloaked present "set_cloak 1" "set_cloak 0"
  "\<lambda>k p. uid_is uid k p \<and> comm_is t_comm b k p" for uid b
  by unfold_locales (simp add: comm_is_set_cloak copies_comm_def)

lemma hide_by_uid_fold:
  "fst (hide_by_uid uid ps k) = fold (\<lambda>p s. if uid_is uid s p then set_cloak 1 p s else s) ps k"
  by (induction ps arbitrary: k) (auto simp: Let_def split_beta)

lemma hide_by_name_fold:
  "copies_comm g \<Longrightarrow> fst (hide_by_name g b uid ps k) =
     fold (\<lambda>p s. if uid_is uid s p \<and> comm_is t_comm b s p then set_cloak 1 p s else s) ps k"
  by (induction ps arbitrary: k)
    (auto simp: Let_def split_beta comm_is_def copies_comm_def split: option.splits)

lemma recover_all_fold: "recover_all ps k = fold (set_cloak 0) ps k"
  by (induction ps arbitrary: k) auto

lemma process_list_present: "wf_kernel k \<Longrightarrow> set (process_list k) \<subseteq> present k"
  by (auto simp: wf_kernel_def present_def)

subsection \<open>Frames: what the calls leave alone\<close>

definition same_but_cloak :: "kernel \<Rightarrow> kernel \<Rightarrow> bool" where
  "same_but_cloak k k' \<longleftrightarrow> process_list k' = process_list k \<and> hidden_flag k' = hidden_flag k
     \<and> signals k' = signals k \<and> mms k' = mms k
     \<and> (\<forall>p. rel_option (\<lambda>t t'. \<exists>c. t' = t\<lparr>t_cloak := c\<rparr>) (tasks k p) (tasks k' p))"

lemma cloak_upd_self: "\<exists>c. t = t\<lparr>t_cloak := c\<rparr>"
  by (rule exI [of _ "t_cloak t"]) simp

lemma same_but_cloak_refl [simp]: "same_but_cloak k k"
  by (auto simp: same_but_cloak_def option.rel_refl_strong cloak_upd_self)

lemma same_but_cloak_trans:
  assumes "same_but_cloak k k1" "same_but_cloak k1 k2"
  shows "same_but_cloak k k2"
proof -
  have "rel_option (\<lambda>t t'. \<exists>c. t' = t\<lparr>t_cloak := c\<rparr>) (tasks k p) (tasks k2 p)" for p
  proof -
    have "rel_option (\<lambda>t t'. \<exists>c. t' = t\<lparr>t_cloak := c\<rparr>) (tasks k p) (tasks k1 p)"
      and "rel_option (\<lambda>t t'. \<exists>c. t' = t\<lparr>t_cloak := c\<rparr>) (tasks k1 p) (tasks k2 p)"
      using assms by (simp_all add: same_but_cloak_def)
    then show ?thesis by (cases "tasks k p"; cases "tasks k1 p"; cases "tasks k2 p") auto
  qed
  with assms show ?thesis by (simp add: same_but_cloak_def)
qed

lemma same_but_cloak_set [intro, simp]: "same_but_cloak k (set_cloak v p k)"
  by (auto simp: same_but_cloak_def set_cloak_def option_rel_Some1 option.rel_map
      intro!: option.rel_refl_strong cloak_upd_self)

lemma same_but_cloak_fold:
  "(\<And>p s. same_but_cloak s (f p s)) \<Longrightarrow> same_but_cloak k (fold f ps k)"
  by (induction ps arbitrary: k) (auto intro: same_but_cloak_trans)

lemma hide_frame [frame]: "same_but_cloak k (fst (snd (hide u lookup nr on k)))"
  by (auto simp: hide_def Let_def split: option.splits)

lemma hide_user_processes_frame [frame]:
  assumes "copies_comm g"
  shows "same_but_cloak k (fst (snd (hide_user_processes u g f st uid b r k)))"
  using assms
  by (auto simp: hide_user_processes_def Let_def split_beta hide_by_uid_fold hide_by_name_fold
      recover_all_fold intro!: same_but_cloak_fold split: option.splits)

lemma wf_same_but_cloak:
  assumes "same_but_cloak k k'" "wf_kernel k"
  shows "wf_kernel k'"
proof -
  have r: "rel_option (\<lambda>t t'. \<exists>c. t' = t\<lparr>t_cloak := c\<rparr>) (tasks k p) (tasks k' p)" for p
    using assms(1) by (simp add: same_but_cloak_def)
  have "\<exists>t. tasks k p = Some t \<and> t_comm t = t_comm t'" if "tasks k' p = Some t'" for p t'
    using r [of p] that by (cases "tasks k p") auto
  moreover have "tasks k' p \<noteq> None" if "tasks k p \<noteq> None" for p
    using r [of p] that by (cases "tasks k' p") auto
  ultimately show ?thesis using assms unfolding wf_kernel_def same_but_cloak_def by metis
qed

subsection \<open>Reference counts\<close>

lemma pid_refs_hide_by_uid [balance]:
  "pid_refs (snd (hide_by_uid uid ps k)) = int (length (filter (uid_is uid k) ps))"
  by (induction ps arbitrary: k) (auto simp: Let_def split_beta)

lemma pid_refs_hide_by_name [balance]:
  "copies_comm g \<Longrightarrow> pid_refs (snd (hide_by_name g b uid ps k))
     = int (length (filter (\<lambda>p. uid_is uid k p \<and> comm_is g b k p) ps))"
  by (induction ps arbitrary: k) (auto simp: Let_def split_beta comm_is_set_cloak)

subsection \<open>Matching a name\<close>

lemma comm_is_string:
  assumes "wf_kernel k" "copies_comm g" "NUL \<notin> set s" "length st = TASK_COMM_LEN"
    and "copies_user_string f b s"
  shows "comm_is g (fst (f st b TASK_COMM_LEN)) k p
     \<longleftrightarrow> (\<exists>t. tasks k p = Some t \<and> cstr (t_comm t) = s)"
proof (cases "tasks k p")
  case None
  then show ?thesis by (simp add: comm_is_def)
next
  case (Some t)
  have len: "length (t_comm t) = TASK_COMM_LEN" and nul: "NUL \<in> set (t_comm t)"
    using assms(1) Some by (auto simp: wf_kernel_def)
  have short: "length (cstr (t_comm t)) < TASK_COMM_LEN" using length_cstr_less [OF nul] len by simp
  have f: "f st b TASK_COMM_LEN = (if length s < TASK_COMM_LEN
      then (s @ NUL # drop (Suc (length s)) st, int (length s)) else (take TASK_COMM_LEN s, int TASK_COMM_LEN))"
    using assms(4,5) by (metis copies_user_string_def)
  show ?thesis
  proof (cases "length s < TASK_COMM_LEN")
    case True
    then show ?thesis using Some assms(2,3) short
      by (simp add: comm_is_def f copies_comm_def strncmp_eq_long)
  next
    case False
    have "NUL \<notin> set (take TASK_COMM_LEN s)" using assms(3) by (meson in_set_takeD)
    then have "\<not> strncmp_eq (t_comm t) (take TASK_COMM_LEN s) TASK_COMM_LEN"
      using short False by (metis cstr_id leI length_take min_absorb2 nat_less_le order_refl strncmp_eq_iff
          take_all)
    then show ?thesis using Some False short assms(2) by (auto simp: comm_is_def f copies_comm_def)
  qed
qed

subsection \<open>Properties\<close>

definition demo_task :: "int \<Rightarrow> u32 \<Rightarrow> string \<Rightarrow> pidptr \<Rightarrow> task_struct" where
  "demo_task nr uid name tp =
     \<lparr>t_state = 0, t_exit_state = 0, t_flags = 0, t_cloak = 0, t_pid = nr, t_tgid = nr,
      t_comm = name @ replicate (TASK_COMM_LEN - length name) NUL, t_uid = uid, t_euid = uid,
      t_egid = uid, t_thread_pid = Some tp, t_group_leader = tp, t_real_parent = 0, t_signal = tp,
      t_mm = Some tp, t_vfork_done = False, t_timer_slack_ns = 50000,
      t_default_timer_slack_ns = 50000, t_make_it_fail = 0, t_fail_nth = 0, t_personality = 0\<rparr>"

definition demo_signal :: signal_struct where
  "demo_signal = \<lparr>sg_nr_threads = 1, sg_live = 1, sg_sigcnt = 1, sg_flags = 0, sg_oom_score_adj = 0,
     sg_oom_score_adj_min = 0, sg_rlim = []\<rparr>"

definition demo_mm :: mm_struct where
  "demo_mm = \<lparr>mm_flags = 0, mm_users = 1, mm_arg_start = 0x1000, mm_arg_end = 0x1010, mm_env_start = 0x1010,
     mm_env_end = 0x1020\<rparr>"

definition demo_kernel :: kernel where
  "demo_kernel = \<lparr>tasks = [1 \<mapsto> demo_task 1 0 ''init'' 1, 2 \<mapsto> demo_task 42 1000 ''bash'' 2],
     process_list = [1, 2], hidden_flag = 1,
     signals = [1 \<mapsto> demo_signal, 2 \<mapsto> demo_signal], mms = [1 \<mapsto> demo_mm, 2 \<mapsto> demo_mm]\<rparr>"

lemma wf_demo_kernel: "wf_kernel demo_kernel"
  by (auto simp: wf_kernel_def demo_kernel_def demo_task_def TASK_COMM_LEN_def split: if_splits)

lemma demo_kernel_sel [simp]:
  "process_list demo_kernel = [1, 2]" "hidden_flag demo_kernel = 1"
  "tasks demo_kernel (Suc 0) = Some (demo_task 1 0 ''init'' 1)"
  "tasks demo_kernel 1 = Some (demo_task 1 0 ''init'' 1)"
  "tasks demo_kernel 2 = Some (demo_task 42 1000 ''bash'' 2)"
  "signals demo_kernel 2 = Some demo_signal"
  by (simp_all add: demo_kernel_def)

lemma c_int_mod_one:
  assumes "- (2 ^ 31) \<le> (i::int)" "i < 2 ^ 31" "i mod 2 ^ 32 = 1"
  shows "i = 1"
proof (cases "0 \<le> i")
  case True
  with assms show ?thesis by (simp add: mod_pos_pos_trivial)
next
  case False
  have "(i + 2 ^ 32) mod 2 ^ 32 = i + 2 ^ 32"
    using False assms(1) by (intro mod_pos_pos_trivial) auto
  then show ?thesis using assms False by simp
qed

text \<open>
  Only root can change what is hidden: called with any other uid, \<^verbatim>\<open>hide\<close> returns 0 and
  \<^verbatim>\<open>hide_user_processes\<close> returns 1, and neither changes the kernel state, whatever the
  arguments.\<close>

theorem hide_calls_need_root:
  assumes "uid \<noteq> 0"
  shows "fst (hide uid lookup nr on k) = 0 \<and> fst (snd (hide uid lookup nr on k)) = k
    \<and> fst (hide_user_processes uid g f st u b r k) = 1
    \<and> fst (snd (hide_user_processes uid g f st u b r k)) = k"
  using assms by (simp add: hide_def hide_user_processes_def Let_def)

theorem hide_calls_need_root_witness:
  "(1000::u32) \<noteq> 0 \<and> fst (snd (hide 1000 (\<lambda>_. Some 2) 42 1 demo_kernel)) = demo_kernel"
  using hide_calls_need_root [of 1000 "\<lambda>_. Some 2" 42 1 demo_kernel] by simp

text \<open>
  A successful \<^verbatim>\<open>hide(pid, on)\<close> by root returns 0, cloaks the task it found exactly when
  \<open>on\<close> is 1 and uncloaks it for every other value of \<open>on\<close>, and changes no other task and no
  other field.\<close>

theorem hide_root_effect:
  assumes "0 < nr" "lookup nr = Some p" "p \<in> present k" "- (2 ^ 31) \<le> on" "on < 2 ^ 31"
  shows "fst (hide 0 lookup nr on k) = 0
    \<and> cloaked (fst (snd (hide 0 lookup nr on k))) = (if on = 1 then insert p (cloaked k) else cloaked k - {p})
    \<and> same_but_cloak k (fst (snd (hide 0 lookup nr on k)))"
proof -
  have "(word_of_int on :: u32) = 1 \<longleftrightarrow> on = 1"
  proof
    assume "(word_of_int on :: u32) = 1"
    then have "(word_of_int on :: u32) = word_of_int 1" by simp
    then have "on mod 2 ^ 32 = 1" by (simp only: word_of_int_eq_iff) (simp add: take_bit_eq_mod)
    then show "on = 1" using c_int_mod_one [of on] assms(4,5) by simp
  qed simp
  with assms show ?thesis by (simp add: hide_def Let_def cloaked_set_cloak)
qed

theorem hide_root_effect_witness:
  "cloaked (fst (snd (hide 0 (\<lambda>_. Some 2) 42 1 demo_kernel))) = {2}"
proof -
  have "cloaked demo_kernel = {}"
    by (auto simp: cloaked_def demo_kernel_def demo_task_def split: if_splits)
  moreover have "(2::nat) \<in> present demo_kernel" by (simp add: present_def demo_kernel_def)
  ultimately show ?thesis using hide_root_effect [of 42 "\<lambda>_. Some 2" 2 demo_kernel 1] by simp
qed

text \<open>
  With a NULL name, \<^verbatim>\<open>hide_user_processes(uid, NULL, 0)\<close> by root returns 0 and cloaks exactly
  the processes of the given user, in addition to those already cloaked; nothing but cloak
  fields changes.\<close>

theorem hide_user_processes_by_uid:
  assumes "wf_kernel k" "copies_comm g"
  shows "fst (hide_user_processes 0 g f st uid None 0 k) = 0
    \<and> cloaked (fst (snd (hide_user_processes 0 g f st uid None 0 k)))
        = cloaked k \<union> {p \<in> set (process_list k). uid_is uid k p}
    \<and> same_but_cloak k (fst (snd (hide_user_processes 0 g f st uid None 0 k)))"
proof -
  have "cloaked (fst (hide_by_uid uid (process_list k) k))
      = cloaked k \<union> {p \<in> set (process_list k). uid_is uid k p}"
    by (simp add: hide_by_uid_fold by_uid.walk_on process_list_present assms(1))
  then show ?thesis
    using hide_user_processes_frame [OF assms(2), of k 0 f st uid None 0]
    by (simp add: hide_user_processes_def split_beta)
qed

theorem hide_user_processes_by_uid_witness:
  "cloaked (fst (snd (hide_user_processes 0 t_comm (\<lambda>d _ _. (d, 0)) [] 1000 None 0 demo_kernel))) = {2}"
proof -
  have "cloaked demo_kernel = {}"
    by (auto simp: cloaked_def demo_kernel_def demo_task_def split: if_splits)
  moreover have "copies_comm t_comm" by (simp add: copies_comm_def)
  moreover have "{p \<in> set (process_list demo_kernel). uid_is 1000 demo_kernel p} = {2}"
    by (auto simp: uid_is_def demo_task_def)
  ultimately show ?thesis
    using hide_user_processes_by_uid [OF wf_demo_kernel, of t_comm "\<lambda>d _ _. (d, 0)" "[]" 1000] by simp
qed

text \<open>
  With a name, \<^verbatim>\<open>hide_user_processes(uid, binname, 0)\<close> by root cloaks exactly the processes
  of the user whose \<^verbatim>\<open>comm\<close> is that name: the 16-byte buffers, the missing NUL after a long name
  and the bounded comparison make neither a prefix nor a truncated name match.  In particular
  a name of 16 characters or more hides nothing.\<close>

theorem hide_user_processes_by_name:
  assumes "wf_kernel k" "copies_comm g" "length st = TASK_COMM_LEN"
    and "copies_user_string f b s" "NUL \<notin> set s"
  shows "fst (hide_user_processes 0 g f st uid (Some b) 0 k) = 0
    \<and> cloaked (fst (snd (hide_user_processes 0 g f st uid (Some b) 0 k)))
        = cloaked k \<union> {p \<in> set (process_list k). \<exists>t. tasks k p = Some t \<and> t_uid t = uid \<and> cstr (t_comm t) = s}
    \<and> same_but_cloak k (fst (snd (hide_user_processes 0 g f st uid (Some b) 0 k)))"
proof -
  let ?st = "st[TASK_COMM_LEN - 1 := NUL]"
  let ?kb = "fst (f ?st b TASK_COMM_LEN)"
  have len: "length ?st = TASK_COMM_LEN" using assms(3) by simp
  have ret: "\<not> snd (f ?st b TASK_COMM_LEN) < 0"
    using assms(4) len by (metis copies_user_string_def negative_zless_0 not_less of_nat_0_le_iff snd_conv)
  have g: "comm_is t_comm ?kb k p \<longleftrightarrow> (\<exists>t. tasks k p = Some t \<and> cstr (t_comm t) = s)" for p
    using comm_is_string [OF assms(1) _ assms(5) len assms(4), of t_comm] by (simp add: copies_comm_def)
  have "cloaked (fst (hide_by_name g ?kb uid (process_list k) k))
      = cloaked k \<union> {p \<in> set (process_list k). uid_is uid k p \<and> comm_is t_comm ?kb k p}"
    by (simp add: hide_by_name_fold [OF assms(2)] by_comm.walk_on process_list_present assms(1))
  also have "{p \<in> set (process_list k). uid_is uid k p \<and> comm_is t_comm ?kb k p}
      = {p \<in> set (process_list k). \<exists>t. tasks k p = Some t \<and> t_uid t = uid \<and> cstr (t_comm t) = s}"
    unfolding g by (auto simp: uid_is_def split: option.splits)
  finally show ?thesis
    using hide_user_processes_frame [OF assms(2), of k 0 f st uid "Some b" 0] ret
    by (simp add: hide_user_processes_def split_beta Let_def)
qed

definition demo_strncpy :: "string \<Rightarrow> char list \<Rightarrow> uptr \<Rightarrow> nat \<Rightarrow> char list \<times> int" where
  "demo_strncpy s dst b n =
     (if length s < n then (s @ NUL # drop (Suc (length s)) dst, int (length s))
      else (take n s, int n))"

theorem hide_user_processes_by_name_witness:
  "cloaked (fst (snd (hide_user_processes 0 t_comm (demo_strncpy ''bash'') (replicate TASK_COMM_LEN NUL)
     1000 (Some 0) 0 demo_kernel))) = {2}"
proof -
  have c: "cloaked demo_kernel = {}"
    by (auto simp: cloaked_def demo_kernel_def demo_task_def split: if_splits)
  have h: "copies_comm t_comm" "copies_user_string (demo_strncpy ''bash'') 0 ''bash''"
    by (simp_all add: copies_comm_def copies_user_string_def demo_strncpy_def)
  have m: "{p \<in> set (process_list demo_kernel). \<exists>t. tasks demo_kernel p = Some t \<and> t_uid t = 1000
      \<and> cstr (t_comm t) = ''bash''} = {2}"
    by (auto simp: demo_task_def cstr_def TASK_COMM_LEN_def)
  show ?thesis
    using hide_user_processes_by_name [OF wf_demo_kernel h(1) _ h(2), of "replicate TASK_COMM_LEN NUL" 1000]
    by (simp add: c m del: demo_kernel_sel)
qed

text \<open>
  \<^verbatim>\<open>hide_user_processes\<close> with a non-zero \<^verbatim>\<open>recover\<close> undoes every hiding of a process: no process
  of the task list is cloaked afterwards.  Tasks that are not on the list (threads that do not
  lead their group, which \<^verbatim>\<open>hide\<close> can cloak by thread id) keep their cloak.\<close>

theorem recover_uncloaks_processes:
  assumes "r \<noteq> 0"
  shows "cloaked (fst (snd (hide_user_processes 0 g f st uid b r k))) = cloaked k - set (process_list k)
    \<and> fst (hide_user_processes 0 g f st uid b r k) = 0"
  using assms by (simp add: hide_user_processes_def recover_all_fold ks.walk_off)

theorem recover_uncloaks_processes_witness:
  "cloaked (fst (snd (hide_user_processes 0 t_comm (demo_strncpy []) [] 0 None 1
     (set_cloak 1 2 demo_kernel)))) = {}"
proof -
  have "cloaked (set_cloak 1 2 demo_kernel) - set (process_list (set_cloak 1 2 demo_kernel)) = {}"
    by (auto simp: cloaked_def set_cloak_def demo_kernel_def demo_task_def split: if_splits)
  then show ?thesis
    using recover_uncloaks_processes [of 1 t_comm "demo_strncpy []" "[]" 0 None "set_cloak 1 2 demo_kernel"]
    by simp
qed

text \<open>
  Each process that the calls hide costs one \<^verbatim>\<open>struct pid\<close> reference that is never dropped: a
  successful \<^verbatim>\<open>hide\<close> (hiding or showing) takes one and drops none, and \<^verbatim>\<open>hide_user_processes\<close>
  takes one per matching process, also when the process is hidden already.\<close>

theorem hide_leaks_pid_references:
  "pid_refs (snd (snd (hide uid lookup nr on k))) = (if 0 < nr \<and> uid = 0 \<and> lookup nr \<noteq> None then 1 else 0)
   \<and> pid_refs (snd (snd (hide_user_processes 0 g f st u None 0 k)))
       = int (length (filter (uid_is u k) (process_list k)))"
  by (auto simp: hide_def hide_user_processes_def Let_def split_beta balance split: option.splits)

end
