(* ===== verification/Proc_Hide.thy ===== *)
theory Proc_Hide
  imports Hide
begin

section \<open>The procfs entries \<^verbatim>\<open>/proc/hide\<close> and \<^verbatim>\<open>/proc/hidden_process\<close>\<close>

text \<open>
  \<^verbatim>\<open>fs/proc/hide.c\<close> (read and write the global \<^verbatim>\<open>hidden_flag\<close>) and
  \<^verbatim>\<open>fs/proc/hidden_process.c\<close> (list the cloaked processes).  \<^verbatim>\<open>copy_to_user\<close> is a parameter that
  gives the number of bytes it could not copy, \<^verbatim>\<open>copy_from_user\<close> a flag for a fault,
  \<^verbatim>\<open>kstrtoint\<close> a function from the bytes at the address it is given to its result.  A read
  returns the value the handler returns, the bytes that reach user space and the new file
  position; the requested \<^verbatim>\<open>count\<close> is an argument although the code ignores it.
\<close>

subsection \<open>Reading a text whose length bounds the position\<close>

text \<open>The tail both read handlers share, from \<^verbatim>\<open>cnt = strlen(..)\<close> on.\<close>

definition finish_read :: "(string \<Rightarrow> nat) \<Rightarrow> string \<Rightarrow> int \<Rightarrow> int \<times> string \<times> int" where
  "finish_read copy_to_user s ppos =
     (let cnt = int (length s);
          ret = int (copy_to_user s);
          ppos = ppos + (cnt - ret)
      in (if ppos > cnt then 0 else cnt, take (nat (cnt - ret)) s, ppos))"

definition proc_read_hidden ::
  "(string \<Rightarrow> nat) \<Rightarrow> nat \<Rightarrow> int \<Rightarrow> kernel \<Rightarrow> (int \<times> string \<times> int) \<times> kevent list" where
  "proc_read_hidden copy_to_user count ppos k =
     (let str = snprintf_trunc 16 (dec_int (hidden_flag k) @ [NL])
      in (finish_read copy_to_user str ppos,
          [Printk ''In proc_read_hidden.'' [], Printk ''hidden_flag: %d'' [KInt (hidden_flag k)]]))"

definition PROC_MAX_SIZE :: nat where "PROC_MAX_SIZE = 16"

text \<open>\<open>stack\<close> is the memory from the address of \<^verbatim>\<open>temp\<close> on before the call: the copy overwrites
  its first bytes and \<^verbatim>\<open>kstrtoint\<close> reads from there, since no NUL is stored after the copied
  bytes.\<close>

definition proc_write_hidden ::
  "(char list \<Rightarrow> int result) \<Rightarrow> bool \<Rightarrow> char list \<Rightarrow> char list \<Rightarrow> nat \<Rightarrow> kernel
   \<Rightarrow> nat result \<times> kernel \<times> kevent list" where
  "proc_write_hidden kstrtoint faults stack buf count k =
     (let ev = [Printk ''In proc_write_hidden.'' []];
          count = (if count > PROC_MAX_SIZE then PROC_MAX_SIZE else count)
      in if faults then (Inl EFAULT, k, ev)
         else let temp = take count buf @ drop count stack
              in case kstrtoint temp of
                   Inl e \<Rightarrow> (Inl EPERM, k, ev)
                 | Inr tmp_flag \<Rightarrow>
                     (Inr count, k\<lparr>hidden_flag := tmp_flag\<rparr>,
                      ev @ [Printk ''hidden_flag: %d'' [KInt tmp_flag]]))"

subsection \<open>Listing the hidden processes\<close>

definition KBUF_SIZE :: nat where "KBUF_SIZE = 1000"

text \<open>The loop that fills \<^verbatim>\<open>char kbuf[1000]\<close> with \<^verbatim>\<open>sprintf\<close> and \<^verbatim>\<open>strcat\<close>.  \<open>None\<close>: the
  \<^verbatim>\<open>strcat\<close> writes past the end of the buffer.\<close>

fun fill_kbuf :: "kernel \<Rightarrow> tptr list \<Rightarrow> string \<Rightarrow> string option" where
  "fill_kbuf k [] kbuf = Some kbuf"
| "fill_kbuf k (p # ps) kbuf =
     (case tasks k p of
        None \<Rightarrow> fill_kbuf k ps kbuf
      | Some t \<Rightarrow>
          if t_cloak t = 1 then
            let tmp = dec_int (t_pid t) @ [SPC]
            in if length kbuf + length tmp < KBUF_SIZE then fill_kbuf k ps (kbuf @ tmp) else None
          else fill_kbuf k ps kbuf)"

definition proc_read_hidden_process ::
  "(string \<Rightarrow> nat) \<Rightarrow> nat \<Rightarrow> int \<Rightarrow> kernel \<Rightarrow> (int \<times> string \<times> int) option \<times> kevent list" where
  "proc_read_hidden_process copy_to_user count ppos k =
     (case fill_kbuf k (process_list k) [] of
        None \<Rightarrow> None
      | Some kbuf \<Rightarrow> Some (finish_read copy_to_user kbuf ppos),
      [Printk ''In proc_read_hidden_process.'' []])"

definition pid_of :: "kernel \<Rightarrow> tptr \<Rightarrow> int" where
  "pid_of k p = (case tasks k p of None \<Rightarrow> 0 | Some t \<Rightarrow> t_pid t)"

text \<open>The text the listing should have.\<close>

definition hidden_text :: "kernel \<Rightarrow> string" where
  "hidden_text k = concat (map (\<lambda>p. dec_int (pid_of k p) @ [SPC])
     (filter (\<lambda>p. p \<in> cloaked k) (process_list k)))"

lemma fill_kbuf_Cons:
  "fill_kbuf k (p # ps) kbuf =
     (if p \<in> cloaked k then
        (if length kbuf + length (dec_int (pid_of k p) @ [SPC]) < KBUF_SIZE
         then fill_kbuf k ps (kbuf @ dec_int (pid_of k p) @ [SPC]) else None)
      else fill_kbuf k ps kbuf)"
  by (auto simp: cloaked_def pid_of_def Let_def split: option.splits)

lemma fill_kbuf_spec:
  "fill_kbuf k ps kbuf =
     (let s = kbuf @ concat (map (\<lambda>p. dec_int (pid_of k p) @ [SPC]) (filter (\<lambda>p. p \<in> cloaked k) ps))
      in if s = kbuf \<or> length s < KBUF_SIZE then Some s else None)"
proof (induction ps arbitrary: kbuf)
  case Nil
  then show ?case by simp
next
  case (Cons p ps)
  then show ?case
    by (auto simp: fill_kbuf_Cons Let_def filter_empty_conv simp del: fill_kbuf.simps(2))
qed

lemma hidden_text_empty_iff:
  "hidden_text k = [] \<longleftrightarrow> filter (\<lambda>p. p \<in> cloaked k) (process_list k) = []"
  by (auto simp: hidden_text_def filter_empty_conv)

lemma read_hidden_process_eq:
  "fst (proc_read_hidden_process ctu count ppos k) =
     (if length (hidden_text k) < KBUF_SIZE then Some (finish_read ctu (hidden_text k) ppos) else None)"
  by (auto simp: proc_read_hidden_process_def fill_kbuf_spec Let_def hidden_text_def [symmetric] KBUF_SIZE_def)

subsection \<open>Reading the listing back\<close>

text \<open>What a reader of \<^verbatim>\<open>/proc/hidden_process\<close> does: split at spaces, read each decimal.\<close>

fun words_of :: "string \<Rightarrow> string \<Rightarrow> string list" where
  "words_of w [] = (if w = [] then [] else [w])"
| "words_of w (c # cs) = (if c = SPC then (if w = [] then words_of [] cs else w # words_of [] cs)
     else words_of (w @ [c]) cs)"

lemma words_of_append:
  "SPC \<notin> set u \<Longrightarrow> w @ u \<noteq> [] \<Longrightarrow> words_of w (u @ SPC # cs) = (w @ u) # words_of [] cs"
  by (induction u arbitrary: w) auto

lemma SPC_notin_dec_nat: "SPC \<notin> set (dec_nat n)"
  by (rule dec_nat_not) simp

lemma words_of_numbers:
  "words_of [] (concat (map (\<lambda>n. dec_nat n @ [SPC]) ns)) = map dec_nat ns"
  by (induction ns) (simp_all add: words_of_append [where w = "[]", simplified] SPC_notin_dec_nat)

subsection \<open>Properties\<close>

lemma finish_read_all:
  assumes "\<forall>s. ctu s = 0"
  shows "finish_read ctu s 0 = (int (length s), s, int (length s))"
    and "s \<noteq> [] \<Longrightarrow> fst (finish_read ctu s (int (length s))) = 0"
  using assms by (simp_all add: finish_read_def Let_def)

text \<open>
  C11: When copying to user space succeeds and the listing fits its buffer, reading
  \<^verbatim>\<open>/proc/hidden_process\<close> from the start gives text that reads back as exactly the pids of the
  cloaked processes, in task-list order, and the next read signals end of file (when the text is
  not empty; when it is, already the first read returns 0).\<close>

theorem hidden_process_lists_cloaked:
  assumes "\<forall>s. ctu s = 0" "length (hidden_text k) < KBUF_SIZE"
    and "\<forall>p \<in> set (process_list k). 0 \<le> pid_of k p"
  shows "\<exists>s. fst (proc_read_hidden_process ctu count 0 k) = Some (int (length s), s, int (length s))
    \<and> map (\<lambda>w. int (dec_val w)) (words_of [] s)
        = map (pid_of k) (filter (\<lambda>p. p \<in> cloaked k) (process_list k))
    \<and> map_option fst (fst (proc_read_hidden_process ctu count (int (length s)) k)) = Some 0"
proof (intro exI conjI)
  let ?ps = "filter (\<lambda>p. p \<in> cloaked k) (process_list k)"
  show "fst (proc_read_hidden_process ctu count 0 k)
      = Some (int (length (hidden_text k)), hidden_text k, int (length (hidden_text k)))"
    using assms(1,2) by (simp add: read_hidden_process_eq finish_read_all)
  have *: "hidden_text k = concat (map (\<lambda>n. dec_nat n @ [SPC]) (map (nat \<circ> pid_of k) ?ps))"
    unfolding hidden_text_def map_map
    using assms(3) by (intro arg_cong [where f = concat] map_cong refl) (force simp: dec_int_def)
  then have "words_of [] (hidden_text k) = map dec_nat (map (nat \<circ> pid_of k) ?ps)"
    by (simp only: words_of_numbers)
  then show "map (\<lambda>w. int (dec_val w)) (words_of [] (hidden_text k)) = map (pid_of k) ?ps"
    using assms(3) by simp
  show "map_option fst (fst (proc_read_hidden_process ctu count (int (length (hidden_text k))) k)) = Some 0"
    using assms(1,2) finish_read_all(2) [OF assms(1), of "hidden_text k"]
    by (cases "hidden_text k = []") (simp_all add: read_hidden_process_eq finish_read_def Let_def)
qed

lemma demo_hidden_text: "hidden_text (set_cloak 1 2 demo_kernel) = ''42 ''"
proof -
  have c: "cloaked (set_cloak 1 2 demo_kernel) = {2}"
    by (auto simp: cloaked_def set_cloak_def demo_kernel_def demo_task_def split: if_splits)
  have "pid_of (set_cloak 1 2 demo_kernel) 2 = 42"
    by (simp add: pid_of_def set_cloak_def demo_task_def)
  moreover have "dec_int 42 = ''42''" by code_simp
  moreover have "process_list (set_cloak 1 2 demo_kernel) = [1, 2]" by (simp add: set_cloak_def)
  ultimately show ?thesis by (simp add: hidden_text_def c)
qed

theorem hidden_process_lists_cloaked_witness:
  "\<exists>s. fst (proc_read_hidden_process (\<lambda>_. 0) 4096 0 (set_cloak 1 2 demo_kernel)) = Some (int (length s), s, int (length s))"
proof -
  have "\<forall>p \<in> set (process_list (set_cloak 1 2 demo_kernel)). 0 \<le> pid_of (set_cloak 1 2 demo_kernel) p"
    by (simp add: pid_of_def set_cloak_def demo_task_def)
  moreover have "length (hidden_text (set_cloak 1 2 demo_kernel)) < KBUF_SIZE"
    by (simp add: demo_hidden_text KBUF_SIZE_def)
  ultimately show ?thesis
    using hidden_process_lists_cloaked [of "\<lambda>_. 0" "set_cloak 1 2 demo_kernel" 4096] by auto
qed

lemma length_dec_int_pos: "0 \<le> i \<Longrightarrow> i < 10 ^ n \<Longrightarrow> 0 < n \<Longrightarrow> length (dec_int i) \<le> n"
  by (simp add: dec_int_def length_dec_nat nat_less_iff)

lemma dec_int_nonempty [simp]: "dec_int i \<noteq> []"
  by (simp add: dec_int_def)

lemma sum_list_const_le: "(\<And>x. x \<in> set xs \<Longrightarrow> f x \<le> c) \<Longrightarrow> sum_list (map f xs) \<le> c * length xs"
  for c :: nat
  by (induction xs) (auto simp: add_mono)

lemma sum_list_const_ge: "(\<And>x. x \<in> set xs \<Longrightarrow> c \<le> f x) \<Longrightarrow> c * length xs \<le> sum_list (map f xs)"
  for c :: nat
  by (induction xs) (auto simp: add_mono)

lemma length_hidden_text:
  "length (hidden_text k) = sum_list (map (\<lambda>p. Suc (length (dec_int (pid_of k p))))
     (filter (\<lambda>p. p \<in> cloaked k) (process_list k)))"
  by (simp add: hidden_text_def length_concat o_def)

text \<open>
  The 1000-byte buffer of \<^verbatim>\<open>/proc/hidden_process\<close> is large enough for 124 hidden processes
  (pids below 10000000) and too small for 500: with that many hidden, reading the file writes
  past the end of \<^verbatim>\<open>kbuf\<close>, whatever their pids.\<close>

theorem hidden_process_buffer_limits:
  assumes "n = length (filter (\<lambda>p. p \<in> cloaked k) (process_list k))"
    and "\<forall>p \<in> set (process_list k). 0 \<le> pid_of k p \<and> pid_of k p < 10000000"
  shows "(n \<le> 124 \<longrightarrow> fst (proc_read_hidden_process ctu count ppos k) \<noteq> None)
    \<and> (500 \<le> n \<longrightarrow> fst (proc_read_hidden_process ctu count ppos k) = None)"
proof -
  let ?ps = "filter (\<lambda>p. p \<in> cloaked k) (process_list k)"
  have "Suc (length (dec_int (pid_of k p))) \<le> 8" if "p \<in> set ?ps" for p
    using that assms(2) length_dec_int_pos [of "pid_of k p" 7] by simp
  then have "length (hidden_text k) \<le> 8 * n"
    unfolding length_hidden_text assms(1) by (rule sum_list_const_le)
  moreover have "2 \<le> Suc (length (dec_int (pid_of k p)))" for p
    by (metis Suc_le_mono dec_int_nonempty length_greater_0_conv less_eq_Suc_le numeral_2_eq_2)
  then have "2 * n \<le> length (hidden_text k)"
    unfolding length_hidden_text assms(1) by (intro sum_list_const_ge) blast
  ultimately show ?thesis by (auto simp: read_hidden_process_eq KBUF_SIZE_def)
qed

definition crowded_kernel :: "nat \<Rightarrow> kernel" where
  "crowded_kernel n = \<lparr>tasks = (\<lambda>p. Some ((demo_task (int p) 0 ''a'' p)\<lparr>t_cloak := 1\<rparr>)),
     process_list = [0..<n], hidden_flag = 1,
     signals = (\<lambda>_. None), mms = (\<lambda>_. None)\<rparr>"

theorem hidden_process_buffer_limits_witness:
  "fst (proc_read_hidden_process (\<lambda>_. 0) 4096 0 (crowded_kernel 500)) = None
   \<and> fst (proc_read_hidden_process (\<lambda>_. 0) 4096 0 (crowded_kernel 124)) \<noteq> None"
proof -
  have c: "cloaked (crowded_kernel n) = UNIV" for n by (auto simp: cloaked_def crowded_kernel_def)
  have "\<forall>p \<in> set (process_list (crowded_kernel n)). 0 \<le> pid_of (crowded_kernel n) p
      \<and> pid_of (crowded_kernel n) p < 10000000" if "n \<le> 500" for n
    using that by (auto simp: crowded_kernel_def pid_of_def demo_task_def)
  moreover have "n = length (filter (\<lambda>p. p \<in> cloaked (crowded_kernel n)) (process_list (crowded_kernel n)))" for n
    unfolding c by (simp add: crowded_kernel_def)
  ultimately show ?thesis
    using hidden_process_buffer_limits [of 500 "crowded_kernel 500" "\<lambda>_. 0" 4096 0]
      hidden_process_buffer_limits [of 124 "crowded_kernel 124" "\<lambda>_. 0" 4096 0] by fastforce
qed

text \<open>What the kernel documents of \<^verbatim>\<open>kstrtoint(s, 10, &res)\<close>: an optionally signed decimal of the
  range of \<^verbatim>\<open>int\<close>, optionally followed by one newline, then the NUL; anything else is an error.\<close>

definition kstrtoint_doc :: "(char list \<Rightarrow> int result) \<Rightarrow> bool" where
  "kstrtoint_doc f \<longleftrightarrow>
     (\<forall>i r. - (2 ^ 31) \<le> i \<and> i < 2 ^ 31 \<longrightarrow> f (dec_int i @ NUL # r) = Inr i \<and> f (dec_int i @ NL # NUL # r) = Inr i)
   \<and> (\<forall>b. (\<exists>c \<in> set (cstr b). \<not> is_digit c \<and> c \<notin> {CHR ''+'', CHR ''-'', NL}) \<longrightarrow> is_err (f b))"

lemma length_flag_text:
  assumes "- (2 ^ 31) \<le> i" "i < 2 ^ 31"
  shows "length (dec_int i) \<le> 11"
proof -
  have "nat (- i) < 10 ^ 10" if "i < 0" using assms that by (simp add: nat_less_iff)
  moreover have "nat i < 10 ^ 10" if "0 \<le> i" using assms that by (simp add: nat_less_iff)
  ultimately show ?thesis
    using length_dec_nat [of "nat (- i)" 10] length_dec_nat [of "nat i" 10]
    by (cases "i < 0") (auto simp: dec_int_def)
qed

text \<open>
  \<^verbatim>\<open>/proc/hide\<close> round trip: when the byte of the stack that follows the copied bytes is NUL,
  writing a decimal with a newline sets \<^verbatim>\<open>hidden_flag\<close> to it and returns the count, and reading
  the file from the start then gives back the same text.\<close>

theorem proc_hide_write_read:
  assumes "kstrtoint_doc f" "- (2 ^ 31) \<le> i" "i < 2 ^ 31"
    and "drop (length (dec_int i) + 1) stack = NUL # r" "\<forall>s. ctu s = 0"
  shows "\<exists>k' ev. proc_write_hidden f False stack (dec_int i @ [NL]) (length (dec_int i) + 1) k
      = (Inr (length (dec_int i) + 1), k', ev) \<and> k' = k\<lparr>hidden_flag := i\<rparr>
    \<and> fst (proc_read_hidden ctu count 0 k')
        = (int (length (dec_int i) + 1), dec_int i @ [NL], int (length (dec_int i) + 1))"
proof -
  have "f (dec_int i @ NL # NUL # r) = Inr i" using assms(1-3) by (simp add: kstrtoint_doc_def)
  moreover have "length (dec_int i) \<le> 11" using assms(2,3) by (rule length_flag_text)
  ultimately show ?thesis using assms(4,5)
    by (simp add: proc_write_hidden_def PROC_MAX_SIZE_def Let_def proc_read_hidden_def
        snprintf_trunc_def finish_read_def)
qed

definition strip_nl :: "string \<Rightarrow> string" where
  "strip_nl s = (if s \<noteq> [] \<and> last s = NL then butlast s else s)"

definition drop_sign :: "string \<Rightarrow> string" where
  "drop_sign s = (if s \<noteq> [] \<and> hd s = CHR ''-'' then tl s else s)"

definition demo_kstrtoint :: "char list \<Rightarrow> int result" where
  "demo_kstrtoint b =
     (let s = strip_nl (cstr b); d = drop_sign s
      in if d \<noteq> [] \<and> list_all is_digit d
         then Inr (if d = s then int (dec_val d) else - int (dec_val d)) else Inl EINVAL)"

lemma dec_nat_noncontrol: "NUL \<notin> set (dec_nat n)" "NL \<notin> set (dec_nat n)" "CHR ''-'' \<notin> set (dec_nat n)"
  by (rule dec_nat_not, simp)+

lemma demo_kstrtoint_int:
  "demo_kstrtoint (dec_int i @ NUL # r) = Inr i \<and> demo_kstrtoint (dec_int i @ NL # NUL # r) = Inr i"
proof -
  have n: "NUL \<notin> set (dec_int i)" "NUL \<notin> set (dec_int i @ [NL])"
    using dec_nat_noncontrol by (auto simp: dec_int_def)
  have c: "cstr (dec_int i @ NUL # r) = dec_int i" "cstr (dec_int i @ NL # NUL # r) = dec_int i @ [NL]"
    using n cstr_append_NUL [OF n(2), of r] by simp_all
  have l: "last (dec_int i) \<noteq> NL"
  proof -
    have "last (dec_int i) \<in> set (dec_int i)" by simp
    then show ?thesis using dec_nat_noncontrol(2) by (auto simp: dec_int_def split: if_splits)
        (metis last_in_set dec_nat_nonempty)+
  qed
  have h: "hd (dec_nat m) \<noteq> CHR ''-''" for m
    by (metis dec_nat_noncontrol(3) dec_nat_nonempty list.set_sel(1))
  have "strip_nl (cstr (dec_int i @ NUL # r)) = dec_int i"
    and "strip_nl (cstr (dec_int i @ NL # NUL # r)) = dec_int i"
    using l by (simp_all add: strip_nl_def c)
  moreover have "drop_sign (dec_int i) = dec_nat (nat \<bar>i\<bar>)"
    using h by (simp add: drop_sign_def dec_int_def)
  moreover have "dec_nat (nat \<bar>i\<bar>) = dec_int i \<longleftrightarrow> 0 \<le> i"
    using h [of "nat \<bar>i\<bar>"] by (auto simp: dec_int_def)
  ultimately show ?thesis by (simp add: demo_kstrtoint_def dec_nat_digits Let_def)
qed

lemma demo_kstrtoint_doc: "kstrtoint_doc demo_kstrtoint"
proof -
  have "is_err (demo_kstrtoint b)"
    if c: "c \<in> set (cstr b)" "\<not> is_digit c" "c \<notin> {CHR ''+'', CHR ''-'', NL}" for b c
  proof -
    have "c \<in> set (strip_nl (cstr b))"
      using c in_set_butlast_or_last [OF c(1)] by (auto simp: strip_nl_def)
    then have "c \<in> set (drop_sign (strip_nl (cstr b)))"
      using c(3) by (cases "strip_nl (cstr b)") (auto simp: drop_sign_def)
    then have "\<not> list_all is_digit (drop_sign (strip_nl (cstr b)))" using c(2) unfolding list_all_iff by blast
    then show ?thesis by (simp add: demo_kstrtoint_def Let_def)
  qed
  then show ?thesis unfolding kstrtoint_doc_def using demo_kstrtoint_int by blast
qed

theorem proc_hide_write_read_witness:
  "\<exists>k' ev. proc_write_hidden demo_kstrtoint False (replicate 16 NUL) (dec_int 0 @ [NL]) (length (dec_int 0) + 1) demo_kernel
      = (Inr (length (dec_int 0) + 1), k', ev)"
proof -
  have "length (dec_int 0) = 1" by code_simp
  then have "drop (length (dec_int 0) + 1) (replicate 16 NUL) = NUL # replicate 13 NUL" by code_simp
  then show ?thesis
    using proc_hide_write_read [OF demo_kstrtoint_doc, of 0 "replicate 16 NUL" "replicate 13 NUL" "\<lambda>_. 0" demo_kernel 1]
    by fastforce
qed

text \<open>
  \<^verbatim>\<open>proc_write_hidden\<close> never terminates the bytes it copied, so the same write can fail: if the
  stack byte behind the text of a valid number is, say, a letter, the write returns \<^verbatim>\<open>-1\<close> and
  \<^verbatim>\<open>hidden_flag\<close> keeps its value.\<close>

theorem proc_hide_write_unterminated:
  assumes "kstrtoint_doc f" "drop (length (dec_int i) + 1) stack = c # r"
    and "\<not> is_digit c" "c \<notin> {CHR ''+'', CHR ''-'', NL, NUL}" "- (2 ^ 31) \<le> i" "i < 2 ^ 31"
  shows "fst (proc_write_hidden f False stack (dec_int i @ [NL]) (length (dec_int i) + 1) k) = Inl EPERM
    \<and> fst (snd (proc_write_hidden f False stack (dec_int i @ [NL]) (length (dec_int i) + 1) k)) = k"
proof -
  have "NUL \<notin> set (dec_int i)" using dec_nat_noncontrol(1) by (auto simp: dec_int_def)
  then have "c \<in> set (cstr (dec_int i @ NL # c # r))"
    using assms(4) by (simp add: cstr_append cstr_Cons)
  then have "is_err (f (dec_int i @ NL # c # r))" using assms(1,3,4) unfolding kstrtoint_doc_def by blast
  then obtain e where "f (dec_int i @ NL # c # r) = Inl e" by (cases "f (dec_int i @ NL # c # r)") auto
  then show ?thesis using assms(2) length_flag_text [OF assms(5,6)]
    by (simp add: proc_write_hidden_def Let_def PROC_MAX_SIZE_def)
qed

theorem proc_hide_write_unterminated_witness:
  "fst (proc_write_hidden demo_kstrtoint False (replicate 16 CHR ''x'') (dec_int 0 @ [NL]) (length (dec_int 0) + 1) demo_kernel) = Inl EPERM"
proof -
  have "length (dec_int 0) = 1" by code_simp
  then have "drop (length (dec_int 0) + 1) (replicate 16 CHR ''x'') = CHR ''x'' # replicate 13 CHR ''x''" by code_simp
  then show ?thesis
    using proc_hide_write_unterminated [OF demo_kstrtoint_doc, of 0 "replicate 16 CHR ''x''" "CHR ''x''" "replicate 13 CHR ''x''" demo_kernel]
    by (simp add: is_digit_def)
qed

end
