(* ===== verification/Dir_Walk.thy ===== *)
theory Dir_Walk
  imports Task
begin

section \<open>Directories that can be read in pieces\<close>

text \<open>
  \<^verbatim>\<open>getdents\<close> reads a directory through a \<^verbatim>\<open>struct dir_context\<close>: the handler hands entries to
  the context's actor (\<^verbatim>\<open>dir_emit\<close>) until the actor refuses one because the user's buffer is
  full, and leaves in \<^verbatim>\<open>ctx->pos\<close> the position where the next call resumes.  The actor is a
  parameter: a predicate that says, from the entries already taken in this call, whether it takes
  the next one.

  The locale \<open>resumable_dir\<close> is the contract a handler owes its callers, and what follows from
  it for a caller that reads in several calls.  Each readdir handler of
  \<^verbatim>\<open>fs/proc/base.c\<close> interprets it.
\<close>

text \<open>A directory entry as the actor sees it: name, inode number and file type.\<close>

type_synonym dirent = "string \<times> nat \<times> nat"

type_synonym actor = "dirent list \<Rightarrow> dirent \<Rightarrow> bool"

record dir_context =
  ctx_pos :: int
  ctx_out :: "dirent list"

definition dir_emit :: "actor \<Rightarrow> dirent \<Rightarrow> dir_context \<Rightarrow> bool \<times> dir_context" where
  "dir_emit actor e ctx =
     (if actor (ctx_out ctx) e then (True, ctx\<lparr>ctx_out := ctx_out ctx @ [e]\<rparr>) else (False, ctx))"

lemma ctx_upd_commute: "ctx\<lparr>ctx_out := x, ctx_pos := p\<rparr> = ctx\<lparr>ctx_pos := p, ctx_out := x\<rparr>"
  by simp

abbreviation greedy :: actor where "greedy \<equiv> (\<lambda>_ _. True)"

locale resumable_dir =
  fixes rd :: "actor \<Rightarrow> int \<Rightarrow> dirent list \<times> int"
    and content :: "int \<Rightarrow> dirent list"
    and ok :: "int \<Rightarrow> bool"
  assumes rd_prefix: "ok pos \<Longrightarrow> rd a pos = (es, pos') \<Longrightarrow> content pos = es @ content pos'"
    and rd_complete: "ok pos \<Longrightarrow> rd greedy pos = (es, pos') \<Longrightarrow> content pos' = []"
    and rd_ok: "ok pos \<Longrightarrow> rd a pos = (es, pos') \<Longrightarrow> ok pos'"
begin

lemma rd_sound: "ok pos \<Longrightarrow> e \<in> set (fst (rd a pos)) \<Longrightarrow> e \<in> set (content pos)"
  using rd_prefix by (metis Un_iff prod.collapse set_append)

lemma rd_greedy: "ok pos \<Longrightarrow> fst (rd greedy pos) = content pos"
  using rd_prefix rd_complete by (metis append.right_neutral prod.collapse)

lemma rd_resume:
  "ok pos \<Longrightarrow> rd a pos = (es, pos') \<Longrightarrow> es @ fst (rd greedy pos') = content pos"
  using rd_prefix rd_ok rd_greedy by metis

lemma rd_twice_disjoint:
  "ok pos \<Longrightarrow> distinct (content pos) \<Longrightarrow> rd a pos = (es, pos') \<Longrightarrow> set es \<inter> set (fst (rd b pos')) = {}"
  using rd_prefix [of pos a es pos'] rd_sound [of pos' _ b] rd_ok by fastforce

end

subsection \<open>Handlers whose entries have fixed positions\<close>

text \<open>
  The reference behaviour of a handler that gives every entry a position of its own: set
  \<^verbatim>\<open>ctx->pos\<close> to the position of the entry, offer it, stop at the first refusal, and leave the
  end position when the entries are used up.\<close>

fun emit_seq :: "actor \<Rightarrow> (int \<times> dirent) list \<Rightarrow> int \<Rightarrow> dir_context \<Rightarrow> dir_context" where
  "emit_seq actor [] fin ctx = ctx\<lparr>ctx_pos := fin\<rparr>"
| "emit_seq actor ((p, e) # xs) fin ctx =
     (case dir_emit actor e (ctx\<lparr>ctx_pos := p\<rparr>) of
        (False, ctx) \<Rightarrow> ctx
      | (True, ctx) \<Rightarrow> emit_seq actor xs fin ctx)"

definition from_pos :: "int \<Rightarrow> (int \<times> dirent) list \<Rightarrow> (int \<times> dirent) list" where
  "from_pos pos xs = filter (\<lambda>(p, e). pos \<le> p) xs"

lemma from_pos_simps [simp]:
  "from_pos pos [] = []"
  "from_pos pos ((p, e) # xs) = (if pos \<le> p then (p, e) # from_pos pos xs else from_pos pos xs)"
  by (simp_all add: from_pos_def)

lemma from_pos_end: "\<forall>(p, e) \<in> set xs. p < pos \<Longrightarrow> from_pos pos xs = []"
  by (induction xs) auto

lemma from_pos_all: "\<forall>(p, e) \<in> set xs. pos \<le> p \<Longrightarrow> from_pos pos xs = xs"
  by (induction xs) auto

lemma from_pos_from_pos: "q \<le> pos \<Longrightarrow> from_pos pos (from_pos q xs) = from_pos pos xs"
  by (induction xs) auto

lemma sorted_from_pos: "sorted_wrt (<) (map fst xs) \<Longrightarrow> sorted_wrt (<) (map fst (from_pos q xs))"
  by (induction xs) (auto simp: from_pos_def split: prod.splits)

lemma emit_seq_cong: "ctx_out c = ctx_out d \<Longrightarrow> emit_seq a xs fin c = emit_seq a xs fin d"
proof (induction xs)
  case (Cons x xs)
  then have "c\<lparr>ctx_pos := fst x\<rparr> = d\<lparr>ctx_pos := fst x\<rparr>" by simp
  then show ?case by (cases x) simp
qed simp

lemma emit_seq_accepts:
  "a (ctx_out ctx) e \<Longrightarrow> ctx_out c = ctx_out ctx @ [e] \<Longrightarrow>
   emit_seq a ((p, e) # xs) fin ctx = emit_seq a xs fin c"
  by (simp add: dir_emit_def cong: emit_seq_cong) (rule emit_seq_cong, simp)

lemma emit_seq_append:
  "\<forall>(p, e) \<in> set xs. p \<noteq> m \<Longrightarrow> emit_seq a (xs @ ys) fin ctx
     = (let c = emit_seq a xs m ctx in if ctx_pos c = m then emit_seq a ys fin c else c)"
proof (induction xs arbitrary: ctx)
  case Nil
  then show ?case by (simp add: Let_def) (rule emit_seq_cong, simp)
next
  case (Cons x xs)
  then show ?case by (cases x) (auto simp: dir_emit_def Let_def)
qed

text \<open>What one walk does: it emits a prefix, and the rest starts at the position it leaves.\<close>

lemma emit_seq_spec:
  assumes "sorted_wrt (<) (map fst xs)" "\<forall>(p, e) \<in> set xs. q \<le> p \<and> p < fin" "q \<le> fin"
  shows "\<exists>es. ctx_out (emit_seq a xs fin ctx) = ctx_out ctx @ es
     \<and> map snd xs = es @ map snd (from_pos (ctx_pos (emit_seq a xs fin ctx)) xs)
     \<and> q \<le> ctx_pos (emit_seq a xs fin ctx) \<and> ctx_pos (emit_seq a xs fin ctx) \<le> fin"
  using assms
proof (induction xs arbitrary: ctx q)
  case Nil
  then show ?case by simp
next
  case (Cons x xs)
  obtain p e where x: "x = (p, e)" by (cases x)
  have above: "\<forall>(p', e') \<in> set xs. p + 1 \<le> p' \<and> p' < fin"
    using Cons.prems(1,2) unfolding x by (fastforce simp: zless_imp_add1_zle)
  show ?case
  proof (cases "a (ctx_out ctx) e")
    case False
    have "from_pos p xs = xs" using above by (intro from_pos_all) fastforce
    then show ?thesis using False Cons.prems(2) by (simp add: x dir_emit_def)
  next
    case True
    let ?ctx = "ctx\<lparr>ctx_pos := p, ctx_out := ctx_out ctx @ [e]\<rparr>"
    obtain es where "ctx_out (emit_seq a xs fin ?ctx) = ctx_out ?ctx @ es"
      and "map snd xs = es @ map snd (from_pos (ctx_pos (emit_seq a xs fin ?ctx)) xs)"
      and "p + 1 \<le> ctx_pos (emit_seq a xs fin ?ctx) \<and> ctx_pos (emit_seq a xs fin ?ctx) \<le> fin"
      using Cons.IH [of "p + 1" ?ctx] above Cons.prems x by auto
    then show ?thesis using True Cons.prems(2) by (intro exI [of _ "e # es"]) (auto simp: x dir_emit_def)
  qed
qed

lemma emit_seq_greedy: "ctx_pos (emit_seq greedy xs fin ctx) = fin"
  by (induction xs arbitrary: ctx) (auto simp: dir_emit_def)

lemma emit_seq_greedy_out: "ctx_out (emit_seq greedy xs fin ctx) = ctx_out ctx @ map snd xs"
  by (induction xs arbitrary: ctx) (auto simp: dir_emit_def)

text \<open>The contract of such a handler, over all its entries \<open>xs\<close>, and that it is resumable.\<close>

locale positional_dir =
  fixes rd :: "actor \<Rightarrow> int \<Rightarrow> dirent list \<times> int"
    and xs :: "(int \<times> dirent) list"
    and fin :: int
    and ok :: "int \<Rightarrow> bool"
  assumes rd_emit: "ok pos \<Longrightarrow> pos < fin \<Longrightarrow>
        rd a pos = (let c = emit_seq a (from_pos pos xs) fin \<lparr>ctx_pos = pos, ctx_out = []\<rparr> in (ctx_out c, ctx_pos c))"
    and rd_end: "ok pos \<Longrightarrow> fin \<le> pos \<Longrightarrow> rd a pos = ([], pos)"
    and positions: "ok pos \<Longrightarrow> sorted_wrt (<) (map fst xs) \<and> (\<forall>(p, e) \<in> set xs. p < fin)"
    and ok_up: "ok pos \<Longrightarrow> pos \<le> pos' \<Longrightarrow> ok pos'"
begin

lemma end_empty: "ok pos \<Longrightarrow> fin \<le> pos \<Longrightarrow> from_pos pos xs = []"
  using positions by (intro from_pos_end) fastforce

lemma rd_step:
  assumes "ok pos" "rd a pos = (es, pos')"
  shows "map snd (from_pos pos xs) = es @ map snd (from_pos pos' xs) \<and> pos \<le> pos'"
proof (cases "pos < fin")
  case False
  then show ?thesis using assms rd_end end_empty by simp
next
  case True
  have "sorted_wrt (<) (map fst (from_pos pos xs))" "\<forall>(p, e) \<in> set (from_pos pos xs). pos \<le> p \<and> p < fin"
    using positions [OF assms(1)] sorted_from_pos by (auto simp: from_pos_def)
  then have "map snd (from_pos pos xs) = es @ map snd (from_pos pos' (from_pos pos xs)) \<and> pos \<le> pos'"
    using emit_seq_spec [of "from_pos pos xs" pos fin a "\<lparr>ctx_pos = pos, ctx_out = []\<rparr>"] True
      rd_emit [OF assms(1) True, of a] assms(2) by (auto simp: Let_def)
  then show ?thesis by (simp add: from_pos_from_pos)
qed

lemma rd_greedy_end: "ok pos \<Longrightarrow> rd greedy pos = (es, pos') \<Longrightarrow> from_pos pos' xs = []"
proof (cases "pos < fin")
  case True
  assume "ok pos" "rd greedy pos = (es, pos')"
  then have "pos' = fin" using rd_emit [OF _ True] emit_seq_greedy by (auto simp: Let_def)
  then show ?thesis using positions [OF \<open>ok pos\<close>] by (auto intro: from_pos_end)
qed (simp add: rd_end end_empty)

end

sublocale positional_dir \<subseteq> resumable_dir rd "\<lambda>pos. map snd (from_pos pos xs)" ok
  by unfold_locales (auto dest: rd_step rd_greedy_end ok_up)

end
