(* ===== verification/Proc_Inode.thy ===== *)
theory Proc_Inode
  imports Hide
begin

unbundle bit_operations_syntax

section \<open>Permissions, owners and inodes of \<^verbatim>\<open>/proc/<pid>\<close>\<close>

text \<open>
  \<^verbatim>\<open>fs/proc/base.c\<close>: who may see a process (\<^verbatim>\<open>has_pid_permissions\<close>, \<^verbatim>\<open>proc_pid_permission\<close>), who
  owns its files (\<^verbatim>\<open>task_dump_owner\<close>) and how an inode for a task is built, refreshed and
  revalidated.  The environment record \<open>proc_env\<close> holds the answers of the rest of the kernel:
  \<^verbatim>\<open>in_group_p\<close>, \<^verbatim>\<open>ptrace_may_access\<close> with \<^verbatim>\<open>PTRACE_MODE_READ_FSCREDS\<close>, \<^verbatim>\<open>get_dumpable\<close>, the
  root ids of the user namespace of an mm (\<open>None\<close> when \<^verbatim>\<open>make_kuid\<close> gives an invalid id) and
  \<^verbatim>\<open>new_inode\<close> with \<^verbatim>\<open>get_next_ino\<close> (\<open>None\<close> when the allocation fails).
\<close>

type_synonym umode = "16 word"

definition S_IFMT :: umode where "S_IFMT = 0xF000"
definition S_IFDIR :: umode where "S_IFDIR = 0x4000"
definition S_IFREG :: umode where "S_IFREG = 0x8000"
definition S_IFLNK :: umode where "S_IFLNK = 0xA000"
definition S_ISUID :: umode where "S_ISUID = 0x800"
definition S_ISGID :: umode where "S_ISGID = 0x400"
definition S_IRUSR :: umode where "S_IRUSR = 0x100"
definition S_IWUSR :: umode where "S_IWUSR = 0x80"
definition S_IXUSR :: umode where "S_IXUSR = 0x40"
definition S_IRUGO :: umode where "S_IRUGO = 0x124"
definition S_IWUGO :: umode where "S_IWUGO = 0x92"
definition S_IXUGO :: umode where "S_IXUGO = 0x49"
definition S_IRWXUGO :: umode where "S_IRWXUGO = 0x1FF"

lemmas mode_defs =
  S_IFMT_def S_IFDIR_def S_IFREG_def S_IFLNK_def S_ISUID_def S_ISGID_def S_IRUSR_def S_IWUSR_def
  S_IXUSR_def S_IRUGO_def S_IWUGO_def S_IXUGO_def S_IRWXUGO_def

definition S_ISDIR :: "umode \<Rightarrow> bool" where
  "S_ISDIR m \<longleftrightarrow> m AND S_IFMT = S_IFDIR"

subsection \<open>The \<^verbatim>\<open>hidepid=\<close> mount option\<close>

datatype hidepid = HIDEPID_OFF | HIDEPID_NO_ACCESS | HIDEPID_INVISIBLE | HIDEPID_NOT_PTRACEABLE

fun hidepid_val :: "hidepid \<Rightarrow> nat" where
  "hidepid_val HIDEPID_OFF = 0"
| "hidepid_val HIDEPID_NO_ACCESS = 1"
| "hidepid_val HIDEPID_INVISIBLE = 2"
| "hidepid_val HIDEPID_NOT_PTRACEABLE = 4"

lemma hidepid_val_inj: "hidepid_val a = hidepid_val b \<longleftrightarrow> a = b"
  by (cases a; cases b) auto

instantiation hidepid :: linorder
begin

definition less_eq_hidepid :: "hidepid \<Rightarrow> hidepid \<Rightarrow> bool" where
  "less_eq_hidepid a b = (hidepid_val a \<le> hidepid_val b)"

definition less_hidepid :: "hidepid \<Rightarrow> hidepid \<Rightarrow> bool" where
  "less_hidepid a b = (hidepid_val a < hidepid_val b)"

instance
  by standard (auto simp: less_eq_hidepid_def less_hidepid_def hidepid_val_inj dest: antisym)

end

record proc_fs_info =
  hide_pid :: hidepid
  pid_gid :: u32

record proc_env =
  in_group_p :: "u32 \<Rightarrow> bool"
  ptrace_may_read :: "tptr \<Rightarrow> bool"
  dumpable_user :: "mmptr \<Rightarrow> bool"
  ns_root_uid :: "mmptr \<Rightarrow> u32 option"
  ns_root_gid :: "mmptr \<Rightarrow> u32 option"
  new_ino :: "nat option"

definition has_pid_permissions :: "proc_env \<Rightarrow> proc_fs_info \<Rightarrow> tptr \<Rightarrow> hidepid \<Rightarrow> bool" where
  "has_pid_permissions env fs_info task hide_pid_min =
     (if hide_pid fs_info = HIDEPID_NOT_PTRACEABLE then ptrace_may_read env task
      else if hide_pid fs_info < hide_pid_min then True
      else if in_group_p env (pid_gid fs_info) then True
      else ptrace_may_read env task)"

text \<open>\<open>task\<close> is the result of \<^verbatim>\<open>get_proc_task(inode)\<close>, which takes a reference;
  \<open>generic\<close> that of \<^verbatim>\<open>generic_permission\<close>.\<close>

definition proc_pid_permission ::
  "proc_env \<Rightarrow> proc_fs_info \<Rightarrow> unit result \<Rightarrow> tptr option \<Rightarrow> unit result \<times> kevent list" where
  "proc_pid_permission env fs_info generic task =
     (case task of
        None \<Rightarrow> (Inl ESRCH, [])
      | Some p \<Rightarrow>
          let has_perms = has_pid_permissions env fs_info p HIDEPID_NO_ACCESS;
              ev = [Get_task p, Put_task p]
          in if \<not> has_perms then
               (if hide_pid fs_info = HIDEPID_INVISIBLE then (Inl ENOENT, ev) else (Inl EPERM, ev))
             else (generic, ev))"

subsection \<open>Owners\<close>

definition GLOBAL_ROOT_UID :: u32 where "GLOBAL_ROOT_UID = 0"
definition GLOBAL_ROOT_GID :: u32 where "GLOBAL_ROOT_GID = 0"

definition task_dump_owner :: "proc_env \<Rightarrow> task_struct \<Rightarrow> umode \<Rightarrow> u32 \<times> u32" where
  "task_dump_owner env task mode =
     (if t_flags task AND PF_KTHREAD \<noteq> 0 then (GLOBAL_ROOT_UID, GLOBAL_ROOT_GID)
      else let uid = t_euid task; gid = t_egid task
           in if mode \<noteq> (S_IFDIR OR S_IRUGO OR S_IXUGO) then
                (case t_mm task of
                   Some mm \<Rightarrow>
                     if \<not> dumpable_user env mm then
                       ((case ns_root_uid env mm of None \<Rightarrow> GLOBAL_ROOT_UID | Some u \<Rightarrow> u),
                        (case ns_root_gid env mm of None \<Rightarrow> GLOBAL_ROOT_GID | Some g \<Rightarrow> g))
                     else (uid, gid)
                 | None \<Rightarrow> (GLOBAL_ROOT_UID, GLOBAL_ROOT_GID))
              else (uid, gid))"

subsection \<open>Inodes\<close>

record inode =
  i_mode :: umode
  i_ino :: nat
  i_uid :: u32
  i_gid :: u32
  i_op :: string
  i_fop :: string
  i_immutable :: bool
  i_nlink :: nat
  i_size :: nat
  i_pid :: "pidptr option"

definition proc_pid_make_inode ::
  "proc_env \<Rightarrow> task_struct \<Rightarrow> umode \<Rightarrow> inode option \<times> kevent list" where
  "proc_pid_make_inode env task mode =
     (case new_ino env of
        None \<Rightarrow> (None, [])
      | Some ino \<Rightarrow>
          (case t_thread_pid task of
             None \<Rightarrow> (None, [])
           | Some pid \<Rightarrow>
               let (uid, gid) = task_dump_owner env task 0
               in (Some \<lparr>i_mode = mode, i_ino = ino, i_uid = uid, i_gid = gid,
                         i_op = ''proc_def_inode_operations'', i_fop = [], i_immutable = False,
                         i_nlink = 1, i_size = 0, i_pid = Some pid\<rparr>, [Get_pid (Some pid)])))"

definition pid_update_inode :: "proc_env \<Rightarrow> task_struct \<Rightarrow> inode \<Rightarrow> inode" where
  "pid_update_inode env task inode =
     (let (uid, gid) = task_dump_owner env task (i_mode inode);
          inode = inode\<lparr>i_uid := uid, i_gid := gid\<rparr>
      in inode\<lparr>i_mode := i_mode inode AND NOT (S_ISUID OR S_ISGID)\<rparr>)"

text \<open>\<^verbatim>\<open>pid_revalidate\<close>: 1 keeps the dentry, 0 drops it.  \<open>rcu\<close>: \<^verbatim>\<open>flags & LOOKUP_RCU\<close>.\<close>

definition pid_revalidate ::
  "proc_env \<Rightarrow> kernel \<Rightarrow> bool \<Rightarrow> tptr option \<Rightarrow> inode \<Rightarrow> int result \<times> inode \<times> kevent list" where
  "pid_revalidate env k rcu task inode =
     (if rcu then (Inl ECHILD, inode, [])
      else case task of
          None \<Rightarrow> (Inr 0, inode, [])
        | Some p \<Rightarrow>
            (case tasks k p of
               None \<Rightarrow> (Inr 0, inode, [])
             | Some t \<Rightarrow> (Inr 1, pid_update_inode env t inode, [Get_task p, Put_task p])))"

text \<open>\<^verbatim>\<open>pid_getattr\<close>: the uid and gid \<^verbatim>\<open>stat\<close> reports; \<open>task\<close> is \<^verbatim>\<open>pid_task(proc_pid(inode))\<close>.\<close>

definition pid_getattr ::
  "proc_env \<Rightarrow> proc_fs_info \<Rightarrow> kernel \<Rightarrow> tptr option \<Rightarrow> inode \<Rightarrow> (u32 \<times> u32) result" where
  "pid_getattr env fs_info k task inode =
     (case task of
        None \<Rightarrow> Inr (GLOBAL_ROOT_UID, GLOBAL_ROOT_GID)
      | Some p \<Rightarrow>
          if \<not> has_pid_permissions env fs_info p HIDEPID_INVISIBLE then Inl ENOENT
          else (case tasks k p of
                  None \<Rightarrow> Inr (GLOBAL_ROOT_UID, GLOBAL_ROOT_GID)
                | Some t \<Rightarrow> Inr (task_dump_owner env t (i_mode inode))))"

definition proc_pid_instantiate ::
  "proc_env \<Rightarrow> nat \<Rightarrow> task_struct \<Rightarrow> inode result \<times> kevent list" where
  "proc_pid_instantiate env nlink_tgid task =
     (case proc_pid_make_inode env task (S_IFDIR OR S_IRUGO OR S_IXUGO) of
        (None, ev) \<Rightarrow> (Inl ENOENT, ev)
      | (Some inode, ev) \<Rightarrow>
          let inode = inode\<lparr>i_op := ''proc_tgid_base_inode_operations'',
                            i_fop := ''proc_tgid_base_operations'', i_immutable := True,
                            i_nlink := nlink_tgid\<rparr>
          in (Inr (pid_update_inode env task inode), ev))"

subsection \<open>Properties\<close>

lemma make_inode_refs [balance]: "task_refs p (snd (proc_pid_make_inode env t m)) = 0"
  by (simp add: proc_pid_make_inode_def split: option.splits prod.splits)

lemma instantiate_refs [balance]: "task_refs p (snd (proc_pid_instantiate env n t)) = 0"
  by (auto simp: proc_pid_instantiate_def Let_def split: option.splits prod.splits)
    (metis make_inode_refs snd_conv)+

lemma hidepid_less_simps [simp]:
  "\<not> HIDEPID_OFF < HIDEPID_OFF" "HIDEPID_OFF < HIDEPID_NO_ACCESS" "HIDEPID_OFF < HIDEPID_INVISIBLE"
  "\<not> HIDEPID_NO_ACCESS < HIDEPID_NO_ACCESS" "HIDEPID_NO_ACCESS < HIDEPID_INVISIBLE"
  "\<not> HIDEPID_INVISIBLE < HIDEPID_NO_ACCESS" "\<not> HIDEPID_INVISIBLE < HIDEPID_INVISIBLE"
  by (simp_all add: less_hidepid_def)

text \<open>
  The permission gates of \<^verbatim>\<open>/proc/<pid>\<close> agree with each other: a process that \<^verbatim>\<open>stat\<close> cannot see
  (\<^verbatim>\<open>pid_getattr\<close> says \<^verbatim>\<open>-ENOENT\<close>) cannot be entered either, and under \<^verbatim>\<open>hidepid=2\<close> the refusal of
  \<^verbatim>\<open>proc_pid_permission\<close> is the same \<^verbatim>\<open>-ENOENT\<close>, so the two do not tell a hidden process from a
  missing one.  Every path drops the task reference it took.\<close>

theorem pid_permission_consistent:
  "(pid_getattr env fs_info k (Some p) ino = Inl ENOENT
     \<longrightarrow> is_err (fst (proc_pid_permission env fs_info g (Some p))))
   \<and> (hide_pid fs_info = HIDEPID_INVISIBLE \<and> \<not> has_pid_permissions env fs_info p HIDEPID_INVISIBLE
     \<longrightarrow> pid_getattr env fs_info k (Some p) ino = Inl ENOENT
       \<and> fst (proc_pid_permission env fs_info g (Some p)) = Inl ENOENT)
   \<and> task_refs q (snd (proc_pid_permission env fs_info g task)) = 0"
  by (auto simp: pid_getattr_def proc_pid_permission_def has_pid_permissions_def Let_def
      split: option.splits if_splits) (cases "hide_pid fs_info"; simp)+

definition demo_env :: "bool \<Rightarrow> proc_env" where
  "demo_env allow = \<lparr>in_group_p = (\<lambda>_. False), ptrace_may_read = (\<lambda>_. allow),
     dumpable_user = (\<lambda>_. True), ns_root_uid = (\<lambda>_. Some 0), ns_root_gid = (\<lambda>_. Some 0), new_ino = Some 7\<rparr>"

definition demo_inode :: inode where
  "demo_inode = \<lparr>i_mode = S_IFDIR, i_ino = 7, i_uid = 0, i_gid = 0, i_op = [], i_fop = [],
     i_immutable = False, i_nlink = 1, i_size = 0, i_pid = Some 2\<rparr>"

theorem pid_permission_consistent_witness:
  "pid_getattr (demo_env False) \<lparr>hide_pid = HIDEPID_INVISIBLE, pid_gid = 0\<rparr> demo_kernel (Some 2) demo_inode = Inl ENOENT
   \<and> fst (proc_pid_permission (demo_env False) \<lparr>hide_pid = HIDEPID_INVISIBLE, pid_gid = 0\<rparr> (Inr ()) (Some 2)) = Inl ENOENT"
proof -
  have "\<not> has_pid_permissions (demo_env False) \<lparr>hide_pid = HIDEPID_INVISIBLE, pid_gid = 0\<rparr> 2 HIDEPID_INVISIBLE"
    by (simp add: has_pid_permissions_def demo_env_def)
  then show ?thesis
    using pid_permission_consistent [of "demo_env False" "\<lparr>hide_pid = HIDEPID_INVISIBLE, pid_gid = 0\<rparr>"
        demo_kernel 2 demo_inode "Inr ()"] by simp
qed

end
