(* ===== verification/Proc_Pid.thy ===== *)
theory Proc_Pid
  imports Proc_Inode Proc_Hide Dir_Walk
begin

section \<open>Looking up and listing processes in \<^verbatim>\<open>/proc\<close>\<close>

text \<open>
  \<^verbatim>\<open>proc_pid_lookup\<close>, \<^verbatim>\<open>next_tgid\<close> and \<^verbatim>\<open>proc_pid_readdir\<close> of \<^verbatim>\<open>fs/proc/base.c\<close>, the two places
  where the patch tests \<^verbatim>\<open>hidden_flag\<close> and \<^verbatim>\<open>cloak\<close>.

  The pid namespace is the record \<open>pid_ns\<close> of the functions the code calls on it;
  \<open>pid_ns_ok ns pids\<close> says what is documented of them, with \<open>pids\<close> the namespace's pid table in
  ascending order.  The retry loop of \<^verbatim>\<open>next_tgid\<close> and the loop of \<^verbatim>\<open>proc_pid_readdir\<close> take fuel;
  \<open>PID_MAX_LIMIT\<close> many steps are enough since both only move to larger pid numbers.
\<close>

record pid_ns =
  find_ge_pid :: "nat \<Rightarrow> pidptr option"
  pid_nr_ns :: "pidptr \<Rightarrow> nat"
  pid_task_tgid :: "pidptr \<Rightarrow> tptr option"
  find_task_by_pid_ns :: "u32 \<Rightarrow> tptr option"

definition PID_MAX_LIMIT :: nat where "PID_MAX_LIMIT = 4 * 1024 * 1024"
definition FIRST_PROCESS_ENTRY :: int where "FIRST_PROCESS_ENTRY = 256"
definition TGID_OFFSET :: int where "TGID_OFFSET = FIRST_PROCESS_ENTRY + 2"
definition DT_UNKNOWN :: nat where "DT_UNKNOWN = 0"
definition DT_LNK :: nat where "DT_LNK = 10"

text \<open>The patch's test: is the task to be treated as if it did not exist?\<close>

definition is_hidden :: "kernel \<Rightarrow> tptr \<Rightarrow> bool" where
  "is_hidden k p \<longleftrightarrow> hidden_flag k = 1 \<and> (case tasks k p of None \<Rightarrow> False | Some t \<Rightarrow> t_cloak t = 1)"

lemma is_hidden_iff: "is_hidden k p \<longleftrightarrow> hidden_flag k = 1 \<and> p \<in> cloaked k"
  by (auto simp: is_hidden_def cloaked_def split: option.splits)

subsection \<open>Lookup\<close>

definition proc_pid_lookup ::
  "proc_env \<Rightarrow> proc_fs_info \<Rightarrow> pid_ns \<Rightarrow> (string \<Rightarrow> u32) \<Rightarrow> nat \<Rightarrow> kernel \<Rightarrow> string
   \<Rightarrow> inode result \<times> kevent list" where
  "proc_pid_lookup env fs_info ns name_to_int nlink_tgid k name =
     (let tgid = name_to_int name
      in if tgid = - 1 then (Inl ENOENT, [])
         else case find_task_by_pid_ns ns tgid of
             None \<Rightarrow> (Inl ENOENT, [])
           | Some task \<Rightarrow>
               (case tasks k task of
                  None \<Rightarrow> (Inl ENOENT, [])
                | Some t \<Rightarrow>
                    if hidden_flag k = 1 \<and> t_cloak t = 1 then (Inl ENOENT, [Get_task task])
                    else if hide_pid fs_info = HIDEPID_NOT_PTRACEABLE
                            \<and> \<not> has_pid_permissions env fs_info task HIDEPID_NO_ACCESS
                    then (Inl ENOENT, [Get_task task, Put_task task])
                    else (case proc_pid_instantiate env nlink_tgid t of
                            (res, ev) \<Rightarrow> (res, Get_task task # ev @ [Put_task task]))))"

subsection \<open>Readdir\<close>

text \<open>\<^verbatim>\<open>struct tgid_iter\<close>: the number and the task held, if any.\<close>

type_synonym tgid_iter = "nat \<times> tptr option"

fun next_tgid_retry :: "nat \<Rightarrow> pid_ns \<Rightarrow> nat \<Rightarrow> tgid_iter option" where
  "next_tgid_retry 0 ns tgid = None"
| "next_tgid_retry (Suc fuel) ns tgid =
     (case find_ge_pid ns tgid of
        None \<Rightarrow> Some (tgid, None)
      | Some pid \<Rightarrow>
          let tgid = pid_nr_ns ns pid
          in case pid_task_tgid ns pid of
               None \<Rightarrow> next_tgid_retry fuel ns (tgid + 1)
             | Some task \<Rightarrow> Some (tgid, Some task))"

definition put_iter :: "tptr option \<Rightarrow> kevent list" where
  "put_iter t = (case t of None \<Rightarrow> [] | Some p \<Rightarrow> [Put_task p])"

definition get_iter :: "tptr option \<Rightarrow> kevent list" where
  "get_iter t = (case t of None \<Rightarrow> [] | Some p \<Rightarrow> [Get_task p])"

definition next_tgid :: "nat \<Rightarrow> pid_ns \<Rightarrow> tgid_iter \<Rightarrow> (tgid_iter \<times> kevent list) option" where
  "next_tgid fuel ns iter =
     (case next_tgid_retry fuel ns (fst iter) of
        None \<Rightarrow> None
      | Some iter' \<Rightarrow> Some (iter', put_iter (snd iter) @ get_iter (snd iter')))"

text \<open>\<^verbatim>\<open>proc_fill_cache\<close>: the inode number and type come from the dcache entry (\<open>dcache name\<close>, looked
  up or instantiated), or are 1 and \<^verbatim>\<open>DT_UNKNOWN\<close>; whatever happens there, the entry is handed
  to the actor.\<close>

definition proc_fill_cache ::
  "(string \<Rightarrow> (nat \<times> umode) option) \<Rightarrow> actor \<Rightarrow> string \<Rightarrow> dir_context \<Rightarrow> bool \<times> dir_context" where
  "proc_fill_cache dcache actor name ctx =
     (let (ino, type) = (case dcache name of
            None \<Rightarrow> (1, DT_UNKNOWN)
          | Some (ino, mode) \<Rightarrow> (ino, unat (drop_bit 12 mode)))
      in dir_emit actor (name, ino, type) ctx)"

fun readdir_loop ::
  "nat \<Rightarrow> proc_env \<Rightarrow> proc_fs_info \<Rightarrow> pid_ns \<Rightarrow> (string \<Rightarrow> (nat \<times> umode) option) \<Rightarrow> actor \<Rightarrow> kernel
   \<Rightarrow> tgid_iter \<Rightarrow> dir_context \<Rightarrow> (dir_context \<times> kevent list) option" where
  "readdir_loop 0 env fs_info ns dcache actor k iter ctx = None"
| "readdir_loop (Suc fuel) env fs_info ns dcache actor k iter ctx =
     (case next_tgid PID_MAX_LIMIT ns iter of
        None \<Rightarrow> None
      | Some ((tgid, None), ev) \<Rightarrow>
          Some (ctx\<lparr>ctx_pos := int PID_MAX_LIMIT + TGID_OFFSET\<rparr>, ev)
      | Some ((tgid, Some task), ev) \<Rightarrow>
          if \<not> has_pid_permissions env fs_info task HIDEPID_INVISIBLE \<or> is_hidden k task then
            (case readdir_loop fuel env fs_info ns dcache actor k (tgid + 1, Some task) ctx of
               None \<Rightarrow> None | Some (ctx', ev') \<Rightarrow> Some (ctx', ev @ ev'))
          else
            let name = snprintf_trunc 11 (dec_nat tgid);
                ctx = ctx\<lparr>ctx_pos := int tgid + TGID_OFFSET\<rparr>
            in case proc_fill_cache dcache actor name ctx of
                 (False, ctx) \<Rightarrow> Some (ctx, ev @ [Put_task task])
               | (True, ctx) \<Rightarrow>
                   (case readdir_loop fuel env fs_info ns dcache actor k (tgid + 1, Some task) ctx of
                      None \<Rightarrow> None | Some (ctx', ev') \<Rightarrow> Some (ctx', ev @ ev')))"

text \<open>The self links: \<open>self_ino\<close> and \<open>thread_self_ino\<close> are the inode numbers of
  \<^verbatim>\<open>fs_info->proc_self\<close> and \<^verbatim>\<open>fs_info->proc_thread_self\<close>.\<close>

definition emit_link :: "actor \<Rightarrow> string \<Rightarrow> nat \<Rightarrow> dir_context \<Rightarrow> bool \<times> dir_context" where
  "emit_link actor name ino ctx =
     (case dir_emit actor (name, ino, DT_LNK) ctx of
        (False, ctx) \<Rightarrow> (False, ctx)
      | (True, ctx) \<Rightarrow> (True, ctx\<lparr>ctx_pos := ctx_pos ctx + 1\<rparr>))"

definition proc_pid_readdir ::
  "proc_env \<Rightarrow> proc_fs_info \<Rightarrow> pid_ns \<Rightarrow> (string \<Rightarrow> (nat \<times> umode) option) \<Rightarrow> nat \<Rightarrow> nat \<Rightarrow> actor
   \<Rightarrow> kernel \<Rightarrow> dir_context \<Rightarrow> (dir_context \<times> kevent list) option" where
  "proc_pid_readdir env fs_info ns dcache self_ino thread_self_ino actor k ctx =
     (if ctx_pos ctx \<ge> int PID_MAX_LIMIT + TGID_OFFSET then Some (ctx, [])
      else
        let (go, ctx) = (if ctx_pos ctx = TGID_OFFSET - 2 then emit_link actor ''self'' self_ino ctx
                         else (True, ctx))
        in if \<not> go then Some (ctx, [])
        else
          let (go, ctx) = (if ctx_pos ctx = TGID_OFFSET - 1
                           then emit_link actor ''thread-self'' thread_self_ino ctx else (True, ctx))
          in if \<not> go then Some (ctx, [])
          else readdir_loop PID_MAX_LIMIT env fs_info ns dcache actor k
                 (nat ((ctx_pos ctx - TGID_OFFSET) mod 2 ^ 32), None) ctx)"

subsection \<open>The pid table\<close>

definition pid_ns_ok :: "pid_ns \<Rightarrow> (nat \<times> pidptr) list \<Rightarrow> bool" where
  "pid_ns_ok ns pids \<longleftrightarrow>
     sorted_wrt (<) (map fst pids)
     \<and> (\<forall>(m, q) \<in> set pids. 0 < m \<and> m < PID_MAX_LIMIT \<and> pid_nr_ns ns q = m)
     \<and> (\<forall>n. find_ge_pid ns n = map_option snd (find (\<lambda>(m, q). n \<le> m) pids))"

abbreviation pids_from :: "nat \<Rightarrow> (nat \<times> 'b) list \<Rightarrow> (nat \<times> 'b) list" where
  "pids_from n xs \<equiv> filter (\<lambda>(m, q). n \<le> m) xs"

text \<open>The numbers and tasks of the thread group leaders, in ascending order.\<close>

definition leaders :: "pid_ns \<Rightarrow> (nat \<times> pidptr) list \<Rightarrow> (nat \<times> tptr) list" where
  "leaders ns pids = List.map_filter (\<lambda>(m, q). map_option (Pair m) (pid_task_tgid ns q)) pids"

lemma leaders_Nil [simp]: "leaders ns [] = []"
  by (simp add: leaders_def)

lemma leaders_Cons [simp]:
  "leaders ns ((m, q) # ps)
     = (case pid_task_tgid ns q of None \<Rightarrow> leaders ns ps | Some t \<Rightarrow> (m, t) # leaders ns ps)"
  by (simp add: leaders_def split: option.splits)

lemma leaders_from: "pids_from n (leaders ns pids) = leaders ns (pids_from n pids)"
  by (induction pids) (auto split: option.splits)

lemma pids_from_Cons:
  assumes "sorted_wrt (<) (map fst pids)" "pids_from n pids = (m, q) # ps"
  shows "n \<le> m \<and> pids_from (m + 1) pids = ps"
  using assms
proof (induction pids)
  case (Cons x xs)
  show ?case
  proof (cases "n \<le> fst x")
    case True
    then have x: "x = (m, q)" and ps: "ps = pids_from n xs" using Cons.prems(2) by (auto split: prod.splits)
    have all: "\<forall>y \<in> set xs. m < fst y" using Cons.prems(1) x by simp
    have "pids_from n xs = xs" "pids_from (m + 1) xs = xs"
      unfolding filter_id_conv using all True x by fastforce+
    then show ?thesis using True x ps by simp
  next
    case False
    then have "pids_from n xs = (m, q) # ps" using Cons.prems(2) by (auto split: prod.splits)
    then have "n \<le> m \<and> pids_from (m + 1) xs = ps" using Cons by simp
    then show ?thesis using False by auto
  qed
qed simp

lemma find_ge_pid_from:
  "pid_ns_ok ns pids \<Longrightarrow>
   find_ge_pid ns n = (case pids_from n pids of [] \<Rightarrow> None | (m, q) # _ \<Rightarrow> Some q)"
proof -
  have "find P xs = (case filter P xs of [] \<Rightarrow> None | x # _ \<Rightarrow> Some x)" for P and xs :: "(nat \<times> pidptr) list"
    by (induction xs) auto
  then show "pid_ns_ok ns pids \<Longrightarrow> ?thesis"
    by (auto simp: pid_ns_ok_def split: list.splits)
qed

lemma pids_length:
  assumes "pid_ns_ok ns pids"
  shows "length (pids_from n pids) < PID_MAX_LIMIT"
proof -
  have "distinct (map fst pids)" using assms
    by (simp add: pid_ns_ok_def strict_sorted_iff)
  then have "length pids = card (set (map fst pids))"
    using distinct_card by (metis length_map)
  also have "\<dots> \<le> card {1..<PID_MAX_LIMIT}"
    using assms by (intro card_mono) (auto simp: pid_ns_ok_def)
  finally have "length pids \<le> PID_MAX_LIMIT - 1" by simp
  moreover have "0 < PID_MAX_LIMIT" by (simp add: PID_MAX_LIMIT_def)
  ultimately show ?thesis using length_filter_le [of "\<lambda>(m, q). n \<le> m" pids] by linarith
qed

lemma pid_nr_from:
  assumes "pid_ns_ok ns pids" "pids_from n pids = (m, q) # ps"
  shows "pid_nr_ns ns q = m \<and> m < PID_MAX_LIMIT"
proof -
  have "(m, q) \<in> set (pids_from n pids)" using assms(2) by simp
  then have "(m, q) \<in> set pids" by simp
  then show ?thesis using assms(1) unfolding pid_ns_ok_def by blast
qed

lemma pids_from_next:
  assumes "pid_ns_ok ns pids" "pids_from n pids = (m, q) # ps"
  shows "n \<le> m" "pids_from (m + 1) pids = ps"
proof -
  have "sorted_wrt (<) (map fst pids)" using assms(1) by (simp add: pid_ns_ok_def)
  then show "n \<le> m" "pids_from (m + 1) pids = ps"
    using pids_from_Cons [OF _ assms(2)] by simp_all
qed

text \<open>The retry loop ends, and finds the next leader.\<close>

lemma next_tgid_retry_spec:
  assumes "pid_ns_ok ns pids" "length (pids_from n pids) < fuel"
  shows "case leaders ns (pids_from n pids) of
      [] \<Rightarrow> \<exists>x. next_tgid_retry fuel ns n = Some (x, None)
    | (m, t) # ls \<Rightarrow> next_tgid_retry fuel ns n = Some (m, Some t) \<and> n \<le> m \<and> m < PID_MAX_LIMIT
        \<and> ls = leaders ns (pids_from (m + 1) pids)
        \<and> length (pids_from (m + 1) pids) < length (pids_from n pids)"
  using assms(2)
proof (induction fuel arbitrary: n)
  case (Suc fuel)
  show ?case
  proof (cases "pids_from n pids")
    case Nil
    then show ?thesis using find_ge_pid_from [OF assms(1), of n] by simp
  next
    case (Cons x ps)
    obtain m q where x: "x = (m, q)" by (cases x)
    note c = Cons [unfolded x]
    have g: "find_ge_pid ns n = Some q" using find_ge_pid_from [OF assms(1), of n] c by simp
    note nr = pid_nr_from [OF assms(1) c] pids_from_next [OF assms(1) c]
    show ?thesis
    proof (cases "pid_task_tgid ns q")
      case (Some t)
      then show ?thesis using c g nr by (simp add: Let_def)
    next
      case None
      have "length (pids_from (m + 1) pids) < fuel" using nr c Suc.prems by simp
      from Suc.IH [OF this] show ?thesis using None c g nr
        by (auto simp: Let_def split: list.splits prod.splits)
    qed
  qed
qed simp

subsection \<open>What the directory holds\<close>

text \<open>The processes the reader may see, and the entries with their positions.\<close>

definition visible :: "proc_env \<Rightarrow> proc_fs_info \<Rightarrow> kernel \<Rightarrow> tptr \<Rightarrow> bool" where
  "visible env fs_info k t \<longleftrightarrow> has_pid_permissions env fs_info t HIDEPID_INVISIBLE \<and> \<not> is_hidden k t"

definition fill_entry :: "(string \<Rightarrow> (nat \<times> umode) option) \<Rightarrow> string \<Rightarrow> dirent" where
  "fill_entry dcache name =
     (case dcache name of None \<Rightarrow> (name, 1, DT_UNKNOWN)
      | Some (ino, mode) \<Rightarrow> (name, ino, unat (drop_bit 12 mode)))"

definition pid_entries ::
  "(string \<Rightarrow> (nat \<times> umode) option) \<Rightarrow> (nat \<times> tptr) list \<Rightarrow> (int \<times> dirent) list" where
  "pid_entries dcache ls = map (\<lambda>(m, t). (int m + TGID_OFFSET, fill_entry dcache (dec_nat m))) ls"

definition proc_dir_entries ::
  "proc_env \<Rightarrow> proc_fs_info \<Rightarrow> pid_ns \<Rightarrow> (string \<Rightarrow> (nat \<times> umode) option) \<Rightarrow> nat \<Rightarrow> nat \<Rightarrow> kernel
   \<Rightarrow> (nat \<times> pidptr) list \<Rightarrow> (int \<times> dirent) list" where
  "proc_dir_entries env fs_info ns dcache self_ino thread_self_ino k pids =
     (TGID_OFFSET - 2, (''self'', self_ino, DT_LNK))
     # (TGID_OFFSET - 1, (''thread-self'', thread_self_ino, DT_LNK))
     # pid_entries dcache (filter (\<lambda>(m, t). visible env fs_info k t) (leaders ns pids))"

lemma proc_fill_cache_entry: "proc_fill_cache dcache a name ctx = dir_emit a (fill_entry dcache name) ctx"
  by (simp add: proc_fill_cache_def fill_entry_def split: option.splits prod.splits)

lemma tgid_name_fits: "m < PID_MAX_LIMIT \<Longrightarrow> snprintf_trunc 11 (dec_nat m) = dec_nat m"
  using length_dec_nat [of m 10] by (simp add: snprintf_trunc_def PID_MAX_LIMIT_def)

definition holds :: "tptr \<Rightarrow> tptr option \<Rightarrow> int" where
  "holds p t = (if t = Some p then 1 else 0)"

lemma iter_refs [simp]:
  "task_refs p (put_iter t) = - holds p t" "task_refs p (get_iter t) = holds p t"
  "holds p None = 0" "holds p (Some q) = (if p = q then 1 else 0)"
  by (auto simp: put_iter_def get_iter_def holds_def split: option.splits)

text \<open>The loop walks the visible leaders and drops every reference it takes.\<close>

lemma readdir_loop_refines:
  assumes "pid_ns_ok ns pids" "length (pids_from n pids) < fuel"
  shows "\<exists>ev. readdir_loop fuel env fs ns dcache a k (n, held) ctx
        = Some (emit_seq a (pid_entries dcache (filter (\<lambda>(m, t). visible env fs k t)
                  (leaders ns (pids_from n pids)))) (int PID_MAX_LIMIT + TGID_OFFSET) ctx, ev)
      \<and> (\<forall>p. task_refs p ev = - holds p held)"
  using assms(2)
proof (induction fuel arbitrary: n held ctx)
  case (Suc fuel)
  note spec = next_tgid_retry_spec [OF assms(1) pids_length [OF assms(1)], of n]
  show ?case
  proof (cases "leaders ns (pids_from n pids)")
    case Nil
    then obtain x where "next_tgid_retry PID_MAX_LIMIT ns n = Some (x, None)" using spec by auto
    then show ?thesis by (simp add: next_tgid_def Nil pid_entries_def)
  next
    case (Cons mt ls)
    obtain m t where mt: "mt = (m, t)" by (cases mt)
    have nx: "next_tgid_retry PID_MAX_LIMIT ns n = Some (m, Some t)" "m < PID_MAX_LIMIT"
      and ls: "ls = leaders ns (pids_from (m + 1) pids)"
      and less: "length (pids_from (m + 1) pids) < fuel"
      using spec Cons mt Suc.prems by auto
    note IH = Suc.IH [OF less, of "Some t"]
    show ?thesis
    proof (cases "visible env fs k t")
      case False
      then show ?thesis using IH [of ctx] nx ls Cons mt
        by (fastforce simp: next_tgid_def visible_def)
    next
      case True
      let ?c = "ctx\<lparr>ctx_pos := int m + TGID_OFFSET\<rparr>" and ?e = "fill_entry dcache (dec_nat m)"
      show ?thesis using True nx ls Cons mt IH [of "?c\<lparr>ctx_out := ctx_out ctx @ [?e]\<rparr>"]
        by (cases "a (ctx_out ctx) ?e")
          (auto simp: next_tgid_def visible_def tgid_name_fits proc_fill_cache_entry dir_emit_def
            pid_entries_def)
    qed
  qed
qed simp

lemma from_pos_pid_entries:
  "from_pos pos (pid_entries dcache xs) = pid_entries dcache (pids_from (nat (pos - TGID_OFFSET)) xs)"
  by (induction xs) (auto simp: pid_entries_def)

lemma visible_from:
  "filter (\<lambda>(m, t). visible env fs k t) (leaders ns (pids_from n pids))
     = pids_from n (filter (\<lambda>(m, t). visible env fs k t) (leaders ns pids))"
  unfolding leaders_from [symmetric] filter_filter by (rule filter_cong) auto

lemma readdir_tail:
  assumes "pid_ns_ok ns pids" "TGID_OFFSET \<le> ctx_pos ctx" "ctx_pos ctx < int PID_MAX_LIMIT + TGID_OFFSET"
  shows "\<exists>ev. readdir_loop PID_MAX_LIMIT env fs ns dcache a k
          (nat ((ctx_pos ctx - TGID_OFFSET) mod 2 ^ 32), None) ctx
        = Some (emit_seq a (from_pos (ctx_pos ctx) (pid_entries dcache (filter (\<lambda>(m, t). visible env fs k t)
                  (leaders ns pids)))) (int PID_MAX_LIMIT + TGID_OFFSET) ctx, ev)
      \<and> (\<forall>p. task_refs p ev = 0)"
proof -
  have "(ctx_pos ctx - TGID_OFFSET) mod 2 ^ 32 = ctx_pos ctx - TGID_OFFSET"
    using assms(2,3) by (intro mod_pos_pos_trivial) (simp_all add: PID_MAX_LIMIT_def)
  then show ?thesis
    using readdir_loop_refines [OF assms(1) pids_length [OF assms(1)], where n = "nat (ctx_pos ctx - TGID_OFFSET)" and env = env and fs = fs and dcache = dcache and a = a and k = k and held = None and ctx = ctx]
    by (simp only: from_pos_pid_entries visible_from) simp
qed

lemma from_pos_dir_entries:
  "from_pos pos (proc_dir_entries env fs ns dcache si ti k pids)
     = (if pos \<le> TGID_OFFSET - 2 then [(TGID_OFFSET - 2, (''self'', si, DT_LNK))] else [])
     @ (if pos \<le> TGID_OFFSET - 1 then [(TGID_OFFSET - 1, (''thread-self'', ti, DT_LNK))] else [])
     @ from_pos pos (pid_entries dcache (filter (\<lambda>(m, t). visible env fs k t) (leaders ns pids)))"
  by (simp add: proc_dir_entries_def)

lemma readdir_self_accepted:
  assumes "ctx_pos ctx = TGID_OFFSET - 2" "a (ctx_out ctx) (''self'', si, DT_LNK)"
  shows "proc_pid_readdir env fs ns dcache si ti a k ctx
     = proc_pid_readdir env fs ns dcache si ti a k
         (ctx\<lparr>ctx_pos := TGID_OFFSET - 1, ctx_out := ctx_out ctx @ [(''self'', si, DT_LNK)]\<rparr>)"
  using assms by (simp add: proc_pid_readdir_def emit_link_def dir_emit_def PID_MAX_LIMIT_def ctx_upd_commute)

lemma readdir_thread_self_accepted:
  assumes "ctx_pos ctx = TGID_OFFSET - 1" "a (ctx_out ctx) (''thread-self'', ti, DT_LNK)"
  shows "proc_pid_readdir env fs ns dcache si ti a k ctx
     = proc_pid_readdir env fs ns dcache si ti a k
         (ctx\<lparr>ctx_pos := TGID_OFFSET, ctx_out := ctx_out ctx @ [(''thread-self'', ti, DT_LNK)]\<rparr>)"
  using assms by (simp add: proc_pid_readdir_def emit_link_def dir_emit_def PID_MAX_LIMIT_def ctx_upd_commute)

lemma from_pos_self:
  "from_pos (TGID_OFFSET - 2) (proc_dir_entries env fs ns dcache si ti k pids)
     = (TGID_OFFSET - 2, (''self'', si, DT_LNK))
       # from_pos (TGID_OFFSET - 1) (proc_dir_entries env fs ns dcache si ti k pids)"
  "from_pos (TGID_OFFSET - 1) (proc_dir_entries env fs ns dcache si ti k pids)
     = (TGID_OFFSET - 1, (''thread-self'', ti, DT_LNK))
       # from_pos TGID_OFFSET (proc_dir_entries env fs ns dcache si ti k pids)"
  by (simp_all add: from_pos_dir_entries from_pos_pid_entries)

text \<open>\<open>walks ctx\<close>: the call refines the reference walk from \<open>ctx\<close> and balances its references.\<close>

definition walks where
  "walks env fs ns dcache si ti a k pids ctx \<longleftrightarrow>
     (\<exists>ev. proc_pid_readdir env fs ns dcache si ti a k ctx
        = Some (emit_seq a (from_pos (ctx_pos ctx) (proc_dir_entries env fs ns dcache si ti k pids))
                  (int PID_MAX_LIMIT + TGID_OFFSET) ctx, ev)
      \<and> (\<forall>p. task_refs p ev = 0))"

lemma walks_tail:
  assumes "pid_ns_ok ns pids" "TGID_OFFSET \<le> ctx_pos ctx" "ctx_pos ctx < int PID_MAX_LIMIT + TGID_OFFSET"
  shows "walks env fs ns dcache si ti a k pids ctx"
  using readdir_tail [OF assms] assms(2,3)
  by (auto simp: walks_def proc_pid_readdir_def from_pos_dir_entries)

lemma walks_thread_self:
  assumes "pid_ns_ok ns pids" "ctx_pos ctx = TGID_OFFSET - 1"
  shows "walks env fs ns dcache si ti a k pids ctx"
proof (cases "a (ctx_out ctx) (''thread-self'', ti, DT_LNK)")
  case True
  let ?c = "ctx\<lparr>ctx_pos := TGID_OFFSET, ctx_out := ctx_out ctx @ [(''thread-self'', ti, DT_LNK)]\<rparr>"
  have "walks env fs ns dcache si ti a k pids ?c"
    by (rule walks_tail [OF assms(1)]) (simp_all add: PID_MAX_LIMIT_def)
  then show ?thesis
    unfolding walks_def readdir_thread_self_accepted [where a = a, OF assms(2) True] assms(2) from_pos_self(2)
    by (simp add: emit_seq_accepts [where a = a and ctx = ctx and c = ?c, OF True] del: emit_seq.simps)
next
  case False
  then show ?thesis unfolding walks_def assms(2) from_pos_self(2)
    using assms(2) by (simp add: proc_pid_readdir_def emit_link_def dir_emit_def PID_MAX_LIMIT_def)
qed

lemma walks_self:
  assumes "pid_ns_ok ns pids" "ctx_pos ctx = TGID_OFFSET - 2"
  shows "walks env fs ns dcache si ti a k pids ctx"
proof (cases "a (ctx_out ctx) (''self'', si, DT_LNK)")
  case True
  let ?c = "ctx\<lparr>ctx_pos := TGID_OFFSET - 1, ctx_out := ctx_out ctx @ [(''self'', si, DT_LNK)]\<rparr>"
  have "walks env fs ns dcache si ti a k pids ?c"
    by (rule walks_thread_self [OF assms(1)]) simp
  then show ?thesis
    unfolding walks_def readdir_self_accepted [where a = a, OF assms(2) True] assms(2) from_pos_self(1)
    by (simp add: emit_seq_accepts [where a = a and ctx = ctx and c = ?c, OF True] del: emit_seq.simps)
next
  case False
  then show ?thesis unfolding walks_def assms(2) from_pos_self(1)
    using assms(2) by (simp add: proc_pid_readdir_def emit_link_def dir_emit_def PID_MAX_LIMIT_def)
qed

lemma proc_pid_readdir_walks:
  assumes "pid_ns_ok ns pids" "TGID_OFFSET - 2 \<le> ctx_pos ctx" "ctx_pos ctx < int PID_MAX_LIMIT + TGID_OFFSET"
  shows "walks env fs ns dcache si ti a k pids ctx"
proof -
  consider "ctx_pos ctx = TGID_OFFSET - 2" | "ctx_pos ctx = TGID_OFFSET - 1" | "TGID_OFFSET \<le> ctx_pos ctx"
    using assms(2) by linarith
  then show ?thesis using walks_tail walks_self walks_thread_self assms by cases auto
qed

subsection \<open>The directory is resumable\<close>

text \<open>One call from a position with an empty buffer: the entries and the position left.\<close>

definition pid_read ::
  "proc_env \<Rightarrow> proc_fs_info \<Rightarrow> pid_ns \<Rightarrow> (string \<Rightarrow> (nat \<times> umode) option) \<Rightarrow> nat \<Rightarrow> nat \<Rightarrow> kernel
   \<Rightarrow> actor \<Rightarrow> int \<Rightarrow> dirent list \<times> int" where
  "pid_read env fs ns dcache si ti k a pos =
     (case proc_pid_readdir env fs ns dcache si ti a k \<lparr>ctx_pos = pos, ctx_out = []\<rparr> of
        None \<Rightarrow> ([], -1) | Some (c, ev) \<Rightarrow> (ctx_out c, ctx_pos c))"

lemma leaders_bounds: "pid_ns_ok ns pids \<Longrightarrow> (m, t) \<in> set (leaders ns pids) \<Longrightarrow> 0 < m \<and> m < PID_MAX_LIMIT"
  by (auto simp: leaders_def List.map_filter_def pid_ns_ok_def)

lemma leaders_sorted: "sorted_wrt (<) (map fst pids) \<Longrightarrow> sorted_wrt (<) (map fst (leaders ns pids))"
proof (induction pids)
  case (Cons x ps)
  have "fst ` set (leaders ns ps) \<subseteq> fst ` set ps" by (force simp: leaders_def List.map_filter_def)
  then show ?case using Cons by (cases x) (fastforce split: option.splits)
qed simp

lemma sorted_filter_fst: "sorted_wrt (<) (map fst xs) \<Longrightarrow> sorted_wrt (<) (map fst (filter P xs))"
  by (induction xs) auto

lemma dir_entries_positions:
  assumes "pid_ns_ok ns pids"
  shows "sorted_wrt (<) (map fst (proc_dir_entries env fs ns dcache si ti k pids))
    \<and> (\<forall>(p, e) \<in> set (proc_dir_entries env fs ns dcache si ti k pids). p < int PID_MAX_LIMIT + TGID_OFFSET)"
proof -
  let ?ls = "filter (\<lambda>(m, t). visible env fs k t) (leaders ns pids)"
  have "sorted_wrt (<) (map fst ?ls)"
    using assms by (intro sorted_filter_fst leaders_sorted) (simp add: pid_ns_ok_def)
  then have "sorted_wrt (<) (map fst (pid_entries dcache ?ls))"
    by (simp add: pid_entries_def sorted_wrt_map split_beta)
  moreover have "\<forall>(p, e) \<in> set (pid_entries dcache ?ls). TGID_OFFSET < p \<and> p < int PID_MAX_LIMIT + TGID_OFFSET"
    using leaders_bounds [OF assms] by (auto simp: pid_entries_def)
  ultimately show ?thesis
    by (fastforce simp: proc_dir_entries_def PID_MAX_LIMIT_def split_beta)
qed

interpretation pid_dir: positional_dir "pid_read env fs ns dcache si ti k"
    "proc_dir_entries env fs ns dcache si ti k pids" "int PID_MAX_LIMIT + TGID_OFFSET"
    "\<lambda>pos. pid_ns_ok ns pids \<and> TGID_OFFSET - 2 \<le> pos"
  for env fs ns dcache si ti k pids
proof unfold_locales
  fix pos a
  assume ok: "pid_ns_ok ns pids \<and> TGID_OFFSET - 2 \<le> pos"
  show "int PID_MAX_LIMIT + TGID_OFFSET \<le> pos \<Longrightarrow> pid_read env fs ns dcache si ti k a pos = ([], pos)"
    by (simp add: pid_read_def proc_pid_readdir_def)
  show "pos < int PID_MAX_LIMIT + TGID_OFFSET \<Longrightarrow> pid_read env fs ns dcache si ti k a pos
      = (let c = emit_seq a (from_pos pos (proc_dir_entries env fs ns dcache si ti k pids))
              (int PID_MAX_LIMIT + TGID_OFFSET) \<lparr>ctx_pos = pos, ctx_out = []\<rparr> in (ctx_out c, ctx_pos c))"
    using proc_pid_readdir_walks [of ns pids "\<lparr>ctx_pos = pos, ctx_out = []\<rparr>" env fs dcache si ti a k] ok
    by (auto simp: pid_read_def walks_def Let_def)
  show "sorted_wrt (<) (map fst (proc_dir_entries env fs ns dcache si ti k pids))
      \<and> (\<forall>(p, e) \<in> set (proc_dir_entries env fs ns dcache si ti k pids). p < int PID_MAX_LIMIT + TGID_OFFSET)"
    using dir_entries_positions ok by blast
qed auto

lemma fst_fill_entry [simp]: "fst (fill_entry dcache name) = name"
  by (simp add: fill_entry_def split: option.splits prod.splits)

lemma fill_entry_eq: "fill_entry dcache n = fill_entry dcache m \<longleftrightarrow> n = m"
  by (metis fst_fill_entry)

lemma dec_nat_not_word [simp]: "dec_nat m \<noteq> ''self''" "dec_nat m \<noteq> ''thread-self''"
  using dec_nat_chars [of m] by auto

lemmas word_not_dec_nat [simp] = dec_nat_not_word [symmetric]

lemma pid_entry_names: "(p, e) \<in> set (pid_entries dcache ls) \<Longrightarrow> \<exists>m. fst e = dec_nat m"
  by (auto simp: pid_entries_def)

lemma pid_read_pos:
  "from_pos (TGID_OFFSET - 2) (proc_dir_entries env fs ns dcache si ti k pids)
     = proc_dir_entries env fs ns dcache si ti k pids"
  by (simp add: from_pos_dir_entries from_pos_pid_entries proc_dir_entries_def)

subsection \<open>A concrete namespace\<close>

text \<open>Two processes, 1 and 42, and a thread with number 43 that leads no group.\<close>

definition demo_pids :: "(nat \<times> pidptr) list" where
  "demo_pids = [(1, 1), (42, 2), (43, 3)]"

definition demo_ns :: pid_ns where
  "demo_ns = \<lparr>find_ge_pid = (\<lambda>n. map_option snd (find (\<lambda>(m, q). n \<le> m) demo_pids)),
     pid_nr_ns = (\<lambda>q. if q = 1 then 1 else if q = 2 then 42 else 43),
     pid_task_tgid = (\<lambda>q. if q = 1 then Some 1 else if q = 2 then Some 2 else None),
     find_task_by_pid_ns = (\<lambda>n. if n = 1 then Some 1 else if n = 42 then Some 2 else None)\<rparr>"

definition demo_fs :: proc_fs_info where
  "demo_fs = \<lparr>hide_pid = HIDEPID_OFF, pid_gid = 0\<rparr>"

definition demo_name_to_int :: "string \<Rightarrow> u32" where
  "demo_name_to_int s = of_nat (dec_val s)"

lemma demo_ns_ok: "pid_ns_ok demo_ns demo_pids"
  by (simp add: pid_ns_ok_def demo_ns_def demo_pids_def PID_MAX_LIMIT_def)

lemma demo_leaders: "leaders demo_ns demo_pids = [(1, 1), (42, 2)]"
  by (simp add: demo_ns_def demo_pids_def)

lemma demo_hidden: "is_hidden (set_cloak 1 2 demo_kernel) 2" "\<not> is_hidden (set_cloak 1 2 demo_kernel) 1"
  by (simp_all add: is_hidden_def set_cloak_def demo_task_def)

lemma demo_perm: "has_pid_permissions (demo_env True) fs t h"
  by (simp add: has_pid_permissions_def demo_env_def)

subsection \<open>Properties\<close>

text \<open>An entry that is listed belongs to a visible task, and a full read lists every visible leader.\<close>

lemma leader_unique:
  "pid_ns_ok ns pids \<Longrightarrow> (m, t) \<in> set (leaders ns pids) \<Longrightarrow> (m, t') \<in> set (leaders ns pids) \<Longrightarrow> t' = t"
  using leaders_sorted [of pids ns] by (auto simp: pid_ns_ok_def strict_sorted_iff dest: eq_key_imp_eq_value)

lemma listed_visible:
  assumes "pid_ns_ok ns pids" "FIRST_PROCESS_ENTRY \<le> pos" "(m, t) \<in> set (leaders ns pids)"
    and "dec_nat m \<in> fst ` set (fst (pid_read env fs ns dcache si ti k a pos))"
  shows "visible env fs k t"
proof -
  obtain e where "e \<in> set (fst (pid_read env fs ns dcache si ti k a pos))" "fst e = dec_nat m" using assms(4) by auto
  then have "e \<in> set (map snd (from_pos pos (proc_dir_entries env fs ns dcache si ti k pids)))"
    using pid_dir.rd_sound [of ns pids pos e] assms(1,2) by (simp add: TGID_OFFSET_def)
  then have "e \<in> snd ` set (proc_dir_entries env fs ns dcache si ti k pids)"
    by (force simp: from_pos_def)
  then obtain t' where t': "(m, t') \<in> set (leaders ns pids)" "visible env fs k t'"
    using \<open>fst e = dec_nat m\<close> by (auto simp: proc_dir_entries_def pid_entries_def)
  then show ?thesis using leader_unique [OF assms(1,3)] by blast
qed

lemma visible_listed:
  assumes "pid_ns_ok ns pids" "(m, t) \<in> set (leaders ns pids)"
  shows "dec_nat m \<in> fst ` set (fst (pid_read env fs ns dcache si ti k greedy FIRST_PROCESS_ENTRY)) \<longleftrightarrow> visible env fs k t"
proof -
  have e: "FIRST_PROCESS_ENTRY = TGID_OFFSET - 2" by (simp add: TGID_OFFSET_def)
  have "fst (pid_read env fs ns dcache si ti k greedy FIRST_PROCESS_ENTRY)
      = map snd (proc_dir_entries env fs ns dcache si ti k pids)"
    using pid_dir.rd_greedy [of ns pids "TGID_OFFSET - 2"] assms(1) e pid_read_pos by simp
  moreover have "dec_nat m \<in> fst ` set (map snd (proc_dir_entries env fs ns dcache si ti k pids))
      \<longleftrightarrow> (\<exists>t'. (m, t') \<in> set (leaders ns pids) \<and> visible env fs k t')"
    by (force simp: proc_dir_entries_def pid_entries_def)
  ultimately show ?thesis using leader_unique [OF assms] assms(2) by metis
qed

text \<open>
  C7: A read of \<^verbatim>\<open>/proc\<close> with room for everything terminates and reports \<^verbatim>\<open>self\<close>, \<^verbatim>\<open>thread-self\<close> and then,
  in ascending order and each once, exactly the thread group leaders that the reader may see and
  that are not cloaked; it leaves the end position and drops every task reference it took.\<close>

theorem proc_pid_readdir_complete:
  assumes "pid_ns_ok ns pids"
  shows "\<exists>c ev. proc_pid_readdir env fs ns dcache si ti greedy k \<lparr>ctx_pos = FIRST_PROCESS_ENTRY, ctx_out = []\<rparr> = Some (c, ev)
    \<and> map fst (ctx_out c) = ''self'' # ''thread-self''
        # map (dec_nat \<circ> fst) (filter (\<lambda>(m, t). has_pid_permissions env fs t HIDEPID_INVISIBLE \<and> \<not> is_hidden k t) (leaders ns pids))
    \<and> ctx_pos c = int PID_MAX_LIMIT + TGID_OFFSET \<and> (\<forall>p. task_refs p ev = 0)"
proof -
  have e: "FIRST_PROCESS_ENTRY = TGID_OFFSET - 2" by (simp add: TGID_OFFSET_def)
  have "walks env fs ns dcache si ti greedy k pids \<lparr>ctx_pos = TGID_OFFSET - 2, ctx_out = []\<rparr>"
    by (rule proc_pid_readdir_walks [OF assms]) (simp_all add: PID_MAX_LIMIT_def)
  moreover have "map (fst \<circ> snd) (proc_dir_entries env fs ns dcache si ti k pids) = ''self'' # ''thread-self''
        # map (dec_nat \<circ> fst) (filter (\<lambda>(m, t). has_pid_permissions env fs t HIDEPID_INVISIBLE \<and> \<not> is_hidden k t) (leaders ns pids))"
    by (simp add: proc_dir_entries_def pid_entries_def visible_def split_def o_def)
  moreover obtain ev where
    "proc_pid_readdir env fs ns dcache si ti greedy k \<lparr>ctx_pos = TGID_OFFSET - 2, ctx_out = []\<rparr>
       = Some (emit_seq greedy (proc_dir_entries env fs ns dcache si ti k pids)
           (int PID_MAX_LIMIT + TGID_OFFSET) \<lparr>ctx_pos = TGID_OFFSET - 2, ctx_out = []\<rparr>, ev)"
    and "\<forall>p. task_refs p ev = 0"
    using calculation(1) by (auto simp: walks_def pid_read_pos)
  ultimately show ?thesis unfolding e by (simp add: emit_seq_greedy emit_seq_greedy_out)
qed

theorem proc_pid_readdir_complete_witness:
  "\<exists>c ev. proc_pid_readdir (demo_env True) demo_fs demo_ns (\<lambda>_. None) 5 6 greedy (set_cloak 1 2 demo_kernel)
       \<lparr>ctx_pos = FIRST_PROCESS_ENTRY, ctx_out = []\<rparr> = Some (c, ev)
     \<and> map fst (ctx_out c) = [''self'', ''thread-self'', ''1'']"
proof -
  have "dec_nat 1 = ''1''" by code_simp
  then show ?thesis
    using proc_pid_readdir_complete [OF demo_ns_ok, of "demo_env True" demo_fs "\<lambda>_. None" 5 6 "set_cloak 1 2 demo_kernel"]
    by (auto simp: demo_leaders demo_hidden demo_hidden(2) [simplified] demo_perm)
qed

text \<open>
  C3: A cloaked process never shows up in a listing while hiding is on: whatever the reader's rights, the
  buffer sizes of the calls and the position a call starts at, no entry bears its number.\<close>

theorem hidden_process_not_listed:
  assumes "pid_ns_ok ns pids" "FIRST_PROCESS_ENTRY \<le> pos"
    and "(m, t) \<in> set (leaders ns pids)" "hidden_flag k = 1" "t \<in> cloaked k"
  shows "dec_nat m \<notin> fst ` set (fst (pid_read env fs ns dcache si ti k a pos))"
  using listed_visible [OF assms(1-3), where dcache = dcache and si = si and ti = ti and a = a] assms(4,5)
  by (auto simp: visible_def is_hidden_iff)

theorem hidden_process_not_listed_witness:
  "dec_nat 42 \<notin> fst ` set (fst (pid_read (demo_env True) demo_fs demo_ns (\<lambda>_. None) 5 6
     (set_cloak 1 2 demo_kernel) greedy FIRST_PROCESS_ENTRY))"
proof -
  have "(42, 2) \<in> set (leaders demo_ns demo_pids)" "2 \<in> cloaked (set_cloak 1 2 demo_kernel)"
    using demo_hidden(1) by (simp_all add: demo_leaders is_hidden_iff)
  moreover have "hidden_flag (set_cloak 1 2 demo_kernel) = 1" by (simp add: set_cloak_def)
  ultimately show ?thesis using hidden_process_not_listed [OF demo_ns_ok order_refl] by blast
qed

text \<open>
  C8: Reading \<^verbatim>\<open>/proc\<close> in pieces loses and repeats nothing: whatever a first call of any size returned, a second
  call from the position it left completes the listing, and no entry is in both.\<close>

theorem proc_pid_readdir_resumes:
  assumes "pid_ns_ok ns pids" "FIRST_PROCESS_ENTRY \<le> pos"
    and "pid_read env fs ns dcache si ti k a pos = (es, pos')"
  shows "es @ fst (pid_read env fs ns dcache si ti k greedy pos')
      = fst (pid_read env fs ns dcache si ti k greedy pos)
    \<and> set es \<inter> set (fst (pid_read env fs ns dcache si ti k b pos')) = {}"
proof -
  let ?xs = "proc_dir_entries env fs ns dcache si ti k pids"
  have ok: "pid_ns_ok ns pids \<and> TGID_OFFSET - 2 \<le> pos" using assms(1,2) by (simp add: TGID_OFFSET_def)
  have "sorted_wrt (<) (map fst (leaders ns pids))"
    using leaders_sorted assms(1) by (simp add: pid_ns_ok_def)
  then have "distinct (map fst (filter (\<lambda>(m, t). visible env fs k t) (leaders ns pids)))"
    using sorted_filter_fst strict_sorted_iff by blast
  then have "distinct (map snd (pid_entries dcache (filter (\<lambda>(m, t). visible env fs k t) (leaders ns pids))))"
    by (auto simp: pid_entries_def distinct_map inj_on_def fill_entry_eq)
  then have "distinct (map snd ?xs)"
    using pid_entry_names by (fastforce simp: proc_dir_entries_def)
  then have "distinct (map snd (from_pos pos ?xs))"
    unfolding from_pos_def by (rule distinct_map_filter)
  then show ?thesis
    using pid_dir.rd_resume [OF ok assms(3)] pid_dir.rd_greedy [OF ok, of env fs dcache si ti k]
      pid_dir.rd_twice_disjoint [OF ok _ assms(3)] by simp
qed

theorem proc_pid_readdir_resumes_witness:
  "fst (pid_read (demo_env True) demo_fs demo_ns (\<lambda>_. None) 5 6 demo_kernel (\<lambda>out _. length out < 2) FIRST_PROCESS_ENTRY)
     @ fst (pid_read (demo_env True) demo_fs demo_ns (\<lambda>_. None) 5 6 demo_kernel greedy
         (snd (pid_read (demo_env True) demo_fs demo_ns (\<lambda>_. None) 5 6 demo_kernel (\<lambda>out _. length out < 2) FIRST_PROCESS_ENTRY)))
   = fst (pid_read (demo_env True) demo_fs demo_ns (\<lambda>_. None) 5 6 demo_kernel greedy FIRST_PROCESS_ENTRY)"
  using proc_pid_readdir_resumes [OF demo_ns_ok order_refl surjective_pairing] by blast

text \<open>
  C9: \<^verbatim>\<open>proc_pid_lookup\<close> answers \<^verbatim>\<open>-ENOENT\<close> for a cloaked task while hiding is on, as for a number nobody has.  But on that path
  it keeps the task reference it took: each lookup of a hidden process leaks one
  \<^verbatim>\<open>task_struct\<close> reference, and every other path drops what it took.\<close>

theorem proc_pid_lookup_hidden:
  assumes "name_to_int name \<noteq> - 1" "find_task_by_pid_ns ns (name_to_int name) = Some t" "t \<in> present k"
  shows "(is_hidden k t \<longrightarrow> fst (proc_pid_lookup env fs ns name_to_int nl k name) = Inl ENOENT)
    \<and> task_refs p (snd (proc_pid_lookup env fs ns name_to_int nl k name))
        = (if is_hidden k t \<and> p = t then 1 else 0)"
proof -
  obtain ts where ts: "tasks k t = Some ts" using assms(3) by (auto simp: present_def)
  have "task_refs p (snd (proc_pid_instantiate env nl ts)) = 0" by (rule balance)
  then show ?thesis using assms(1,2) ts
    by (auto simp: proc_pid_lookup_def is_hidden_def Let_def split: prod.splits)
qed

theorem proc_pid_lookup_hidden_witness:
  "proc_pid_lookup (demo_env True) demo_fs demo_ns (\<lambda>_. 42) 3 (set_cloak 1 2 demo_kernel) ''42'' = (Inl ENOENT, [Get_task 2])
   \<and> task_refs 2 (snd (proc_pid_lookup (demo_env True) demo_fs demo_ns (\<lambda>_. 42) 3 (set_cloak 1 2 demo_kernel) ''42'')) = 1"
proof -
  have "find_task_by_pid_ns demo_ns 42 = Some 2" by (simp add: demo_ns_def)
  moreover have "2 \<in> present (set_cloak 1 2 demo_kernel)" by (simp add: present_def set_cloak_def dom_def)
  moreover have "proc_pid_lookup (demo_env True) demo_fs demo_ns (\<lambda>_. 42) 3 (set_cloak 1 2 demo_kernel) ''42''
      = (Inl ENOENT, [Get_task 2])"
    by (simp add: proc_pid_lookup_def demo_ns_def set_cloak_def demo_task_def)
  ultimately show ?thesis
    using proc_pid_lookup_hidden [of "\<lambda>_. 42" "''42''" demo_ns 2 "set_cloak 1 2 demo_kernel" "demo_env True" demo_fs 3 2] demo_hidden(1)
    by simp
qed

text \<open>
  C10: Listing and lookup agree on every \<^verbatim>\<open>hidepid=\<close> mode but \<^verbatim>\<open>invisible\<close> (where the lookup succeeds
  and the permission check refuses): a leader's number is listed exactly when looking that name up
  gives an inode.\<close>

theorem lookup_agrees_with_listing:
  assumes "pid_ns_ok ns pids" "(m, t) \<in> set (leaders ns pids)" "hide_pid fs \<noteq> HIDEPID_INVISIBLE"
    and "\<And>n. n < PID_MAX_LIMIT \<Longrightarrow> name_to_int (dec_nat n) = of_nat n"
    and "find_task_by_pid_ns ns (of_nat m) = Some t" "tasks k t = Some ts"
    and "t_thread_pid ts \<noteq> None" "new_ino env \<noteq> None"
  shows "dec_nat m \<in> fst ` set (fst (pid_read env fs ns dcache si ti k greedy FIRST_PROCESS_ENTRY))
    \<longleftrightarrow> \<not> is_err (fst (proc_pid_lookup env fs ns name_to_int nl k (dec_nat m)))"
proof -
  note l = visible_listed [OF assms(1,2), where env = env and fs = fs and dcache = dcache and si = si and ti = ti and k = k]
  have m: "m < PID_MAX_LIMIT" using leaders_bounds assms(1,2) by blast
  have "(of_nat m :: u32) \<noteq> - 1"
    using m by (intro u32_not_minus_one) (simp add: PID_MAX_LIMIT_def)
  moreover have "has_pid_permissions env fs t HIDEPID_INVISIBLE
      = (hide_pid fs = HIDEPID_NOT_PTRACEABLE \<longrightarrow> has_pid_permissions env fs t HIDEPID_NO_ACCESS)"
    using assms(3) by (cases "hide_pid fs") (simp_all add: has_pid_permissions_def)
  moreover have "\<exists>i ev. proc_pid_instantiate env nl ts = (Inr i, ev)"
    using assms(7,8) by (auto simp: proc_pid_instantiate_def proc_pid_make_inode_def Let_def split: prod.splits)
  ultimately show ?thesis unfolding l
    using assms(4) [OF m] assms(5,6)
    by (auto simp: proc_pid_lookup_def visible_def is_hidden_def Let_def)
qed

theorem lookup_agrees_with_listing_witness:
  "dec_nat 42 \<in> fst ` set (fst (pid_read (demo_env True) demo_fs demo_ns (\<lambda>_. None) 5 6 demo_kernel greedy FIRST_PROCESS_ENTRY))
   \<longleftrightarrow> \<not> is_err (fst (proc_pid_lookup (demo_env True) demo_fs demo_ns demo_name_to_int 3 demo_kernel (dec_nat 42)))"
proof (rule lookup_agrees_with_listing [OF demo_ns_ok, where t = 2 and ts = "demo_task 42 1000 ''bash'' 2"])
  show "(42, 2) \<in> set (leaders demo_ns demo_pids)" by (simp add: demo_leaders)
  show "tasks demo_kernel 2 = Some (demo_task 42 1000 ''bash'' 2)" by simp
qed (simp_all add: demo_fs_def demo_ns_def demo_env_def demo_task_def demo_name_to_int_def)

end
