(* ===== verification/Proc_Tables.thy ===== *)
theory Proc_Tables
  imports Proc_Pid
begin

unbundle bit_operations_syntax

section \<open>The files of \<^verbatim>\<open>/proc/<pid>\<close>: tables, lookup and listing\<close>

text \<open>
  \<^verbatim>\<open>struct pid_entry\<close> and its constructor macros, the tables \<^verbatim>\<open>tgid_base_stuff\<close>, \<^verbatim>\<open>tid_base_stuff\<close> and the
  \<^verbatim>\<open>attr\<close> tables of \<^verbatim>\<open>fs/proc/base.c\<close>, and the functions that walk them: \<^verbatim>\<open>pid_entry_nlink\<close>,
  \<^verbatim>\<open>proc_pident_lookup\<close>, \<^verbatim>\<open>proc_pident_readdir\<close>.  A row of a table carries the configuration options
  that guard it (\<^verbatim>\<open>#ifdef\<close>); \<open>table cfg rows\<close> is the array a kernel configured by \<open>cfg\<close> has.

  \<^verbatim>\<open>dir_emit_dots\<close> is a parameter; \<open>dots_doc\<close> is what is documented of it.
\<close>

record pid_entry =
  pe_name :: string
  pe_mode :: umode
  pe_iop :: "string option"
  pe_fop :: "string option"
  pe_op :: string

type_synonym pid_row = "string list \<times> pid_entry"

definition NOD :: "string \<Rightarrow> umode \<Rightarrow> string option \<Rightarrow> string option \<Rightarrow> string \<Rightarrow> pid_entry" where
  "NOD name mode iop fop op = \<lparr>pe_name = name, pe_mode = mode, pe_iop = iop, pe_fop = fop, pe_op = op\<rparr>"

definition DIR :: "string \<Rightarrow> umode \<Rightarrow> string \<Rightarrow> string \<Rightarrow> pid_entry" where
  "DIR name mode iops fops = NOD name (S_IFDIR OR mode) (Some iops) (Some fops) []"

definition LNK :: "string \<Rightarrow> string \<Rightarrow> pid_entry" where
  "LNK name get_link = NOD name (S_IFLNK OR S_IRWXUGO) (Some ''proc_pid_link_inode_operations'') None get_link"

definition REG :: "string \<Rightarrow> umode \<Rightarrow> string \<Rightarrow> pid_entry" where
  "REG name mode fops = NOD name (S_IFREG OR mode) None (Some fops) []"

definition ONE :: "string \<Rightarrow> umode \<Rightarrow> string \<Rightarrow> pid_entry" where
  "ONE name mode show_fn = NOD name (S_IFREG OR mode) None (Some ''proc_single_file_operations'') show_fn"

definition ATTR :: "string \<Rightarrow> string \<Rightarrow> umode \<Rightarrow> pid_entry" where
  "ATTR lsm name mode = NOD name (S_IFREG OR mode) None (Some ''proc_pid_attr_operations'') lsm"

lemmas macro_defs = NOD_def DIR_def LNK_def REG_def ONE_def ATTR_def

subsection \<open>The tables\<close>

definition table :: "(string \<Rightarrow> bool) \<Rightarrow> pid_row list \<Rightarrow> pid_entry list" where
  "table cfg rows = map snd (filter (\<lambda>(guards, e). list_all cfg guards) rows)"

definition smack_attr_dir_stuff_rows :: "pid_row list" where
  "smack_attr_dir_stuff_rows =
    [([], ATTR ''smack'' ''current'' 0x1B6)]"

definition apparmor_attr_dir_stuff_rows :: "pid_row list" where
  "apparmor_attr_dir_stuff_rows =
    [([], ATTR ''apparmor'' ''current'' 0x1B6),
     ([], ATTR ''apparmor'' ''prev'' 0x124),
     ([], ATTR ''apparmor'' ''exec'' 0x1B6)]"

definition attr_dir_stuff_rows :: "pid_row list" where
  "attr_dir_stuff_rows =
    [([], ATTR [] ''current'' 0x1B6),
     ([], ATTR [] ''prev'' 0x124),
     ([], ATTR [] ''exec'' 0x1B6),
     ([], ATTR [] ''fscreate'' 0x1B6),
     ([], ATTR [] ''keycreate'' 0x1B6),
     ([], ATTR [] ''sockcreate'' 0x1B6),
     ([''CONFIG_SECURITY_SMACK''], DIR ''smack'' 0x16D ''proc_smack_attr_dir_inode_ops'' ''proc_smack_attr_dir_ops''),
     ([''CONFIG_SECURITY_APPARMOR''], DIR ''apparmor'' 0x16D ''proc_apparmor_attr_dir_inode_ops'' ''proc_apparmor_attr_dir_ops'')]"

definition tgid_base_stuff_rows :: "pid_row list" where
  "tgid_base_stuff_rows =
    [([], DIR ''task'' (S_IRUGO OR S_IXUGO) ''proc_task_inode_operations'' ''proc_task_operations''),
     ([], DIR ''fd'' (S_IRUSR OR S_IXUSR) ''proc_fd_inode_operations'' ''proc_fd_operations''),
     ([], DIR ''map_files'' (S_IRUSR OR S_IXUSR) ''proc_map_files_inode_operations'' ''proc_map_files_operations''),
     ([], DIR ''fdinfo'' (S_IRUSR OR S_IXUSR) ''proc_fdinfo_inode_operations'' ''proc_fdinfo_operations''),
     ([], DIR ''ns'' (S_IRUSR OR S_IXUGO) ''proc_ns_dir_inode_operations'' ''proc_ns_dir_operations''),
     ([''CONFIG_NET''], DIR ''net'' (S_IRUGO OR S_IXUGO) ''proc_net_inode_operations'' ''proc_net_operations''),
     ([], REG ''environ'' S_IRUSR ''proc_environ_operations''),
     ([], REG ''auxv'' S_IRUSR ''proc_auxv_operations''),
     ([], ONE ''status'' S_IRUGO ''proc_pid_status''),
     ([], ONE ''personality'' S_IRUSR ''proc_pid_personality''),
     ([], ONE ''limits'' S_IRUGO ''proc_pid_limits''),
     ([''CONFIG_SCHED_DEBUG''], REG ''sched'' (S_IRUGO OR S_IWUSR) ''proc_pid_sched_operations''),
     ([''CONFIG_SCHED_AUTOGROUP''], REG ''autogroup'' (S_IRUGO OR S_IWUSR) ''proc_pid_sched_autogroup_operations''),
     ([''CONFIG_TIME_NS''], REG ''timens_offsets'' (S_IRUGO OR S_IWUSR) ''proc_timens_offsets_operations''),
     ([], REG ''comm'' (S_IRUGO OR S_IWUSR) ''proc_pid_set_comm_operations''),
     ([''CONFIG_HAVE_ARCH_TRACEHOOK''], ONE ''syscall'' S_IRUSR ''proc_pid_syscall''),
     ([], REG ''cmdline'' S_IRUGO ''proc_pid_cmdline_ops''),
     ([], ONE ''stat'' S_IRUGO ''proc_tgid_stat''),
     ([], ONE ''statm'' S_IRUGO ''proc_pid_statm''),
     ([], REG ''maps'' S_IRUGO ''proc_pid_maps_operations''),
     ([''CONFIG_NUMA''], REG ''numa_maps'' S_IRUGO ''proc_pid_numa_maps_operations''),
     ([], REG ''mem'' (S_IRUSR OR S_IWUSR) ''proc_mem_operations''),
     ([], LNK ''cwd'' ''proc_cwd_link''),
     ([], LNK ''root'' ''proc_root_link''),
     ([], LNK ''exe'' ''proc_exe_link''),
     ([], REG ''mounts'' S_IRUGO ''proc_mounts_operations''),
     ([], REG ''mountinfo'' S_IRUGO ''proc_mountinfo_operations''),
     ([], REG ''mountstats'' S_IRUSR ''proc_mountstats_operations''),
     ([''CONFIG_PROC_PAGE_MONITOR''], REG ''clear_refs'' S_IWUSR ''proc_clear_refs_operations''),
     ([''CONFIG_PROC_PAGE_MONITOR''], REG ''smaps'' S_IRUGO ''proc_pid_smaps_operations''),
     ([''CONFIG_PROC_PAGE_MONITOR''], REG ''smaps_rollup'' S_IRUGO ''proc_pid_smaps_rollup_operations''),
     ([''CONFIG_PROC_PAGE_MONITOR''], REG ''pagemap'' S_IRUSR ''proc_pagemap_operations''),
     ([''CONFIG_SECURITY''], DIR ''attr'' (S_IRUGO OR S_IXUGO) ''proc_attr_dir_inode_operations'' ''proc_attr_dir_operations''),
     ([''CONFIG_KALLSYMS''], ONE ''wchan'' S_IRUGO ''proc_pid_wchan''),
     ([''CONFIG_STACKTRACE''], ONE ''stack'' S_IRUSR ''proc_pid_stack''),
     ([''CONFIG_SCHED_INFO''], ONE ''schedstat'' S_IRUGO ''proc_pid_schedstat''),
     ([''CONFIG_LATENCYTOP''], REG ''latency'' S_IRUGO ''proc_lstats_operations''),
     ([''CONFIG_PROC_PID_CPUSET''], ONE ''cpuset'' S_IRUGO ''proc_cpuset_show''),
     ([''CONFIG_CGROUPS''], ONE ''cgroup'' S_IRUGO ''proc_cgroup_show''),
     ([''CONFIG_PROC_CPU_RESCTRL''], ONE ''cpu_resctrl_groups'' S_IRUGO ''proc_resctrl_show''),
     ([], ONE ''oom_score'' S_IRUGO ''proc_oom_score''),
     ([], REG ''oom_adj'' (S_IRUGO OR S_IWUSR) ''proc_oom_adj_operations''),
     ([], REG ''oom_score_adj'' (S_IRUGO OR S_IWUSR) ''proc_oom_score_adj_operations''),
     ([''CONFIG_AUDIT''], REG ''loginuid'' (S_IWUSR OR S_IRUGO) ''proc_loginuid_operations''),
     ([''CONFIG_AUDIT''], REG ''sessionid'' S_IRUGO ''proc_sessionid_operations''),
     ([''CONFIG_FAULT_INJECTION''], REG ''make-it-fail'' (S_IRUGO OR S_IWUSR) ''proc_fault_inject_operations''),
     ([''CONFIG_FAULT_INJECTION''], REG ''fail-nth'' 0x1A4 ''proc_fail_nth_operations''),
     ([''CONFIG_ELF_CORE''], REG ''coredump_filter'' (S_IRUGO OR S_IWUSR) ''proc_coredump_filter_operations''),
     ([''CONFIG_TASK_IO_ACCOUNTING''], ONE ''io'' S_IRUSR ''proc_tgid_io_accounting''),
     ([''CONFIG_USER_NS''], REG ''uid_map'' (S_IRUGO OR S_IWUSR) ''proc_uid_map_operations''),
     ([''CONFIG_USER_NS''], REG ''gid_map'' (S_IRUGO OR S_IWUSR) ''proc_gid_map_operations''),
     ([''CONFIG_USER_NS''], REG ''projid_map'' (S_IRUGO OR S_IWUSR) ''proc_projid_map_operations''),
     ([''CONFIG_USER_NS''], REG ''setgroups'' (S_IRUGO OR S_IWUSR) ''proc_setgroups_operations''),
     ([''CONFIG_CHECKPOINT_RESTORE'', ''CONFIG_POSIX_TIMERS''], REG ''timers'' S_IRUGO ''proc_timers_operations''),
     ([], REG ''timerslack_ns'' (S_IRUGO OR S_IWUGO) ''proc_pid_set_timerslack_ns_operations''),
     ([''CONFIG_LIVEPATCH''], ONE ''patch_state'' S_IRUSR ''proc_pid_patch_state''),
     ([''CONFIG_STACKLEAK_METRICS''], ONE ''stack_depth'' S_IRUGO ''proc_stack_depth''),
     ([''CONFIG_PROC_PID_ARCH_STATUS''], ONE ''arch_status'' S_IRUGO ''proc_pid_arch_status''),
     ([''CONFIG_SECCOMP_CACHE_DEBUG''], ONE ''seccomp_cache'' S_IRUSR ''proc_pid_seccomp_cache'')]"

definition tid_base_stuff_rows :: "pid_row list" where
  "tid_base_stuff_rows =
    [([], DIR ''fd'' (S_IRUSR OR S_IXUSR) ''proc_fd_inode_operations'' ''proc_fd_operations''),
     ([], DIR ''fdinfo'' (S_IRUSR OR S_IXUSR) ''proc_fdinfo_inode_operations'' ''proc_fdinfo_operations''),
     ([], DIR ''ns'' (S_IRUSR OR S_IXUGO) ''proc_ns_dir_inode_operations'' ''proc_ns_dir_operations''),
     ([''CONFIG_NET''], DIR ''net'' (S_IRUGO OR S_IXUGO) ''proc_net_inode_operations'' ''proc_net_operations''),
     ([], REG ''environ'' S_IRUSR ''proc_environ_operations''),
     ([], REG ''auxv'' S_IRUSR ''proc_auxv_operations''),
     ([], ONE ''status'' S_IRUGO ''proc_pid_status''),
     ([], ONE ''personality'' S_IRUSR ''proc_pid_personality''),
     ([], ONE ''limits'' S_IRUGO ''proc_pid_limits''),
     ([''CONFIG_SCHED_DEBUG''], REG ''sched'' (S_IRUGO OR S_IWUSR) ''proc_pid_sched_operations''),
     ([], NOD ''comm'' (S_IFREG OR S_IRUGO OR S_IWUSR) (Some ''proc_tid_comm_inode_operations'') (Some ''proc_pid_set_comm_operations'') []),
     ([''CONFIG_HAVE_ARCH_TRACEHOOK''], ONE ''syscall'' S_IRUSR ''proc_pid_syscall''),
     ([], REG ''cmdline'' S_IRUGO ''proc_pid_cmdline_ops''),
     ([], ONE ''stat'' S_IRUGO ''proc_tid_stat''),
     ([], ONE ''statm'' S_IRUGO ''proc_pid_statm''),
     ([], REG ''maps'' S_IRUGO ''proc_pid_maps_operations''),
     ([''CONFIG_PROC_CHILDREN''], REG ''children'' S_IRUGO ''proc_tid_children_operations''),
     ([''CONFIG_NUMA''], REG ''numa_maps'' S_IRUGO ''proc_pid_numa_maps_operations''),
     ([], REG ''mem'' (S_IRUSR OR S_IWUSR) ''proc_mem_operations''),
     ([], LNK ''cwd'' ''proc_cwd_link''),
     ([], LNK ''root'' ''proc_root_link''),
     ([], LNK ''exe'' ''proc_exe_link''),
     ([], REG ''mounts'' S_IRUGO ''proc_mounts_operations''),
     ([], REG ''mountinfo'' S_IRUGO ''proc_mountinfo_operations''),
     ([''CONFIG_PROC_PAGE_MONITOR''], REG ''clear_refs'' S_IWUSR ''proc_clear_refs_operations''),
     ([''CONFIG_PROC_PAGE_MONITOR''], REG ''smaps'' S_IRUGO ''proc_pid_smaps_operations''),
     ([''CONFIG_PROC_PAGE_MONITOR''], REG ''smaps_rollup'' S_IRUGO ''proc_pid_smaps_rollup_operations''),
     ([''CONFIG_PROC_PAGE_MONITOR''], REG ''pagemap'' S_IRUSR ''proc_pagemap_operations''),
     ([''CONFIG_SECURITY''], DIR ''attr'' (S_IRUGO OR S_IXUGO) ''proc_attr_dir_inode_operations'' ''proc_attr_dir_operations''),
     ([''CONFIG_KALLSYMS''], ONE ''wchan'' S_IRUGO ''proc_pid_wchan''),
     ([''CONFIG_STACKTRACE''], ONE ''stack'' S_IRUSR ''proc_pid_stack''),
     ([''CONFIG_SCHED_INFO''], ONE ''schedstat'' S_IRUGO ''proc_pid_schedstat''),
     ([''CONFIG_LATENCYTOP''], REG ''latency'' S_IRUGO ''proc_lstats_operations''),
     ([''CONFIG_PROC_PID_CPUSET''], ONE ''cpuset'' S_IRUGO ''proc_cpuset_show''),
     ([''CONFIG_CGROUPS''], ONE ''cgroup'' S_IRUGO ''proc_cgroup_show''),
     ([''CONFIG_PROC_CPU_RESCTRL''], ONE ''cpu_resctrl_groups'' S_IRUGO ''proc_resctrl_show''),
     ([], ONE ''oom_score'' S_IRUGO ''proc_oom_score''),
     ([], REG ''oom_adj'' (S_IRUGO OR S_IWUSR) ''proc_oom_adj_operations''),
     ([], REG ''oom_score_adj'' (S_IRUGO OR S_IWUSR) ''proc_oom_score_adj_operations''),
     ([''CONFIG_AUDIT''], REG ''loginuid'' (S_IWUSR OR S_IRUGO) ''proc_loginuid_operations''),
     ([''CONFIG_AUDIT''], REG ''sessionid'' S_IRUGO ''proc_sessionid_operations''),
     ([''CONFIG_FAULT_INJECTION''], REG ''make-it-fail'' (S_IRUGO OR S_IWUSR) ''proc_fault_inject_operations''),
     ([''CONFIG_FAULT_INJECTION''], REG ''fail-nth'' 0x1A4 ''proc_fail_nth_operations''),
     ([''CONFIG_TASK_IO_ACCOUNTING''], ONE ''io'' S_IRUSR ''proc_tid_io_accounting''),
     ([''CONFIG_USER_NS''], REG ''uid_map'' (S_IRUGO OR S_IWUSR) ''proc_uid_map_operations''),
     ([''CONFIG_USER_NS''], REG ''gid_map'' (S_IRUGO OR S_IWUSR) ''proc_gid_map_operations''),
     ([''CONFIG_USER_NS''], REG ''projid_map'' (S_IRUGO OR S_IWUSR) ''proc_projid_map_operations''),
     ([''CONFIG_USER_NS''], REG ''setgroups'' (S_IRUGO OR S_IWUSR) ''proc_setgroups_operations''),
     ([''CONFIG_LIVEPATCH''], ONE ''patch_state'' S_IRUSR ''proc_pid_patch_state''),
     ([''CONFIG_PROC_PID_ARCH_STATUS''], ONE ''arch_status'' S_IRUGO ''proc_pid_arch_status''),
     ([''CONFIG_SECCOMP_CACHE_DEBUG''], ONE ''seccomp_cache'' S_IRUSR ''proc_pid_seccomp_cache'')]"

definition tgid_base_stuff :: "(string \<Rightarrow> bool) \<Rightarrow> pid_entry list" where
  "tgid_base_stuff cfg = table cfg tgid_base_stuff_rows"

definition tid_base_stuff :: "(string \<Rightarrow> bool) \<Rightarrow> pid_entry list" where
  "tid_base_stuff cfg = table cfg tid_base_stuff_rows"

definition attr_dir_stuff :: "(string \<Rightarrow> bool) \<Rightarrow> pid_entry list" where
  "attr_dir_stuff cfg = table cfg attr_dir_stuff_rows"

lemma distinct_table: "distinct (map (pe_name \<circ> snd) rows) \<Longrightarrow> distinct (map pe_name (table cfg rows))"
  unfolding table_def by (induction rows) auto

lemma tgid_rows_distinct: "distinct (map (pe_name \<circ> snd) tgid_base_stuff_rows)"
  by code_simp

lemma tid_rows_distinct: "distinct (map (pe_name \<circ> snd) tid_base_stuff_rows)"
  by code_simp

lemma attr_rows_distinct: "distinct (map (pe_name \<circ> snd) attr_dir_stuff_rows)"
  by code_simp

subsection \<open>Links\<close>

fun pid_entry_nlink :: "pid_entry list \<Rightarrow> nat \<Rightarrow> nat" where
  "pid_entry_nlink [] count = count"
| "pid_entry_nlink (e # es) count = pid_entry_nlink es (if S_ISDIR (pe_mode e) then count + 1 else count)"

text \<open>The counts are kept in variables of type \<^verbatim>\<open>u8\<close>.\<close>

definition set_proc_pid_nlink :: "(string \<Rightarrow> bool) \<Rightarrow> 8 word \<times> 8 word" where
  "set_proc_pid_nlink cfg =
     (word_of_nat (pid_entry_nlink (tid_base_stuff cfg) 2), word_of_nat (pid_entry_nlink (tgid_base_stuff cfg) 2))"

lemma pid_entry_nlink_eq: "pid_entry_nlink es n = n + length (filter (\<lambda>e. S_ISDIR (pe_mode e)) es)"
  by (induction es arbitrary: n) auto

subsection \<open>Lookup\<close>

definition proc_pident_instantiate :: "proc_env \<Rightarrow> task_struct \<Rightarrow> pid_entry \<Rightarrow> inode result \<times> kevent list" where
  "proc_pident_instantiate env task p =
     (case proc_pid_make_inode env task (pe_mode p) of
        (None, ev) \<Rightarrow> (Inl ENOENT, ev)
      | (Some inode, ev) \<Rightarrow>
          let inode = (if S_ISDIR (i_mode inode) then inode\<lparr>i_nlink := 2\<rparr> else inode);
              inode = (case pe_iop p of None \<Rightarrow> inode | Some iop \<Rightarrow> inode\<lparr>i_op := iop\<rparr>);
              inode = (case pe_fop p of None \<Rightarrow> inode | Some fop \<Rightarrow> inode\<lparr>i_fop := fop\<rparr>)
          in (Inr (pid_update_inode env task inode), ev))"

fun pident_search :: "string \<Rightarrow> pid_entry list \<Rightarrow> pid_entry option" where
  "pident_search name [] = None"
| "pident_search name (p # ps) =
     (if length (pe_name p) \<noteq> length name then pident_search name ps
      else if take (length (pe_name p)) name = pe_name p then Some p
      else pident_search name ps)"

definition proc_pident_lookup ::
  "proc_env \<Rightarrow> kernel \<Rightarrow> tptr option \<Rightarrow> pid_entry list \<Rightarrow> string \<Rightarrow> inode result \<times> kevent list" where
  "proc_pident_lookup env k task ents name =
     (case task of
        None \<Rightarrow> (Inl ENOENT, [])
      | Some q \<Rightarrow>
          (case tasks k q of
             None \<Rightarrow> (Inl ENOENT, [])
           | Some t \<Rightarrow>
               (case pident_search name ents of
                  None \<Rightarrow> (Inl ENOENT, [Get_task q, Put_task q])
                | Some p \<Rightarrow>
                    (case proc_pident_instantiate env t p of
                       (res, ev) \<Rightarrow> (res, Get_task q # ev @ [Put_task q])))))"

definition proc_tgid_base_lookup :: "proc_env \<Rightarrow> kernel \<Rightarrow> (string \<Rightarrow> bool) \<Rightarrow> tptr option \<Rightarrow> string \<Rightarrow> inode result \<times> kevent list" where
  "proc_tgid_base_lookup env k cfg task name = proc_pident_lookup env k task (tgid_base_stuff cfg) name"

definition proc_tid_base_lookup :: "proc_env \<Rightarrow> kernel \<Rightarrow> (string \<Rightarrow> bool) \<Rightarrow> tptr option \<Rightarrow> string \<Rightarrow> inode result \<times> kevent list" where
  "proc_tid_base_lookup env k cfg task name = proc_pident_lookup env k task (tid_base_stuff cfg) name"

definition proc_attr_dir_lookup :: "proc_env \<Rightarrow> kernel \<Rightarrow> (string \<Rightarrow> bool) \<Rightarrow> tptr option \<Rightarrow> string \<Rightarrow> inode result \<times> kevent list" where
  "proc_attr_dir_lookup env k cfg task name = proc_pident_lookup env k task (attr_dir_stuff cfg) name"

lemma pident_search_iff:
  "distinct (map pe_name ents) \<Longrightarrow> pident_search name ents = Some p \<longleftrightarrow> p \<in> set ents \<and> pe_name p = name"
  by (induction ents) (auto simp: rev_image_eqI)

lemma pident_search_None: "pident_search name ents = None \<longleftrightarrow> name \<notin> pe_name ` set ents"
  by (induction ents) auto

lemma pident_instantiate_refs [balance]: "task_refs q (snd (proc_pident_instantiate env t p)) = 0"
  using make_inode_refs [of q env t "pe_mode p"]
  by (auto simp: proc_pident_instantiate_def Let_def split: prod.splits option.splits)

subsection \<open>Listing\<close>

fun pident_loop :: "(string \<Rightarrow> (nat \<times> umode) option) \<Rightarrow> actor \<Rightarrow> pid_entry list \<Rightarrow> dir_context \<Rightarrow> dir_context" where
  "pident_loop dcache actor [] ctx = ctx"
| "pident_loop dcache actor (p # ps) ctx =
     (case proc_fill_cache dcache actor (pe_name p) ctx of
        (False, ctx) \<Rightarrow> ctx
      | (True, ctx) \<Rightarrow> pident_loop dcache actor ps (ctx\<lparr>ctx_pos := ctx_pos ctx + 1\<rparr>))"

definition proc_pident_readdir ::
  "(actor \<Rightarrow> dir_context \<Rightarrow> bool \<times> dir_context) \<Rightarrow> (string \<Rightarrow> (nat \<times> umode) option) \<Rightarrow> tptr option \<Rightarrow> pid_entry list
   \<Rightarrow> actor \<Rightarrow> dir_context \<Rightarrow> dir_context result \<times> kevent list" where
  "proc_pident_readdir dir_emit_dots dcache task ents actor ctx =
     (case task of
        None \<Rightarrow> (Inl ENOENT, [])
      | Some q \<Rightarrow>
          (case dir_emit_dots actor ctx of
             (False, ctx) \<Rightarrow> (Inr ctx, [Get_task q, Put_task q])
           | (True, ctx) \<Rightarrow>
               if ctx_pos ctx \<ge> int (length ents) + 2 then (Inr ctx, [Get_task q, Put_task q])
               else (Inr (pident_loop dcache actor (drop (nat (ctx_pos ctx - 2)) ents) ctx), [Get_task q, Put_task q])))"

text \<open>The directories over the tables: \<^verbatim>\<open>/proc/<pid>\<close>, \<^verbatim>\<open>/proc/<pid>/task/<tid>\<close>, \<^verbatim>\<open>attr\<close> and, by the macro \<^verbatim>\<open>LSM_DIR_OPS\<close>, the directories
  of the security modules below \<^verbatim>\<open>attr\<close>; \<open>dots\<close> is \<^verbatim>\<open>dir_emit_dots\<close>.\<close>

type_synonym table_readdir =
  "(actor \<Rightarrow> dir_context \<Rightarrow> bool \<times> dir_context) \<Rightarrow> (string \<Rightarrow> (nat \<times> umode) option) \<Rightarrow> (string \<Rightarrow> bool) \<Rightarrow> tptr option
   \<Rightarrow> actor \<Rightarrow> dir_context \<Rightarrow> dir_context result \<times> kevent list"

definition proc_tgid_base_readdir :: table_readdir where
  "proc_tgid_base_readdir dots dcache cfg task = proc_pident_readdir dots dcache task (tgid_base_stuff cfg)"

definition proc_tid_base_readdir :: table_readdir where
  "proc_tid_base_readdir dots dcache cfg task = proc_pident_readdir dots dcache task (tid_base_stuff cfg)"

definition proc_attr_dir_readdir :: table_readdir where
  "proc_attr_dir_readdir dots dcache cfg task = proc_pident_readdir dots dcache task (attr_dir_stuff cfg)"

definition LSM_attr_dir_iterate :: "pid_row list \<Rightarrow> table_readdir" where
  "LSM_attr_dir_iterate LSM dots dcache cfg task = proc_pident_readdir dots dcache task (table cfg LSM)"

definition LSM_attr_dir_lookup :: "pid_row list \<Rightarrow> proc_env \<Rightarrow> kernel \<Rightarrow> (string \<Rightarrow> bool) \<Rightarrow> tptr option \<Rightarrow> string \<Rightarrow> inode result \<times> kevent list" where
  "LSM_attr_dir_lookup LSM env k cfg task name = proc_pident_lookup env k task (table cfg LSM) name"

text \<open>\<^verbatim>\<open>dir_emit_dots\<close>: the entries \<^verbatim>\<open>.\<close> and \<^verbatim>\<open>..\<close> have positions 0 and 1; true when both are done.\<close>

definition dots_doc :: "(actor \<Rightarrow> dir_context \<Rightarrow> bool \<times> dir_context) \<Rightarrow> dirent \<Rightarrow> dirent \<Rightarrow> bool" where
  "dots_doc dots d dd \<longleftrightarrow>
     (\<forall>a ctx. dots a ctx =
       (if 2 \<le> ctx_pos ctx then (True, ctx)
        else let c = emit_seq a (from_pos (ctx_pos ctx) [(0, d), (1, dd)]) 2 ctx in (ctx_pos c = 2, c)))"

definition pident_entries :: "(string \<Rightarrow> (nat \<times> umode) option) \<Rightarrow> pid_entry list \<Rightarrow> (int \<times> dirent) list" where
  "pident_entries dcache ents = map (\<lambda>(i, p). (int i, fill_entry dcache (pe_name p))) (List.enumerate 2 ents)"

definition pident_dir :: "dirent \<Rightarrow> dirent \<Rightarrow> (string \<Rightarrow> (nat \<times> umode) option) \<Rightarrow> pid_entry list \<Rightarrow> (int \<times> dirent) list" where
  "pident_dir d dd dcache ents = (0, d) # (1, dd) # pident_entries dcache ents"

lemma pident_loop_emit:
  "ctx_pos ctx = int i \<Longrightarrow> pident_loop dcache a ents ctx
     = emit_seq a (map (\<lambda>(i, p). (int i, fill_entry dcache (pe_name p))) (List.enumerate i ents)) (int (i + length ents)) ctx"
proof (induction ents arbitrary: ctx i)
  case (Cons p ps)
  let ?e = "fill_entry dcache (pe_name p)"
  have c: "ctx\<lparr>ctx_pos := int i\<rparr> = ctx" using Cons.prems by simp
  show ?case
  proof (cases "a (ctx_out ctx) ?e")
    case True
    let ?c = "ctx\<lparr>ctx_out := ctx_out ctx @ [?e]\<rparr>"
    have "pident_loop dcache a ps (?c\<lparr>ctx_pos := int (Suc i)\<rparr>)
      = emit_seq a (map (\<lambda>(i, p). (int i, fill_entry dcache (pe_name p))) (List.enumerate (Suc i) ps)) (int (Suc i + length ps))
          (?c\<lparr>ctx_pos := int (Suc i)\<rparr>)"
      by (rule Cons.IH) simp
    also have "\<dots> = emit_seq a (map (\<lambda>(i, p). (int i, fill_entry dcache (pe_name p))) (List.enumerate (Suc i) ps)) (int (Suc i + length ps)) ?c"
      by (rule emit_seq_cong) simp
    finally show ?thesis using True Cons.prems c
      by (simp add: proc_fill_cache_entry dir_emit_def add.commute) (rule emit_seq_cong, simp)
  next
    case False
    then show ?thesis using c by (simp add: proc_fill_cache_entry dir_emit_def)
  qed
qed simp

lemma from_pos_enumerate:
  "from_pos (int i) (map (\<lambda>(i, p). (int i, f p)) (List.enumerate j ents))
     = (if j \<le> i then map (\<lambda>(i, p). (int i, f p)) (List.enumerate i (drop (i - j) ents))
        else map (\<lambda>(i, p). (int i, f p)) (List.enumerate j ents))"
proof (induction ents arbitrary: j)
  case (Cons p ps)
  show ?case
  proof (cases "i \<le> j")
    case True
    then have "from_pos (int i) (map (\<lambda>(i, p). (int i, f p)) (List.enumerate j (p # ps)))
        = map (\<lambda>(i, p). (int i, f p)) (List.enumerate j (p # ps))"
      by (intro from_pos_all) (auto simp: in_set_enumerate_eq)
    then show ?thesis using True by auto
  next
    case False
    then have "Suc j \<le> i" "drop (i - j) (p # ps) = drop (i - Suc j) ps"
      by (simp_all add: drop_Cons' Suc_diff_Suc)
    then show ?thesis using Cons.IH [of "Suc j"] False by simp
  qed
qed simp

text \<open>The part after the dots, and the whole call, against the reference walk.\<close>

lemma pident_tail:
  assumes "2 \<le> ctx_pos ctx" "ctx_pos ctx \<le> int (length ents) + 2"
  shows "pident_loop dcache a (drop (nat (ctx_pos ctx - 2)) ents) ctx
     = emit_seq a (from_pos (ctx_pos ctx) (pident_entries dcache ents)) (int (length ents) + 2) ctx"
proof -
  obtain i where i: "ctx_pos ctx = int i" "2 \<le> i" using assms(1) by (metis int_ops(3) nonneg_int_cases of_nat_le_iff order_trans zero_le_numeral)
  then have n: "nat (ctx_pos ctx - 2) = i - 2" "i - 2 \<le> length ents" using assms(2) by auto
  then have "int (i + length (drop (i - 2) ents)) = int (length ents) + 2" using i by simp
  then show ?thesis
    using pident_loop_emit [OF i(1), of dcache a "drop (i - 2) ents"] i n
    by (simp add: pident_entries_def from_pos_enumerate add.commute)
qed

lemma dots_walk:
  assumes "dots_doc dots d dd" "\<forall>(p, e) \<in> set xs. 2 \<le> p"
  shows "emit_seq a (from_pos (ctx_pos ctx) ((0, d) # (1, dd) # xs)) fin ctx
     = (case dots a ctx of (False, c) \<Rightarrow> c | (True, c) \<Rightarrow> emit_seq a (from_pos (ctx_pos c) xs) fin c)"
    and "fst (dots a ctx) \<Longrightarrow> ctx_pos (snd (dots a ctx)) = max 2 (ctx_pos ctx)"
proof -
  let ?c = "emit_seq a (from_pos (ctx_pos ctx) [(0, d), (1, dd)]) 2 ctx"
  have dots: "dots a ctx = (if 2 \<le> ctx_pos ctx then (True, ctx) else (ctx_pos ?c = 2, ?c))"
    using assms(1) by (simp add: dots_doc_def Let_def)
  show "fst (dots a ctx) \<Longrightarrow> ctx_pos (snd (dots a ctx)) = max 2 (ctx_pos ctx)"
    by (auto simp: dots split: if_splits)
  show "emit_seq a (from_pos (ctx_pos ctx) ((0, d) # (1, dd) # xs)) fin ctx
     = (case dots a ctx of (False, c) \<Rightarrow> c | (True, c) \<Rightarrow> emit_seq a (from_pos (ctx_pos c) xs) fin c)"
  proof (cases "2 \<le> ctx_pos ctx")
    case True
    then show ?thesis by (simp add: dots)
  next
    case False
    have all: "from_pos q xs = xs" if "q \<le> 2" for q
      using assms(2) that by (intro from_pos_all) fastforce
    have "from_pos (ctx_pos ctx) ((0, d) # (1, dd) # xs) = from_pos (ctx_pos ctx) [(0, d), (1, dd)] @ xs"
      using False all [of "ctx_pos ctx"] by (simp add: from_pos_def)
    moreover have "\<forall>(p, e) \<in> set (from_pos (ctx_pos ctx) [(0, d), (1, dd)]). p \<noteq> 2" by (auto simp: from_pos_def)
    ultimately show ?thesis
      using False all [of 2] by (simp add: dots emit_seq_append [where m = 2] Let_def)
  qed
qed

lemma pident_readdir_walks:
  assumes "dots_doc dots d dd" "0 \<le> ctx_pos ctx" "ctx_pos ctx < int (length ents) + 2"
  shows "proc_pident_readdir dots dcache (Some q) ents a ctx
     = (Inr (emit_seq a (from_pos (ctx_pos ctx) (pident_dir d dd dcache ents)) (int (length ents) + 2) ctx), [Get_task q, Put_task q])"
proof -
  have "\<forall>(p, e) \<in> set (pident_entries dcache ents). 2 \<le> p"
    by (auto simp: pident_entries_def in_set_enumerate_eq)
  note w = dots_walk [OF assms(1) this, of a ctx]
  obtain b c where dc: "dots a ctx = (b, c)" by fastforce
  show ?thesis
  proof (cases b)
    case True
    then have pos: "2 \<le> ctx_pos c" "ctx_pos c \<le> int (length ents) + 2" using w(2) dc assms(3) by simp_all
    have "emit_seq a (from_pos (ctx_pos c) (pident_entries dcache ents)) (int (length ents) + 2) c = c"
      if "int (length ents) + 2 \<le> ctx_pos c"
      using that pident_tail [OF pos, of dcache a] by simp
    then show ?thesis using True dc w(1) pident_tail [OF pos, of dcache a]
      by (simp add: proc_pident_readdir_def pident_dir_def)
  next
    case False
    then show ?thesis using dc w(1) by (simp add: proc_pident_readdir_def pident_dir_def)
  qed
qed

subsection \<open>The directory is resumable\<close>

definition pident_read ::
  "(actor \<Rightarrow> dir_context \<Rightarrow> bool \<times> dir_context) \<Rightarrow> (string \<Rightarrow> (nat \<times> umode) option) \<Rightarrow> tptr \<Rightarrow> pid_entry list
   \<Rightarrow> actor \<Rightarrow> int \<Rightarrow> dirent list \<times> int" where
  "pident_read dots dcache q ents a pos =
     (case fst (proc_pident_readdir dots dcache (Some q) ents a \<lparr>ctx_pos = pos, ctx_out = []\<rparr>) of
        Inl _ \<Rightarrow> ([], - 1) | Inr c \<Rightarrow> (ctx_out c, ctx_pos c))"

lemma pident_dir_positions:
  "sorted_wrt (<) (map fst (pident_dir d dd dcache ents))
   \<and> (\<forall>(p, e) \<in> set (pident_dir d dd dcache ents). p < int (length ents) + 2)"
proof -
  have "map fst (pident_entries dcache ents) = map int (map fst (List.enumerate 2 ents))"
    unfolding pident_entries_def map_map by (rule map_cong) auto
  then have "map fst (pident_entries dcache ents) = map int [2..<2 + length ents]"
    by (simp only: map_fst_enumerate)
  moreover have "sorted_wrt (<) (map int [2..<2 + length ents])"
    unfolding sorted_wrt_map of_nat_less_iff by (rule sorted_wrt_upt)
  moreover have "\<forall>(p, e) \<in> set (pident_entries dcache ents). 2 \<le> p \<and> p < int (length ents) + 2"
    by (auto simp: pident_entries_def in_set_enumerate_eq)
  ultimately show ?thesis by (fastforce simp: pident_dir_def)
qed

interpretation pident: positional_dir "pident_read dots dcache q ents" "pident_dir d dd dcache ents"
    "int (length ents) + 2" "\<lambda>pos. dots_doc dots d dd \<and> 0 \<le> pos"
  for dots dcache q ents d dd
proof unfold_locales
  fix pos :: int and a :: actor
  assume ok: "dots_doc dots d dd \<and> 0 \<le> pos"
  show "pos < int (length ents) + 2 \<Longrightarrow> pident_read dots dcache q ents a pos
      = (let c = emit_seq a (from_pos pos (pident_dir d dd dcache ents)) (int (length ents) + 2) \<lparr>ctx_pos = pos, ctx_out = []\<rparr>
         in (ctx_out c, ctx_pos c))"
    using pident_readdir_walks [of dots d dd "\<lparr>ctx_pos = pos, ctx_out = []\<rparr>" ents dcache q a] ok
    by (simp add: pident_read_def Let_def)
  show "int (length ents) + 2 \<le> pos \<Longrightarrow> pident_read dots dcache q ents a pos = ([], pos)"
    using ok by (simp add: pident_read_def proc_pident_readdir_def dots_doc_def)
  show "sorted_wrt (<) (map fst (pident_dir d dd dcache ents))
      \<and> (\<forall>(p, e) \<in> set (pident_dir d dd dcache ents). p < int (length ents) + 2)"
    by (rule pident_dir_positions)
qed simp

lemma pident_full_names:
  assumes "dots_doc dots d dd"
  shows "map fst (fst (pident_read dots dcache q ents greedy 0)) = fst d # fst dd # map pe_name ents"
proof -
  have "from_pos 0 (pident_dir d dd dcache ents) = pident_dir d dd dcache ents"
    by (rule from_pos_all) (auto simp: pident_dir_def pident_entries_def)
  then have "fst (pident_read dots dcache q ents greedy 0) = map snd (pident_dir d dd dcache ents)"
    using pident.rd_greedy [of dots d dd 0 dcache q ents] assms(1) by simp
  moreover have "map (fst \<circ> snd) (pident_entries dcache ents) = map pe_name (map snd (List.enumerate 2 ents))"
    unfolding pident_entries_def map_map by (rule map_cong) auto
  ultimately show ?thesis by (simp add: pident_dir_def)
qed

subsection \<open>Listing and lookup agree\<close>

text \<open>A directory over a table: the names a full read lists after the dots are those lookup finds, as long as an inode can be made.
  The five directories of the file are its interpretations.\<close>

locale table_dir =
  fixes rows :: "pid_row list"
    and look :: "proc_env \<Rightarrow> kernel \<Rightarrow> (string \<Rightarrow> bool) \<Rightarrow> tptr option \<Rightarrow> string \<Rightarrow> inode result \<times> kevent list"
    and rd :: table_readdir
  assumes look_table: "look env k cfg task name = proc_pident_lookup env k task (table cfg rows) name"
    and rd_table: "rd dots dcache cfg task = proc_pident_readdir dots dcache task (table cfg rows)"
begin

lemma listed_found:
  assumes "dots_doc dots d dd" "tasks k q = Some t" "t_thread_pid t = Some pid" "new_ino env = Some ino"
    and "fst (rd dots dcache cfg (Some q) greedy \<lparr>ctx_pos = 0, ctx_out = []\<rparr>) = Inr c"
  shows "name \<in> fst ` set (drop 2 (ctx_out c)) \<longleftrightarrow> \<not> is_err (fst (look env k cfg (Some q) name))"
proof -
  have "map fst (ctx_out c) = fst d # fst dd # map pe_name (table cfg rows)"
    using pident_full_names [OF assms(1), of dcache q "table cfg rows"] assms(5) by (simp add: pident_read_def rd_table)
  then have "map fst (drop 2 (ctx_out c)) = map pe_name (table cfg rows)" by (simp flip: drop_map)
  then have "name \<in> fst ` set (drop 2 (ctx_out c)) \<longleftrightarrow> name \<in> pe_name ` set (table cfg rows)" by (metis list.set_map)
  also have "\<dots> \<longleftrightarrow> pident_search name (table cfg rows) \<noteq> None" by (simp add: pident_search_None)
  also have "\<dots> \<longleftrightarrow> \<not> is_err (fst (look env k cfg (Some q) name))"
    using assms(2-4) by (auto simp: look_table proc_pident_lookup_def proc_pident_instantiate_def proc_pid_make_inode_def Let_def
        split: option.splits prod.splits)
  finally show ?thesis .
qed

end

interpretation tgid_dir: table_dir tgid_base_stuff_rows proc_tgid_base_lookup proc_tgid_base_readdir
  by unfold_locales (simp_all add: proc_tgid_base_lookup_def proc_tgid_base_readdir_def tgid_base_stuff_def)

interpretation tid_dir: table_dir tid_base_stuff_rows proc_tid_base_lookup proc_tid_base_readdir
  by unfold_locales (simp_all add: proc_tid_base_lookup_def proc_tid_base_readdir_def tid_base_stuff_def)

interpretation attr_dir: table_dir attr_dir_stuff_rows proc_attr_dir_lookup proc_attr_dir_readdir
  by unfold_locales (simp_all add: proc_attr_dir_lookup_def proc_attr_dir_readdir_def attr_dir_stuff_def)

interpretation lsm_dir: table_dir LSM "LSM_attr_dir_lookup LSM" "LSM_attr_dir_iterate LSM" for LSM
  by unfold_locales (simp_all add: LSM_attr_dir_lookup_def LSM_attr_dir_iterate_def)

subsection \<open>Properties\<close>

definition demo_dots :: "actor \<Rightarrow> dir_context \<Rightarrow> bool \<times> dir_context" where
  "demo_dots a ctx =
     (if 2 \<le> ctx_pos ctx then (True, ctx)
      else let c = emit_seq a (from_pos (ctx_pos ctx) [(0, (''.'', 3, 4)), (1, (''..'', 1, 4))]) 2 ctx in (ctx_pos c = 2, c))"

lemma demo_dots_doc: "dots_doc demo_dots (''.'', 3, 4) (''..'', 1, 4)"
  by (simp add: dots_doc_def demo_dots_def)

definition no_config :: "string \<Rightarrow> bool" where
  "no_config c = False"

lemma tgid_distinct: "distinct (map pe_name (tgid_base_stuff cfg))"
  unfolding tgid_base_stuff_def by (rule distinct_table [OF tgid_rows_distinct])

text \<open>
  In every kernel configuration the files of \<^verbatim>\<open>/proc/<pid>\<close> have distinct names, so lookup by name is exact: each
  entry of \<^verbatim>\<open>tgid_base_stuff\<close> is found under its own name and gives an inode with its mode and operations,
  a name that is not in the table is \<^verbatim>\<open>-ENOENT\<close>, and the task reference is dropped on every path.\<close>

theorem tgid_lookup_exact:
  assumes "tasks k q = Some t" "t_thread_pid t = Some pid" "new_ino env = Some ino" "p \<in> set (tgid_base_stuff cfg)"
  shows "(\<exists>inode ev. proc_tgid_base_lookup env k cfg (Some q) (pe_name p) = (Inr inode, ev)
      \<and> i_mode inode = pe_mode p AND NOT (S_ISUID OR S_ISGID)
      \<and> (\<forall>fop. pe_fop p = Some fop \<longrightarrow> i_fop inode = fop) \<and> (\<forall>iop. pe_iop p = Some iop \<longrightarrow> i_op inode = iop))
    \<and> (name \<notin> pe_name ` set (tgid_base_stuff cfg) \<longrightarrow> fst (proc_tgid_base_lookup env k cfg (Some q) name) = Inl ENOENT)
    \<and> task_refs x (snd (proc_tgid_base_lookup env k cfg (Some q) name)) = 0"
proof -
  have s: "pident_search (pe_name p) (tgid_base_stuff cfg) = Some p"
    using pident_search_iff [OF tgid_distinct] assms(4) by blast
  have "\<exists>inode ev. proc_pident_instantiate env t p = (Inr inode, ev)
      \<and> i_mode inode = pe_mode p AND NOT (S_ISUID OR S_ISGID)
      \<and> (\<forall>fop. pe_fop p = Some fop \<longrightarrow> i_fop inode = fop) \<and> (\<forall>iop. pe_iop p = Some iop \<longrightarrow> i_op inode = iop)"
    using assms(2,3)
    by (auto simp: proc_pident_instantiate_def proc_pid_make_inode_def pid_update_inode_def Let_def
        split: prod.splits option.splits)
  moreover have "task_refs x (snd (proc_tgid_base_lookup env k cfg (Some q) name)) = 0"
    using assms(1) by (auto simp: proc_tgid_base_lookup_def proc_pident_lookup_def split: option.splits prod.splits)
      (metis pident_instantiate_refs snd_conv)+
  ultimately show ?thesis using assms(1) s pident_search_None [of name "tgid_base_stuff cfg"]
    by (auto simp: proc_tgid_base_lookup_def proc_pident_lookup_def)
qed

lemma status_in_tgid: "ONE ''status'' S_IRUGO ''proc_pid_status'' \<in> set (tgid_base_stuff no_config)"
  by (simp add: tgid_base_stuff_def table_def tgid_base_stuff_rows_def)

theorem tgid_lookup_exact_witness:
  "\<exists>inode ev. proc_tgid_base_lookup (demo_env True) demo_kernel no_config (Some 2) ''status'' = (Inr inode, ev)
     \<and> i_fop inode = ''proc_single_file_operations''"
  using tgid_lookup_exact [of demo_kernel 2 "demo_task 42 1000 ''bash'' 2" 2 "demo_env True" 7 _ no_config "[]" 0, OF _ _ _ status_in_tgid]
  by (auto simp: demo_task_def demo_env_def macro_defs)

text \<open>
  The link counts of \<^verbatim>\<open>/proc/<pid>\<close> and \<^verbatim>\<open>/proc/<pid>/task/<tid>\<close> are two more than the number of directories in the tables,
  whatever the configuration: the \<^verbatim>\<open>u8\<close> they are kept in never wraps.\<close>

theorem nlink_exact:
  "unat (fst (set_proc_pid_nlink cfg)) = 2 + length (filter (\<lambda>e. S_ISDIR (pe_mode e)) (tid_base_stuff cfg))
   \<and> unat (snd (set_proc_pid_nlink cfg)) = 2 + length (filter (\<lambda>e. S_ISDIR (pe_mode e)) (tgid_base_stuff cfg))"
proof -
  have len: "length (filter P (table cfg rows)) \<le> length rows" for P and rows :: "pid_row list"
    unfolding table_def using length_filter_le [of P "map snd (filter (\<lambda>(guards, e). list_all cfg guards) rows)"]
      length_filter_le [of "\<lambda>(guards, e). list_all cfg guards" rows] by simp
  have "length tgid_base_stuff_rows = 59" "length tid_base_stuff_rows = 51"
    by (simp_all add: tgid_base_stuff_rows_def tid_base_stuff_rows_def)
  then have "2 + length (filter (\<lambda>e. S_ISDIR (pe_mode e)) (tgid_base_stuff cfg)) < 2 ^ 8"
    "2 + length (filter (\<lambda>e. S_ISDIR (pe_mode e)) (tid_base_stuff cfg)) < 2 ^ 8"
    using len [of "\<lambda>e. S_ISDIR (pe_mode e)" tgid_base_stuff_rows] len [of "\<lambda>e. S_ISDIR (pe_mode e)" tid_base_stuff_rows]
    by (simp_all add: tgid_base_stuff_def tid_base_stuff_def)
  then show ?thesis unfolding set_proc_pid_nlink_def pid_entry_nlink_eq fst_conv snd_conv
    by (intro conjI unat_of_nat_small) (simp_all only: len_num0 len_num1 len_bit0 len_bit1, simp_all)
qed

text \<open>
  A full read of \<^verbatim>\<open>/proc/<pid>\<close> lists the two dots and then the names of the table in its order, and reading it in
  pieces of any size gives the same list; the task reference is dropped.\<close>

theorem pident_readdir_complete:
  assumes "dots_doc dots d dd" "0 \<le> pos" "pident_read dots dcache q ents a pos = (es, pos')"
  shows "map fst (fst (pident_read dots dcache q ents greedy 0)) = fst d # fst dd # map pe_name ents
    \<and> es @ fst (pident_read dots dcache q ents greedy pos') = fst (pident_read dots dcache q ents greedy pos)
    \<and> task_refs x (snd (proc_pident_readdir dots dcache (Some q) ents a ctx)) = 0"
proof (intro conjI)
  show "map fst (fst (pident_read dots dcache q ents greedy 0)) = fst d # fst dd # map pe_name ents"
    by (rule pident_full_names [OF assms(1)])
  show "es @ fst (pident_read dots dcache q ents greedy pos') = fst (pident_read dots dcache q ents greedy pos)"
    using pident.rd_resume [of dots d dd pos] pident.rd_greedy [of dots d dd pos] assms by metis
  show "task_refs x (snd (proc_pident_readdir dots dcache (Some q) ents a ctx)) = 0"
    by (auto simp: proc_pident_readdir_def split: prod.splits bool.splits)
qed

theorem pident_readdir_complete_witness:
  "map fst (fst (pident_read demo_dots (\<lambda>_. None) 2 (attr_dir_stuff no_config) greedy 0))
     = [''.'', ''..'', ''current'', ''prev'', ''exec'', ''fscreate'', ''keycreate'', ''sockcreate'']"
proof -
  have "map pe_name (attr_dir_stuff no_config)
      = [''current'', ''prev'', ''exec'', ''fscreate'', ''keycreate'', ''sockcreate'']"
    by (simp add: attr_dir_stuff_def table_def attr_dir_stuff_rows_def macro_defs no_config_def)
  then show ?thesis
    using pident_readdir_complete [OF demo_dots_doc order_refl surjective_pairing, of "\<lambda>_. None" 2 "attr_dir_stuff no_config"]
    by simp
qed

subsection \<open>Types of the entries\<close>

definition S_ISREG :: "umode \<Rightarrow> bool" where
  "S_ISREG m \<longleftrightarrow> m AND S_IFMT = S_IFREG"

definition S_ISLNK :: "umode \<Rightarrow> bool" where
  "S_ISLNK m \<longleftrightarrow> m AND S_IFMT = S_IFLNK"

text \<open>The entries through which memory, registers or open files of a process can be seen.\<close>

definition private_names :: "string list" where
  "private_names = [''environ'', ''auxv'', ''mem'', ''personality'', ''syscall'', ''stack'', ''io'', ''fd'', ''fdinfo'', ''map_files'']"

text \<open>An entry has the operations its file type needs, no bits but a type and permissions, and permissions for others only if it is
  not private.\<close>

definition entry_typed :: "pid_entry \<Rightarrow> bool" where
  "entry_typed e \<longleftrightarrow>
     (S_ISDIR (pe_mode e) \<and> pe_iop e \<noteq> None \<and> pe_fop e \<noteq> None
      \<or> S_ISLNK (pe_mode e) \<and> pe_iop e = Some ''proc_pid_link_inode_operations'' \<and> pe_op e \<noteq> []
      \<or> S_ISREG (pe_mode e) \<and> pe_fop e \<noteq> None \<and> (pe_fop e = Some ''proc_single_file_operations'' \<longrightarrow> pe_op e \<noteq> []))
     \<and> pe_mode e AND NOT (S_IFMT OR S_IRWXUGO) = 0
     \<and> (pe_name e \<in> set private_names \<longrightarrow> pe_mode e AND 0x3F = 0)"

lemma rows_typed:
  "list_all (entry_typed \<circ> snd) tgid_base_stuff_rows" "list_all (entry_typed \<circ> snd) tid_base_stuff_rows"
  "list_all (entry_typed \<circ> snd) attr_dir_stuff_rows"
  by code_simp+

lemma no_special_bits:
  assumes "m AND NOT (S_IFMT OR S_IRWXUGO) = 0"
  shows "m AND NOT (S_ISUID OR S_ISGID) = m"
proof -
  have "m AND (S_ISUID OR S_ISGID) = (m AND NOT (S_IFMT OR S_IRWXUGO)) AND (S_ISUID OR S_ISGID)" by (simp add: mode_defs and.assoc)
  then have "m AND (S_ISUID OR S_ISGID) = 0" using assms by simp
  moreover have "m = (m AND (S_ISUID OR S_ISGID)) OR (m AND NOT (S_ISUID OR S_ISGID))"
    by (simp add: bit.conj_disj_distrib [symmetric] del: bit.de_Morgan_disj)
  ultimately show ?thesis by simp
qed

lemma pident_instantiate_fields:
  assumes "proc_pident_instantiate env t e = (Inr inode, ev)"
  shows "i_mode inode = pe_mode e AND NOT (S_ISUID OR S_ISGID)" "S_ISDIR (pe_mode e) \<Longrightarrow> i_nlink inode = 2"
    "i_op inode = (case pe_iop e of None \<Rightarrow> ''proc_def_inode_operations'' | Some iop \<Rightarrow> iop)"
    "i_fop inode = (case pe_fop e of None \<Rightarrow> [] | Some fop \<Rightarrow> fop)"
  using assms by (auto simp: proc_pident_instantiate_def proc_pid_make_inode_def pid_update_inode_def Let_def split: prod.splits option.splits if_splits)

lemma table_typed: "list_all (entry_typed \<circ> snd) rows \<Longrightarrow> e \<in> set (table cfg rows) \<Longrightarrow> entry_typed e"
  by (auto simp: table_def list_all_iff)

text \<open>
  every file of \<^verbatim>\<open>/proc/<pid>\<close>, of a thread and of \<^verbatim>\<open>attr\<close>, in every configuration of the kernel, gets an inode of a proper type: a
  directory with its operations and two links, a link with the operations of a link and a function to follow it, or a
  regular file with operations, and with a show function where these call one.  Its mode is that of the table, without
  special bits, and the entries that show memory, registers or open files of the process are closed to group and others.\<close>

theorem pid_inodes_well_typed:
  assumes "e \<in> set (tgid_base_stuff cfg) \<union> set (tid_base_stuff cfg) \<union> set (attr_dir_stuff cfg)"
    and "proc_pident_instantiate env t e = (Inr inode, ev)"
  shows "i_mode inode = pe_mode e \<and> i_mode inode AND NOT (S_IFMT OR S_IRWXUGO) = 0
    \<and> (S_ISDIR (i_mode inode) \<and> Some (i_op inode) = pe_iop e \<and> Some (i_fop inode) = pe_fop e \<and> i_nlink inode = 2
       \<or> S_ISLNK (i_mode inode) \<and> i_op inode = ''proc_pid_link_inode_operations'' \<and> pe_op e \<noteq> []
       \<or> S_ISREG (i_mode inode) \<and> Some (i_fop inode) = pe_fop e \<and> (i_fop inode = ''proc_single_file_operations'' \<longrightarrow> pe_op e \<noteq> []))
    \<and> (pe_name e \<in> set private_names \<longrightarrow> i_mode inode AND 0x3F = 0)"
proof -
  have ty: "entry_typed e"
    using assms(1) table_typed rows_typed by (auto simp: tgid_base_stuff_def tid_base_stuff_def attr_dir_stuff_def)
  have "pe_mode e AND NOT (S_ISUID OR S_ISGID) = pe_mode e"
    using ty by (intro no_special_bits) (simp add: entry_typed_def)
  then have m: "i_mode inode = pe_mode e" and l: "S_ISDIR (pe_mode e) \<Longrightarrow> i_nlink inode = 2"
    and i: "pe_iop e \<noteq> None \<Longrightarrow> Some (i_op inode) = pe_iop e" and f: "pe_fop e \<noteq> None \<Longrightarrow> Some (i_fop inode) = pe_fop e"
    using pident_instantiate_fields [OF assms(2)] by auto
  consider (dir) "S_ISDIR (pe_mode e)" "pe_iop e \<noteq> None" "pe_fop e \<noteq> None"
    | (lnk) "S_ISLNK (pe_mode e)" "pe_iop e = Some ''proc_pid_link_inode_operations''" "pe_op e \<noteq> []"
    | (reg) "S_ISREG (pe_mode e)" "pe_fop e \<noteq> None" "pe_fop e = Some ''proc_single_file_operations'' \<longrightarrow> pe_op e \<noteq> []"
    using ty unfolding entry_typed_def by blast
  then have "S_ISDIR (pe_mode e) \<and> Some (i_op inode) = pe_iop e \<and> Some (i_fop inode) = pe_fop e \<and> i_nlink inode = 2
       \<or> S_ISLNK (pe_mode e) \<and> i_op inode = ''proc_pid_link_inode_operations'' \<and> pe_op e \<noteq> []
       \<or> S_ISREG (pe_mode e) \<and> Some (i_fop inode) = pe_fop e \<and> (i_fop inode = ''proc_single_file_operations'' \<longrightarrow> pe_op e \<noteq> [])"
  proof cases
    case dir
    then show ?thesis using i f l by blast
  next
    case lnk
    then show ?thesis using i by simp
  next
    case reg
    then show ?thesis using f by metis
  qed
  with ty m show ?thesis unfolding entry_typed_def by metis
qed

theorem pid_inodes_well_typed_witness:
  "\<exists>inode ev. proc_pident_instantiate (Proc_Inode.demo_env True) (demo_task 42 1000 ''bash'' 2) (REG ''mem'' (S_IRUSR OR S_IWUSR) ''proc_mem_operations'') = (Inr inode, ev)
     \<and> i_fop inode = ''proc_mem_operations'' \<and> i_mode inode AND 0x3F = 0"
proof -
  let ?e = "REG ''mem'' (S_IRUSR OR S_IWUSR) ''proc_mem_operations''"
  have "\<exists>inode ev. proc_pident_instantiate (Proc_Inode.demo_env True) (demo_task 42 1000 ''bash'' 2) ?e = (Inr inode, ev) \<and> i_fop inode = ''proc_mem_operations''"
    by (auto simp: proc_pident_instantiate_def proc_pid_make_inode_def Proc_Inode.demo_env_def demo_task_def REG_def NOD_def pid_update_inode_def Let_def
        split: prod.splits)
  then obtain inode ev where i: "proc_pident_instantiate (Proc_Inode.demo_env True) (demo_task 42 1000 ''bash'' 2) ?e = (Inr inode, ev)"
    "i_fop inode = ''proc_mem_operations''" by blast
  have "?e \<in> set (tgid_base_stuff no_config)" by (simp add: tgid_base_stuff_def table_def tgid_base_stuff_rows_def no_config_def)
  then have "i_mode inode AND 0x3F = 0" using pid_inodes_well_typed [of ?e no_config, OF _ i(1)] by (metis (lifting) UnCI pid_entry.select_convs(1) REG_def NOD_def list.set_intros private_names_def)
  with i show ?thesis by blast
qed

end
