(* ===== verification/Proc_Task.thy ===== *)
theory Proc_Task
  imports Proc_Tables
begin

unbundle bit_operations_syntax

section \<open>The threads of a process: \<^verbatim>\<open>/proc/<pid>/task\<close>\<close>

text \<open>
  \<^verbatim>\<open>proc_task_lookup\<close>, \<^verbatim>\<open>first_tid\<close>, \<^verbatim>\<open>next_tid\<close>, \<^verbatim>\<open>proc_task_readdir\<close> and the permission of
  \<^verbatim>\<open>/proc/<pid>/task/<tid>/comm\<close>.  The thread list is outside the sources: \<open>thread_env\<close> has the functions the code
  calls on it, and \<open>group_ok te ns k ts\<close> says what is documented of them for one thread group with the
  threads \<open>ts\<close>, leader first.  The directory caches the thread it could not return in
  \<^verbatim>\<open>file->f_version\<close>; the walk is proved to be the same with and without that cache.
\<close>

record thread_env =
  dir_task :: "tptr option"
  next_thread :: "tptr \<Rightarrow> tptr"
  nr_threads :: "tptr \<Rightarrow> nat"
  is_leader :: "tptr \<Rightarrow> bool"
  task_pid_nr_ns :: "tptr \<Rightarrow> nat"

definition same_thread_group :: "kernel \<Rightarrow> tptr \<Rightarrow> tptr \<Rightarrow> bool" where
  "same_thread_group k p q \<longleftrightarrow>
     (case (tasks k p, tasks k q) of (Some t, Some u) \<Rightarrow> t_signal t = t_signal u | _ \<Rightarrow> False)"

subsection \<open>Permission of \<^verbatim>\<open>comm\<close>\<close>

definition proc_tid_comm_permission ::
  "kernel \<Rightarrow> unit result \<Rightarrow> tptr \<Rightarrow> tptr option \<Rightarrow> bool \<Rightarrow> unit result \<times> kevent list" where
  "proc_tid_comm_permission k generic current task may_exec =
     (case task of
        None \<Rightarrow> (Inl ESRCH, [])
      | Some p \<Rightarrow>
          let is_same_tgroup = same_thread_group k current p; ev = [Get_task p, Put_task p]
          in if is_same_tgroup \<and> \<not> may_exec then (Inr (), ev) else (generic, ev))"

subsection \<open>Lookup\<close>

definition proc_task_instantiate :: "proc_env \<Rightarrow> nat \<Rightarrow> task_struct \<Rightarrow> inode result \<times> kevent list" where
  "proc_task_instantiate env nlink_tid task =
     (case proc_pid_make_inode env task (S_IFDIR OR S_IRUGO OR S_IXUGO) of
        (None, ev) \<Rightarrow> (Inl ENOENT, ev)
      | (Some inode, ev) \<Rightarrow>
          let inode = inode\<lparr>i_op := ''proc_tid_base_inode_operations'',
                            i_fop := ''proc_tid_base_operations'', i_immutable := True,
                            i_nlink := nlink_tid\<rparr>
          in (Inr (pid_update_inode env task inode), ev))"

definition proc_task_lookup ::
  "proc_env \<Rightarrow> pid_ns \<Rightarrow> (string \<Rightarrow> u32) \<Rightarrow> nat \<Rightarrow> kernel \<Rightarrow> tptr option \<Rightarrow> string \<Rightarrow> inode result \<times> kevent list" where
  "proc_task_lookup env ns name_to_int nlink_tid k leader name =
     (case leader of
        None \<Rightarrow> (Inl ENOENT, [])
      | Some l \<Rightarrow>
          let tid = name_to_int name
          in if tid = - 1 then (Inl ENOENT, [Get_task l, Put_task l])
             else case find_task_by_pid_ns ns tid of
                 None \<Rightarrow> (Inl ENOENT, [Get_task l, Put_task l])
               | Some p \<Rightarrow>
                   if \<not> same_thread_group k l p
                   then (Inl ENOENT, [Get_task l, Get_task p, Put_task p, Put_task l])
                   else (case tasks k p of
                           None \<Rightarrow> (Inl ENOENT, [Get_task l, Get_task p, Put_task p, Put_task l])
                         | Some t \<Rightarrow>
                             (case proc_task_instantiate env nlink_tid t of
                                (res, ev) \<Rightarrow> (res, [Get_task l, Get_task p] @ ev @ [Put_task p, Put_task l]))))"

subsection \<open>Walking the thread list\<close>

text \<open>The \<^verbatim>\<open>do ... while_each_thread\<close> loop: \<open>nr\<close> threads past \<open>pos\<close>, stopping when back at \<open>g\<close>.\<close>

fun walk_threads :: "thread_env \<Rightarrow> tptr \<Rightarrow> nat \<Rightarrow> tptr \<Rightarrow> tptr option" where
  "walk_threads te g 0 pos = Some pos"
| "walk_threads te g (Suc nr) pos =
     (let pos = next_thread te pos in if pos \<noteq> g then walk_threads te g nr pos else None)"

definition first_tid :: "thread_env \<Rightarrow> pid_ns \<Rightarrow> kernel \<Rightarrow> u32 \<Rightarrow> nat \<Rightarrow> tptr option" where
  "first_tid te ns k tid nr =
     (case dir_task te of
        None \<Rightarrow> None
      | Some task \<Rightarrow>
          let cached = (if tid \<noteq> 0 \<and> nr \<noteq> 0 then
                          (case find_task_by_pid_ns ns tid of
                             None \<Rightarrow> None
                           | Some pos \<Rightarrow> if same_thread_group k pos task then Some pos else None)
                        else None)
          in case cached of
               Some pos \<Rightarrow> Some pos
             | None \<Rightarrow>
                 if nr \<ge> nr_threads te task then None
                 else (case tasks k task of
                         None \<Rightarrow> None
                       | Some t \<Rightarrow> walk_threads te (t_group_leader t) nr (t_group_leader t)))"

definition next_tid :: "thread_env \<Rightarrow> kernel \<Rightarrow> tptr \<Rightarrow> tptr option \<times> kevent list" where
  "next_tid te k start =
     (let alive = (case tasks k start of None \<Rightarrow> False | Some t \<Rightarrow> pid_alive t);
          pos = (if alive \<and> \<not> is_leader te (next_thread te start) then Some (next_thread te start) else None)
      in (pos, get_iter pos @ [Put_task start]))"

text \<open>The loop of \<^verbatim>\<open>proc_task_readdir\<close>: the context, \<^verbatim>\<open>f_version\<close> and the trace.\<close>

fun task_loop ::
  "nat \<Rightarrow> thread_env \<Rightarrow> kernel \<Rightarrow> (string \<Rightarrow> (nat \<times> umode) option) \<Rightarrow> actor \<Rightarrow> tptr option \<Rightarrow> dir_context
   \<Rightarrow> (dir_context \<times> u32 \<times> kevent list) option" where
  "task_loop 0 te k dcache actor task ctx = None"
| "task_loop (Suc fuel) te k dcache actor None ctx = Some (ctx, 0, [])"
| "task_loop (Suc fuel) te k dcache actor (Some task) ctx =
     (let tid = task_pid_nr_ns te task;
          name = snprintf_trunc 11 (dec_nat tid)
      in case proc_fill_cache dcache actor name ctx of
           (False, ctx) \<Rightarrow> Some (ctx, of_nat tid, [Put_task task])
         | (True, ctx) \<Rightarrow>
             (case next_tid te k task of
                (next, ev) \<Rightarrow>
                  (case task_loop fuel te k dcache actor next (ctx\<lparr>ctx_pos := ctx_pos ctx + 1\<rparr>) of
                     None \<Rightarrow> None
                   | Some (ctx, v, ev') \<Rightarrow> Some (ctx, v, ev @ ev'))))"

definition proc_task_readdir ::
  "(actor \<Rightarrow> dir_context \<Rightarrow> bool \<times> dir_context) \<Rightarrow> thread_env \<Rightarrow> pid_ns \<Rightarrow> kernel \<Rightarrow> (string \<Rightarrow> (nat \<times> umode) option)
   \<Rightarrow> bool \<Rightarrow> actor \<Rightarrow> u32 \<Rightarrow> dir_context \<Rightarrow> (dir_context result \<times> u32 \<times> kevent list) option" where
  "proc_task_readdir dir_emit_dots te ns k dcache inode_is_dead actor f_version ctx =
     (if inode_is_dead then Some (Inl ENOENT, f_version, [])
      else case dir_emit_dots actor ctx of
             (False, ctx) \<Rightarrow> Some (Inr ctx, f_version, [])
           | (True, ctx) \<Rightarrow>
               (let task = first_tid te ns k f_version (nat (ctx_pos ctx - 2))
                in case task_loop (PID_MAX_LIMIT + 1) te k dcache actor task ctx of
                     None \<Rightarrow> None
                   | Some (ctx, v, ev) \<Rightarrow> Some (Inr ctx, v, get_iter task @ ev)))"

definition proc_task_getattr :: "thread_env \<Rightarrow> tptr option \<Rightarrow> nat \<Rightarrow> nat \<times> kevent list" where
  "proc_task_getattr te p nlink =
     (case p of None \<Rightarrow> (nlink, []) | Some q \<Rightarrow> (nlink + nr_threads te q, [Get_task q, Put_task q]))"

subsection \<open>A thread group\<close>

definition group_ok :: "thread_env \<Rightarrow> pid_ns \<Rightarrow> kernel \<Rightarrow> tptr list \<Rightarrow> bool" where
  "group_ok te ns k ts \<longleftrightarrow>
     ts \<noteq> [] \<and> distinct ts \<and> length ts < PID_MAX_LIMIT
     \<and> (\<exists>task \<in> set ts. dir_task te = Some task)
     \<and> (\<forall>i < length ts. next_thread te (ts ! i) = ts ! (Suc i mod length ts))
     \<and> (\<forall>t \<in> set ts. nr_threads te t = length ts \<and> (is_leader te t \<longleftrightarrow> t = hd ts)
          \<and> 0 < task_pid_nr_ns te t \<and> task_pid_nr_ns te t < PID_MAX_LIMIT
          \<and> find_task_by_pid_ns ns (of_nat (task_pid_nr_ns te t)) = Some t
          \<and> (\<exists>s. tasks k t = Some s \<and> t_thread_pid s \<noteq> None \<and> t_group_leader s = hd ts
               \<and> (\<forall>u \<in> set ts. \<exists>s'. tasks k u = Some s' \<and> t_signal s' = t_signal s)))"

lemma group_member:
  assumes "group_ok te ns k ts" "t \<in> set ts"
  shows "nr_threads te t = length ts" "is_leader te t \<longleftrightarrow> t = hd ts"
    "0 < task_pid_nr_ns te t" "task_pid_nr_ns te t < PID_MAX_LIMIT"
    "find_task_by_pid_ns ns (of_nat (task_pid_nr_ns te t)) = Some t"
    "\<exists>s. tasks k t = Some s \<and> pid_alive s \<and> t_group_leader s = hd ts"
    "u \<in> set ts \<Longrightarrow> same_thread_group k t u"
  using assms unfolding group_ok_def pid_alive_def same_thread_group_def by fastforce+

lemma group_next:
  assumes "group_ok te ns k ts" "i < length ts"
  shows "next_thread te (ts ! i) = (if Suc i < length ts then ts ! Suc i else hd ts)"
proof -
  have n: "next_thread te (ts ! i) = ts ! (Suc i mod length ts)" "ts \<noteq> []"
    using assms by (simp_all add: group_ok_def)
  show ?thesis
  proof (cases "Suc i < length ts")
    case False
    then have "Suc i = length ts" using assms(2) by simp
    then show ?thesis using n by (simp add: hd_conv_nth)
  qed (simp add: n)
qed

lemma group_not_hd:
  assumes "group_ok te ns k ts" "Suc i < length ts"
  shows "ts ! Suc i \<noteq> hd ts"
proof -
  have d: "distinct ts" "ts \<noteq> []" using assms(1) by (simp_all add: group_ok_def)
  then have "hd ts = ts ! 0" by (simp add: hd_conv_nth)
  then show ?thesis using nth_eq_iff_index_eq [OF d(1) assms(2), of 0] d(2) by auto
qed

lemma walk_threads_nth:
  assumes "group_ok te ns k ts"
  shows "i + n < length ts \<Longrightarrow> walk_threads te (hd ts) n (ts ! i) = Some (ts ! (i + n))"
proof (induction n arbitrary: i)
  case (Suc n)
  then show ?case
    using group_next [OF assms, of i] group_not_hd [OF assms, of i] Suc.IH [of "Suc i"] by simp
qed simp

text \<open>Where a read starts: at the \<open>nr\<close>-th thread, whether or not the cache is used.\<close>

lemma first_tid_spec:
  assumes "group_ok te ns k ts" "v = 0 \<or> nr < length ts \<and> v = of_nat (task_pid_nr_ns te (ts ! nr))"
  shows "first_tid te ns k v nr = (if nr < length ts then Some (ts ! nr) else None)"
proof -
  obtain task where task: "task \<in> set ts" "dir_task te = Some task" using assms(1) by (auto simp: group_ok_def)
  obtain s where s: "tasks k task = Some s" "t_group_leader s = hd ts" using group_member(6) [OF assms(1) task(1)] by auto
  have hd: "hd ts = ts ! 0" using assms(1) by (simp add: group_ok_def hd_conv_nth)
  have plain: "(if nr \<ge> nr_threads te task then None else walk_threads te (hd ts) nr (hd ts))
      = (if nr < length ts then Some (ts ! nr) else None)"
    using walk_threads_nth [OF assms(1), of 0 nr] group_member(1) [OF assms(1) task(1)] hd by simp
  show ?thesis
  proof (cases "v \<noteq> 0 \<and> nr \<noteq> 0")
    case True
    then have nr: "nr < length ts" "v = of_nat (task_pid_nr_ns te (ts ! nr))" using assms(2) by auto
    then have "find_task_by_pid_ns ns v = Some (ts ! nr)" "same_thread_group k (ts ! nr) task"
      using group_member(5,7) [OF assms(1)] task(1) by simp_all
    then show ?thesis using True nr task(2) by (simp add: first_tid_def)
  next
    case False
    then show ?thesis using plain task(2) s by (auto simp: first_tid_def split: if_splits)
  qed
qed

definition task_entries :: "thread_env \<Rightarrow> (string \<Rightarrow> (nat \<times> umode) option) \<Rightarrow> nat \<Rightarrow> tptr list \<Rightarrow> (int \<times> dirent) list" where
  "task_entries te dcache i ts
     = map (\<lambda>(i, t). (int i, fill_entry dcache (dec_nat (task_pid_nr_ns te t)))) (List.enumerate i ts)"

definition tid_at :: "thread_env \<Rightarrow> tptr list \<Rightarrow> u32 \<Rightarrow> int \<Rightarrow> bool" where
  "tid_at te ts v pos \<longleftrightarrow> v = 0 \<or> (\<exists>j < length ts. pos = int j + 2 \<and> v = of_nat (task_pid_nr_ns te (ts ! j)))"

lemma next_tid_spec:
  assumes "group_ok te ns k ts" "i < length ts"
  shows "next_tid te k (ts ! i)
    = (let n = (if Suc i < length ts then Some (ts ! Suc i) else None) in (n, get_iter n @ [Put_task (ts ! i)]))"
proof -
  have t: "ts ! i \<in> set ts" "hd ts \<in> set ts" using assms by (auto simp: group_ok_def)
  obtain s where "tasks k (ts ! i) = Some s" "pid_alive s" using group_member(6) [OF assms(1) t(1)] by auto
  then show ?thesis
    using group_next [OF assms] group_not_hd [OF assms(1), of i] group_member(2) [OF assms(1), of "ts ! Suc i"]
      group_member(2) [OF assms(1) t(2)]
    by (auto simp: next_tid_def Let_def)
qed

lemma task_loop_spec:
  assumes "group_ok te ns k ts" "i \<le> length ts" "length ts - i < fuel" "ctx_pos ctx = int i + 2"
  shows "\<exists>v ev. task_loop fuel te k dcache a (if i < length ts then Some (ts ! i) else None) ctx
      = Some (emit_seq a (task_entries te dcache (i + 2) (drop i ts)) (int (length ts) + 2) ctx, v, ev)
    \<and> tid_at te ts v (ctx_pos (emit_seq a (task_entries te dcache (i + 2) (drop i ts)) (int (length ts) + 2) ctx))
    \<and> (\<forall>p. task_refs p ev = - holds p (if i < length ts then Some (ts ! i) else None))"
  using assms(2-4)
proof (induction fuel arbitrary: i ctx)
  case (Suc fuel)
  show ?case
  proof (cases "i < length ts")
    case False
    then have "i = length ts" using Suc.prems by simp
    moreover have "ctx\<lparr>ctx_pos := int (length ts) + 2\<rparr> = ctx" using Suc.prems(3) calculation by simp
    ultimately show ?thesis by (simp add: task_entries_def tid_at_def)
  next
    case True
    let ?t = "ts ! i"
    let ?e = "fill_entry dcache (dec_nat (task_pid_nr_ns te ?t))"
    have d: "drop i ts = ?t # drop (Suc i) ts" using True by (simp add: Cons_nth_drop_Suc)
    have name: "snprintf_trunc 11 (dec_nat (task_pid_nr_ns te ?t)) = dec_nat (task_pid_nr_ns te ?t)"
      using group_member(4) [OF assms(1)] True by (intro tgid_name_fits) simp
    have c: "ctx\<lparr>ctx_pos := int (i + 2)\<rparr> = ctx" using Suc.prems(3) by simp
    show ?thesis
    proof (cases "a (ctx_out ctx) ?e")
      case False
      then show ?thesis using True Suc.prems(3) c
        by (auto simp: name d task_entries_def proc_fill_cache_entry dir_emit_def tid_at_def Let_def)
    next
      case ok: True
      let ?c = "ctx\<lparr>ctx_pos := int (Suc i) + 2, ctx_out := ctx_out ctx @ [?e]\<rparr>"
      let ?n = "if Suc i < length ts then Some (ts ! Suc i) else None"
      let ?w = "emit_seq a (task_entries te dcache (Suc i + 2) (drop (Suc i) ts)) (int (length ts) + 2) ?c"
      have "Suc i \<le> length ts" "length ts - Suc i < fuel" "ctx_pos ?c = int (Suc i) + 2"
        using Suc.prems True by simp_all
      from Suc.IH [OF this] obtain v ev where IH: "task_loop fuel te k dcache a ?n ?c = Some (?w, v, ev)"
        "tid_at te ts v (ctx_pos ?w)" "\<forall>p. task_refs p ev = - holds p ?n" by blast
      have w: "emit_seq a (task_entries te dcache (i + 2) (drop i ts)) (int (length ts) + 2) ctx = ?w"
        unfolding d task_entries_def enumerate_simps list.map prod.case
        by (subst emit_seq_accepts [where c = ?c]) (use ok in simp_all)
      have "task_loop (Suc fuel) te k dcache a (Some ?t) ctx = Some (?w, v, (get_iter ?n @ [Put_task ?t]) @ ev)"
        using IH(1) ok Suc.prems(3) next_tid_spec [OF assms(1) True]
        by (simp add: name proc_fill_cache_entry dir_emit_def Let_def ctx_upd_commute add.commute add.left_commute)
      then show ?thesis unfolding w using True IH(2,3) by (auto simp: holds_def)
    qed
  qed
qed simp

subsection \<open>The whole directory\<close>

definition task_dir :: "dirent \<Rightarrow> dirent \<Rightarrow> thread_env \<Rightarrow> (string \<Rightarrow> (nat \<times> umode) option) \<Rightarrow> tptr list \<Rightarrow> (int \<times> dirent) list" where
  "task_dir d dd te dcache ts = (0, d) # (1, dd) # task_entries te dcache 2 ts"

lemma task_readdir_walks:
  assumes "group_ok te ns k ts" "dots_doc dots d dd" "0 \<le> ctx_pos ctx" "tid_at te ts v (ctx_pos ctx)"
    and "ctx_pos ctx \<le> int (length ts) + 2"
  shows "\<exists>v' ev. proc_task_readdir dots te ns k dcache False a v ctx
      = Some (Inr (emit_seq a (from_pos (ctx_pos ctx) (task_dir d dd te dcache ts)) (int (length ts) + 2) ctx), v', ev)
    \<and> (fst (dots a ctx) \<longrightarrow>
        tid_at te ts v' (ctx_pos (emit_seq a (from_pos (ctx_pos ctx) (task_dir d dd te dcache ts)) (int (length ts) + 2) ctx)))
    \<and> (\<forall>p. task_refs p ev = 0)"
proof -
  have "\<forall>(p, e) \<in> set (task_entries te dcache 2 ts). 2 \<le> p"
    by (auto simp: task_entries_def in_set_enumerate_eq)
  note w = dots_walk [OF assms(2) this, of a ctx]
  obtain b c where dc: "dots a ctx = (b, c)" by fastforce
  show ?thesis
  proof (cases b)
    case False
    then show ?thesis using dc w(1) by (simp add: proc_task_readdir_def task_dir_def)
  next
    case True
    then have pos: "ctx_pos c = max 2 (ctx_pos ctx)" using w(2) dc by simp
    define i where "i = nat (ctx_pos c - 2)"
    have i: "ctx_pos c = int i + 2" "i \<le> length ts" using pos assms(5) by (simp_all add: i_def)
    have vi: "v = 0 \<or> i < length ts \<and> v = of_nat (task_pid_nr_ns te (ts ! i))"
      using assms(4) pos i(1) by (auto simp: tid_at_def max_def split: if_splits)
    have n: "nat (ctx_pos c - 2) = i" using i(1) by simp
    have "length ts < PID_MAX_LIMIT" using assms(1) unfolding group_ok_def by blast
    then have "length ts - i < PID_MAX_LIMIT + 1" by linarith
    then obtain v' ev where "task_loop (PID_MAX_LIMIT + 1) te k dcache a (if i < length ts then Some (ts ! i) else None) c
        = Some (emit_seq a (task_entries te dcache (i + 2) (drop i ts)) (int (length ts) + 2) c, v', ev)"
      "tid_at te ts v' (ctx_pos (emit_seq a (task_entries te dcache (i + 2) (drop i ts)) (int (length ts) + 2) c))"
      "\<forall>p. task_refs p ev = - holds p (if i < length ts then Some (ts ! i) else None)"
      using task_loop_spec [OF assms(1) i(2) _ i(1)] by blast
    moreover have "from_pos (ctx_pos c) (task_entries te dcache 2 ts) = task_entries te dcache (i + 2) (drop i ts)"
    proof -
      have "ctx_pos c = int (i + 2)" using i(1) by simp
      then show ?thesis
        unfolding task_entries_def by (simp only: from_pos_enumerate) simp
    qed
    ultimately show ?thesis
      using True dc w(1) first_tid_spec [OF assms(1) vi] n
      by (auto simp: proc_task_readdir_def task_dir_def Let_def)
  qed
qed

text \<open>A call with the cached thread \<open>v\<close> forgotten, as after \<^verbatim>\<open>lseek\<close>.\<close>

definition task_read ::
  "(actor \<Rightarrow> dir_context \<Rightarrow> bool \<times> dir_context) \<Rightarrow> thread_env \<Rightarrow> pid_ns \<Rightarrow> kernel \<Rightarrow> (string \<Rightarrow> (nat \<times> umode) option)
   \<Rightarrow> u32 \<Rightarrow> actor \<Rightarrow> int \<Rightarrow> dirent list \<times> int" where
  "task_read dots te ns k dcache v a pos =
     (case proc_task_readdir dots te ns k dcache False a v \<lparr>ctx_pos = pos, ctx_out = []\<rparr> of
        Some (Inr c, _, _) \<Rightarrow> (ctx_out c, ctx_pos c) | _ \<Rightarrow> ([], - 1))"

lemma task_dir_positions:
  "sorted_wrt (<) (map fst (task_dir d dd te dcache ts))
   \<and> (\<forall>(p, e) \<in> set (task_dir d dd te dcache ts). p < int (length ts) + 2)"
proof -
  have "map fst (task_entries te dcache 2 ts) = map int (map fst (List.enumerate 2 ts))"
    unfolding task_entries_def map_map by (rule map_cong) auto
  then have "map fst (task_entries te dcache 2 ts) = map int [2..<2 + length ts]"
    by (simp only: map_fst_enumerate)
  moreover have "sorted_wrt (<) (map int [2..<2 + length ts])"
    unfolding sorted_wrt_map of_nat_less_iff by (rule sorted_wrt_upt)
  moreover have "\<forall>(p, e) \<in> set (task_entries te dcache 2 ts). 2 \<le> p \<and> p < int (length ts) + 2"
    by (auto simp: task_entries_def in_set_enumerate_eq)
  ultimately show ?thesis by (fastforce simp: task_dir_def)
qed

interpretation task: positional_dir "task_read dots te ns k dcache 0" "task_dir d dd te dcache ts"
    "int (length ts) + 2" "\<lambda>pos. dots_doc dots d dd \<and> group_ok te ns k ts \<and> 0 \<le> pos"
  for dots te ns k dcache d dd ts
proof unfold_locales
  fix pos :: int and a :: actor
  assume ok: "dots_doc dots d dd \<and> group_ok te ns k ts \<and> 0 \<le> pos"
  show "pos < int (length ts) + 2 \<Longrightarrow> task_read dots te ns k dcache 0 a pos
      = (let c = emit_seq a (from_pos pos (task_dir d dd te dcache ts)) (int (length ts) + 2) \<lparr>ctx_pos = pos, ctx_out = []\<rparr>
         in (ctx_out c, ctx_pos c))"
    using task_readdir_walks [of te ns k ts dots d dd "\<lparr>ctx_pos = pos, ctx_out = []\<rparr>" 0 dcache a] ok
    by (auto simp: task_read_def Let_def tid_at_def)
  show "task_read dots te ns k dcache 0 a pos = ([], pos)" if "int (length ts) + 2 \<le> pos"
  proof -
    have "dots a \<lparr>ctx_pos = pos, ctx_out = []\<rparr> = (True, \<lparr>ctx_pos = pos, ctx_out = []\<rparr>)"
      using ok that by (simp add: dots_doc_def)
    moreover have "first_tid te ns k 0 (nat (pos - 2)) = None"
      using first_tid_spec [of te ns k ts 0 "nat (pos - 2)"] ok that by simp
    ultimately show ?thesis by (simp add: task_read_def proc_task_readdir_def)
  qed
  show "sorted_wrt (<) (map fst (task_dir d dd te dcache ts))
      \<and> (\<forall>(p, e) \<in> set (task_dir d dd te dcache ts). p < int (length ts) + 2)"
    by (rule task_dir_positions)
qed auto

subsection \<open>Properties\<close>

definition demo_te :: thread_env where
  "demo_te = \<lparr>dir_task = Some 2, next_thread = (\<lambda>t. if t = 2 then 3 else 2), nr_threads = (\<lambda>_. 2),
     is_leader = (\<lambda>t. t = 2), task_pid_nr_ns = (\<lambda>t. if t = 2 then 42 else 43)\<rparr>"

definition demo_threads :: kernel where
  "demo_threads = demo_kernel\<lparr>tasks := [2 \<mapsto> demo_task 42 1000 ''bash'' 2,
     3 \<mapsto> (demo_task 43 1000 ''bash'' 3)\<lparr>t_tgid := 42, t_group_leader := 2, t_signal := 2\<rparr>]\<rparr>"

definition demo_task_ns :: pid_ns where
  "demo_task_ns = demo_ns\<lparr>find_task_by_pid_ns := (\<lambda>n. if n = 42 then Some 2 else if n = 43 then Some 3 else None)\<rparr>"

lemma demo_group: "group_ok demo_te demo_task_ns demo_threads [2, 3]"
  by (auto simp: group_ok_def demo_te_def demo_threads_def demo_task_ns_def demo_task_def PID_MAX_LIMIT_def less_Suc_eq)

text \<open>
  C16: \<^verbatim>\<open>/proc/<pid>/task\<close> lists exactly the threads of the group, leader first, and in pieces of any size: the thread
  cached in \<^verbatim>\<open>f_version\<close> by an interrupted read and the walk from the leader lead to the same place,
  so a resumed read continues with the very thread that did not fit.  Every task reference is
  dropped.\<close>

theorem proc_task_readdir_complete:
  assumes "group_ok te ns k ts" "dots_doc dots d dd" "2 \<le> pos" "pos \<le> int (length ts) + 2" "tid_at te ts v pos"
  shows "map fst (fst (task_read dots te ns k dcache 0 greedy 0))
        = fst d # fst dd # map (dec_nat \<circ> task_pid_nr_ns te) ts
    \<and> (\<exists>c v' ev. proc_task_readdir dots te ns k dcache False a v \<lparr>ctx_pos = pos, ctx_out = []\<rparr> = Some (Inr c, v', ev)
        \<and> (pos < int (length ts) + 2 \<longrightarrow> (ctx_out c, ctx_pos c) = task_read dots te ns k dcache 0 a pos)
        \<and> tid_at te ts v' (ctx_pos c) \<and> (\<forall>p. task_refs p ev = 0))"
proof
  have "from_pos 0 (task_dir d dd te dcache ts) = task_dir d dd te dcache ts"
    by (rule from_pos_all) (auto simp: task_dir_def task_entries_def)
  then have "fst (task_read dots te ns k dcache 0 greedy 0) = map snd (task_dir d dd te dcache ts)"
    using task.rd_greedy [of dots d dd te ns k ts 0 dcache] assms(1,2) by simp
  moreover have "map (fst \<circ> snd) (task_entries te dcache 2 ts)
      = map (dec_nat \<circ> task_pid_nr_ns te) (map snd (List.enumerate 2 ts))"
    unfolding task_entries_def map_map by (rule map_cong) auto
  ultimately show "map fst (fst (task_read dots te ns k dcache 0 greedy 0))
      = fst d # fst dd # map (dec_nat \<circ> task_pid_nr_ns te) ts" by (simp add: task_dir_def)
  have dots: "fst (dots a \<lparr>ctx_pos = pos, ctx_out = []\<rparr>)" using assms(2,3) by (simp add: dots_doc_def)
  show "\<exists>c v' ev. proc_task_readdir dots te ns k dcache False a v \<lparr>ctx_pos = pos, ctx_out = []\<rparr> = Some (Inr c, v', ev)
        \<and> (pos < int (length ts) + 2 \<longrightarrow> (ctx_out c, ctx_pos c) = task_read dots te ns k dcache 0 a pos)
        \<and> tid_at te ts v' (ctx_pos c) \<and> (\<forall>p. task_refs p ev = 0)"
    using task_readdir_walks [of te ns k ts dots d dd "\<lparr>ctx_pos = pos, ctx_out = []\<rparr>" v dcache a] assms dots
      task.rd_emit [of dots d dd te ns k ts pos dcache a] by (auto simp: Let_def)
qed

theorem proc_task_readdir_complete_witness:
  "map fst (fst (task_read demo_dots demo_te demo_task_ns demo_threads (\<lambda>_. None) 0 greedy 0)) = [''.'', ''..'', ''42'', ''43'']"
proof -
  have "dec_nat 42 = ''42''" "dec_nat 43 = ''43''" by code_simp+
  then show ?thesis
    using proc_task_readdir_complete [OF demo_group demo_dots_doc order_refl, of 0 "\<lambda>_. None" greedy]
    by (simp add: tid_at_def demo_te_def)
qed

text \<open>
  C17: Hiding does not reach the thread directories: with hiding on and the leader cloaked, the lookup of another,
  uncloaked thread of the group in \<^verbatim>\<open>/proc\<close> succeeds, and in its \<^verbatim>\<open>task\<close> directory the hidden leader is found.\<close>

theorem hidden_leader_reachable:
  assumes "group_ok te ns k ts" "l = hd ts" "u \<in> set ts" "is_hidden k l" "\<not> is_hidden k u"
    and "\<And>n. n < PID_MAX_LIMIT \<Longrightarrow> name_to_int (dec_nat n) = of_nat n"
    and "hide_pid fs \<noteq> HIDEPID_NOT_PTRACEABLE" "new_ino env \<noteq> None"
  shows "fst (proc_pid_lookup env fs ns name_to_int nl k (dec_nat (task_pid_nr_ns te l))) = Inl ENOENT
    \<and> \<not> is_err (fst (proc_pid_lookup env fs ns name_to_int nl k (dec_nat (task_pid_nr_ns te u))))
    \<and> \<not> is_err (fst (proc_task_lookup env ns name_to_int nl' k (Some u) (dec_nat (task_pid_nr_ns te l))))"
proof -
  have l: "l \<in> set ts" using assms(1,2) by (simp add: group_ok_def)
  note gl = group_member [OF assms(1) l] and gu = group_member [OF assms(1,3)]
  obtain sl where sl: "tasks k l = Some sl" "t_thread_pid sl \<noteq> None" using gl(6) by (auto simp: pid_alive_def)
  obtain su where su: "tasks k u = Some su" "t_thread_pid su \<noteq> None" using gu(6) by (auto simp: pid_alive_def)
  have ne: "(of_nat (task_pid_nr_ns te x) :: u32) \<noteq> - 1" if "x = l \<or> x = u" for x
    using that gl(4) gu(4) by (intro u32_not_minus_one) (auto simp: PID_MAX_LIMIT_def)
  have inst: "\<exists>i ev. proc_pid_instantiate env n s = (Inr i, ev)" "\<exists>i ev. proc_task_instantiate env n s = (Inr i, ev)"
    if "t_thread_pid s \<noteq> None" for n s
    using that assms(8)
    by (auto simp: proc_pid_instantiate_def proc_task_instantiate_def proc_pid_make_inode_def Let_def split: prod.splits)
  show ?thesis
    using assms(4,5) assms(6) [of "task_pid_nr_ns te l"] assms(6) [of "task_pid_nr_ns te u"] assms(7) gl(4,5) gu(4,5) gu(7) [OF l]
      ne sl su inst(1) [OF su(2), of nl] inst(2) [OF sl(2), of nl']
    by (auto simp: proc_pid_lookup_def proc_task_lookup_def is_hidden_def Let_def)
qed

theorem hidden_leader_reachable_witness:
  "fst (proc_pid_lookup (demo_env True) demo_fs demo_task_ns demo_name_to_int 3 (set_cloak 1 2 demo_threads) (dec_nat 42)) = Inl ENOENT
   \<and> \<not> is_err (fst (proc_task_lookup (demo_env True) demo_task_ns demo_name_to_int 3 (set_cloak 1 2 demo_threads) (Some 3) (dec_nat 42)))"
proof -
  let ?k = "set_cloak 1 2 demo_threads"
  have g: "group_ok demo_te demo_task_ns ?k [2, 3]"
    by (auto simp: group_ok_def demo_te_def demo_threads_def demo_task_ns_def demo_task_def PID_MAX_LIMIT_def less_Suc_eq
        set_cloak_def)
  have "is_hidden ?k 2" "\<not> is_hidden ?k 3"
    by (simp_all add: is_hidden_def set_cloak_def demo_threads_def demo_task_def)
  then show ?thesis
    using hidden_leader_reachable [OF g, of 2 3 demo_name_to_int demo_fs "demo_env True" 3 3]
    by (auto simp: demo_fs_def demo_env_def demo_te_def demo_name_to_int_def)
qed

end
