(* ===== verification/Unwind.thy ===== *)
theory Unwind
  imports Osexp_Prelude
begin

section \<open>Functions that unwind with \<^verbatim>\<open>goto\<close>\<close>

text \<open>
  The kernel's idiom for a function that acquires many things in a row: each step may fail and
  then jumps to a label, from where a ladder of cleanup statements falls through to the end.  A
  step is its result (\<open>None\<close> for success), what it does itself before it fails, the label it jumps to
  and what it acquires; \<open>run_stages\<close> executes a list of steps over a ladder.

  The locale \<open>goto_unwind\<close> is the discipline such a function follows: whenever a step can fail, the
  ladder from its label releases exactly what is held at that point, newest first.  What follows
  is that a failing call leaves nothing behind and a successful one holds everything it acquired.
\<close>

datatype 'r revent = Acq 'r | Rel 'r

type_synonym ('r, 'l) stage = "errno option \<times> 'r revent list \<times> 'l \<times> 'r revent list"

fun run_stages :: "('l \<Rightarrow> 'r revent list) \<Rightarrow> ('r, 'l) stage list \<Rightarrow> errno option \<times> 'r revent list" where
  "run_stages cleanup [] = (None, [])"
| "run_stages cleanup ((None, undo, lbl, acq) # ss) =
     (case run_stages cleanup ss of (r, ev) \<Rightarrow> (r, acq @ ev))"
| "run_stages cleanup ((Some e, undo, lbl, acq) # ss) = (Some e, undo @ cleanup lbl)"

text \<open>A ladder is the list of its labels with the statements after each; control falls through from the
  label jumped to.\<close>

definition fall_through :: "('l \<times> 'r revent list) list \<Rightarrow> 'l \<Rightarrow> 'r revent list" where
  "fall_through ladder lbl = concat (map snd (dropWhile (\<lambda>(l, _). l \<noteq> lbl) ladder))"

text \<open>The things held, newest first; releasing anything but the newest is \<open>None\<close>.\<close>

fun unstack :: "'r revent list \<Rightarrow> 'r list \<Rightarrow> 'r list option" where
  "unstack [] st = Some st"
| "unstack (Acq r # ev) st = unstack ev (r # st)"
| "unstack (Rel r # ev) [] = None"
| "unstack (Rel r # ev) (x # st) = (if r = x then unstack ev st else None)"

lemma unstack_append: "unstack (a @ b) st = (case unstack a st of None \<Rightarrow> None | Some st' \<Rightarrow> unstack b st')"
  by (induction a st rule: unstack.induct) auto

fun coherent :: "('l \<Rightarrow> 'r revent list) \<Rightarrow> 'r list \<Rightarrow> ('r, 'l) stage list \<Rightarrow> bool" where
  "coherent cleanup held [] = True"
| "coherent cleanup held ((Some e, undo, lbl, acq) # ss) = (unstack (undo @ cleanup lbl) held = Some [])"
| "coherent cleanup held ((None, undo, lbl, acq) # ss) =
     (case unstack acq held of None \<Rightarrow> False | Some held' \<Rightarrow> coherent cleanup held' ss)"

lemma coherent_Cons:
  "coherent cleanup held ((res, undo, lbl, acq) # ss) \<longleftrightarrow>
     (\<forall>e. res = Some e \<longrightarrow> unstack (undo @ cleanup lbl) held = Some [])
     \<and> (res = None \<longrightarrow> (case unstack acq held of None \<Rightarrow> False | Some held' \<Rightarrow> coherent cleanup held' ss))"
  by (cases res) auto

text \<open>Everything acquired by the steps, newest first.\<close>

definition held_after :: "('r, 'l) stage list \<Rightarrow> 'r list option" where
  "held_after ss = unstack (concat (map (\<lambda>(res, undo, lbl, acq). acq) ss)) []"

lemma coherent_run:
  assumes "coherent cleanup held ss"
  shows "case run_stages cleanup ss of
      (Some e, ev) \<Rightarrow> unstack ev held = Some []
    | (None, ev) \<Rightarrow> (\<exists>st. unstack ev held = Some st
        \<and> unstack (concat (map (\<lambda>(res, undo, lbl, acq). acq) ss)) held = Some st)"
  using assms
proof (induction cleanup held ss rule: coherent.induct)
  case (3 cleanup held undo lbl acq ss)
  then obtain held' where h: "unstack acq held = Some held'" "coherent cleanup held' ss"
    by (auto split: option.splits)
  then show ?case using "3.IH" [OF h(1)] by (auto simp: unstack_append split: prod.splits option.splits)
qed simp_all

text \<open>Work done on top of a stack does not touch what is below.\<close>

lemma unstack_above: "unstack ev st = Some st' \<Longrightarrow> unstack ev (st @ below) = Some (st' @ below)"
  by (induction ev st rule: unstack.induct) (auto split: if_splits)

text \<open>The net number of times a thing was acquired.\<close>

fun net :: "'r \<Rightarrow> 'r revent list \<Rightarrow> int" where
  "net r [] = 0"
| "net r (Acq x # ev) = (if x = r then 1 else 0) + net r ev"
| "net r (Rel x # ev) = (if x = r then - 1 else 0) + net r ev"

lemma net_append [simp]: "net r (a @ b) = net r a + net r b"
  by (induction r a rule: net.induct) auto

lemma net_unstack: "unstack ev st = Some st' \<Longrightarrow> net r ev = int (count_list st' r) - int (count_list st r)"
  by (induction ev st rule: unstack.induct) (auto split: if_splits)

locale goto_unwind =
  fixes cleanup :: "'l \<Rightarrow> 'r revent list"
    and stages :: "('r, 'l) stage list"
  assumes coherent: "coherent cleanup [] stages"
begin

lemma unwound: "fst (run_stages cleanup stages) = Some e \<Longrightarrow> unstack (snd (run_stages cleanup stages)) [] = Some []"
  using coherent_run [OF coherent] by (auto split: prod.splits)

lemma completed:
  "fst (run_stages cleanup stages) = None \<Longrightarrow>
   unstack (snd (run_stages cleanup stages)) [] = held_after stages \<and> held_after stages \<noteq> None"
  using coherent_run [OF coherent] by (auto simp: held_after_def split: prod.splits)

end

lemma run_stages_None_iff:
  "fst (run_stages cleanup ss) = None \<longleftrightarrow> (\<forall>(res, undo, lbl, acq) \<in> set ss. res = None)"
proof (induction ss)
  case (Cons s ss)
  then show ?case by (cases s; cases "fst s") (auto split: prod.splits)
qed simp

subsection \<open>Conditional acquisition\<close>

definition opt :: "bool \<Rightarrow> 'r \<Rightarrow> 'r list" where
  "opt c r = (if c then [r] else [])"

lemma unstack_opt [simp]:
  "unstack (map Acq (opt c r) @ ev) st = unstack ev (opt c r @ st)"
  "unstack (map Rel (opt c r) @ ev) (opt c r @ st) = unstack ev st"
  "unstack (map Acq (opt c r)) st = Some (opt c r @ st)"
  "unstack (map Rel (opt c r)) (opt c r @ st) = Some st"
  "unstack (map Rel (opt c r)) (opt c r) = Some []"
  "unstack (map Rel (opt c r) @ ev) (opt c r) = unstack ev []"
  by (simp_all add: opt_def)

definition optv :: "('a \<Rightarrow> 'r) \<Rightarrow> 'a option \<Rightarrow> 'r list" where
  "optv c v = (case v of None \<Rightarrow> [] | Some x \<Rightarrow> [c x])"

lemma unstack_optv [simp]:
  "unstack (map Acq (optv c v) @ ev) st = unstack ev (optv c v @ st)"
  "unstack (map Rel (optv c v) @ ev) (optv c v @ st) = unstack ev st"
  "unstack (map Acq (optv c v)) st = Some (optv c v @ st)"
  "unstack (map Rel (optv c v)) (optv c v @ st) = Some st"
  by (simp_all add: optv_def split: option.splits)

lemma count_list_opt [simp]: "count_list (opt c r) x = (if c \<and> r = x then 1 else 0)"
  by (simp add: opt_def)

lemma count_list_optv [simp]: "count_list (optv c v) x = (if \<exists>y. v = Some y \<and> c y = x then 1 else 0)"
  by (auto simp: optv_def split: option.splits)

lemma net_Rel_opt [simp]: "net x (map Rel (opt c r)) = (if c \<and> r = x then - 1 else 0)"
  by (simp add: opt_def)

end
