(* ===== verification/Fork.thy ===== *)
theory Fork
  imports Unwind Hide
begin

unbundle bit_operations_syntax

section \<open>Creating a task: \<^verbatim>\<open>copy_process\<close>\<close>

text \<open>
  \<^verbatim>\<open>kernel/fork.c\<close>: the flag checks of \<^verbatim>\<open>copy_process\<close>, \<^verbatim>\<open>dup_task_struct\<close> and the \<^verbatim>\<open>copy_*\<close> functions, the chain
  of steps with its ladder of \<^verbatim>\<open>bad_fork_*\<close> labels, and the task that results, with the patch's
  \<^verbatim>\<open>p->cloak = 0\<close>.  What the rest of the kernel answers (allocations, limits, security hooks) is the record
  \<open>fork_env\<close>; things acquired and released are events of \<open>Unwind\<close>.  The configuration modelled has
  \<^verbatim>\<open>CONFIG_NUMA\<close>, \<^verbatim>\<open>CONFIG_BLOCK\<close> and \<^verbatim>\<open>CONFIG_FAULT_INJECTION\<close>.  Counters, timers and accounting fields that no
  modelled code reads are left out.
\<close>

subsection \<open>Clone flags\<close>

text \<open>The values of the user API header \<^verbatim>\<open>linux/sched.h\<close>.\<close>

definition CLONE_VM :: u64 where "CLONE_VM = 0x00000100"
definition CLONE_FS :: u64 where "CLONE_FS = 0x00000200"
definition CLONE_FILES :: u64 where "CLONE_FILES = 0x00000400"
definition CLONE_SIGHAND :: u64 where "CLONE_SIGHAND = 0x00000800"
definition CLONE_PIDFD :: u64 where "CLONE_PIDFD = 0x00001000"
definition CLONE_PTRACE :: u64 where "CLONE_PTRACE = 0x00002000"
definition CLONE_VFORK :: u64 where "CLONE_VFORK = 0x00004000"
definition CLONE_PARENT :: u64 where "CLONE_PARENT = 0x00008000"
definition CLONE_THREAD :: u64 where "CLONE_THREAD = 0x00010000"
definition CLONE_NEWNS :: u64 where "CLONE_NEWNS = 0x00020000"
definition CLONE_SYSVSEM :: u64 where "CLONE_SYSVSEM = 0x00040000"
definition CLONE_SETTLS :: u64 where "CLONE_SETTLS = 0x00080000"
definition CLONE_PARENT_SETTID :: u64 where "CLONE_PARENT_SETTID = 0x00100000"
definition CLONE_CHILD_CLEARTID :: u64 where "CLONE_CHILD_CLEARTID = 0x00200000"
definition CLONE_DETACHED :: u64 where "CLONE_DETACHED = 0x00400000"
definition CLONE_UNTRACED :: u64 where "CLONE_UNTRACED = 0x00800000"
definition CLONE_CHILD_SETTID :: u64 where "CLONE_CHILD_SETTID = 0x01000000"
definition CLONE_NEWCGROUP :: u64 where "CLONE_NEWCGROUP = 0x02000000"
definition CLONE_NEWUTS :: u64 where "CLONE_NEWUTS = 0x04000000"
definition CLONE_NEWIPC :: u64 where "CLONE_NEWIPC = 0x08000000"
definition CLONE_NEWUSER :: u64 where "CLONE_NEWUSER = 0x10000000"
definition CLONE_NEWPID :: u64 where "CLONE_NEWPID = 0x20000000"
definition CLONE_NEWNET :: u64 where "CLONE_NEWNET = 0x40000000"
definition CLONE_IO :: u64 where "CLONE_IO = 0x80000000"
definition CLONE_CLEAR_SIGHAND :: u64 where "CLONE_CLEAR_SIGHAND = 0x100000000"
definition CLONE_INTO_CGROUP :: u64 where "CLONE_INTO_CGROUP = 0x200000000"
definition CLONE_NEWTIME :: u64 where "CLONE_NEWTIME = 0x00000080"
definition CSIGNAL :: u64 where "CSIGNAL = 0x000000ff"

lemmas clone_defs =
  CLONE_VM_def CLONE_FS_def CLONE_FILES_def CLONE_SIGHAND_def CLONE_PIDFD_def CLONE_PTRACE_def
  CLONE_VFORK_def CLONE_PARENT_def CLONE_THREAD_def CLONE_NEWNS_def CLONE_SYSVSEM_def CLONE_SETTLS_def
  CLONE_PARENT_SETTID_def CLONE_CHILD_CLEARTID_def CLONE_DETACHED_def CLONE_UNTRACED_def
  CLONE_CHILD_SETTID_def CLONE_NEWCGROUP_def CLONE_NEWUTS_def CLONE_NEWIPC_def CLONE_NEWUSER_def
  CLONE_NEWPID_def CLONE_NEWNET_def CLONE_IO_def CLONE_CLEAR_SIGHAND_def CLONE_INTO_CGROUP_def
  CLONE_NEWTIME_def CSIGNAL_def

text \<open>\<^verbatim>\<open>flags & m\<close> as a condition, and \<^verbatim>\<open>(flags & m) == m\<close>.\<close>

definition has :: "u64 \<Rightarrow> u64 \<Rightarrow> bool" where "has flags m \<longleftrightarrow> flags AND m \<noteq> 0"
definition has_all :: "u64 \<Rightarrow> u64 \<Rightarrow> bool" where "has_all flags m \<longleftrightarrow> flags AND m = m"

lemma has_OR: "has f (a OR b) \<longleftrightarrow> has f a \<or> has f b"
  by (auto simp: has_def bit_eq_iff bit_simps)

text \<open>\<open>set_tid\<close> is the array \<^verbatim>\<open>set_tid\<close> of \<^verbatim>\<open>set_tid_size\<close> elements.\<close>

record kernel_clone_args =
  flags :: u64
  exit_signal :: int
  pidfd :: uptr
  child_tid :: uptr
  parent_tid :: uptr
  stack :: u64
  stack_size :: u64
  tls :: u64
  set_tid :: "int list"
  cgroup :: int
  io_thread :: bool

text \<open>
  What the rest of the kernel answers: the caller's structures (\<^verbatim>\<open>current->fs\<close> and so on), the results of the
  allocations (\<open>None\<close> for NULL) and the errors of the calls into other subsystems (\<open>None\<close> for
  success).  \<open>fe_flush\<close> is \<^verbatim>\<open>flush_signal_handlers\<close> on the table of actions.\<close>

record fork_env =
  fe_pid_ns_differs :: bool
  fe_time_ns_differs :: bool
  fe_sigpending :: bool
  fe_alloc_task :: bool
  fe_alloc_stack :: bool
  fe_memcg_charge :: "errno option"
  fe_arch_dup :: "errno option"
  fe_scs_prepare :: "errno option"
  fe_nproc_reached :: bool
  fe_user_is_init :: bool
  fe_cap_sys_resource :: bool
  fe_cap_sys_admin :: bool
  fe_copy_creds :: "errno option"
  fe_nr_threads :: nat
  fe_max_threads :: nat
  fe_mpol_dup :: "errno option"
  fe_sched_fork :: "errno option"
  fe_perf_event :: "errno option"
  fe_audit_alloc :: "errno option"
  fe_security :: "errno option"
  fe_semundo :: "errno option"
  fe_files :: "nat option"
  fe_dup_fd :: "nat result"
  fe_fs :: nat
  fe_fs_in_exec :: bool
  fe_copy_fs_struct :: "nat option"
  fe_sighand :: nat
  fe_actions :: "nat list"
  fe_flush :: "nat list \<Rightarrow> nat list"
  fe_alloc_sighand :: "nat option"
  fe_alloc_signal :: "sigptr option"
  fe_dup_mm :: "mmptr option"
  fe_init_mask :: u64
  fe_namespaces :: "errno option"
  fe_io_context :: "nat option"
  fe_ioprio_valid :: bool
  fe_new_io_context :: "nat option"
  fe_copy_thread :: "errno option"
  fe_alloc_pid :: "errno option"
  fe_get_unused_fd :: "errno option"
  fe_getfile :: "errno option"
  fe_put_user :: "errno option"
  fe_can_fork :: "errno option"
  fe_ns_dying :: bool
  fe_fatal_signal :: bool
  fe_task :: tptr
  fe_pid :: pidptr
  fe_pid_nr :: int
  fe_child_reaper :: bool
  fe_leader_exit_signal :: int

definition SIGNAL_UNKILLABLE :: u32 where "SIGNAL_UNKILLABLE = 0x40"
definition MMF_MULTIPROCESS :: nat where "MMF_MULTIPROCESS = 27"

subsection \<open>The flag checks\<close>

text \<open>\<open>sg\<close> is \<^verbatim>\<open>*current->signal\<close>.\<close>

definition copy_process_checks :: "fork_env \<Rightarrow> signal_struct \<Rightarrow> u64 \<Rightarrow> unit result" where
  "copy_process_checks env sg clone_flags =
     (if has_all clone_flags (CLONE_NEWNS OR CLONE_FS) then Inl EINVAL
      else if has_all clone_flags (CLONE_NEWUSER OR CLONE_FS) then Inl EINVAL
      else if has clone_flags CLONE_THREAD \<and> \<not> has clone_flags CLONE_SIGHAND then Inl EINVAL
      else if has clone_flags CLONE_SIGHAND \<and> \<not> has clone_flags CLONE_VM then Inl EINVAL
      else if has clone_flags CLONE_PARENT \<and> sg_flags sg AND SIGNAL_UNKILLABLE \<noteq> 0 then Inl EINVAL
      else if has clone_flags CLONE_THREAD
              \<and> (has clone_flags (CLONE_NEWUSER OR CLONE_NEWPID) \<or> fe_pid_ns_differs env) then Inl EINVAL
      else if has clone_flags (CLONE_THREAD OR CLONE_VM) \<and> fe_time_ns_differs env then Inl EINVAL
      else if has clone_flags CLONE_PIDFD \<and> has clone_flags (CLONE_DETACHED OR CLONE_THREAD) then Inl EINVAL
      else Inr ())"

subsection \<open>The steps\<close>

datatype fresource =
    R_delayed_node | R_task_mem | R_stack | R_creds | R_delayacct | R_mempolicy | R_perf | R_audit | R_security
  | R_semundo | R_files nat | R_fs nat | R_sighand nat | R_signal sigptr | R_mm mmptr | R_namespaces
  | R_io_context nat | R_thread | R_pid | R_fd | R_pidfile | R_cgroup | R_tasklist_lock | R_siglock

definition fail_if :: "bool \<Rightarrow> errno \<Rightarrow> errno option" where
  "fail_if c e = (if c then Some e else None)"

datatype dup_label = Return_null | Free_tsk | Free_stack

definition dup_ladder :: "(dup_label \<times> fresource revent list) list" where
  "dup_ladder = [(Free_stack, [Rel R_stack]), (Free_tsk, [Rel R_task_mem]), (Return_null, [])]"

definition dup_task_struct_stages :: "fork_env \<Rightarrow> (fresource, dup_label) stage list" where
  "dup_task_struct_stages env =
     [(fail_if (\<not> fe_alloc_task env) ENOMEM, [], Return_null, [Acq R_task_mem]),
      (fail_if (\<not> fe_alloc_stack env) ENOMEM, [], Free_tsk, [Acq R_stack]),
      (fe_memcg_charge env, [], Free_stack, []),
      (fe_arch_dup env, [], Free_stack, []),
      (fe_scs_prepare env, [], Free_stack, [])]"

text \<open>\<^verbatim>\<open>dup_task_struct\<close>: the copy of the parent's structure; \<open>None\<close> is NULL.\<close>

definition dup_task_struct :: "fork_env \<Rightarrow> task_struct \<Rightarrow> task_struct option \<times> fresource revent list" where
  "dup_task_struct env orig =
     (case run_stages (fall_through dup_ladder) (dup_task_struct_stages env) of
        (Some e, ev) \<Rightarrow> (None, ev)
      | (None, ev) \<Rightarrow> (Some (orig\<lparr>t_fail_nth := 0\<rparr>), ev))"

text \<open>The \<^verbatim>\<open>copy_*\<close> functions: the error, or the structure the child has.  A structure it shares gets one more
  user, a new one has the child as its only user: in both cases an \<open>Acq\<close> of that structure in the trace.\<close>

definition copy_mm :: "fork_env \<Rightarrow> u64 \<Rightarrow> mmptr option \<Rightarrow> mmptr option result" where
  "copy_mm env clone_flags oldmm =
     (case oldmm of
        None \<Rightarrow> Inr None
      | Some mm \<Rightarrow>
          if has clone_flags CLONE_VM then Inr (Some mm)
          else case fe_dup_mm env of None \<Rightarrow> Inl ENOMEM | Some new \<Rightarrow> Inr (Some new))"

definition copy_fs :: "fork_env \<Rightarrow> u64 \<Rightarrow> nat result" where
  "copy_fs env clone_flags =
     (if has clone_flags CLONE_FS then (if fe_fs_in_exec env then Inl EAGAIN else Inr (fe_fs env))
      else case fe_copy_fs_struct env of None \<Rightarrow> Inl ENOMEM | Some new \<Rightarrow> Inr new)"

definition copy_files :: "fork_env \<Rightarrow> u64 \<Rightarrow> nat option result" where
  "copy_files env clone_flags =
     (case fe_files env of
        None \<Rightarrow> Inr None
      | Some oldf \<Rightarrow>
          if has clone_flags CLONE_FILES then Inr (Some oldf)
          else case fe_dup_fd env of Inl e \<Rightarrow> Inl e | Inr new \<Rightarrow> Inr (Some new))"

definition copy_io :: "fork_env \<Rightarrow> u64 \<Rightarrow> nat option result" where
  "copy_io env clone_flags =
     (case fe_io_context env of
        None \<Rightarrow> Inr None
      | Some ioc \<Rightarrow>
          if has clone_flags CLONE_IO then Inr (Some ioc)
          else if fe_ioprio_valid env then
            (case fe_new_io_context env of None \<Rightarrow> Inl ENOMEM | Some new \<Rightarrow> Inr (Some new))
          else Inr None)"

text \<open>\<^verbatim>\<open>copy_sighand\<close>: the structure and its table of actions.\<close>

definition copy_sighand :: "fork_env \<Rightarrow> u64 \<Rightarrow> (nat \<times> nat list) result" where
  "copy_sighand env clone_flags =
     (if has clone_flags CLONE_SIGHAND then Inr (fe_sighand env, fe_actions env)
      else case fe_alloc_sighand env of
        None \<Rightarrow> Inl ENOMEM
      | Some sig \<Rightarrow>
          let action = fe_actions env;
              action = (if has clone_flags CLONE_CLEAR_SIGHAND then fe_flush env action else action)
          in Inr (sig, action))"

text \<open>\<^verbatim>\<open>copy_signal\<close>: a thread keeps the group's structure, a process gets a new one, zeroed and then
  filled in from the caller's.\<close>

definition copy_signal :: "fork_env \<Rightarrow> u64 \<Rightarrow> sigptr \<Rightarrow> sigptr result" where
  "copy_signal env clone_flags oldsig =
     (if has clone_flags CLONE_THREAD then Inr oldsig
      else case fe_alloc_signal env of None \<Rightarrow> Inl ENOMEM | Some new \<Rightarrow> Inr new)"

definition new_signal_struct :: "signal_struct \<Rightarrow> signal_struct" where
  "new_signal_struct old =
     \<lparr>sg_nr_threads = 1, sg_live = 1, sg_sigcnt = 1, sg_flags = 0, sg_oom_score_adj = sg_oom_score_adj old,
      sg_oom_score_adj_min = sg_oom_score_adj_min old, sg_rlim = sg_rlim old\<rparr>"

text \<open>\<^verbatim>\<open>dup_mm\<close>: the copy, as \<^verbatim>\<open>mm_init\<close> leaves it.\<close>

definition new_mm_struct :: "u64 \<Rightarrow> mm_struct \<Rightarrow> mm_struct" where
  "new_mm_struct init_mask old = old\<lparr>mm_users := 1, mm_flags := mm_flags old AND init_mask\<rparr>"

definition err_of :: "'a result \<Rightarrow> errno option" where
  "err_of r = (case r of Inl e \<Rightarrow> Some e | Inr _ \<Rightarrow> None)"

definition ok_or :: "'a \<Rightarrow> 'a result \<Rightarrow> 'a" where
  "ok_or d r = (case r of Inl _ \<Rightarrow> d | Inr x \<Rightarrow> x)"

subsection \<open>The ladder\<close>

datatype fork_label =
    Bad_fork_cancel_cgroup | Bad_fork_put_pidfd | Bad_fork_free_pid | Bad_fork_cleanup_thread
  | Bad_fork_cleanup_io | Bad_fork_cleanup_namespaces | Bad_fork_cleanup_mm | Bad_fork_cleanup_signal
  | Bad_fork_cleanup_sighand | Bad_fork_cleanup_fs | Bad_fork_cleanup_files | Bad_fork_cleanup_semundo
  | Bad_fork_cleanup_security | Bad_fork_cleanup_audit | Bad_fork_cleanup_perf | Bad_fork_cleanup_policy
  | Bad_fork_cleanup_threadgroup_lock | Bad_fork_cleanup_count | Bad_fork_free | Fork_out

text \<open>What the ladder sees of the new task: \<^verbatim>\<open>p->mm\<close>, \<^verbatim>\<open>p->io_context\<close>, \<^verbatim>\<open>p->files\<close> and so on, whether \<^verbatim>\<open>pid\<close> is
  \<^verbatim>\<open>&init_struct_pid\<close>, and the flags.\<close>

record ladder_view =
  lv_flags :: u64
  lv_mm :: "mmptr option"
  lv_io :: "nat option"
  lv_files :: "nat option"
  lv_fs :: nat
  lv_sighand :: nat
  lv_signal :: sigptr
  lv_idle :: bool

definition fork_ladder :: "ladder_view \<Rightarrow> (fork_label \<times> fresource revent list) list" where
  "fork_ladder v =
     [(Bad_fork_cancel_cgroup, [Rel R_siglock, Rel R_tasklist_lock, Rel R_cgroup]),
      (Bad_fork_put_pidfd, map Rel (opt (has (lv_flags v) CLONE_PIDFD) R_pidfile)
                           @ map Rel (opt (has (lv_flags v) CLONE_PIDFD) R_fd)),
      (Bad_fork_free_pid, map Rel (opt (\<not> lv_idle v) R_pid)),
      (Bad_fork_cleanup_thread, [Rel R_thread]),
      (Bad_fork_cleanup_io, map Rel (optv R_io_context (lv_io v))),
      (Bad_fork_cleanup_namespaces, [Rel R_namespaces]),
      (Bad_fork_cleanup_mm, map Rel (optv R_mm (lv_mm v))),
      (Bad_fork_cleanup_signal, map Rel (opt (\<not> has (lv_flags v) CLONE_THREAD) (R_signal (lv_signal v)))),
      (Bad_fork_cleanup_sighand, [Rel (R_sighand (lv_sighand v))]),
      (Bad_fork_cleanup_fs, [Rel (R_fs (lv_fs v))]),
      (Bad_fork_cleanup_files, map Rel (optv R_files (lv_files v))),
      (Bad_fork_cleanup_semundo, [Rel R_semundo]),
      (Bad_fork_cleanup_security, [Rel R_security]),
      (Bad_fork_cleanup_audit, [Rel R_audit]),
      (Bad_fork_cleanup_perf, [Rel R_perf]),
      (Bad_fork_cleanup_policy, [Rel R_mempolicy]),
      (Bad_fork_cleanup_threadgroup_lock, [Rel R_delayacct]),
      (Bad_fork_cleanup_count, [Rel R_creds]),
      (Bad_fork_free, [Rel R_stack, Rel R_task_mem]),
      (Fork_out, map Rel (opt (\<not> has (lv_flags v) CLONE_THREAD) R_delayed_node))]"

text \<open>The chain of steps, in the order of the code.  The node on the parent's list of delayed signals is
  the first thing held, for a new process only.\<close>

definition prepare_stages :: "fork_env \<Rightarrow> u64 \<Rightarrow> task_struct \<Rightarrow> (fresource, fork_label) stage list" where
  "prepare_stages env fl cur =
     (let dup = dup_task_struct env cur
      in [(None, [], Fork_out, map Acq (opt (\<not> has fl CLONE_THREAD) R_delayed_node)),
          (fail_if (fe_sigpending env) ERESTARTNOINTR, [], Fork_out, []),
          (fail_if (fst dup = None) ENOMEM, snd dup, Fork_out, snd dup),
          (fail_if (fe_nproc_reached env \<and> \<not> fe_user_is_init env \<and> \<not> fe_cap_sys_resource env \<and> \<not> fe_cap_sys_admin env)
             EAGAIN, [], Bad_fork_free, []),
          (fe_copy_creds env, [], Bad_fork_free, [Acq R_creds]),
          (fail_if (fe_nr_threads env \<ge> fe_max_threads env) EAGAIN, [], Bad_fork_cleanup_count, [Acq R_delayacct]),
          (fe_mpol_dup env, [], Bad_fork_cleanup_threadgroup_lock, [Acq R_mempolicy])])"

definition view_of :: "fork_env \<Rightarrow> u64 \<Rightarrow> bool \<Rightarrow> task_struct \<Rightarrow> ladder_view" where
  "view_of env fl idle cur =
     \<lparr>lv_flags = fl, lv_mm = ok_or None (copy_mm env fl (t_mm cur)), lv_io = ok_or None (copy_io env fl),
      lv_files = ok_or (fe_files env) (copy_files env fl), lv_fs = ok_or (fe_fs env) (copy_fs env fl),
      lv_sighand = fst (ok_or (fe_sighand env, []) (copy_sighand env fl)),
      lv_signal = ok_or (t_signal cur) (copy_signal env fl (t_signal cur)), lv_idle = idle\<rparr>"

definition copy_stages :: "fork_env \<Rightarrow> u64 \<Rightarrow> task_struct \<Rightarrow> (fresource, fork_label) stage list" where
  "copy_stages env fl cur =
     (let v = view_of env fl False cur
      in [(fe_sched_fork env, [], Bad_fork_cleanup_policy, []),
          (fe_perf_event env, [], Bad_fork_cleanup_policy, [Acq R_perf]),
          (fe_audit_alloc env, [], Bad_fork_cleanup_perf, [Acq R_audit]),
          (fe_security env, [], Bad_fork_cleanup_audit, [Acq R_security]),
          (fe_semundo env, [], Bad_fork_cleanup_security, [Acq R_semundo]),
          (err_of (copy_files env fl), [], Bad_fork_cleanup_semundo, map Acq (optv R_files (lv_files v))),
          (err_of (copy_fs env fl), [], Bad_fork_cleanup_files, [Acq (R_fs (lv_fs v))]),
          (err_of (copy_sighand env fl), [], Bad_fork_cleanup_fs, [Acq (R_sighand (lv_sighand v))]),
          (err_of (copy_signal env fl (t_signal cur)), [], Bad_fork_cleanup_sighand,
             map Acq (opt (\<not> has fl CLONE_THREAD) (R_signal (lv_signal v)))),
          (err_of (copy_mm env fl (t_mm cur)), [], Bad_fork_cleanup_signal, map Acq (optv R_mm (lv_mm v))),
          (fe_namespaces env, [], Bad_fork_cleanup_mm, [Acq R_namespaces]),
          (err_of (copy_io env fl), [], Bad_fork_cleanup_namespaces, map Acq (optv R_io_context (lv_io v))),
          (fe_copy_thread env, [], Bad_fork_cleanup_io, [Acq R_thread])])"

definition publish_stages :: "fork_env \<Rightarrow> u64 \<Rightarrow> bool \<Rightarrow> (fresource, fork_label) stage list" where
  "publish_stages env fl idle =
     (let pidfd_flag = has fl CLONE_PIDFD
      in [(if idle then None else fe_alloc_pid env, [], Bad_fork_cleanup_thread, map Acq (opt (\<not> idle) R_pid)),
          (if pidfd_flag then fe_get_unused_fd env else None, [], Bad_fork_free_pid, map Acq (opt pidfd_flag R_fd)),
          (if pidfd_flag then fe_getfile env else None, map Rel (opt pidfd_flag R_fd), Bad_fork_free_pid,
             map Acq (opt pidfd_flag R_pidfile)),
          (if pidfd_flag then fe_put_user env else None, [], Bad_fork_put_pidfd, []),
          (fe_can_fork env, [], Bad_fork_put_pidfd, [Acq R_cgroup, Acq R_tasklist_lock, Acq R_siglock]),
          (fail_if (fe_ns_dying env) ENOMEM, [], Bad_fork_cancel_cgroup, []),
          (fail_if (fe_fatal_signal env) EINTR, [], Bad_fork_cancel_cgroup, [])])"

definition copy_process_stages ::
  "fork_env \<Rightarrow> kernel_clone_args \<Rightarrow> bool \<Rightarrow> task_struct \<Rightarrow> (fresource, fork_label) stage list" where
  "copy_process_stages env args idle cur =
     prepare_stages env (flags args) cur @ copy_stages env (flags args) cur @ publish_stages env (flags args) idle"

lemmas stages_defs = copy_process_stages_def prepare_stages_def copy_stages_def publish_stages_def


subsection \<open>The result\<close>

text \<open>The child, field by field as the code sets them.\<close>

definition child_task :: "fork_env \<Rightarrow> kernel_clone_args \<Rightarrow> tptr \<Rightarrow> task_struct \<Rightarrow> task_struct" where
  "child_task env args curp cur =
     (let fl = flags args;
          p = cur\<lparr>t_fail_nth := 0\<rparr>;
          p = p\<lparr>t_cloak := 0\<rparr>;
          p = (if io_thread args then p\<lparr>t_flags := t_flags p OR PF_IO_WORKER\<rparr> else p);
          p = p\<lparr>t_flags := t_flags p AND NOT (PF_SUPERPRIV OR PF_WQ_WORKER OR PF_IDLE OR PF_NO_SETAFFINITY)\<rparr>;
          p = p\<lparr>t_flags := t_flags p OR PF_FORKNOEXEC\<rparr>;
          p = p\<lparr>t_vfork_done := False\<rparr>;
          p = p\<lparr>t_default_timer_slack_ns := t_timer_slack_ns cur\<rparr>;
          p = (case copy_signal env fl (t_signal cur) of Inr s \<Rightarrow> p\<lparr>t_signal := s\<rparr> | Inl _ \<Rightarrow> p);
          p = (case copy_mm env fl (t_mm cur) of Inr mm \<Rightarrow> p\<lparr>t_mm := mm\<rparr> | Inl _ \<Rightarrow> p);
          p = p\<lparr>t_pid := fe_pid_nr env\<rparr>;
          p = (if has fl CLONE_THREAD then p\<lparr>t_group_leader := t_group_leader cur, t_tgid := t_tgid cur\<rparr>
               else p\<lparr>t_group_leader := fe_task env, t_tgid := t_pid p\<rparr>);
          p = (if has fl (CLONE_PARENT OR CLONE_THREAD) then p\<lparr>t_real_parent := t_real_parent cur\<rparr>
               else p\<lparr>t_real_parent := curp\<rparr>)
      in if t_pid p \<noteq> 0 then p\<lparr>t_thread_pid := Some (fe_pid env)\<rparr> else p)"

definition child_exit_signal :: "fork_env \<Rightarrow> kernel_clone_args \<Rightarrow> int" where
  "child_exit_signal env args =
     (if has (flags args) CLONE_THREAD then - 1
      else if has (flags args) CLONE_PARENT then fe_leader_exit_signal env
      else exit_signal args)"

text \<open>\<^verbatim>\<open>copy_oom_score_adj\<close>, with the signal structure of the caller.\<close>

definition copy_oom_score_adj :: "u64 \<Rightarrow> sigptr \<Rightarrow> task_struct \<Rightarrow> kernel \<Rightarrow> kernel" where
  "copy_oom_score_adj clone_flags cursig tsk k =
     (case t_mm tsk of
        None \<Rightarrow> k
      | Some mm \<Rightarrow>
          if clone_flags AND (CLONE_VM OR CLONE_THREAD OR CLONE_VFORK) \<noteq> CLONE_VM then k
          else
            let k1 = update_mm mm (\<lambda>m. m\<lparr>mm_flags := mm_flags m OR push_bit MMF_MULTIPROCESS 1\<rparr>) k
            in case signals k1 cursig of
                 None \<Rightarrow> k1
               | Some sg \<Rightarrow> update_signal (t_signal tsk) (\<lambda>s. s\<lparr>sg_oom_score_adj := sg_oom_score_adj sg,
                   sg_oom_score_adj_min := sg_oom_score_adj_min sg\<rparr>) k1)"

text \<open>The structures the successful steps made or took a share of.\<close>

definition add_shared :: "fork_env \<Rightarrow> u64 \<Rightarrow> task_struct \<Rightarrow> signal_struct \<Rightarrow> task_struct \<Rightarrow> kernel \<Rightarrow> kernel" where
  "add_shared env fl cur sg p k =
     (let k1 = (if has fl CLONE_THREAD then k
                else k\<lparr>signals := (signals k)(t_signal p \<mapsto> new_signal_struct sg)\<rparr>)
      in case (t_mm cur, t_mm p) of
           (Some oldmm, Some mm) \<Rightarrow>
             if has fl CLONE_VM then update_mm oldmm (\<lambda>m. m\<lparr>mm_users := mm_users m + 1\<rparr>) k1
             else k1\<lparr>mms := (mms k1)(mm := map_option (new_mm_struct (fe_init_mask env)) (mms k1 oldmm))\<rparr>
         | _ \<Rightarrow> k1)"

text \<open>\<^verbatim>\<open>thread_group_leader(p)\<close> is \<^verbatim>\<open>p->exit_signal >= 0\<close>.\<close>

definition link_child :: "fork_env \<Rightarrow> kernel_clone_args \<Rightarrow> task_struct \<Rightarrow> task_struct \<Rightarrow> kernel \<Rightarrow> kernel" where
  "link_child env args cur p k =
     (let k1 = k\<lparr>tasks := (tasks k)(fe_task env \<mapsto> p)\<rparr>
      in if t_pid p \<noteq> 0 then
           (if child_exit_signal env args \<ge> 0 then
              let k2 = (if fe_child_reaper env
                        then update_signal (t_signal p) (\<lambda>s. s\<lparr>sg_flags := sg_flags s OR SIGNAL_UNKILLABLE\<rparr>) k1 else k1)
              in k2\<lparr>process_list := process_list k2 @ [fe_task env]\<rparr>
            else update_signal (t_signal cur) (\<lambda>s. s\<lparr>sg_nr_threads := sg_nr_threads s + 1, sg_live := sg_live s + 1,
                   sg_sigcnt := sg_sigcnt s + 1\<rparr>) k1)
         else k1)"

text \<open>The flag is cleared in the parent once the limit check is passed.\<close>

definition clear_nproc_exceeded :: "tptr \<Rightarrow> kernel \<Rightarrow> kernel" where
  "clear_nproc_exceeded curp k = update_task curp (\<lambda>t. t\<lparr>t_flags := t_flags t AND NOT PF_NPROC_EXCEEDED\<rparr>) k"

definition passed_limit_check :: "fork_env \<Rightarrow> task_struct \<Rightarrow> bool" where
  "passed_limit_check env cur \<longleftrightarrow>
     \<not> fe_sigpending env \<and> fst (dup_task_struct env cur) \<noteq> None
     \<and> \<not> (fe_nproc_reached env \<and> \<not> fe_user_is_init env \<and> \<not> fe_cap_sys_resource env \<and> \<not> fe_cap_sys_admin env)"

text \<open>The caller and its signal structure.\<close>

definition current_of :: "kernel \<Rightarrow> tptr \<Rightarrow> (task_struct \<times> signal_struct) option" where
  "current_of k curp =
     (case tasks k curp of None \<Rightarrow> None
      | Some cur \<Rightarrow> (case signals k (t_signal cur) of None \<Rightarrow> None | Some sg \<Rightarrow> Some (cur, sg)))"

abbreviation run_copy_process :: "fork_env \<Rightarrow> kernel_clone_args \<Rightarrow> bool \<Rightarrow> task_struct \<Rightarrow> errno option \<times> fresource revent list" where
  "run_copy_process env args idle cur \<equiv>
     run_stages (fall_through (fork_ladder (view_of env (flags args) idle cur))) (copy_process_stages env args idle cur)"

definition new_child :: "fork_env \<Rightarrow> kernel_clone_args \<Rightarrow> tptr \<Rightarrow> task_struct \<Rightarrow> signal_struct \<Rightarrow> kernel \<Rightarrow> kernel" where
  "new_child env args curp cur sg k =
     (let p = child_task env args curp cur;
          k = add_shared env (flags args) cur sg p k;
          k = link_child env args cur p k
      in copy_oom_score_adj (flags args) (t_signal cur) p k)"

definition copy_process ::
  "fork_env \<Rightarrow> kernel_clone_args \<Rightarrow> bool \<Rightarrow> tptr \<Rightarrow> kernel \<Rightarrow> tptr result \<times> kernel \<times> fresource revent list" where
  "copy_process env args idle curp k =
     (case current_of k curp of
        None \<Rightarrow> (Inl EINVAL, k, [])
      | Some (cur, sg) \<Rightarrow>
          (case copy_process_checks env sg (flags args) of
             Inl e \<Rightarrow> (Inl e, k, [])
           | Inr _ \<Rightarrow>
               let k1 = (if passed_limit_check env cur then clear_nproc_exceeded curp k else k)
               in case run_copy_process env args idle cur of
                    (Some e, ev) \<Rightarrow> (Inl e, k1, ev)
                  | (None, ev) \<Rightarrow>
                      (Inr (fe_task env), new_child env args curp cur sg k1,
                       ev @ map Rel (opt (\<not> has (flags args) CLONE_THREAD) R_delayed_node)
                          @ [Rel R_siglock, Rel R_tasklist_lock, Rel R_cgroup])))"

subsection \<open>The ladders unwind\<close>

lemma fail_if_simps [simp]: "fail_if c e = None \<longleftrightarrow> \<not> c" "fail_if c e = Some e' \<longleftrightarrow> c \<and> e' = e"
  by (auto simp: fail_if_def)

interpretation dup: goto_unwind "fall_through dup_ladder" "dup_task_struct_stages env" for env
  unfolding dup_task_struct_stages_def
  by unfold_locales (simp add: coherent_Cons fall_through_def dup_ladder_def)

lemma dup_task_struct_events:
  "fst (dup_task_struct env cur) = None \<Longrightarrow> unstack (snd (dup_task_struct env cur)) held = Some held"
  "fst (dup_task_struct env cur) \<noteq> None \<Longrightarrow> unstack (snd (dup_task_struct env cur)) held = Some (R_stack # R_task_mem # held)"
proof -
  assume "fst (dup_task_struct env cur) = None"
  then have "unstack (snd (dup_task_struct env cur)) [] = Some []"
    using dup.unwound [of env] by (auto simp: dup_task_struct_def split: prod.splits option.splits)
  then show "unstack (snd (dup_task_struct env cur)) held = Some held"
    using unstack_above [of _ "[]" "[]" held] by simp
next
  assume "fst (dup_task_struct env cur) \<noteq> None"
  then have "unstack (snd (dup_task_struct env cur)) [] = held_after (dup_task_struct_stages env)"
    using dup.completed [of env] by (auto simp: dup_task_struct_def split: prod.splits option.splits)
  then have "unstack (snd (dup_task_struct env cur)) [] = Some [R_stack, R_task_mem]"
    by (simp add: held_after_def dup_task_struct_stages_def)
  then show "unstack (snd (dup_task_struct env cur)) held = Some (R_stack # R_task_mem # held)"
    using unstack_above [of _ "[]" _ held] by fastforce
qed

lemma unstack_undo: "unstack a st = Some st' \<Longrightarrow> unstack (a @ b) st = unstack b st'"
  by (simp add: unstack_append)

lemma view_of_idle [simp]:
  "lv_flags (view_of env fl idle cur) = fl" "lv_idle (view_of env fl idle cur) = idle"
  "lv_mm (view_of env fl True cur) = lv_mm (view_of env fl False cur)"
  "lv_io (view_of env fl True cur) = lv_io (view_of env fl False cur)"
  "lv_files (view_of env fl True cur) = lv_files (view_of env fl False cur)"
  "lv_fs (view_of env fl True cur) = lv_fs (view_of env fl False cur)"
  "lv_sighand (view_of env fl True cur) = lv_sighand (view_of env fl False cur)"
  "lv_signal (view_of env fl True cur) = lv_signal (view_of env fl False cur)"
  by (simp_all add: view_of_def)

interpretation cp: goto_unwind "fall_through (fork_ladder (view_of env (flags args) idle cur))" "copy_process_stages env args idle cur"
  for env args idle cur
  unfolding stages_defs Let_def
  by unfold_locales (simp add: coherent_Cons fall_through_def fork_ladder_def
      dup_task_struct_events unstack_undo [OF dup_task_struct_events(1)])


subsection \<open>What a call does to the state\<close>

lemma clear_nproc_frame [simp]:
  "process_list (clear_nproc_exceeded curp k) = process_list k"
  "hidden_flag (clear_nproc_exceeded curp k) = hidden_flag k"
  "cloaked (clear_nproc_exceeded curp k) = cloaked k"
  "signals (clear_nproc_exceeded curp k) = signals k"
  "mms (clear_nproc_exceeded curp k) = mms k"
  "q \<noteq> curp \<Longrightarrow> tasks (clear_nproc_exceeded curp k) q = tasks k q"
  by (auto simp: clear_nproc_exceeded_def cloaked_def)

lemma wf_clear_nproc: "wf_kernel k \<Longrightarrow> wf_kernel (clear_nproc_exceeded curp k)"
  unfolding clear_nproc_exceeded_def by (rule wf_update_task) simp_all

lemma child_task_fields:
  "t_cloak (child_task env args curp cur) = 0"
  "t_comm (child_task env args curp cur) = t_comm cur"
  "t_pid (child_task env args curp cur) = fe_pid_nr env"
  "t_uid (child_task env args curp cur) = t_uid cur"
  "t_vfork_done (child_task env args curp cur) = False"
  "t_signal (child_task env args curp cur) = ok_or (t_signal cur) (copy_signal env (flags args) (t_signal cur))"
  "t_mm (child_task env args curp cur) = ok_or (t_mm cur) (copy_mm env (flags args) (t_mm cur))"
  by (simp_all add: child_task_def ok_or_def Let_def split: sum.splits)

lemma child_task_thread:
  assumes "copy_process_checks env sg (flags args) = Inr u" "has (flags args) CLONE_THREAD"
  shows "t_mm (child_task env args curp cur) = t_mm cur" "t_signal (child_task env args curp cur) = t_signal cur"
    "t_tgid (child_task env args curp cur) = t_tgid cur" "t_group_leader (child_task env args curp cur) = t_group_leader cur"
    "t_real_parent (child_task env args curp cur) = t_real_parent cur"
proof -
  have vm: "has (flags args) CLONE_VM" using assms by (auto simp: copy_process_checks_def split: if_splits)
  have "has (flags args) (CLONE_PARENT OR CLONE_THREAD)"
    using assms(2) by (simp add: has_OR)
  then show "t_tgid (child_task env args curp cur) = t_tgid cur" "t_group_leader (child_task env args curp cur) = t_group_leader cur"
    "t_real_parent (child_task env args curp cur) = t_real_parent cur"
    using assms(2) by (simp_all add: child_task_def Let_def split: sum.splits)
  show "t_mm (child_task env args curp cur) = t_mm cur" "t_signal (child_task env args curp cur) = t_signal cur"
    using assms(2) vm by (simp_all add: child_task_fields copy_mm_def copy_signal_def ok_or_def split: option.splits)
qed

lemma child_task_process:
  assumes "\<not> has (flags args) CLONE_THREAD"
  shows "t_group_leader (child_task env args curp cur) = fe_task env"
    "t_tgid (child_task env args curp cur) = fe_pid_nr env"
  using assms by (auto simp: child_task_def Let_def split: sum.splits)

lemma copy_process_Inr:
  assumes "copy_process env args idle curp k = (Inr p, k', ev)"
  shows "\<exists>cur sg k1 ev0. current_of k curp = Some (cur, sg) \<and> copy_process_checks env sg (flags args) = Inr ()
    \<and> p = fe_task env \<and> (k1 = k \<or> k1 = clear_nproc_exceeded curp k) \<and> k' = new_child env args curp cur sg k1
    \<and> run_copy_process env args idle cur = (None, ev0)
    \<and> ev = ev0 @ map Rel (opt (\<not> has (flags args) CLONE_THREAD) R_delayed_node) @ [Rel R_siglock, Rel R_tasklist_lock, Rel R_cgroup]"
proof (cases "current_of k curp")
  case None
  then show ?thesis using assms by (simp add: copy_process_def)
next
  case (Some c)
  obtain cur sg where c: "c = (cur, sg)" by (cases c)
  obtain r ev0 where r: "run_copy_process env args idle cur = (r, ev0)" by (rule prod.exhaust)
  show ?thesis
  proof (cases "copy_process_checks env sg (flags args)")
    case (Inl e)
    then show ?thesis using assms Some c by (simp add: copy_process_def)
  next
    case (Inr u)
    then show ?thesis using assms Some r c by (cases r) (auto simp: copy_process_def Let_def)
  qed
qed

lemma current_of_Some: "current_of k curp = Some (cur, sg) \<longleftrightarrow> tasks k curp = Some cur \<and> signals k (t_signal cur) = Some sg"
  by (auto simp: current_of_def split: option.splits)

text \<open>What a completed chain says of its steps and leaves held.\<close>

lemma run_copy_process_None:
  assumes "run_copy_process env args idle cur = (None, ev)"
  shows "fst (dup_task_struct env cur) \<noteq> None" "err_of (copy_signal env (flags args) (t_signal cur)) = None"
    "err_of (copy_mm env (flags args) (t_mm cur)) = None" "err_of (copy_fs env (flags args)) = None"
    "err_of (copy_files env (flags args)) = None" "err_of (copy_sighand env (flags args)) = None"
proof -
  have all: "\<forall>(res, undo, lbl, acq) \<in> set (copy_process_stages env args idle cur). res = None"
    using run_stages_None_iff [of _ "copy_process_stages env args idle cur"] assms by (metis fst_conv)
  have "fail_if (fst (dup_task_struct env cur) = None) ENOMEM = None" using all by (simp add: stages_defs Let_def)
  then show "fst (dup_task_struct env cur) \<noteq> None" by simp
  show "err_of (copy_signal env (flags args) (t_signal cur)) = None" using all by (simp add: stages_defs Let_def)
  show "err_of (copy_mm env (flags args) (t_mm cur)) = None" using all by (simp add: stages_defs Let_def)
  show "err_of (copy_fs env (flags args)) = None" using all by (simp add: stages_defs Let_def)
  show "err_of (copy_files env (flags args)) = None" using all by (simp add: stages_defs Let_def)
  show "err_of (copy_sighand env (flags args)) = None" using all by (simp add: stages_defs Let_def)
qed

lemma held_after_copy_process:
  assumes "fst (dup_task_struct env cur) \<noteq> None" and "v = view_of env (flags args) False cur"
  shows "held_after (copy_process_stages env args idle cur) = Some
     ([R_siglock, R_tasklist_lock, R_cgroup] @ opt (has (flags args) CLONE_PIDFD) R_pidfile
      @ opt (has (flags args) CLONE_PIDFD) R_fd @ opt (\<not> idle) R_pid @ R_thread
      # optv R_io_context (lv_io v) @ R_namespaces
      # optv R_mm (lv_mm v) @ opt (\<not> has (flags args) CLONE_THREAD) (R_signal (lv_signal v)) @ R_sighand (lv_sighand v)
      # R_fs (lv_fs v) # optv R_files (lv_files v) @ [R_semundo, R_security, R_audit, R_perf, R_mempolicy, R_delayacct,
          R_creds, R_stack, R_task_mem] @ opt (\<not> has (flags args) CLONE_THREAD) R_delayed_node)"
  unfolding held_after_def stages_defs Let_def assms(2)
  by (simp only: append.simps list.map prod.case concat.simps append.simps unstack.simps unstack_opt unstack_optv append_Nil2
      unstack_undo [OF dup_task_struct_events(2) [OF assms(1)]])

lemma copy_process_net:
  assumes "run_copy_process env args idle cur = (None, ev0)" and "v = view_of env (flags args) False cur"
    and "ev = ev0 @ map Rel (opt (\<not> has (flags args) CLONE_THREAD) R_delayed_node) @ [Rel R_siglock, Rel R_tasklist_lock, Rel R_cgroup]"
  shows "net R_siglock ev = 0" "net R_tasklist_lock ev = 0" "net R_delayed_node ev = 0"
    "net (R_fs n) ev = (if lv_fs v = n then 1 else 0)" "net (R_files n) ev = (if lv_files v = Some n then 1 else 0)"
    "net (R_sighand n) ev = (if lv_sighand v = n then 1 else 0)"
proof -
  have "unstack ev0 [] = held_after (copy_process_stages env args idle cur)"
    using cp.completed [of env args idle cur] assms(1) by simp
  note st = this [unfolded held_after_copy_process [OF run_copy_process_None(1) [OF assms(1)] assms(2)]]
  show "net R_siglock ev = 0" "net R_tasklist_lock ev = 0" "net R_delayed_node ev = 0"
    "net (R_fs n) ev = (if lv_fs v = n then 1 else 0)" "net (R_files n) ev = (if lv_files v = Some n then 1 else 0)"
    "net (R_sighand n) ev = (if lv_sighand v = n then 1 else 0)"
    using net_unstack [OF st] by (simp_all add: assms(3))
qed

text \<open>The parts of the state after a successful call.\<close>

lemma add_shared_frame [simp]:
  "tasks (add_shared env fl cur sg p k) = tasks k" "process_list (add_shared env fl cur sg p k) = process_list k"
  "hidden_flag (add_shared env fl cur sg p k) = hidden_flag k"
  "signals (add_shared env fl cur sg p k) = (if has fl CLONE_THREAD then signals k else (signals k)(t_signal p \<mapsto> new_signal_struct sg))"
  by (simp_all add: add_shared_def Let_def split: option.splits)

lemma copy_oom_frame [simp]:
  "tasks (copy_oom_score_adj fl s p k) = tasks k" "process_list (copy_oom_score_adj fl s p k) = process_list k"
  "hidden_flag (copy_oom_score_adj fl s p k) = hidden_flag k"
  by (simp_all add: copy_oom_score_adj_def Let_def split: option.splits)

lemma tasks_new_child: "tasks (new_child env args curp cur sg k) = (tasks k)(fe_task env \<mapsto> child_task env args curp cur)"
  by (simp add: new_child_def link_child_def Let_def)

lemma process_list_new_child:
  "process_list (new_child env args curp cur sg k)
     = process_list k @ (if fe_pid_nr env \<noteq> 0 \<and> child_exit_signal env args \<ge> 0 then [fe_task env] else [])"
  by (simp add: new_child_def link_child_def Let_def child_task_fields)

lemma cloaked_new_child:
  assumes "tasks k (fe_task env) = None"
  shows "cloaked (new_child env args curp cur sg k) = cloaked k"
  using assms by (auto simp: cloaked_def tasks_new_child child_task_fields)

lemma child_exit_signal_leader:
  assumes "0 \<le> exit_signal args" "0 \<le> fe_leader_exit_signal env"
  shows "child_exit_signal env args \<ge> 0 \<longleftrightarrow> \<not> has (flags args) CLONE_THREAD"
  using assms by (simp add: child_exit_signal_def)

subsection \<open>Counting threads\<close>

text \<open>The invariant of the thread counts, and the allocator's promise that a new structure is not in use.\<close>

definition nr_of :: "kernel \<Rightarrow> sigptr \<Rightarrow> int option" where
  "nr_of k s = map_option sg_nr_threads (signals k s)"

definition group_of :: "kernel \<Rightarrow> sigptr \<Rightarrow> tptr set" where
  "group_of k s = {p. \<exists>t. tasks k p = Some t \<and> t_signal t = s}"

definition wf_threads :: "kernel \<Rightarrow> bool" where
  "wf_threads k \<longleftrightarrow> finite (dom (tasks k)) \<and> (\<forall>s. group_of k s \<noteq> {} \<longrightarrow> nr_of k s \<noteq> None)
     \<and> (\<forall>s n. nr_of k s = Some n \<longrightarrow> n = int (card (group_of k s)))"

definition fresh_env :: "fork_env \<Rightarrow> kernel \<Rightarrow> bool" where
  "fresh_env env k \<longleftrightarrow> tasks k (fe_task env) = None \<and> (\<forall>s. fe_alloc_signal env = Some s \<longrightarrow> signals k s = None)
     \<and> (\<forall>m. fe_dup_mm env = Some m \<longrightarrow> mms k m = None)"

lemma group_of_clear [simp]: "group_of (clear_nproc_exceeded curp k) s = group_of k s"
  by (auto simp: group_of_def clear_nproc_exceeded_def)

lemma nr_of_simps [simp]:
  "nr_of (clear_nproc_exceeded curp k) = nr_of k"
  "nr_of (copy_oom_score_adj fl s p k) = nr_of k"
  by (auto simp: nr_of_def fun_eq_iff copy_oom_score_adj_def Let_def option.map_comp o_def split: option.splits)

lemma group_of_new_child:
  assumes "tasks k (fe_task env) = None"
  shows "group_of (new_child env args curp cur sg k) s
     = (if s = t_signal (child_task env args curp cur) then insert (fe_task env) (group_of k s) else group_of k s)"
  using assms by (auto simp: group_of_def tasks_new_child)

lemma nr_of_new_child:
  assumes "fe_pid_nr env > 0" "0 \<le> exit_signal args" "0 \<le> fe_leader_exit_signal env"
  shows "nr_of (new_child env args curp cur sg k)
     = (if has (flags args) CLONE_THREAD then (nr_of k)(t_signal cur := map_option (\<lambda>n. n + 1) (nr_of k (t_signal cur)))
        else (nr_of k)(t_signal (child_task env args curp cur) \<mapsto> 1))"
  using assms child_exit_signal_leader [OF assms(2,3)]
  by (auto simp: new_child_def link_child_def Let_def child_task_fields nr_of_def fun_eq_iff new_signal_struct_def option.map_comp o_def)

text \<open>A count kept in the signal structures, exact for the tasks of each group.  The code keeps two: the number of threads, and the
  references to the structure.\<close>

definition counted :: "(signal_struct \<Rightarrow> int) \<Rightarrow> kernel \<Rightarrow> bool" where
  "counted f k \<longleftrightarrow> finite (dom (tasks k)) \<and> (\<forall>s. group_of k s \<noteq> {} \<longrightarrow> signals k s \<noteq> None)
     \<and> (\<forall>s sg. signals k s = Some sg \<longrightarrow> f sg = int (card (group_of k s)))"

lemma wf_threads_counted: "wf_threads k \<longleftrightarrow> counted sg_nr_threads k"
  by (auto simp: wf_threads_def counted_def nr_of_def)

lemma finite_group: "counted f k \<Longrightarrow> finite (group_of k s)"
  unfolding counted_def by (rule_tac finite_subset [of _ "dom (tasks k)"]) (auto simp: group_of_def)

lemma counted_new_child:
  assumes "counted f k" "fresh_env env k" "signals k (t_signal cur) = Some sg" "copy_process_checks env sg (flags args) = Inr u"
    and "err_of (copy_signal env (flags args) (t_signal cur)) = None"
    and cnt: "map_option f \<circ> signals (new_child env args curp cur sg k)
      = (if has (flags args) CLONE_THREAD then (map_option f \<circ> signals k)(t_signal cur := map_option (\<lambda>x. f x + 1) (signals k (t_signal cur)))
         else (map_option f \<circ> signals k)(t_signal (child_task env args curp cur) \<mapsto> 1))"
  shows "counted f (new_child env args curp cur sg k)"
proof -
  let ?s = "t_signal (child_task env args curp cur)" and ?k = "new_child env args curp cur sg k"
  have fresh: "tasks k (fe_task env) = None" using assms(2) by (simp add: fresh_env_def)
  have new: "fe_task env \<notin> group_of k s" for s using fresh by (simp add: group_of_def)
  note fin = finite_group [OF assms(1)] and g = group_of_new_child [OF fresh, of args curp cur sg]
  have c: "map_option f (signals ?k s) = (if has (flags args) CLONE_THREAD
      then (if s = t_signal cur then Some (f sg + 1) else map_option f (signals k s))
      else (if s = ?s then Some 1 else map_option f (signals k s)))" for s
    using fun_cong [OF cnt, of s] assms(3) by (auto split: if_splits)
  have thread: "?s = t_signal cur" if "has (flags args) CLONE_THREAD"
    using child_task_thread(2) [OF assms(4) that, of curp cur] .
  have process: "group_of k ?s = {}" if not: "\<not> has (flags args) CLONE_THREAD"
  proof -
    have "fe_alloc_signal env = Some ?s"
      using assms(5) not by (auto simp: child_task_fields copy_signal_def err_of_def ok_or_def split: option.splits)
    then show ?thesis using assms(1,2) by (auto simp: counted_def fresh_env_def)
  qed
  have "finite (dom (tasks ?k))" using assms(1) by (simp add: counted_def tasks_new_child)
  moreover have "signals ?k s \<noteq> None" if "group_of ?k s \<noteq> {}" for s
  proof -
    have "map_option f (signals ?k s) \<noteq> None"
      using that assms(1) c [of s] thread by (auto simp: g counted_def split: if_splits)
    then show ?thesis by auto
  qed
  moreover have "f sg' = int (card (group_of ?k s))" if "signals ?k s = Some sg'" for s sg'
    using that assms(1,3) c [of s] thread process new fin
    by (cases "has (flags args) CLONE_THREAD"; cases "signals k s") (auto simp: g counted_def split: if_splits)
  ultimately show ?thesis unfolding counted_def by blast
qed

lemma wf_threads_new_child:
  assumes "wf_threads k" "fresh_env env k" "signals k (t_signal cur) = Some sg" "copy_process_checks env sg (flags args) = Inr u"
    and "err_of (copy_signal env (flags args) (t_signal cur)) = None"
    and "fe_pid_nr env > 0" "0 \<le> exit_signal args" "0 \<le> fe_leader_exit_signal env"
  shows "wf_threads (new_child env args curp cur sg k)"
proof -
  have "map_option sg_nr_threads \<circ> signals (new_child env args curp cur sg k) = nr_of (new_child env args curp cur sg k)"
    by (simp add: nr_of_def fun_eq_iff)
  then show ?thesis
    unfolding wf_threads_counted using assms(1)
    by (intro counted_new_child [OF _ assms(2-5)])
      (auto simp: nr_of_new_child [OF assms(6-8)] wf_threads_counted nr_of_def fun_eq_iff option.map_comp o_def)
qed

lemma counted_clear: "counted f k \<Longrightarrow> counted f (clear_nproc_exceeded curp k)"
proof -
  have "dom (tasks (clear_nproc_exceeded curp k)) = dom (tasks k)" "signals (clear_nproc_exceeded curp k) = signals k"
    by (auto simp: clear_nproc_exceeded_def dom_def split: if_splits)
  then show "counted f k \<Longrightarrow> counted f (clear_nproc_exceeded curp k)" by (simp add: counted_def)
qed

lemma wf_threads_clear: "wf_threads k \<Longrightarrow> wf_threads (clear_nproc_exceeded curp k)"
  unfolding wf_threads_counted by (rule counted_clear)

lemma fresh_env_clear: "fresh_env env k \<Longrightarrow> fresh_env env (clear_nproc_exceeded curp k)"
  by (auto simp: fresh_env_def clear_nproc_exceeded_def)

subsection \<open>Properties\<close>

definition demo_env :: fork_env where
  "demo_env = \<lparr>fe_pid_ns_differs = False, fe_time_ns_differs = False, fe_sigpending = False,
     fe_alloc_task = True, fe_alloc_stack = True, fe_memcg_charge = None, fe_arch_dup = None, fe_scs_prepare = None,
     fe_nproc_reached = False, fe_user_is_init = False, fe_cap_sys_resource = False, fe_cap_sys_admin = False,
     fe_copy_creds = None, fe_nr_threads = 2, fe_max_threads = 100, fe_mpol_dup = None, fe_sched_fork = None,
     fe_perf_event = None, fe_audit_alloc = None, fe_security = None, fe_semundo = None, fe_files = Some 2,
     fe_dup_fd = Inr 3, fe_fs = 2, fe_fs_in_exec = False, fe_copy_fs_struct = Some 3, fe_sighand = 2, fe_actions = [],
     fe_flush = (\<lambda>a. a), fe_alloc_sighand = Some 3, fe_alloc_signal = Some 3, fe_dup_mm = Some 3, fe_init_mask = 0xff,
     fe_namespaces = None, fe_io_context = None, fe_ioprio_valid = False, fe_new_io_context = Some 3,
     fe_copy_thread = None, fe_alloc_pid = None, fe_get_unused_fd = None, fe_getfile = None, fe_put_user = None,
     fe_can_fork = None, fe_ns_dying = False, fe_fatal_signal = False, fe_task = 3, fe_pid = 3, fe_pid_nr = 43,
     fe_child_reaper = False, fe_leader_exit_signal = 17\<rparr>"

definition demo_args :: "u64 \<Rightarrow> kernel_clone_args" where
  "demo_args fl = \<lparr>flags = fl, exit_signal = 17, pidfd = 0, child_tid = 0, parent_tid = 0, stack = 0, stack_size = 0,
     tls = 0, set_tid = [], cgroup = 0, io_thread = False\<rparr>"

lemmas demo_eval =
  demo_env_def demo_args_def copy_process_checks_def has_def has_all_def clone_defs stages_defs
  dup_task_struct_def dup_task_struct_stages_def fail_if_def copy_files_def copy_fs_def copy_sighand_def
  copy_signal_def copy_mm_def copy_io_def err_of_def opt_def demo_task_def current_of_def demo_signal_def



text \<open>
  C18: A forked process is always visible: after a successful \<^verbatim>\<open>copy_process\<close> the new task is not cloaked, even if
  its parent is, and no other task's cloak changes.  The new task is on the process list exactly if it is
  not a thread, no other task but the caller is touched, and the locks taken are free again.\<close>

theorem fork_child_visible:
  assumes "copy_process env args idle curp k = (Inr p, k', ev)" "tasks k (fe_task env) = None"
    and "fe_pid_nr env > 0" "0 \<le> exit_signal args" "0 \<le> fe_leader_exit_signal env"
  shows "p \<in> present k' \<and> p \<notin> cloaked k' \<and> cloaked k' = cloaked k
    \<and> process_list k' = process_list k @ (if has (flags args) CLONE_THREAD then [] else [p])
    \<and> (\<forall>q. q \<noteq> p \<and> q \<noteq> curp \<longrightarrow> tasks k' q = tasks k q)
    \<and> net R_siglock ev = 0 \<and> net R_tasklist_lock ev = 0 \<and> net R_delayed_node ev = 0"
proof -
  obtain cur sg k1 ev0 where c: "current_of k curp = Some (cur, sg)" "p = fe_task env" "k1 = k \<or> k1 = clear_nproc_exceeded curp k"
    "k' = new_child env args curp cur sg k1" and ev: "run_copy_process env args idle cur = (None, ev0)"
    "ev = ev0 @ map Rel (opt (\<not> has (flags args) CLONE_THREAD) R_delayed_node) @ [Rel R_siglock, Rel R_tasklist_lock, Rel R_cgroup]"
    using copy_process_Inr [OF assms(1)] by blast
  have "fe_task env \<noteq> curp" using c(1) assms(2) by (auto simp: current_of_Some)
  then have k1: "tasks k1 (fe_task env) = None" "cloaked k1 = cloaked k" "process_list k1 = process_list k"
    "\<forall>q. q \<noteq> curp \<longrightarrow> tasks k1 q = tasks k q"
    using c(3) assms(2) by auto
  have "cloaked k' = cloaked k" unfolding c(4) k1(2) [symmetric] by (rule cloaked_new_child [OF k1(1)])
  moreover have "p \<notin> cloaked k" using assms(2) c(2) by (simp add: cloaked_def)
  moreover have "p \<in> present k'" "\<forall>q. q \<noteq> p \<and> q \<noteq> curp \<longrightarrow> tasks k' q = tasks k q"
    using c(2,4) k1(4) by (simp_all add: tasks_new_child present_def)
  moreover have "process_list k' = process_list k @ (if has (flags args) CLONE_THREAD then [] else [p])"
    using c(2,4) k1(3) assms(3) by (simp add: process_list_new_child child_exit_signal_leader [OF assms(4,5)])
  ultimately show ?thesis using copy_process_net(1-3) [OF ev(1) refl ev(2)] by simp
qed

theorem fork_child_visible_witness:
  "3 \<notin> cloaked (fst (snd (copy_process demo_env (demo_args 0) False 2 (set_cloak 1 2 demo_kernel))))
   \<and> process_list (fst (snd (copy_process demo_env (demo_args 0) False 2 (set_cloak 1 2 demo_kernel)))) = [1, 2, 3]"
proof -
  let ?c = "copy_process demo_env (demo_args 0) False 2 (set_cloak 1 2 demo_kernel)"
  have "fst ?c = Inr 3"
    by (simp add: copy_process_def Let_def passed_limit_check_def demo_eval set_cloak_def)
  then have r: "?c = (Inr 3, fst (snd ?c), snd (snd ?c))" by (metis prod.collapse)
  have h: "tasks (set_cloak 1 2 demo_kernel) (fe_task demo_env) = None" "fe_pid_nr demo_env > 0"
    "0 \<le> exit_signal (demo_args 0)" "0 \<le> fe_leader_exit_signal demo_env"
    and p: "process_list (set_cloak 1 2 demo_kernel) = [1, 2]" "\<not> has (flags (demo_args 0)) CLONE_THREAD"
    by (simp_all add: set_cloak_def demo_kernel_def demo_env_def demo_args_def has_def)
  note v = fork_child_visible [OF r h]
  have "process_list (fst (snd ?c)) = [1, 2, 3]" using v p by simp
  with v show ?thesis by blast
qed



text \<open>
  Thread counts stay right: if every signal structure counts the tasks that use it, it still does
  after \<^verbatim>\<open>copy_process\<close>, whether the call fails or succeeds, for threads and for processes.\<close>

theorem copy_process_counts_threads:
  assumes "wf_threads k" "fresh_env env k" "fe_pid_nr env > 0" "0 \<le> exit_signal args" "0 \<le> fe_leader_exit_signal env"
  shows "wf_threads (fst (snd (copy_process env args idle curp k)))"
proof (cases "copy_process env args idle curp k")
  case (fields r k' ev)
  show ?thesis
  proof (cases r)
    case (Inl e)
    then have "k' = k \<or> k' = clear_nproc_exceeded curp k"
      using fields by (auto simp: copy_process_def Let_def split: option.splits sum.splits prod.splits if_splits)
    then show ?thesis using fields assms(1) wf_threads_clear by auto
  next
    case (Inr p)
    then obtain cur sg k1 ev0 where c: "current_of k curp = Some (cur, sg)" "copy_process_checks env sg (flags args) = Inr ()"
      "k1 = k \<or> k1 = clear_nproc_exceeded curp k" "k' = new_child env args curp cur sg k1"
      "run_copy_process env args idle cur = (None, ev0)"
      using copy_process_Inr fields by metis
    have "wf_threads k1" "fresh_env env k1" "signals k1 (t_signal cur) = Some sg"
      using c(1,3) assms(1,2) wf_threads_clear fresh_env_clear by (auto simp: current_of_Some)
    from wf_threads_new_child [OF this c(2) run_copy_process_None(2) [OF c(5)] assms(3-5)]
    show ?thesis using fields c(4) by simp
  qed
qed

lemma wf_threads_demo: "wf_threads demo_kernel"
proof -
  have "group_of demo_kernel s = (if s = 1 then {1} else if s = 2 then {2} else {})" for s
    by (auto simp: group_of_def demo_kernel_def demo_task_def split: if_splits)
  then show ?thesis by (auto simp: wf_threads_def nr_of_def demo_kernel_def demo_signal_def split: if_splits)
qed

theorem copy_process_counts_threads_witness:
  "wf_threads (fst (snd (copy_process demo_env (demo_args (CLONE_VM OR CLONE_SIGHAND OR CLONE_THREAD)) False 2 demo_kernel)))"
proof (rule copy_process_counts_threads [OF wf_threads_demo])
  show "fresh_env demo_env demo_kernel" by (simp add: fresh_env_def demo_env_def demo_kernel_def)
qed (simp_all add: demo_env_def demo_args_def)

end
