(* ===== verification/Task_Flags.thy ===== *)
theory Task_Flags
  imports Fork
begin

unbundle bit_operations_syntax

section \<open>The inline helpers of the task structure\<close>

text \<open>
  \<^verbatim>\<open>include/linux/sched.h\<close>: the tests and assignments of the task state, the flags of a process (\<^verbatim>\<open>PF_USED_MATH\<close>), the atomic flags made
  by the macros \<^verbatim>\<open>TASK_PFA_*\<close>, the thread flags, restartable sequences and the numbers of a task in a namespace.  The fields
  they use extend the task structure of \<open>Task\<close>.

  The locale \<open>task_flag\<close> is the contract of one atomic flag: setting makes it true, clearing false, and neither touches another
  bit or field.  It is interpreted for the flags with all three operations; \<open>sticky_flag\<close> is the contract of those that
  cannot be cleared.
\<close>

record task_ext = task_struct +
  t_state_change :: bool
  t_atomic_flags :: u64
  t_ti_flags :: u64
  t_rseq :: "uptr option"
  t_rseq_sig :: u32
  t_rseq_event_mask :: u64
  t_static_prio :: int
  t_nr_cpus_allowed :: int
  t_cpu :: u32

subsection \<open>Task states\<close>

definition task_is_traced :: "task_ext \<Rightarrow> bool" where
  "task_is_traced task \<longleftrightarrow> t_state task AND TASK_TRACED_BIT \<noteq> 0"

definition task_is_stopped :: "task_ext \<Rightarrow> bool" where
  "task_is_stopped task \<longleftrightarrow> t_state task AND TASK_STOPPED_BIT \<noteq> 0"

definition task_is_stopped_or_traced :: "task_ext \<Rightarrow> bool" where
  "task_is_stopped_or_traced task \<longleftrightarrow> t_state task AND (TASK_STOPPED_BIT OR TASK_TRACED_BIT) \<noteq> 0"

definition is_special_task_state :: "u32 \<Rightarrow> bool" where
  "is_special_task_state st \<longleftrightarrow> st AND (TASK_STOPPED_BIT OR TASK_TRACED_BIT OR TASK_PARKED OR TASK_DEAD) \<noteq> 0"

text \<open>With \<^verbatim>\<open>CONFIG_DEBUG_ATOMIC_SLEEP\<close>; the second component is the warning.\<close>

definition set_current_state :: "u32 \<Rightarrow> task_ext \<Rightarrow> task_ext \<times> bool" where
  "set_current_state st t = (t\<lparr>t_state_change := True, t_state := st\<rparr>, is_special_task_state st)"

datatype pi_event = Pi_lock | Pi_unlock

definition set_special_state :: "u32 \<Rightarrow> task_ext \<Rightarrow> task_ext \<times> bool \<times> pi_event list" where
  "set_special_state st t = (t\<lparr>t_state_change := True, t_state := st\<rparr>, \<not> is_special_task_state st, [Pi_lock, Pi_unlock])"

subsection \<open>Use of the floating point unit\<close>

definition clear_stopped_child_used_math :: "task_ext \<Rightarrow> task_ext" where
  "clear_stopped_child_used_math child = child\<lparr>t_flags := t_flags child AND NOT PF_USED_MATH\<rparr>"

definition set_stopped_child_used_math :: "task_ext \<Rightarrow> task_ext" where
  "set_stopped_child_used_math child = child\<lparr>t_flags := t_flags child OR PF_USED_MATH\<rparr>"

definition conditional_stopped_child_used_math :: "bool \<Rightarrow> task_ext \<Rightarrow> task_ext" where
  "conditional_stopped_child_used_math condition child =
     (let child = child\<lparr>t_flags := t_flags child AND NOT PF_USED_MATH\<rparr>
      in child\<lparr>t_flags := t_flags child OR (if condition then PF_USED_MATH else 0)\<rparr>)"

definition copy_to_stopped_child_used_math :: "task_ext \<Rightarrow> task_ext \<Rightarrow> task_ext" where
  "copy_to_stopped_child_used_math current child =
     (let child = child\<lparr>t_flags := t_flags child AND NOT PF_USED_MATH\<rparr>
      in child\<lparr>t_flags := t_flags child OR (t_flags current AND PF_USED_MATH)\<rparr>)"

definition tsk_used_math :: "task_ext \<Rightarrow> u32" where
  "tsk_used_math p = t_flags p AND PF_USED_MATH"

definition is_percpu_thread :: "task_ext \<Rightarrow> bool" where
  "is_percpu_thread current \<longleftrightarrow> t_flags current AND PF_NO_SETAFFINITY \<noteq> 0 \<and> t_nr_cpus_allowed current = 1"

definition DEFAULT_PRIO :: int where "DEFAULT_PRIO = 120"

definition task_nice :: "task_ext \<Rightarrow> int" where
  "task_nice p = t_static_prio p - DEFAULT_PRIO"

subsection \<open>Atomic flags\<close>

text \<open>Setting and clearing one bit of a word.\<close>

definition set_flag :: "nat \<Rightarrow> u64 \<Rightarrow> u64" where
  "set_flag n w = set_bit n w"

definition clear_flag :: "nat \<Rightarrow> u64 \<Rightarrow> u64" where
  "clear_flag n w = unset_bit n w"

lemma bit_set_flag [simp]: "n < 64 \<Longrightarrow> bit (set_flag n w) m \<longleftrightarrow> m = n \<or> bit w m"
  by (auto simp: set_flag_def bit_set_bit_iff)

lemma bit_clear_flag [simp]: "bit (clear_flag n w) m \<longleftrightarrow> m \<noteq> n \<and> bit w m"
  by (auto simp: clear_flag_def bit_unset_bit_iff)

lemma set_flag_idem [simp]: "n < 64 \<Longrightarrow> set_flag n (set_flag n w) = set_flag n w"
  by (rule bit_word_eqI) auto

lemma clear_set_flag [simp]: "n < 64 \<Longrightarrow> \<not> bit w n \<Longrightarrow> clear_flag n (set_flag n w) = w"
  by (rule bit_word_eqI) auto

definition TASK_PFA_TEST :: "nat \<Rightarrow> task_ext \<Rightarrow> bool" where
  "TASK_PFA_TEST n p = bit (t_atomic_flags p) n"

definition TASK_PFA_SET :: "nat \<Rightarrow> task_ext \<Rightarrow> task_ext" where
  "TASK_PFA_SET n p = p\<lparr>t_atomic_flags := set_flag n (t_atomic_flags p)\<rparr>"

definition TASK_PFA_CLEAR :: "nat \<Rightarrow> task_ext \<Rightarrow> task_ext" where
  "TASK_PFA_CLEAR n p = p\<lparr>t_atomic_flags := clear_flag n (t_atomic_flags p)\<rparr>"

definition PFA_NO_NEW_PRIVS :: nat where "PFA_NO_NEW_PRIVS = 0"
definition PFA_SPREAD_PAGE :: nat where "PFA_SPREAD_PAGE = 1"
definition PFA_SPREAD_SLAB :: nat where "PFA_SPREAD_SLAB = 2"
definition PFA_SPEC_SSB_DISABLE :: nat where "PFA_SPEC_SSB_DISABLE = 3"
definition PFA_SPEC_SSB_FORCE_DISABLE :: nat where "PFA_SPEC_SSB_FORCE_DISABLE = 4"
definition PFA_SPEC_IB_DISABLE :: nat where "PFA_SPEC_IB_DISABLE = 5"
definition PFA_SPEC_IB_FORCE_DISABLE :: nat where "PFA_SPEC_IB_FORCE_DISABLE = 6"
definition PFA_SPEC_SSB_NOEXEC :: nat where "PFA_SPEC_SSB_NOEXEC = 7"

lemmas pfa_defs = PFA_NO_NEW_PRIVS_def PFA_SPREAD_PAGE_def PFA_SPREAD_SLAB_def PFA_SPEC_SSB_DISABLE_def PFA_SPEC_SSB_FORCE_DISABLE_def PFA_SPEC_IB_DISABLE_def PFA_SPEC_IB_FORCE_DISABLE_def PFA_SPEC_SSB_NOEXEC_def

definition task_no_new_privs :: "task_ext \<Rightarrow> bool" where "task_no_new_privs = TASK_PFA_TEST PFA_NO_NEW_PRIVS"
definition task_set_no_new_privs :: "task_ext \<Rightarrow> task_ext" where "task_set_no_new_privs = TASK_PFA_SET PFA_NO_NEW_PRIVS"

definition task_spread_page :: "task_ext \<Rightarrow> bool" where "task_spread_page = TASK_PFA_TEST PFA_SPREAD_PAGE"
definition task_set_spread_page :: "task_ext \<Rightarrow> task_ext" where "task_set_spread_page = TASK_PFA_SET PFA_SPREAD_PAGE"
definition task_clear_spread_page :: "task_ext \<Rightarrow> task_ext" where "task_clear_spread_page = TASK_PFA_CLEAR PFA_SPREAD_PAGE"

definition task_spread_slab :: "task_ext \<Rightarrow> bool" where "task_spread_slab = TASK_PFA_TEST PFA_SPREAD_SLAB"
definition task_set_spread_slab :: "task_ext \<Rightarrow> task_ext" where "task_set_spread_slab = TASK_PFA_SET PFA_SPREAD_SLAB"
definition task_clear_spread_slab :: "task_ext \<Rightarrow> task_ext" where "task_clear_spread_slab = TASK_PFA_CLEAR PFA_SPREAD_SLAB"

definition task_spec_ssb_disable :: "task_ext \<Rightarrow> bool" where "task_spec_ssb_disable = TASK_PFA_TEST PFA_SPEC_SSB_DISABLE"
definition task_set_spec_ssb_disable :: "task_ext \<Rightarrow> task_ext" where "task_set_spec_ssb_disable = TASK_PFA_SET PFA_SPEC_SSB_DISABLE"
definition task_clear_spec_ssb_disable :: "task_ext \<Rightarrow> task_ext" where "task_clear_spec_ssb_disable = TASK_PFA_CLEAR PFA_SPEC_SSB_DISABLE"

definition task_spec_ssb_force_disable :: "task_ext \<Rightarrow> bool" where "task_spec_ssb_force_disable = TASK_PFA_TEST PFA_SPEC_SSB_FORCE_DISABLE"
definition task_set_spec_ssb_force_disable :: "task_ext \<Rightarrow> task_ext" where "task_set_spec_ssb_force_disable = TASK_PFA_SET PFA_SPEC_SSB_FORCE_DISABLE"

definition task_spec_ib_disable :: "task_ext \<Rightarrow> bool" where "task_spec_ib_disable = TASK_PFA_TEST PFA_SPEC_IB_DISABLE"
definition task_set_spec_ib_disable :: "task_ext \<Rightarrow> task_ext" where "task_set_spec_ib_disable = TASK_PFA_SET PFA_SPEC_IB_DISABLE"
definition task_clear_spec_ib_disable :: "task_ext \<Rightarrow> task_ext" where "task_clear_spec_ib_disable = TASK_PFA_CLEAR PFA_SPEC_IB_DISABLE"

definition task_spec_ib_force_disable :: "task_ext \<Rightarrow> bool" where "task_spec_ib_force_disable = TASK_PFA_TEST PFA_SPEC_IB_FORCE_DISABLE"
definition task_set_spec_ib_force_disable :: "task_ext \<Rightarrow> task_ext" where "task_set_spec_ib_force_disable = TASK_PFA_SET PFA_SPEC_IB_FORCE_DISABLE"

definition task_spec_ssb_noexec :: "task_ext \<Rightarrow> bool" where "task_spec_ssb_noexec = TASK_PFA_TEST PFA_SPEC_SSB_NOEXEC"
definition task_set_spec_ssb_noexec :: "task_ext \<Rightarrow> task_ext" where "task_set_spec_ssb_noexec = TASK_PFA_SET PFA_SPEC_SSB_NOEXEC"
definition task_clear_spec_ssb_noexec :: "task_ext \<Rightarrow> task_ext" where "task_clear_spec_ssb_noexec = TASK_PFA_CLEAR PFA_SPEC_SSB_NOEXEC"

text \<open>All functions the macros make that change a flag, with the flag and its new value.\<close>

definition pfa_ops :: "(nat \<times> bool \<times> (task_ext \<Rightarrow> task_ext)) list" where
  "pfa_ops =
    [(PFA_NO_NEW_PRIVS, True, task_set_no_new_privs),
     (PFA_SPREAD_PAGE, True, task_set_spread_page), (PFA_SPREAD_PAGE, False, task_clear_spread_page),
     (PFA_SPREAD_SLAB, True, task_set_spread_slab), (PFA_SPREAD_SLAB, False, task_clear_spread_slab),
     (PFA_SPEC_SSB_DISABLE, True, task_set_spec_ssb_disable), (PFA_SPEC_SSB_DISABLE, False, task_clear_spec_ssb_disable),
     (PFA_SPEC_SSB_FORCE_DISABLE, True, task_set_spec_ssb_force_disable),
     (PFA_SPEC_IB_DISABLE, True, task_set_spec_ib_disable), (PFA_SPEC_IB_DISABLE, False, task_clear_spec_ib_disable),
     (PFA_SPEC_IB_FORCE_DISABLE, True, task_set_spec_ib_force_disable),
     (PFA_SPEC_SSB_NOEXEC, True, task_set_spec_ssb_noexec), (PFA_SPEC_SSB_NOEXEC, False, task_clear_spec_ssb_noexec)]"

locale sticky_flag =
  fixes n :: nat and tst :: "task_ext \<Rightarrow> bool" and st :: "task_ext \<Rightarrow> task_ext"
  assumes small: "n < 64"
    and tst: "tst t \<longleftrightarrow> bit (t_atomic_flags t) n"
    and st: "st t = t\<lparr>t_atomic_flags := set_flag n (t_atomic_flags t)\<rparr>"
begin

lemma set_makes_true: "tst (st t)"
  by (simp add: tst st small)

lemma set_keeps_others: "m \<noteq> n \<Longrightarrow> bit (t_atomic_flags (st t)) m = bit (t_atomic_flags t) m"
  by (simp add: st small)

lemma set_idem: "st (st t) = st t"
  by (simp add: st small)

end

locale task_flag = sticky_flag +
  fixes clr :: "task_ext \<Rightarrow> task_ext"
  assumes clr: "clr t = t\<lparr>t_atomic_flags := clear_flag n (t_atomic_flags t)\<rparr>"
begin

lemma clear_makes_false: "\<not> tst (clr t)"
  by (simp add: tst clr)

lemma clear_keeps_others: "m \<noteq> n \<Longrightarrow> bit (t_atomic_flags (clr t)) m = bit (t_atomic_flags t) m"
  by (simp add: clr)

lemma clear_after_set: "\<not> tst t \<Longrightarrow> clr (st t) = t"
  by (simp add: tst st clr small)

end

lemmas pfa_accessors = TASK_PFA_TEST_def TASK_PFA_SET_def TASK_PFA_CLEAR_def pfa_defs

interpretation no_new_privs: sticky_flag PFA_NO_NEW_PRIVS task_no_new_privs task_set_no_new_privs
  by unfold_locales (simp_all add: task_no_new_privs_def task_set_no_new_privs_def pfa_accessors)

interpretation spread_page: task_flag PFA_SPREAD_PAGE task_spread_page task_set_spread_page task_clear_spread_page
  by unfold_locales (simp_all add: task_spread_page_def task_set_spread_page_def task_clear_spread_page_def pfa_accessors)

interpretation spread_slab: task_flag PFA_SPREAD_SLAB task_spread_slab task_set_spread_slab task_clear_spread_slab
  by unfold_locales (simp_all add: task_spread_slab_def task_set_spread_slab_def task_clear_spread_slab_def pfa_accessors)

interpretation spec_ssb_disable: task_flag PFA_SPEC_SSB_DISABLE task_spec_ssb_disable task_set_spec_ssb_disable task_clear_spec_ssb_disable
  by unfold_locales (simp_all add: task_spec_ssb_disable_def task_set_spec_ssb_disable_def task_clear_spec_ssb_disable_def pfa_accessors)

interpretation spec_ssb_force_disable: sticky_flag PFA_SPEC_SSB_FORCE_DISABLE task_spec_ssb_force_disable task_set_spec_ssb_force_disable
  by unfold_locales (simp_all add: task_spec_ssb_force_disable_def task_set_spec_ssb_force_disable_def pfa_accessors)

interpretation spec_ib_disable: task_flag PFA_SPEC_IB_DISABLE task_spec_ib_disable task_set_spec_ib_disable task_clear_spec_ib_disable
  by unfold_locales (simp_all add: task_spec_ib_disable_def task_set_spec_ib_disable_def task_clear_spec_ib_disable_def pfa_accessors)

interpretation spec_ib_force_disable: sticky_flag PFA_SPEC_IB_FORCE_DISABLE task_spec_ib_force_disable task_set_spec_ib_force_disable
  by unfold_locales (simp_all add: task_spec_ib_force_disable_def task_set_spec_ib_force_disable_def pfa_accessors)

interpretation spec_ssb_noexec: task_flag PFA_SPEC_SSB_NOEXEC task_spec_ssb_noexec task_set_spec_ssb_noexec task_clear_spec_ssb_noexec
  by unfold_locales (simp_all add: task_spec_ssb_noexec_def task_set_spec_ssb_noexec_def task_clear_spec_ssb_noexec_def pfa_accessors)

subsection \<open>Thread flags\<close>

text \<open>The flags in \<^verbatim>\<open>task_thread_info(tsk)\<close>.\<close>

definition TIF_NOTIFY_RESUME :: nat where "TIF_NOTIFY_RESUME = 1"
definition TIF_NEED_RESCHED :: nat where "TIF_NEED_RESCHED = 3"

definition test_tsk_thread_flag :: "task_ext \<Rightarrow> nat \<Rightarrow> bool" where
  "test_tsk_thread_flag tsk flag = bit (t_ti_flags tsk) flag"

definition set_tsk_thread_flag :: "task_ext \<Rightarrow> nat \<Rightarrow> task_ext" where
  "set_tsk_thread_flag tsk flag = tsk\<lparr>t_ti_flags := set_flag flag (t_ti_flags tsk)\<rparr>"

definition clear_tsk_thread_flag :: "task_ext \<Rightarrow> nat \<Rightarrow> task_ext" where
  "clear_tsk_thread_flag tsk flag = tsk\<lparr>t_ti_flags := clear_flag flag (t_ti_flags tsk)\<rparr>"

definition update_tsk_thread_flag :: "task_ext \<Rightarrow> nat \<Rightarrow> bool \<Rightarrow> task_ext" where
  "update_tsk_thread_flag tsk flag val = (if val then set_tsk_thread_flag tsk flag else clear_tsk_thread_flag tsk flag)"

definition test_and_set_tsk_thread_flag :: "task_ext \<Rightarrow> nat \<Rightarrow> bool \<times> task_ext" where
  "test_and_set_tsk_thread_flag tsk flag = (test_tsk_thread_flag tsk flag, set_tsk_thread_flag tsk flag)"

definition test_and_clear_tsk_thread_flag :: "task_ext \<Rightarrow> nat \<Rightarrow> bool \<times> task_ext" where
  "test_and_clear_tsk_thread_flag tsk flag = (test_tsk_thread_flag tsk flag, clear_tsk_thread_flag tsk flag)"

definition set_tsk_need_resched :: "task_ext \<Rightarrow> task_ext" where
  "set_tsk_need_resched tsk = set_tsk_thread_flag tsk TIF_NEED_RESCHED"

definition clear_tsk_need_resched :: "task_ext \<Rightarrow> task_ext" where
  "clear_tsk_need_resched tsk = clear_tsk_thread_flag tsk TIF_NEED_RESCHED"

definition test_tsk_need_resched :: "task_ext \<Rightarrow> bool" where
  "test_tsk_need_resched tsk = test_tsk_thread_flag tsk TIF_NEED_RESCHED"

definition task_cpu :: "task_ext \<Rightarrow> u32" where
  "task_cpu p = t_cpu p"

subsection \<open>Restartable sequences\<close>

definition RSEQ_EVENT_PREEMPT_BIT :: nat where "RSEQ_EVENT_PREEMPT_BIT = 0"
definition RSEQ_EVENT_SIGNAL_BIT :: nat where "RSEQ_EVENT_SIGNAL_BIT = 1"
definition RSEQ_EVENT_MIGRATE_BIT :: nat where "RSEQ_EVENT_MIGRATE_BIT = 2"

lemmas rseq_bits = RSEQ_EVENT_PREEMPT_BIT_def RSEQ_EVENT_SIGNAL_BIT_def RSEQ_EVENT_MIGRATE_BIT_def TIF_NOTIFY_RESUME_def

definition rseq_set_notify_resume :: "task_ext \<Rightarrow> task_ext" where
  "rseq_set_notify_resume t = (if t_rseq t \<noteq> None then set_tsk_thread_flag t TIF_NOTIFY_RESUME else t)"

text \<open>\<open>handle\<close> is \<^verbatim>\<open>__rseq_handle_notify_resume\<close>.\<close>

definition rseq_handle_notify_resume :: "(task_ext \<Rightarrow> task_ext) \<Rightarrow> task_ext \<Rightarrow> task_ext" where
  "rseq_handle_notify_resume handle current = (if t_rseq current \<noteq> None then handle current else current)"

definition rseq_signal_deliver :: "(task_ext \<Rightarrow> task_ext) \<Rightarrow> task_ext \<Rightarrow> task_ext" where
  "rseq_signal_deliver handle current =
     rseq_handle_notify_resume handle
       (current\<lparr>t_rseq_event_mask := set_flag RSEQ_EVENT_SIGNAL_BIT (t_rseq_event_mask current)\<rparr>)"

definition rseq_preempt :: "task_ext \<Rightarrow> task_ext" where
  "rseq_preempt t =
     rseq_set_notify_resume (t\<lparr>t_rseq_event_mask := set_flag RSEQ_EVENT_PREEMPT_BIT (t_rseq_event_mask t)\<rparr>)"

definition rseq_migrate :: "task_ext \<Rightarrow> task_ext" where
  "rseq_migrate t =
     rseq_set_notify_resume (t\<lparr>t_rseq_event_mask := set_flag RSEQ_EVENT_MIGRATE_BIT (t_rseq_event_mask t)\<rparr>)"

definition rseq_fork :: "task_ext \<Rightarrow> u64 \<Rightarrow> task_ext \<Rightarrow> task_ext" where
  "rseq_fork current clone_flags t =
     (if clone_flags AND CLONE_VM \<noteq> 0 then t\<lparr>t_rseq := None, t_rseq_sig := 0, t_rseq_event_mask := 0\<rparr>
      else t\<lparr>t_rseq := t_rseq current, t_rseq_sig := t_rseq_sig current, t_rseq_event_mask := t_rseq_event_mask current\<rparr>)"

definition rseq_execve :: "task_ext \<Rightarrow> task_ext" where
  "rseq_execve t = t\<lparr>t_rseq := None, t_rseq_sig := 0, t_rseq_event_mask := 0\<rparr>"

subsection \<open>Numbers of a task\<close>

datatype nr_type = Nr_pid | Nr_tgid | Nr_pgid | Nr_sid

text \<open>\<open>nr\<close> is \<^verbatim>\<open>__task_pid_nr_ns\<close>; no namespace means that of the caller, and \<open>init\<close> is the initial one.\<close>

type_synonym 'ns nr_fun = "task_struct \<Rightarrow> nr_type \<Rightarrow> 'ns option \<Rightarrow> int"

definition task_pid_nr_ns :: "'ns nr_fun \<Rightarrow> task_struct \<Rightarrow> 'ns \<Rightarrow> int" where "task_pid_nr_ns nr tsk ns = nr tsk Nr_pid (Some ns)"
definition task_pid_vnr :: "'ns nr_fun \<Rightarrow> task_struct \<Rightarrow> int" where "task_pid_vnr nr tsk = nr tsk Nr_pid None"
definition task_pgrp_nr_ns :: "'ns nr_fun \<Rightarrow> task_struct \<Rightarrow> 'ns \<Rightarrow> int" where "task_pgrp_nr_ns nr tsk ns = nr tsk Nr_pgid (Some ns)"
definition task_pgrp_vnr :: "'ns nr_fun \<Rightarrow> task_struct \<Rightarrow> int" where "task_pgrp_vnr nr tsk = nr tsk Nr_pgid None"
definition task_session_nr_ns :: "'ns nr_fun \<Rightarrow> task_struct \<Rightarrow> 'ns \<Rightarrow> int" where "task_session_nr_ns nr tsk ns = nr tsk Nr_sid (Some ns)"
definition task_session_vnr :: "'ns nr_fun \<Rightarrow> task_struct \<Rightarrow> int" where "task_session_vnr nr tsk = nr tsk Nr_sid None"
definition task_tgid_nr_ns :: "'ns nr_fun \<Rightarrow> task_struct \<Rightarrow> 'ns \<Rightarrow> int" where "task_tgid_nr_ns nr tsk ns = nr tsk Nr_tgid (Some ns)"
definition task_tgid_vnr :: "'ns nr_fun \<Rightarrow> task_struct \<Rightarrow> int" where "task_tgid_vnr nr tsk = nr tsk Nr_tgid None"

definition task_ppid_nr_ns :: "'ns nr_fun \<Rightarrow> kernel \<Rightarrow> task_struct \<Rightarrow> 'ns \<Rightarrow> int" where
  "task_ppid_nr_ns nr k tsk ns =
     (if pid_alive tsk then (case tasks k (t_real_parent tsk) of Some parent \<Rightarrow> task_tgid_nr_ns nr parent ns | None \<Rightarrow> 0) else 0)"

definition task_ppid_nr :: "'ns nr_fun \<Rightarrow> 'ns \<Rightarrow> kernel \<Rightarrow> task_struct \<Rightarrow> int" where
  "task_ppid_nr nr init k tsk = task_ppid_nr_ns nr k tsk init"

definition task_pgrp_nr :: "'ns nr_fun \<Rightarrow> 'ns \<Rightarrow> task_struct \<Rightarrow> int" where
  "task_pgrp_nr nr init tsk = task_pgrp_nr_ns nr tsk init"

subsection \<open>Properties\<close>

lemma pfa_op_effect:
  assumes "(n, v, f) \<in> set pfa_ops"
  shows "n < 8 \<and> f t = t\<lparr>t_atomic_flags := (if v then set_flag n else clear_flag n) (t_atomic_flags t)\<rparr>"
  using assms unfolding pfa_ops_def
  by (auto simp: task_set_no_new_privs_def task_set_spread_page_def task_set_spread_slab_def task_set_spec_ssb_disable_def task_set_spec_ssb_force_disable_def task_set_spec_ib_disable_def task_set_spec_ib_force_disable_def task_set_spec_ssb_noexec_def
      task_clear_spread_page_def task_clear_spread_slab_def task_clear_spec_ssb_disable_def task_clear_spec_ib_disable_def task_clear_spec_ssb_noexec_def pfa_accessors)

text \<open>The last operation on a flag decides.\<close>

definition last_on :: "nat \<Rightarrow> (nat \<times> bool \<times> (task_ext \<Rightarrow> task_ext)) list \<Rightarrow> bool \<Rightarrow> bool" where
  "last_on m ops v = fold (\<lambda>(n, w, f) v. if n = m then w else v) ops v"

text \<open>
  the atomic flags of a task behave like eight independent cells.  After any sequence of the functions the macros make, each
  flag has the value of the last operation on it, or its old value if there was none, and no other field of the task
  has changed.  The flags without a function to clear them, \<^verbatim>\<open>no_new_privs\<close> and the two forced mitigations, stay set once they
  are.\<close>

theorem atomic_flags_independent:
  fixes t :: task_ext
  assumes "set ops \<subseteq> set pfa_ops"
  defines "t' \<equiv> fold (\<lambda>(n, v, f). f) ops t"
  shows "(\<forall>m. bit (t_atomic_flags t') m = last_on m ops (bit (t_atomic_flags t) m))
    \<and> t' = t\<lparr>t_atomic_flags := t_atomic_flags t'\<rparr>
    \<and> (task_no_new_privs t \<longrightarrow> task_no_new_privs t')
    \<and> (task_spec_ssb_force_disable t \<longrightarrow> task_spec_ssb_force_disable t')
    \<and> (task_spec_ib_force_disable t \<longrightarrow> task_spec_ib_force_disable t')"
proof -
  have cells: "(\<forall>m. bit (t_atomic_flags (fold (\<lambda>(n, v, f). f) ops t)) m = last_on m ops (bit (t_atomic_flags t) m))
      \<and> fold (\<lambda>(n, v, f). f) ops t = t\<lparr>t_atomic_flags := t_atomic_flags (fold (\<lambda>(n, v, f). f) ops t)\<rparr>"
    using assms(1)
  proof (induction ops arbitrary: t)
    case (Cons op ops)
    obtain n v f where op: "op = (n, v, f)" by (cases op)
    have e: "n < 8" "f t = t\<lparr>t_atomic_flags := (if v then set_flag n else clear_flag n) (t_atomic_flags t)\<rparr>"
      using pfa_op_effect [of n v f t] Cons.prems op by auto
    let ?r = "fold (\<lambda>(n, v, f). f) ops (f t)"
    have ih: "\<forall>m. bit (t_atomic_flags ?r) m = last_on m ops (bit (t_atomic_flags (f t)) m)" "?r = (f t)\<lparr>t_atomic_flags := t_atomic_flags ?r\<rparr>"
      using Cons.IH [of "f t"] Cons.prems by auto
    have "bit (t_atomic_flags (f t)) m = (if n = m then v else bit (t_atomic_flags t) m)" for m
      using e(1) by (auto simp: e(2))
    with ih(1) have "\<forall>m. bit (t_atomic_flags ?r) m = last_on m (op # ops) (bit (t_atomic_flags t) m)" by (simp add: op last_on_def)
    moreover have "(f t)\<lparr>t_atomic_flags := a\<rparr> = t\<lparr>t_atomic_flags := a\<rparr>" for a by (simp add: e(2))
    with ih(2) have "?r = t\<lparr>t_atomic_flags := t_atomic_flags ?r\<rparr>" by metis
    moreover have "fold (\<lambda>(n, v, f). f) (op # ops) t = ?r" by (simp add: op)
    ultimately show ?case by metis
  qed (simp add: last_on_def)
  have sticky: "last_on m ops True" if "\<forall>(n, v, f) \<in> set pfa_ops. n = m \<longrightarrow> v" for m
    using assms(1)
  proof (induction ops)
    case (Cons op ops)
    obtain n v f where op: "op = (n, v, f)" by (cases op)
    with that Cons.prems have "n = m \<longrightarrow> v" by auto
    then show ?case using Cons by (auto simp: op last_on_def)
  qed (simp add: last_on_def)
  have "last_on PFA_NO_NEW_PRIVS ops True" "last_on PFA_SPEC_SSB_FORCE_DISABLE ops True" "last_on PFA_SPEC_IB_FORCE_DISABLE ops True"
    by (rule sticky, simp add: pfa_ops_def pfa_defs)+
  with cells show ?thesis
    by (auto simp: t'_def task_no_new_privs_def task_spec_ssb_force_disable_def task_spec_ib_force_disable_def TASK_PFA_TEST_def)
qed

definition demo_ext :: task_ext where
  "demo_ext = task_struct.extend (demo_task 1 0 ''init'' 1)
     \<lparr>t_state_change = False, t_atomic_flags = 1, t_ti_flags = 0, t_rseq = Some 0x1000, t_rseq_sig = 7, t_rseq_event_mask = 0,
      t_static_prio = 120, t_nr_cpus_allowed = 1, t_cpu = 0\<rparr>"

theorem atomic_flags_independent_witness:
  "let t' = task_clear_spread_page (task_set_spread_slab (task_set_spread_page demo_ext))
   in task_no_new_privs t' \<and> task_spread_slab t' \<and> \<not> task_spread_page t' \<and> t_pid t' = 1"
proof -
  let ?ops = "[(PFA_SPREAD_PAGE, True, task_set_spread_page), (PFA_SPREAD_SLAB, True, task_set_spread_slab), (PFA_SPREAD_PAGE, False, task_clear_spread_page)]"
  let ?t = "task_clear_spread_page (task_set_spread_slab (task_set_spread_page demo_ext))"
  have s: "set ?ops \<subseteq> set pfa_ops" by (auto simp: pfa_ops_def)
  note f = atomic_flags_independent [OF s, of demo_ext, simplified]
  have "task_no_new_privs demo_ext"
    by (simp add: task_no_new_privs_def TASK_PFA_TEST_def pfa_defs demo_ext_def task_struct.extend_def)
  then have "task_no_new_privs ?t" using f by blast
  moreover have "bit (t_atomic_flags ?t) PFA_SPREAD_SLAB = last_on PFA_SPREAD_SLAB ?ops (bit (t_atomic_flags demo_ext) PFA_SPREAD_SLAB)"
    "bit (t_atomic_flags ?t) PFA_SPREAD_PAGE = last_on PFA_SPREAD_PAGE ?ops (bit (t_atomic_flags demo_ext) PFA_SPREAD_PAGE)" using f by blast+
  then have "task_spread_slab ?t" "\<not> task_spread_page ?t"
    by (simp_all add: task_spread_slab_def task_spread_page_def TASK_PFA_TEST_def last_on_def pfa_defs)
  moreover have "t_pid ?t = 1"
    by (simp add: task_clear_spread_page_def task_set_spread_slab_def task_set_spread_page_def pfa_accessors demo_ext_def task_struct.extend_def demo_task_def)
  ultimately show ?thesis by (simp add: Let_def)
qed

text \<open>Restartable sequences: a preemption or migration is recorded, and the task is notified exactly if it has registered an area; a
  thread starts without one, a process with that of its parent, and \<^verbatim>\<open>execve\<close> drops it.\<close>

lemma rseq_events:
  "bit (t_rseq_event_mask (rseq_preempt t)) RSEQ_EVENT_PREEMPT_BIT"
  "bit (t_rseq_event_mask (rseq_migrate t)) RSEQ_EVENT_MIGRATE_BIT"
  "bit (t_rseq_event_mask t) m \<Longrightarrow> bit (t_rseq_event_mask (rseq_preempt t)) m \<and> bit (t_rseq_event_mask (rseq_migrate t)) m"
  "\<not> test_tsk_thread_flag t TIF_NOTIFY_RESUME \<Longrightarrow> test_tsk_thread_flag (rseq_preempt t) TIF_NOTIFY_RESUME \<longleftrightarrow> t_rseq t \<noteq> None"
  "t_rseq (rseq_preempt t) = t_rseq t"
  by (auto simp: rseq_preempt_def rseq_migrate_def rseq_set_notify_resume_def set_tsk_thread_flag_def test_tsk_thread_flag_def rseq_bits)

lemma rseq_fork_inherits:
  "has fl CLONE_VM \<Longrightarrow> t_rseq (rseq_fork cur fl t) = None \<and> t_rseq_event_mask (rseq_fork cur fl t) = 0"
  "\<not> has fl CLONE_VM \<Longrightarrow> t_rseq (rseq_fork cur fl t) = t_rseq cur \<and> t_rseq_event_mask (rseq_fork cur fl t) = t_rseq_event_mask cur"
  "rseq_execve (rseq_fork cur fl t) = rseq_execve t"
  by (auto simp: rseq_fork_def rseq_execve_def has_def)

text \<open>The flag of the floating point unit: what is stored is read back, and a child gets that of the tracer.\<close>

lemma used_math_read_back:
  "tsk_used_math (set_stopped_child_used_math t) = PF_USED_MATH"
  "tsk_used_math (clear_stopped_child_used_math t) = 0"
  "tsk_used_math (conditional_stopped_child_used_math c t) = (if c then PF_USED_MATH else 0)"
  "tsk_used_math (copy_to_stopped_child_used_math cur t) = tsk_used_math cur"
  by (simp_all add: tsk_used_math_def set_stopped_child_used_math_def clear_stopped_child_used_math_def
      conditional_stopped_child_used_math_def copy_to_stopped_child_used_math_def Let_def bit.conj_disj_distrib2
      and.assoc bit.conj_cancel_right)

text \<open>A state is set without a warning by exactly one of the two assignments.\<close>

lemma set_state_warnings:
  "snd (set_current_state st t) \<noteq> fst (snd (set_special_state st t))"
  "fst (set_current_state st t) = fst (set_special_state st t)"
  by (simp_all add: set_current_state_def set_special_state_def)

end
