(* ===== verification/Wait_Loop.thy ===== *)
theory Wait_Loop
  imports Task_Flags Runs
begin

unbundle bit_operations_syntax

section \<open>Waiting and waking\<close>

text \<open>
  \<^verbatim>\<open>include/linux/sched.h\<close>: the macros that change the state of the running task, in both configurations, and the wait loop they are
  made for, which the comment at \<^verbatim>\<open>set_current_state\<close> gives together with the wakeup it is ordered against.

  A macro is the list of its operations.  A task and a waker run on two processors with a memory of total store order: a store of the
  task waits in its buffer until the processor drains it or a barrier forces it out.  Every interleaving is a list of
  actions, each of which is enabled or not.  The scheduler, \<^verbatim>\<open>wake_up_state\<close> and \<^verbatim>\<open>smp_store_mb\<close> are outside the program; what the comment
  says of them is in the actions: a full barrier comes before the waker reads the state, it
  stores \<^verbatim>\<open>TASK_RUNNING\<close> exactly if the state is one of those it wakes, it holds \<^verbatim>\<open>pi_lock\<close> meanwhile, and \<^verbatim>\<open>schedule\<close> puts the
  task to sleep exactly if its state is not \<^verbatim>\<open>TASK_RUNNING\<close>.
\<close>

subsection \<open>The macros\<close>

datatype state_op = Warn_once bool | Note_change | Store_state u32 | Mb | Take_pi_lock | Drop_pi_lock

text \<open>\<open>dbg\<close> is \<^verbatim>\<open>CONFIG_DEBUG_ATOMIC_SLEEP\<close>.  \<open>set_state_plain\<close> is \<^verbatim>\<open>__set_current_state\<close>.\<close>

definition set_state_plain :: "bool \<Rightarrow> u32 \<Rightarrow> state_op list" where
  "set_state_plain dbg v = (if dbg then [Warn_once (is_special_task_state v), Note_change] else []) @ [Store_state v]"

definition set_state_mb :: "bool \<Rightarrow> u32 \<Rightarrow> state_op list" where
  "set_state_mb dbg v = (if dbg then [Warn_once (is_special_task_state v), Note_change] else []) @ [Store_state v, Mb]"

definition set_state_special :: "bool \<Rightarrow> u32 \<Rightarrow> state_op list" where
  "set_state_special dbg v =
     (if dbg then [Warn_once (\<not> is_special_task_state v)] else []) @ [Take_pi_lock]
     @ (if dbg then [Note_change] else []) @ [Store_state v, Drop_pi_lock]"

text \<open>Run without interference, the lists do to a task what the functions of \<open>Task_Flags\<close> do.\<close>

fun alone :: "state_op \<Rightarrow> task_ext \<times> bool \<times> pi_event list \<Rightarrow> task_ext \<times> bool \<times> pi_event list" where
  "alone (Warn_once b) (t, w, ev) = (t, w \<or> b, ev)"
| "alone Note_change (t, w, ev) = (t\<lparr>t_state_change := True\<rparr>, w, ev)"
| "alone (Store_state v) (t, w, ev) = (t\<lparr>t_state := v\<rparr>, w, ev)"
| "alone Mb s = s"
| "alone Take_pi_lock (t, w, ev) = (t, w, ev @ [Pi_lock])"
| "alone Drop_pi_lock (t, w, ev) = (t, w, ev @ [Pi_unlock])"

lemma macros_alone:
  "fold alone (set_state_mb True v) (t, False, []) = (fst (set_current_state v t), snd (set_current_state v t), [])"
  "fold alone (set_state_special True v) (t, False, []) = set_special_state v t"
  by (simp_all add: set_state_mb_def set_state_special_def set_current_state_def set_special_state_def)

subsection \<open>The machine\<close>

datatype task_pc = W_ops | W_test | W_sched | W_asleep | W_end
datatype waker_pc = K_cond | K_lock | K_mb | K_read | K_store | K_unlock | K_end
datatype side = Task_side | Waker_side

record wait_state =
  ws_state :: u32
  ws_cond :: bool
  ws_pi_lock :: "side option"
  ws_pc :: task_pc
  ws_ops :: "state_op list"
  ws_next :: task_pc
  ws_buf :: "u32 list"
  ws_waker :: waker_pc
  ws_cond_buffered :: bool

text \<open>The operations the task runs before the test and after the loop, and the states the waker wakes.\<close>

record wait_prog =
  wp_enter :: "state_op list"
  wp_leave :: "state_op list"
  wp_wakes :: u32

datatype action = Task_op | Task_drain | Task_test | Task_schedule | Task_resume | Waker | Waker_drain

fun do_op :: "state_op \<Rightarrow> wait_state \<Rightarrow> wait_state option" where
  "do_op (Warn_once _) m = Some m"
| "do_op Note_change m = Some m"
| "do_op (Store_state v) m = Some (m\<lparr>ws_buf := ws_buf m @ [v]\<rparr>)"
| "do_op Mb m = (if ws_buf m = [] then Some m else None)"
| "do_op Take_pi_lock m = (if ws_pi_lock m = None then Some (m\<lparr>ws_pi_lock := Some Task_side\<rparr>) else None)"
| "do_op Drop_pi_lock m = (if ws_buf m = [] then Some (m\<lparr>ws_pi_lock := None\<rparr>) else None)"

definition enter_loop :: "wait_prog \<Rightarrow> wait_state \<Rightarrow> wait_state" where
  "enter_loop prog m = m\<lparr>ws_pc := W_ops, ws_ops := wp_enter prog, ws_next := W_test\<rparr>"

definition leave_loop :: "wait_prog \<Rightarrow> wait_state \<Rightarrow> wait_state" where
  "leave_loop prog m = m\<lparr>ws_pc := W_ops, ws_ops := wp_leave prog, ws_next := W_end\<rparr>"

text \<open>The waker: \<^verbatim>\<open>CONDITION = 1; wake_up_state(p, TASK_UNINTERRUPTIBLE)\<close>.\<close>

fun waker_step :: "wait_prog \<Rightarrow> waker_pc \<Rightarrow> wait_state \<Rightarrow> wait_state option" where
  "waker_step prog K_cond m = Some (m\<lparr>ws_cond_buffered := True, ws_waker := K_lock\<rparr>)"
| "waker_step prog K_lock m = (if ws_pi_lock m = None then Some (m\<lparr>ws_pi_lock := Some Waker_side, ws_waker := K_mb\<rparr>) else None)"
| "waker_step prog K_mb m = (if ws_cond_buffered m then None else Some (m\<lparr>ws_waker := K_read\<rparr>))"
| "waker_step prog K_read m = Some (m\<lparr>ws_waker := if wp_wakes prog AND ws_state m \<noteq> 0 then K_store else K_unlock\<rparr>)"
| "waker_step prog K_store m = Some (m\<lparr>ws_state := TASK_RUNNING, ws_waker := K_unlock\<rparr>)"
| "waker_step prog K_unlock m = Some (m\<lparr>ws_pi_lock := None, ws_waker := K_end\<rparr>)"
| "waker_step prog K_end m = None"

fun act :: "wait_prog \<Rightarrow> action \<Rightarrow> wait_state \<Rightarrow> wait_state option" where
  "act prog Task_op m =
     (if ws_pc m \<noteq> W_ops then None
      else case ws_ops m of
             [] \<Rightarrow> Some (m\<lparr>ws_pc := ws_next m\<rparr>)
           | c # cs \<Rightarrow> map_option (\<lambda>m. m\<lparr>ws_ops := cs\<rparr>) (do_op c m))"
| "act prog Task_drain m = (case ws_buf m of [] \<Rightarrow> None | v # vs \<Rightarrow> Some (m\<lparr>ws_state := v, ws_buf := vs\<rparr>))"
| "act prog Task_test m =
     (if ws_pc m \<noteq> W_test then None else Some (if ws_cond m then leave_loop prog m else m\<lparr>ws_pc := W_sched\<rparr>))"
| "act prog Task_schedule m =
     (if ws_pc m \<noteq> W_sched \<or> ws_buf m \<noteq> [] then None
      else Some (if ws_state m = TASK_RUNNING then enter_loop prog m else m\<lparr>ws_pc := W_asleep\<rparr>))"
| "act prog Task_resume m =
     (if ws_pc m = W_asleep \<and> ws_state m = TASK_RUNNING then Some (enter_loop prog m) else None)"
| "act prog Waker m = waker_step prog (ws_waker m) m"
| "act prog Waker_drain m = (if ws_cond_buffered m then Some (m\<lparr>ws_cond := True, ws_cond_buffered := False\<rparr>) else None)"

abbreviation takes :: "wait_prog \<Rightarrow> action \<Rightarrow> wait_state \<Rightarrow> wait_state \<Rightarrow> bool" where
  "takes prog a m m' \<equiv> act prog a m = Some m'"

text \<open>The start: a running task about to run some operations, nobody woken yet.\<close>

definition start :: "state_op list \<Rightarrow> task_pc \<Rightarrow> u32 \<Rightarrow> wait_state" where
  "start cs next v = \<lparr>ws_state = v, ws_cond = False, ws_pi_lock = None, ws_pc = W_ops, ws_ops = cs, ws_next = next,
     ws_buf = [], ws_waker = K_cond, ws_cond_buffered = False\<rparr>"

text \<open>The wait loop of the comment.\<close>

definition wait_loop :: "bool \<Rightarrow> wait_prog" where
  "wait_loop dbg = \<lparr>wp_enter = set_state_mb dbg TASK_UNINTERRUPTIBLE, wp_leave = set_state_plain dbg TASK_RUNNING,
     wp_wakes = TASK_UNINTERRUPTIBLE\<rparr>"

definition wait_start :: "wait_prog \<Rightarrow> wait_state" where
  "wait_start prog = start (wp_enter prog) W_test TASK_RUNNING"

subsection \<open>No wakeup is lost\<close>

text \<open>What the waker knows and holds.\<close>

definition waker_ok :: "wait_state \<Rightarrow> bool" where
  "waker_ok m \<longleftrightarrow>
     (ws_pi_lock m = Some Waker_side \<longleftrightarrow> ws_waker m \<in> {K_mb, K_read, K_store, K_unlock})
     \<and> (ws_cond_buffered m \<longrightarrow> ws_waker m \<in> {K_lock, K_mb})
     \<and> (ws_cond m \<longleftrightarrow> ws_waker m \<noteq> K_cond \<and> \<not> ws_cond_buffered m)"

text \<open>The place of the task in the loop, from its control state.\<close>

datatype phase = Entering | Stored | Waiting | Sleeping | Leaving | Through

definition ops_before :: "bool \<Rightarrow> u32 \<Rightarrow> state_op list \<Rightarrow> state_op list \<Rightarrow> bool" where
  "ops_before dbg v rest cs \<longleftrightarrow> cs = Store_state v # rest
     \<or> (dbg \<and> (cs = Note_change # Store_state v # rest
               \<or> cs = Warn_once (is_special_task_state v) # Note_change # Store_state v # rest))"

fun at_phase :: "bool \<Rightarrow> phase \<Rightarrow> task_pc \<Rightarrow> state_op list \<Rightarrow> task_pc \<Rightarrow> bool" where
  "at_phase dbg Entering pc cs next \<longleftrightarrow> pc = W_ops \<and> next = W_test \<and> ops_before dbg TASK_UNINTERRUPTIBLE [Mb] cs"
| "at_phase dbg Stored pc cs next \<longleftrightarrow> pc = W_ops \<and> next = W_test \<and> cs = [Mb]"
| "at_phase dbg Waiting pc cs next \<longleftrightarrow> pc = W_test \<or> (pc = W_ops \<and> next = W_test \<and> cs = [])"
| "at_phase dbg Sleeping pc cs next \<longleftrightarrow> pc = W_sched \<or> pc = W_asleep"
| "at_phase dbg Leaving pc cs next \<longleftrightarrow> pc = W_ops \<and> next = W_end \<and> ops_before dbg TASK_RUNNING [] cs"
| "at_phase dbg Through pc cs next \<longleftrightarrow> pc = W_end \<or> (pc = W_ops \<and> next = W_end \<and> cs = [])"

text \<open>What holds there: in particular a task that decided to sleep has its state set until the wakeup is delivered.\<close>

definition set_or_woken :: "wait_state \<Rightarrow> bool" where
  "set_or_woken m \<longleftrightarrow> ws_state m = TASK_UNINTERRUPTIBLE \<or> (ws_state m = TASK_RUNNING \<and> ws_waker m \<in> {K_unlock, K_end})"

fun phase_ok :: "phase \<Rightarrow> wait_state \<Rightarrow> bool" where
  "phase_ok Entering m \<longleftrightarrow> ws_buf m = [] \<and> ws_state m = TASK_RUNNING \<and> ws_waker m \<noteq> K_store"
| "phase_ok Stored m \<longleftrightarrow>
     (ws_buf m = [TASK_UNINTERRUPTIBLE] \<and> ws_state m = TASK_RUNNING \<and> ws_waker m \<noteq> K_store) \<or> (ws_buf m = [] \<and> set_or_woken m)"
| "phase_ok Waiting m \<longleftrightarrow> ws_buf m = [] \<and> set_or_woken m"
| "phase_ok Sleeping m \<longleftrightarrow> ws_buf m = []
     \<and> ws_state m = (if ws_waker m \<in> {K_unlock, K_end} then TASK_RUNNING else TASK_UNINTERRUPTIBLE)"
| "phase_ok Leaving m \<longleftrightarrow> ws_buf m = [] \<and> ws_cond m"
| "phase_ok Through m \<longleftrightarrow> ws_cond m \<and> (ws_buf m = [TASK_RUNNING] \<or> (ws_buf m = [] \<and> ws_state m = TASK_RUNNING))"

definition wait_inv :: "bool \<Rightarrow> wait_state \<Rightarrow> bool" where
  "wait_inv dbg m \<longleftrightarrow> waker_ok m \<and> ws_pi_lock m \<noteq> Some Task_side
     \<and> (\<exists>ph. at_phase dbg ph (ws_pc m) (ws_ops m) (ws_next m) \<and> phase_ok ph m)"

lemmas macro_defs = set_state_mb_def set_state_plain_def set_state_special_def
lemmas loop_defs = wait_loop_def enter_loop_def leave_loop_def

lemma wakes_uninterruptible [simp]:
  "TASK_UNINTERRUPTIBLE \<noteq> 0" "TASK_UNINTERRUPTIBLE AND TASK_RUNNING = 0"
  "TASK_RUNNING \<noteq> TASK_UNINTERRUPTIBLE" "TASK_UNINTERRUPTIBLE \<noteq> TASK_RUNNING"
  by (simp_all add: task_state_defs)

lemma enters_and_leaves:
  "ops_before dbg TASK_UNINTERRUPTIBLE [Mb] (wp_enter (wait_loop dbg))"
  "ops_before dbg TASK_RUNNING [] (wp_leave (wait_loop dbg))"
  by (simp_all add: ops_before_def macro_defs wait_loop_def)

lemma wait_inv_start: "wait_inv dbg (wait_start (wait_loop dbg))"
  using enters_and_leaves(1) [of dbg]
  by (auto simp: wait_inv_def waker_ok_def wait_start_def start_def intro: exI [of _ Entering])

text \<open>The waker moves in no phase of the task.\<close>

lemma waker_keeps_phase:
  assumes "waker_step (wait_loop dbg) (ws_waker m) m = Some m'" "waker_ok m" "phase_ok ph m"
  shows "phase_ok ph m'"
  using assms
  by (cases "ws_waker m"; cases ph) (auto simp: set_or_woken_def wait_loop_def waker_ok_def split: if_splits)

lemma waker_keeps_ok:
  assumes "waker_step prog (ws_waker m) m = Some m'" "waker_ok m" "ws_pi_lock m \<noteq> Some Task_side \<or> ws_waker m \<noteq> K_unlock"
  shows "waker_ok m'" "ws_pc m' = ws_pc m" "ws_ops m' = ws_ops m" "ws_next m' = ws_next m" "ws_buf m' = ws_buf m"
    "ws_pi_lock m' = Some Task_side \<longrightarrow> ws_pi_lock m = Some Task_side"
  using assms by (cases "ws_waker m"; auto simp: waker_ok_def split: if_splits)+

lemma wait_inv_waker:
  assumes "act (wait_loop dbg) Waker m = Some m'" "wait_inv dbg m"
  shows "wait_inv dbg m'"
proof -
  obtain ph where p: "waker_ok m" "ws_pi_lock m \<noteq> Some Task_side" "at_phase dbg ph (ws_pc m) (ws_ops m) (ws_next m)" "phase_ok ph m"
    using assms(2) by (auto simp: wait_inv_def)
  have s: "waker_step (wait_loop dbg) (ws_waker m) m = Some m'" using assms(1) by simp
  show ?thesis using waker_keeps_ok [OF s p(1)] waker_keeps_phase [OF s p(1,4)] p unfolding wait_inv_def by metis
qed

text \<open>The task moves from phase to phase.\<close>

lemma op_keeps_waker:
  assumes "act prog Task_op m = Some m'" "ws_ops m = [] \<or> hd (ws_ops m) \<notin> {Take_pi_lock, Drop_pi_lock}"
  shows "ws_state m' = ws_state m" "ws_cond m' = ws_cond m" "ws_pi_lock m' = ws_pi_lock m" "ws_waker m' = ws_waker m"
    "ws_cond_buffered m' = ws_cond_buffered m"
  using assms by (cases "ws_ops m"; cases "hd (ws_ops m)"; auto split: if_splits)+

lemma op_phase:
  assumes "act prog Task_op m = Some m'" "at_phase dbg ph (ws_pc m) (ws_ops m) (ws_next m)" "phase_ok ph m"
  shows "\<exists>ph'. at_phase dbg ph' (ws_pc m') (ws_ops m') (ws_next m') \<and> phase_ok ph' m'"
proof (cases ph)
  case Entering
  then have "(at_phase dbg Entering (ws_pc m') (ws_ops m') (ws_next m') \<and> phase_ok Entering m')
    \<or> (at_phase dbg Stored (ws_pc m') (ws_ops m') (ws_next m') \<and> phase_ok Stored m')"
    using assms by (auto simp: ops_before_def)
  then show ?thesis by blast
next
  case Stored
  then have "at_phase dbg Waiting (ws_pc m') (ws_ops m') (ws_next m') \<and> phase_ok Waiting m'"
    using assms by (auto simp: set_or_woken_def split: if_splits)
  then show ?thesis by blast
next
  case Waiting
  then have "at_phase dbg Waiting (ws_pc m') (ws_ops m') (ws_next m') \<and> phase_ok Waiting m'"
    using assms by (auto simp: set_or_woken_def)
  then show ?thesis by blast
next
  case Sleeping
  then show ?thesis using assms by auto
next
  case Leaving
  then have "(at_phase dbg Leaving (ws_pc m') (ws_ops m') (ws_next m') \<and> phase_ok Leaving m')
    \<or> (at_phase dbg Through (ws_pc m') (ws_ops m') (ws_next m') \<and> phase_ok Through m')"
    using assms by (auto simp: ops_before_def)
  then show ?thesis by blast
next
  case Through
  then have "at_phase dbg Through (ws_pc m') (ws_ops m') (ws_next m') \<and> phase_ok Through m'"
    using assms by auto
  then show ?thesis by blast
qed

lemma drain_phase:
  assumes "act prog Task_drain m = Some m'" "phase_ok ph m"
  shows "phase_ok ph m'"
  using assms by (cases ph) (auto simp: set_or_woken_def split: list.splits)

lemma test_phase:
  assumes "act (wait_loop dbg) Task_test m = Some m'" "at_phase dbg ph (ws_pc m) (ws_ops m) (ws_next m)" "phase_ok ph m" "waker_ok m"
  shows "\<exists>ph'. at_phase dbg ph' (ws_pc m') (ws_ops m') (ws_next m') \<and> phase_ok ph' m'"
proof -
  have ph: "ph = Waiting" "ws_pc m = W_test" using assms(1,2) by (cases ph; auto split: if_splits)+
  show ?thesis
  proof (cases "ws_cond m")
    case True
    then have "at_phase dbg Leaving (ws_pc m') (ws_ops m') (ws_next m') \<and> phase_ok Leaving m'"
      using assms ph enters_and_leaves(2) [of dbg] by (auto simp: leave_loop_def)
    then show ?thesis by blast
  next
    case False
    then have "at_phase dbg Sleeping (ws_pc m') (ws_ops m') (ws_next m') \<and> phase_ok Sleeping m'"
      using assms ph by (auto simp: set_or_woken_def waker_ok_def)
    then show ?thesis by blast
  qed
qed

lemma sleep_phase:
  assumes "act (wait_loop dbg) a m = Some m'" "a = Task_schedule \<or> a = Task_resume" "at_phase dbg ph (ws_pc m) (ws_ops m) (ws_next m)" "phase_ok ph m"
  shows "\<exists>ph'. at_phase dbg ph' (ws_pc m') (ws_ops m') (ws_next m') \<and> phase_ok ph' m'"
proof -
  have ph: "ph = Sleeping" using assms(1-3) by (cases ph) (auto split: if_splits)
  have "(at_phase dbg Sleeping (ws_pc m') (ws_ops m') (ws_next m') \<and> phase_ok Sleeping m')
    \<or> (at_phase dbg Entering (ws_pc m') (ws_ops m') (ws_next m') \<and> phase_ok Entering m')"
    using assms ph enters_and_leaves(1) [of dbg] by (auto simp: enter_loop_def split: if_splits)
  then show ?thesis by blast
qed

lemma phase_ops_free:
  assumes "at_phase dbg ph W_ops cs next"
  shows "cs = [] \<or> hd cs \<notin> {Take_pi_lock, Drop_pi_lock}"
  using assms by (cases ph) (auto simp: ops_before_def)

lemma task_keeps_rest:
  assumes "act prog a m = Some m'" "a \<in> {Task_drain, Task_test, Task_schedule, Task_resume}"
  shows "ws_cond m' = ws_cond m" "ws_pi_lock m' = ws_pi_lock m" "ws_waker m' = ws_waker m" "ws_cond_buffered m' = ws_cond_buffered m"
  using assms by (auto simp: enter_loop_def leave_loop_def split: if_splits list.splits)

lemma wait_inv_step:
  assumes "act (wait_loop dbg) a m = Some m'" "wait_inv dbg m"
  shows "wait_inv dbg m'"
proof -
  obtain ph where p: "waker_ok m" "ws_pi_lock m \<noteq> Some Task_side" "at_phase dbg ph (ws_pc m) (ws_ops m) (ws_next m)" "phase_ok ph m"
    using assms(2) by (auto simp: wait_inv_def)
  consider "a = Task_op" | "a = Task_drain" | "a = Task_test" | "a = Task_schedule \<or> a = Task_resume" | "a = Waker" | "a = Waker_drain"
    by (cases a) auto
  then show ?thesis
  proof cases
    case 1
    have "ws_pc m = W_ops" using assms(1) 1 by (auto split: if_splits)
    then have k: "ws_ops m = [] \<or> hd (ws_ops m) \<notin> {Take_pi_lock, Drop_pi_lock}" using phase_ops_free p(3) by metis
    show ?thesis using op_keeps_waker [OF assms(1) [unfolded 1] k] op_phase [OF assms(1) [unfolded 1] p(3,4)] p(1,2)
      by (simp add: wait_inv_def waker_ok_def)
  next
    case 2
    have "ws_pc m' = ws_pc m" "ws_ops m' = ws_ops m" "ws_next m' = ws_next m" using assms(1) 2 by (auto split: list.splits)
    then show ?thesis using task_keeps_rest [OF assms(1)] drain_phase [OF assms(1) [unfolded 2] p(4)] p 2
      by (auto simp: wait_inv_def waker_ok_def)
  next
    case 3
    then show ?thesis using task_keeps_rest [OF assms(1)] test_phase [OF assms(1) [unfolded 3] p(3,4,1)] p
      by (simp add: wait_inv_def waker_ok_def)
  next
    case 4
    then show ?thesis using task_keeps_rest [OF assms(1)] sleep_phase [OF assms(1) 4 p(3,4)] p
      by (auto simp: wait_inv_def waker_ok_def)
  next
    case 5
    then show ?thesis using wait_inv_waker assms by blast
  next
    case 6
    then have "phase_ok ph m'" using p(4) assms(1) by (cases ph) (auto simp: set_or_woken_def split: if_splits)
    then show ?thesis using p 6 assms(1) by (auto simp: wait_inv_def waker_ok_def split: if_splits)
  qed
qed

interpretation wait: labelled "takes (wait_loop dbg)" "wait_inv dbg" "\<lambda>_ _. True" for dbg
  by unfold_locales (rule wait_inv_step)

text \<open>Every action brings the end nearer: a task that resumes finds the condition true and does not sleep again.\<close>

fun waker_left :: "waker_pc \<Rightarrow> nat" where
  "waker_left K_cond = 8" | "waker_left K_lock = 5" | "waker_left K_mb = 4" | "waker_left K_read = 3"
| "waker_left K_store = 2" | "waker_left K_unlock = 1" | "waker_left K_end = 0"

fun task_left :: "task_pc \<Rightarrow> nat \<Rightarrow> task_pc \<Rightarrow> bool \<Rightarrow> nat" where
  "task_left W_ops n next c = 2 * n + 1 + (if next = W_test then 10 + (if c then 0 else 20) else 0)"
| "task_left W_test n next c = 10 + (if c then 0 else 20)"
| "task_left W_sched n next c = 22"
| "task_left W_asleep n next c = 21"
| "task_left W_end n next c = 0"

definition left :: "wait_state \<Rightarrow> nat" where
  "left m = waker_left (ws_waker m) + (if ws_cond_buffered m then 1 else 0) + length (ws_buf m)
     + task_left (ws_pc m) (length (ws_ops m)) (ws_next m) (ws_cond m)"

lemma left_decreases:
  assumes "act (wait_loop dbg) a m = Some m'" "wait_inv dbg m"
  shows "left m' < left m"
proof -
  obtain ph where p: "waker_ok m" "ws_pi_lock m \<noteq> Some Task_side" "at_phase dbg ph (ws_pc m) (ws_ops m) (ws_next m)" "phase_ok ph m"
    using assms(2) by (auto simp: wait_inv_def)
  have len: "length (wp_enter (wait_loop dbg)) \<le> 4" "length (wp_leave (wait_loop dbg)) \<le> 3" by (auto simp: wait_loop_def macro_defs)
  show ?thesis
  proof (cases a)
    case Task_op
    then have pc: "ws_pc m = W_ops" using assms(1) by (auto split: if_splits)
    show ?thesis
    proof (cases "ws_ops m")
      case Nil
      then show ?thesis using assms(1) Task_op pc p(3) by (cases ph) (auto simp: left_def ops_before_def)
    next
      case (Cons c cs)
      then show ?thesis using assms(1) Task_op pc by (cases c) (auto simp: left_def split: if_splits)
    qed
  next
    case Task_drain
    then show ?thesis using assms(1) by (auto simp: left_def split: list.splits)
  next
    case Task_test
    then show ?thesis using assms(1) len(2) by (auto simp: left_def leave_loop_def split: if_splits)
  next
    case Task_schedule
    then have "ph = Sleeping" "ws_pc m = W_sched" using assms(1) p(3) by (cases ph; auto split: if_splits)+
    then show ?thesis using assms(1) Task_schedule len(1) p(1,4) by (auto simp: left_def enter_loop_def waker_ok_def split: if_splits)
  next
    case Task_resume
    then have "ph = Sleeping" "ws_pc m = W_asleep" using assms(1) p(3) by (cases ph; auto split: if_splits)+
    then show ?thesis using assms(1) Task_resume len(1) p(1,4) by (auto simp: left_def enter_loop_def waker_ok_def split: if_splits)
  next
    case Waker
    then show ?thesis using assms(1) p(1) by (cases "ws_waker m") (auto simp: left_def waker_ok_def split: if_splits)
  next
    case Waker_drain
    then have "ws_cond_buffered m" "m' = m\<lparr>ws_cond := True, ws_cond_buffered := False\<rparr>" using assms(1) by (auto split: if_splits)
    then show ?thesis by (cases "ws_pc m") (auto simp: left_def)
  qed
qed

lemma run_left:
  assumes "run (takes (wait_loop dbg)) m as m'" "wait_inv dbg m"
  shows "length as + left m' \<le> left m"
  using assms
proof (induction rule: run.induct)
  case (run_Cons a m m1 as m')
  then have "wait_inv dbg m1" "left m1 < left m" using wait_inv_step left_decreases by blast+
  then show ?case using run_Cons.IH by simp
qed simp

lemma left_start: "left (wait_start (wait_loop dbg)) \<le> 47"
  by (simp add: left_def wait_start_def start_def wait_loop_def macro_defs)

text \<open>The machine stops only at the end of both sides.\<close>

lemma waker_not_stuck:
  assumes "waker_ok m" "ws_pi_lock m \<noteq> Some Task_side" "ws_waker m \<noteq> K_end"
  shows "act prog Waker m \<noteq> None \<or> act prog Waker_drain m \<noteq> None"
  using assms by (cases "ws_waker m"; cases "ws_pi_lock m") (auto simp: waker_ok_def, metis side.exhaust)

lemma task_not_stuck:
  assumes "at_phase dbg ph (ws_pc m) (ws_ops m) (ws_next m)" "ws_buf m = []" "ws_pc m \<noteq> W_end"
    and "ws_pc m \<noteq> W_asleep \<or> ws_state m = TASK_RUNNING"
  shows "\<exists>a. act prog a m \<noteq> None"
proof (cases "ws_pc m")
  case W_ops
  then have "ws_ops m = [] \<or> hd (ws_ops m) \<notin> {Take_pi_lock, Drop_pi_lock}" using phase_ops_free assms(1) by metis
  then have "act prog Task_op m \<noteq> None" using assms(2) W_ops by (cases "ws_ops m"; cases "hd (ws_ops m)") auto
  then show ?thesis by blast
next
  case W_test
  then have "act prog Task_test m \<noteq> None" by simp
  then show ?thesis by blast
next
  case W_sched
  then have "act prog Task_schedule m \<noteq> None" using assms(2) by simp
  then show ?thesis by blast
next
  case W_asleep
  then have "act prog Task_resume m \<noteq> None" using assms(4) by simp
  then show ?thesis by blast
qed (use assms(3) in simp)

lemma stops_at_end:
  assumes "wait_inv dbg m" "\<And>a. act (wait_loop dbg) a m = None"
  shows "ws_pc m = W_end \<and> ws_waker m = K_end \<and> ws_buf m = [] \<and> ws_state m = TASK_RUNNING \<and> ws_cond m"
proof -
  obtain ph where p: "waker_ok m" "ws_pi_lock m \<noteq> Some Task_side" "at_phase dbg ph (ws_pc m) (ws_ops m) (ws_next m)" "phase_ok ph m"
    using assms(1) by (auto simp: wait_inv_def)
  have k: "ws_waker m = K_end" using waker_not_stuck [OF p(1,2)] assms(2) by metis
  have b: "ws_buf m = []" using assms(2) [of Task_drain] by (auto split: list.splits)
  have "ws_pc m = W_asleep \<Longrightarrow> ws_state m = TASK_RUNNING" using p(3,4) k by (cases ph) auto
  then have e: "ws_pc m = W_end" using task_not_stuck [OF p(3) b] assms(2) by metis
  then have "ph = Through" using p(3) by (cases ph) auto
  then show ?thesis using k b e p(4) by auto
qed

text \<open>Without the barrier the test can overtake the store: the waker sees a running task, and the task then sleeps for ever.\<close>

definition plain_loop :: "bool \<Rightarrow> wait_prog" where
  "plain_loop dbg = (wait_loop dbg)\<lparr>wp_enter := set_state_plain dbg TASK_UNINTERRUPTIBLE\<rparr>"

lemma wakeup_lost_without_barrier:
  "\<exists>as m. run (takes (plain_loop dbg)) (wait_start (plain_loop dbg)) as m \<and> ws_pc m = W_asleep \<and> ws_waker m = K_end \<and> ws_cond m
     \<and> (\<forall>a. act (plain_loop dbg) a m = None)"
proof -
  let ?fin = "\<lparr>ws_state = TASK_UNINTERRUPTIBLE, ws_cond = True, ws_pi_lock = None, ws_pc = W_asleep, ws_ops = [], ws_next = W_test,
     ws_buf = [], ws_waker = K_end, ws_cond_buffered = False\<rparr>"
  let ?as = "(if dbg then [Task_op, Task_op] else []) @ [Task_op, Task_op, Task_test, Waker, Waker, Waker_drain, Waker, Waker, Waker, Task_drain, Task_schedule]"
  have "run (takes (plain_loop dbg)) (wait_start (plain_loop dbg)) ?as ?fin"
    by (cases dbg) (simp_all add: run_simps plain_loop_def wait_loop_def wait_start_def start_def macro_defs enter_loop_def)
  moreover have "act (plain_loop dbg) a ?fin = None" for a by (cases a) simp_all
  ultimately show ?thesis by fastforce
qed

subsection \<open>Special states are kept\<close>

datatype special_phase = Before | Locked | Written | Dropped

fun at_special :: "bool \<Rightarrow> u32 \<Rightarrow> special_phase \<Rightarrow> wait_state \<Rightarrow> bool" where
  "at_special dbg v Before m \<longleftrightarrow> ws_pc m = W_ops \<and> ws_buf m = [] \<and> ws_pi_lock m \<noteq> Some Task_side
     \<and> (ws_ops m = set_state_special dbg v \<or> ws_ops m = Take_pi_lock # (if dbg then [Note_change] else []) @ [Store_state v, Drop_pi_lock])"
| "at_special dbg v Locked m \<longleftrightarrow> ws_pc m = W_ops \<and> ws_buf m = [] \<and> ws_pi_lock m = Some Task_side
     \<and> (ws_ops m = [Note_change, Store_state v, Drop_pi_lock] \<or> ws_ops m = [Store_state v, Drop_pi_lock])"
| "at_special dbg v Written m \<longleftrightarrow> ws_pc m = W_ops \<and> ws_ops m = [Drop_pi_lock] \<and> ws_pi_lock m = Some Task_side
     \<and> (ws_buf m = [v] \<or> (ws_buf m = [] \<and> ws_state m = v))"
| "at_special dbg v Dropped m \<longleftrightarrow> (ws_pc m = W_end \<or> (ws_pc m = W_ops \<and> ws_ops m = [])) \<and> ws_buf m = [] \<and> ws_state m = v
     \<and> ws_pi_lock m \<noteq> Some Task_side \<and> ws_waker m \<noteq> K_store"

definition special_inv :: "bool \<Rightarrow> u32 \<Rightarrow> wait_state \<Rightarrow> bool" where
  "special_inv dbg v m \<longleftrightarrow> waker_ok m \<and> ws_next m = W_end \<and> (\<exists>ph. at_special dbg v ph m)"

lemma special_waker:
  assumes "waker_step prog (ws_waker m) m = Some m'" "wp_wakes prog AND v = 0" "waker_ok m" "at_special dbg v ph m"
  shows "at_special dbg v ph m'"
  using assms by (cases "ws_waker m"; cases ph) (auto simp: waker_ok_def split: if_splits)

lemma special_op:
  assumes "act prog Task_op m = Some m'" "waker_ok m" "ws_next m = W_end" "at_special dbg v ph m"
  shows "waker_ok m' \<and> ws_next m' = W_end \<and> (\<exists>ph. at_special dbg v ph m')"
proof (cases ph)
  case Before
  then have b: "ws_pc m = W_ops" "ws_buf m = []" "ws_pi_lock m \<noteq> Some Task_side" using assms(4) by simp_all
  let ?cs = "(if dbg then [Note_change] else []) @ [Store_state v, Drop_pi_lock]"
  consider "ws_ops m = Warn_once (\<not> is_special_task_state v) # Take_pi_lock # ?cs" | "ws_ops m = Take_pi_lock # ?cs"
    using assms(4) Before by (cases dbg) (simp_all add: set_state_special_def, blast)
  then show ?thesis
  proof cases
    case 1
    then have m': "m' = m\<lparr>ws_ops := Take_pi_lock # ?cs\<rparr>" using assms(1) b(1) by simp
    then have "at_special dbg v Before m'" using b by simp
    moreover have "waker_ok m'" using assms(2) m' by (auto simp: waker_ok_def)
    moreover have "ws_next m' = W_end" using m' assms(3) by simp
    ultimately show ?thesis by blast
  next
    case 2
    then have m': "m' = m\<lparr>ws_pi_lock := Some Task_side, ws_ops := ?cs\<rparr>" "ws_pi_lock m = None" using assms(1) b(1) by (simp_all split: if_splits)
    then have "at_special dbg v Locked m'" using b by simp
    moreover have "waker_ok m'" using assms(2) m' by (auto simp: waker_ok_def)
    moreover have "ws_next m' = W_end" using m' assms(3) by simp
    ultimately show ?thesis by blast
  qed
next
  case Locked
  then have "(m' = m\<lparr>ws_ops := [Store_state v, Drop_pi_lock]\<rparr>) \<or> m' = m\<lparr>ws_ops := [Drop_pi_lock], ws_buf := [v]\<rparr>"
    using assms(1,4) by auto
  moreover have "ws_pc m = W_ops" "ws_buf m = []" "ws_pi_lock m = Some Task_side" using assms(4) Locked by simp_all
  ultimately have "at_special dbg v Locked m' \<or> at_special dbg v Written m'" "waker_ok m' = waker_ok m" "ws_next m' = ws_next m"
    by (elim disjE; simp add: waker_ok_def)+
  then show ?thesis using assms(2,3) by metis
next
  case Written
  then have m': "m' = m\<lparr>ws_pi_lock := None, ws_ops := []\<rparr>" "ws_buf m = []" "ws_state m = v" "ws_pi_lock m = Some Task_side" "ws_pc m = W_ops"
    using assms(1,4) by (auto split: if_splits)
  then have "ws_waker m \<notin> {K_mb, K_read, K_store, K_unlock}" using assms(2) by (simp add: waker_ok_def)
  then have "at_special dbg v Dropped m'" "waker_ok m'" "ws_next m' = W_end" using assms(2,3) m' by (auto simp: waker_ok_def)
  then show ?thesis by blast
next
  case Dropped
  then have "ws_ops m = []" "m' = m\<lparr>ws_pc := W_end\<rparr>" using assms(1,3,4) by (auto split: if_splits)
  moreover from this have "waker_ok m'" using assms(2) by (simp add: waker_ok_def)
  ultimately have "at_special dbg v Dropped m'" "waker_ok m'" "ws_next m' = W_end" using assms(3,4) Dropped by simp_all
  then show ?thesis by blast
qed

lemma special_inv_step:
  assumes "act prog a m = Some m'" "wp_wakes prog AND v = 0" "special_inv dbg v m"
  shows "special_inv dbg v m'"
proof -
  obtain ph where p: "waker_ok m" "ws_next m = W_end" "at_special dbg v ph m" using assms(3) by (auto simp: special_inv_def)
  show ?thesis
  proof (cases a)
    case Task_op
    then show ?thesis using special_op [of prog] assms(1) p unfolding special_inv_def by blast
  next
    case Task_drain
    then have "ph = Written" using p(3) assms(1) by (cases ph) auto
    then have "at_special dbg v Written m'" using p(3) Task_drain assms(1) by auto
    moreover have "waker_ok m'" using p(1) task_keeps_rest [OF assms(1)] Task_drain by (simp add: waker_ok_def)
    moreover have "ws_next m' = W_end" using p(2) Task_drain assms(1) by (auto split: list.splits)
    ultimately show ?thesis unfolding special_inv_def by blast
  next
    case Waker
    then have s: "waker_step prog (ws_waker m) m = Some m'" using assms(1) by simp
    have "ws_pi_lock m \<noteq> Some Task_side \<or> ws_waker m \<noteq> K_unlock" using p(1) by (auto simp: waker_ok_def)
    then show ?thesis using waker_keeps_ok [OF s p(1)] special_waker [OF s assms(2) p(1,3)] p(2)
      unfolding special_inv_def by metis
  next
    case Waker_drain
    then have m': "ws_cond_buffered m" "m' = m\<lparr>ws_cond := True, ws_cond_buffered := False\<rparr>" using assms(1) by (auto split: if_splits)
    then have "at_special dbg v ph m'" using p(3) by (cases ph) simp_all
    moreover have "waker_ok m'" using p(1) m' by (auto simp: waker_ok_def)
    ultimately show ?thesis using p(2) m' unfolding special_inv_def by auto
  qed (use p(3) assms(1) in \<open>cases ph; auto split: if_splits\<close>)+
qed

interpretation special: labelled "takes prog" "special_inv dbg v" "\<lambda>_ _. wp_wakes prog AND v = 0" for prog dbg v
  by unfold_locales (rule special_inv_step)

lemma special_inv_start: "special_inv dbg v (start (set_state_special dbg v) W_end s)"
  by (auto simp: special_inv_def start_def waker_ok_def intro!: exI [of _ Before])

text \<open>With the macro for normal states a waker that has already read the old state overwrites the new one.\<close>

lemma special_state_lost_without_lock:
  "\<exists>as m. run (takes (wait_loop dbg)) (start (set_state_mb dbg TASK_DEAD) W_end TASK_UNINTERRUPTIBLE) as m
     \<and> ws_pc m = W_end \<and> ws_buf m = [] \<and> ws_state m = TASK_RUNNING"
proof -
  let ?fin = "\<lparr>ws_state = TASK_RUNNING, ws_cond = True, ws_pi_lock = Some Waker_side, ws_pc = W_end, ws_ops = [], ws_next = W_end,
     ws_buf = [], ws_waker = K_unlock, ws_cond_buffered = False\<rparr>"
  let ?as = "[Waker, Waker, Waker_drain, Waker, Waker] @ (if dbg then [Task_op, Task_op] else []) @ [Task_op, Task_drain, Task_op, Task_op, Waker]"
  have "run (takes (wait_loop dbg)) (start (set_state_mb dbg TASK_DEAD) W_end TASK_UNINTERRUPTIBLE) ?as ?fin"
    by (cases dbg) (simp_all add: run_simps wait_loop_def start_def macro_defs)
  then show ?thesis by fastforce
qed

subsection \<open>Properties\<close>

text \<open>
  C38: The wait loop of \<^verbatim>\<open>sched.h\<close> loses no wakeup.  In every interleaving of the loop with the waker, in both configurations, at most 47
  steps are taken, and where no further step is possible the task is through the loop with the condition true and its state \<^verbatim>\<open>TASK_RUNNING\<close>;
  a task found asleep after the waker is done can run.  The barrier in \<^verbatim>\<open>set_current_state\<close> is needed: with \<^verbatim>\<open>__set_current_state\<close> in its
  place there is an interleaving after which the task sleeps for ever although the condition is true.\<close>

theorem no_wakeup_lost:
  assumes "run (takes (wait_loop dbg)) (wait_start (wait_loop dbg)) as m"
  shows "length as \<le> 47
    \<and> ((\<forall>a. act (wait_loop dbg) a m = None) \<longrightarrow>
         ws_pc m = W_end \<and> ws_waker m = K_end \<and> ws_buf m = [] \<and> ws_state m = TASK_RUNNING \<and> ws_cond m)
    \<and> (ws_pc m = W_asleep \<and> ws_waker m = K_end \<longrightarrow> ws_state m = TASK_RUNNING)
    \<and> (\<exists>as' m'. run (takes (plain_loop dbg)) (wait_start (plain_loop dbg)) as' m' \<and> ws_pc m' = W_asleep \<and> ws_cond m'
         \<and> (\<forall>a. act (plain_loop dbg) a m' = None))"
proof -
  have i: "wait_inv dbg m" using wait.invariant [OF assms wait_inv_start] by simp
  obtain ph where p: "at_phase dbg ph (ws_pc m) (ws_ops m) (ws_next m)" "phase_ok ph m" using i by (auto simp: wait_inv_def)
  have "length as \<le> 47" using run_left [OF assms wait_inv_start] left_start [of dbg] by simp
  moreover have "ws_pc m = W_asleep \<and> ws_waker m = K_end \<longrightarrow> ws_state m = TASK_RUNNING" using p by (cases ph) auto
  ultimately show ?thesis using stops_at_end [OF i] wakeup_lost_without_barrier [of dbg] by blast
qed

text \<open>The waker comes between the store and the test, so the task does not sleep; or after it slept.\<close>

definition sleepy_schedule :: "action list" where
  "sleepy_schedule = [Task_op, Task_drain, Task_op, Task_op, Task_test, Task_schedule, Waker, Waker, Waker_drain, Waker, Waker, Waker,
     Waker, Task_resume, Task_op, Task_drain, Task_op, Task_op, Task_test, Task_op, Task_drain, Task_op]"

theorem no_wakeup_lost_witness:
  "\<exists>m. run (takes (wait_loop False)) (wait_start (wait_loop False)) sleepy_schedule m \<and> ws_pc m = W_end \<and> ws_waker m = K_end
     \<and> ws_state m = TASK_RUNNING \<and> ws_cond m"
proof -
  let ?fin = "\<lparr>ws_state = TASK_RUNNING, ws_cond = True, ws_pi_lock = None, ws_pc = W_end, ws_ops = [], ws_next = W_end,
     ws_buf = [], ws_waker = K_end, ws_cond_buffered = False\<rparr>"
  have r: "run (takes (wait_loop False)) (wait_start (wait_loop False)) sleepy_schedule ?fin"
    by (simp add: sleepy_schedule_def run_simps wait_loop_def wait_start_def start_def macro_defs enter_loop_def leave_loop_def)
  have "act (wait_loop False) a ?fin = None" for a by (cases a) simp_all
  then show ?thesis using no_wakeup_lost [OF r] r by blast
qed



end
