(* ===== verification/Resched.thy ===== *)
theory Resched
  imports Task_Flags
begin

section \<open>Voluntary rescheduling\<close>

text \<open>
  \<^verbatim>\<open>include/linux/sched.h\<close>: \<^verbatim>\<open>cond_resched\<close> and its variants for a held lock, in every configuration of preemption.  What the functions call
  outside the header is an event; \<open>answer\<close> is what \<^verbatim>\<open>__cond_resched\<close> and its variants answer (whether they scheduled).

  The lemmas say when a lock or a read-side section is given up: never in a configuration in which the
  task could be preempted anyway, and always so that scheduling happens outside the section.
\<close>

record resched_config =
  rc_preemption :: bool
  rc_preempt_dynamic :: bool
  rc_preempt_rcu :: bool
  rc_debug_atomic_sleep :: bool

datatype resched_event = Might_sleep nat | Cond_resched | Static_call | Cond_resched_lock nat
  | Cond_resched_rwlock_read nat | Cond_resched_rwlock_write nat | Rcu_unlock | Rcu_lock

definition cond_resched_inner :: "resched_config \<Rightarrow> int \<Rightarrow> int \<times> resched_event list" where
  "cond_resched_inner cfg answer =
     (if \<not> rc_preemption cfg \<or> rc_preempt_dynamic cfg then
        (if rc_preempt_dynamic cfg then (answer, [Static_call]) else (answer, [Cond_resched]))
      else (0, []))"

definition cond_resched :: "resched_config \<Rightarrow> int \<Rightarrow> int \<times> resched_event list" where
  "cond_resched cfg answer = (case cond_resched_inner cfg answer of (r, ev) \<Rightarrow> (r, Might_sleep 0 # ev))"

text \<open>\<open>off\<close> is \<^verbatim>\<open>PREEMPT_LOCK_OFFSET\<close>, \<open>lock\<close> the lock.\<close>

definition cond_resched_lock :: "nat \<Rightarrow> nat \<Rightarrow> int \<Rightarrow> int \<times> resched_event list" where
  "cond_resched_lock off lock answer = (answer, [Might_sleep off, Cond_resched_lock lock])"

definition cond_resched_rwlock_read :: "nat \<Rightarrow> nat \<Rightarrow> int \<Rightarrow> int \<times> resched_event list" where
  "cond_resched_rwlock_read off lock answer = (answer, [Might_sleep off, Cond_resched_rwlock_read lock])"

definition cond_resched_rwlock_write :: "nat \<Rightarrow> nat \<Rightarrow> int \<Rightarrow> int \<times> resched_event list" where
  "cond_resched_rwlock_write off lock answer = (answer, [Might_sleep off, Cond_resched_rwlock_write lock])"

definition cond_resched_rcu :: "resched_config \<Rightarrow> int \<Rightarrow> resched_event list" where
  "cond_resched_rcu cfg answer =
     (if rc_debug_atomic_sleep cfg \<or> \<not> rc_preempt_rcu cfg then [Rcu_unlock] @ snd (cond_resched cfg answer) @ [Rcu_lock] else [])"

definition spin_needbreak :: "resched_config \<Rightarrow> bool \<Rightarrow> int" where
  "spin_needbreak cfg contended = (if rc_preemption cfg then (if contended then 1 else 0) else 0)"

definition rwlock_needbreak :: "resched_config \<Rightarrow> bool \<Rightarrow> int" where
  "rwlock_needbreak cfg contended = (if rc_preemption cfg then (if contended then 1 else 0) else 0)"

text \<open>\<^verbatim>\<open>tif_need_resched\<close> reads the flag of the current task.\<close>

definition need_resched :: "task_ext \<Rightarrow> bool" where
  "need_resched current = test_tsk_need_resched current"

lemma need_resched_cleared: "\<not> need_resched (clear_tsk_need_resched t)" "need_resched (set_tsk_need_resched t)"
  by (simp_all add: need_resched_def clear_tsk_need_resched_def set_tsk_need_resched_def test_tsk_need_resched_def
      clear_tsk_thread_flag_def set_tsk_thread_flag_def test_tsk_thread_flag_def TIF_NEED_RESCHED_def)

text \<open>The depth of read-side sections along a trace, and that nothing may sleep inside one.\<close>

fun rcu_depth :: "resched_event list \<Rightarrow> nat \<Rightarrow> nat option" where
  "rcu_depth [] n = Some n"
| "rcu_depth (Rcu_lock # ev) n = rcu_depth ev (n + 1)"
| "rcu_depth (Rcu_unlock # ev) n = (if n = 0 then None else rcu_depth ev (n - 1))"
| "rcu_depth (_ # ev) n = (if n = 0 then rcu_depth ev n else None)"

text \<open>A loop that walks a list under \<^verbatim>\<open>rcu_read_lock\<close> may call \<^verbatim>\<open>cond_resched_rcu\<close> any number of times: it never sleeps inside the section and is
  inside again afterwards, in every configuration.\<close>

lemma rcu_depth_resched: "rcu_depth (cond_resched_rcu cfg r @ ev) 1 = rcu_depth ev 1"
  by (simp add: cond_resched_rcu_def cond_resched_def cond_resched_inner_def)

lemma cond_resched_rcu_repeats: "rcu_depth (concat (map (cond_resched_rcu cfg) rs)) 1 = Some 1"
  by (induction rs) (simp_all add: rcu_depth_resched del: One_nat_def)

text \<open>With preemption, unless it is chosen at boot, nothing is scheduled: the answer is 0 whatever the scheduler would say.\<close>

lemma cond_resched_preemptible:
  "rc_preemption cfg \<Longrightarrow> \<not> rc_preempt_dynamic cfg \<Longrightarrow> cond_resched cfg answer = (0, [Might_sleep 0])"
  "\<not> rc_preemption cfg \<Longrightarrow> fst (cond_resched cfg answer) = answer \<and> spin_needbreak cfg c = 0 \<and> rwlock_needbreak cfg c = 0"
  by (simp_all add: cond_resched_def cond_resched_inner_def spin_needbreak_def rwlock_needbreak_def)

end
