(* ===== verification/Clone.thy ===== *)
theory Clone
  imports Fork
begin

unbundle bit_operations_syntax

section \<open>The calls above \<^verbatim>\<open>copy_process\<close>: fork, vfork, clone, clone3\<close>

text \<open>
  The last part of \<^verbatim>\<open>kernel/fork.c\<close>: \<^verbatim>\<open>kernel_clone\<close>, the system calls and kernel entry points that build its
  arguments, the checks of \<^verbatim>\<open>clone3\<close>, and the hand-over of a vfork.  What happens besides the state is
  a trace of events, in order.  The configuration is the one with \<^verbatim>\<open>CONFIG_MMU\<close> and a stack that grows
  down.
\<close>

definition CLONE_LEGACY_FLAGS :: u64 where "CLONE_LEGACY_FLAGS = 0xffffffff"
definition CLONE_ARGS_SIZE_VER0 :: nat where "CLONE_ARGS_SIZE_VER0 = 64"
definition CLONE_ARGS_SIZE_VER2 :: nat where "CLONE_ARGS_SIZE_VER2 = 88"
definition MAX_PID_NS_LEVEL :: nat where "MAX_PID_NS_LEVEL = 32"
definition SIGCHLD :: int where "SIGCHLD = 17"
definition INT_MAX :: nat where "INT_MAX = 2147483647"
definition lower_32_bits :: "u64 \<Rightarrow> u64" where "lower_32_bits x = x AND 0xffffffff"

datatype ptrace_event = PTRACE_EVENT_FORK | PTRACE_EVENT_VFORK | PTRACE_EVENT_CLONE | PTRACE_EVENT_VFORK_DONE

datatype cevent =
    C_fork "fresource revent list"
  | C_get_pid "pidptr option" | C_put_pid "pidptr option"
  | C_put_user int uptr
  | C_get_task tptr | C_put_task tptr
  | C_wake_up tptr
  | C_ptrace ptrace_event
  | C_wait tptr
  | C_complete tptr

text \<open>What the rest of the kernel answers: which events the tracer asked for, the number of a \<^verbatim>\<open>struct pid\<close> in
  the caller's namespace, and the state after waiting for a completion, with whether the wait was
  killed.\<close>

record clone_env =
  ce_ptrace_enabled :: "ptrace_event \<Rightarrow> bool"
  ce_pid_vnr :: "pidptr option \<Rightarrow> int"
  ce_wait :: "kernel \<Rightarrow> bool \<times> kernel"

subsection \<open>vfork\<close>

definition set_vfork_done :: "bool \<Rightarrow> tptr \<Rightarrow> kernel \<Rightarrow> kernel" where
  "set_vfork_done v p k = update_task p (\<lambda>t. t\<lparr>t_vfork_done := v\<rparr>) k"

definition complete_vfork_done :: "tptr \<Rightarrow> kernel \<Rightarrow> kernel \<times> cevent list" where
  "complete_vfork_done tsk k =
     (case tasks k tsk of
        None \<Rightarrow> (k, [])
      | Some t \<Rightarrow> if t_vfork_done t then (set_vfork_done False tsk k, [C_complete tsk]) else (k, []))"

definition wait_for_vfork_done :: "clone_env \<Rightarrow> tptr \<Rightarrow> kernel \<Rightarrow> bool \<times> kernel \<times> cevent list" where
  "wait_for_vfork_done cenv child k =
     (let (killed, k1) = ce_wait cenv k;
          k2 = (if killed then set_vfork_done False child k1 else k1)
      in (killed, k2, [C_wait child, C_put_task child]))"

subsection \<open>\<^verbatim>\<open>kernel_clone\<close>\<close>

text \<open>The event to report to the tracer; \<open>None\<close> is 0.\<close>

definition clone_trace :: "clone_env \<Rightarrow> kernel_clone_args \<Rightarrow> ptrace_event option" where
  "clone_trace cenv args =
     (if \<not> has (flags args) CLONE_UNTRACED then
        let trace = (if has (flags args) CLONE_VFORK then PTRACE_EVENT_VFORK
                     else if exit_signal args \<noteq> SIGCHLD then PTRACE_EVENT_CLONE
                     else PTRACE_EVENT_FORK)
        in if \<not> ce_ptrace_enabled cenv trace then None else Some trace
      else None)"

definition kernel_clone ::
  "clone_env \<Rightarrow> fork_env \<Rightarrow> kernel_clone_args \<Rightarrow> tptr \<Rightarrow> kernel \<Rightarrow> int result \<times> kernel \<times> cevent list" where
  "kernel_clone cenv env args curp k =
     (if has (flags args) CLONE_PIDFD \<and> has (flags args) CLONE_PARENT_SETTID \<and> pidfd args = parent_tid args
      then (Inl EINVAL, k, [])
      else
        let trace = clone_trace cenv args in
        (case copy_process env args False curp k of
           (Inl e, k1, fev) \<Rightarrow> (Inl e, k1, [C_fork fev])
         | (Inr p, k1, fev) \<Rightarrow>
             let pid = thread_pid_of k1 p;
                 nr = ce_pid_vnr cenv pid;
                 ev1 = [C_fork fev, C_get_pid pid];
                 ev2 = (if has (flags args) CLONE_PARENT_SETTID then [C_put_user nr (parent_tid args)] else []);
                 (k2, ev3) = (if has (flags args) CLONE_VFORK then (set_vfork_done True p k1, [C_get_task p]) else (k1, []));
                 ev4 = [C_wake_up p];
                 ev5 = (case trace of None \<Rightarrow> [] | Some t \<Rightarrow> [C_ptrace t]);
                 (k3, ev6) = (if has (flags args) CLONE_VFORK
                    then (case wait_for_vfork_done cenv p k2 of
                            (killed, k', ev) \<Rightarrow> (k', ev @ (if \<not> killed then [C_ptrace PTRACE_EVENT_VFORK_DONE] else [])))
                    else (k2, []))
             in (Inr nr, k3, ev1 @ ev2 @ ev3 @ ev4 @ ev5 @ ev6 @ [C_put_pid pid])))"

subsection \<open>Entry points\<close>

definition no_args :: kernel_clone_args where
  "no_args = \<lparr>flags = 0, exit_signal = 0, pidfd = 0, child_tid = 0, parent_tid = 0, stack = 0, stack_size = 0, tls = 0,
     set_tid = [], cgroup = 0, io_thread = False\<rparr>"

definition fork_args :: kernel_clone_args where
  "fork_args = no_args\<lparr>exit_signal := SIGCHLD\<rparr>"

definition vfork_args :: kernel_clone_args where
  "vfork_args = no_args\<lparr>flags := CLONE_VFORK OR CLONE_VM, exit_signal := SIGCHLD\<rparr>"

definition clone_args_of :: "u64 \<Rightarrow> u64 \<Rightarrow> uptr \<Rightarrow> uptr \<Rightarrow> u64 \<Rightarrow> kernel_clone_args" where
  "clone_args_of clone_flags newsp parent_tidptr child_tidptr tls_arg =
     no_args\<lparr>flags := lower_32_bits clone_flags AND NOT CSIGNAL, pidfd := parent_tidptr, child_tid := child_tidptr,
       parent_tid := parent_tidptr, exit_signal := uint (lower_32_bits clone_flags AND CSIGNAL), stack := newsp,
       tls := tls_arg\<rparr>"

definition kernel_thread_args :: "u64 \<Rightarrow> u64 \<Rightarrow> u64 \<Rightarrow> kernel_clone_args" where
  "kernel_thread_args fn arg fl =
     no_args\<lparr>flags := (lower_32_bits fl OR CLONE_VM OR CLONE_UNTRACED) AND NOT CSIGNAL,
       exit_signal := uint (lower_32_bits fl AND CSIGNAL), stack := fn, stack_size := arg\<rparr>"

definition io_thread_args :: "u64 \<Rightarrow> u64 \<Rightarrow> kernel_clone_args" where
  "io_thread_args fn arg =
     (let fl = CLONE_FS OR CLONE_FILES OR CLONE_SIGHAND OR CLONE_THREAD OR CLONE_IO
      in no_args\<lparr>flags := (lower_32_bits fl OR CLONE_VM OR CLONE_UNTRACED) AND NOT CSIGNAL,
           exit_signal := uint (lower_32_bits fl AND CSIGNAL), stack := fn, stack_size := arg, io_thread := True\<rparr>)"

definition sys_fork :: "clone_env \<Rightarrow> fork_env \<Rightarrow> tptr \<Rightarrow> kernel \<Rightarrow> int result \<times> kernel \<times> cevent list" where
  "sys_fork cenv env curp k = kernel_clone cenv env fork_args curp k"

definition sys_vfork :: "clone_env \<Rightarrow> fork_env \<Rightarrow> tptr \<Rightarrow> kernel \<Rightarrow> int result \<times> kernel \<times> cevent list" where
  "sys_vfork cenv env curp k = kernel_clone cenv env vfork_args curp k"

definition sys_clone ::
  "clone_env \<Rightarrow> fork_env \<Rightarrow> u64 \<Rightarrow> u64 \<Rightarrow> uptr \<Rightarrow> uptr \<Rightarrow> u64 \<Rightarrow> tptr \<Rightarrow> kernel \<Rightarrow> int result \<times> kernel \<times> cevent list" where
  "sys_clone cenv env clone_flags newsp parent_tidptr child_tidptr tls_arg curp k =
     kernel_clone cenv env (clone_args_of clone_flags newsp parent_tidptr child_tidptr tls_arg) curp k"

definition kernel_thread ::
  "clone_env \<Rightarrow> fork_env \<Rightarrow> u64 \<Rightarrow> u64 \<Rightarrow> u64 \<Rightarrow> tptr \<Rightarrow> kernel \<Rightarrow> int result \<times> kernel \<times> cevent list" where
  "kernel_thread cenv env fn arg fl curp k = kernel_clone cenv env (kernel_thread_args fn arg fl) curp k"

definition create_io_thread ::
  "fork_env \<Rightarrow> u64 \<Rightarrow> u64 \<Rightarrow> tptr \<Rightarrow> kernel \<Rightarrow> tptr result \<times> kernel \<times> fresource revent list" where
  "create_io_thread env fn arg curp k = copy_process env (io_thread_args fn arg) False curp k"

subsection \<open>clone3\<close>

record clone_args =
  ca_flags :: u64
  ca_pidfd :: u64
  ca_child_tid :: u64
  ca_parent_tid :: u64
  ca_exit_signal :: u64
  ca_stack :: u64
  ca_stack_size :: u64
  ca_tls :: u64
  ca_set_tid :: u64
  ca_set_tid_size :: u64
  ca_cgroup :: u64

text \<open>User memory and the checks made elsewhere: \<^verbatim>\<open>copy_struct_from_user\<close>, \<^verbatim>\<open>copy_from_user\<close> of a pid array
  (\<open>None\<close> when it faults), \<^verbatim>\<open>access_ok\<close>, \<^verbatim>\<open>valid_signal\<close> and \<^verbatim>\<open>PAGE_SIZE\<close>.\<close>

record user_env =
  ue_copy_struct :: "uptr \<Rightarrow> nat \<Rightarrow> clone_args result"
  ue_copy_tids :: "uptr \<Rightarrow> nat \<Rightarrow> int list option"
  ue_access_ok :: "u64 \<Rightarrow> u64 \<Rightarrow> bool"
  ue_valid_signal :: "u64 \<Rightarrow> bool"
  ue_page_size :: nat

definition copy_clone_args_from_user :: "user_env \<Rightarrow> uptr \<Rightarrow> nat \<Rightarrow> kernel_clone_args result" where
  "copy_clone_args_from_user u uargs usize =
     (if usize > ue_page_size u then Inl E2BIG
      else if usize < CLONE_ARGS_SIZE_VER0 then Inl EINVAL
      else case ue_copy_struct u uargs usize of
        Inl e \<Rightarrow> Inl e
      | Inr args \<Rightarrow>
          if unat (ca_set_tid_size args) > MAX_PID_NS_LEVEL then Inl EINVAL
          else if ca_set_tid args = 0 \<and> ca_set_tid_size args > 0 then Inl EINVAL
          else if ca_set_tid args \<noteq> 0 \<and> ca_set_tid_size args = 0 then Inl EINVAL
          else if ca_exit_signal args AND NOT CSIGNAL \<noteq> 0 \<or> \<not> ue_valid_signal u (ca_exit_signal args) then Inl EINVAL
          else if has (ca_flags args) CLONE_INTO_CGROUP
                  \<and> (unat (ca_cgroup args) > INT_MAX \<or> usize < CLONE_ARGS_SIZE_VER2) then Inl EINVAL
          else
            let kargs = \<lparr>flags = ca_flags args, exit_signal = uint (ca_exit_signal args), pidfd = ca_pidfd args,
                  child_tid = ca_child_tid args, parent_tid = ca_parent_tid args, stack = ca_stack args,
                  stack_size = ca_stack_size args, tls = ca_tls args, set_tid = [],
                  cgroup = sint (ucast (ca_cgroup args) :: u32), io_thread = False\<rparr>
            in if ca_set_tid args \<noteq> 0 then
                 (case ue_copy_tids u (ca_set_tid args) (unat (ca_set_tid_size args)) of
                    None \<Rightarrow> Inl EFAULT
                  | Some tids \<Rightarrow> Inr (kargs\<lparr>set_tid := tids\<rparr>))
               else Inr kargs)"

definition clone3_stack_valid :: "user_env \<Rightarrow> kernel_clone_args \<Rightarrow> bool \<times> kernel_clone_args" where
  "clone3_stack_valid u kargs =
     (if stack kargs = 0 then
        (if stack_size kargs > 0 then (False, kargs) else (True, kargs))
      else if stack_size kargs = 0 then (False, kargs)
      else if \<not> ue_access_ok u (stack kargs) (stack_size kargs) then (False, kargs)
      else (True, kargs\<lparr>stack := stack kargs + stack_size kargs\<rparr>))"

definition clone3_args_valid :: "user_env \<Rightarrow> kernel_clone_args \<Rightarrow> bool \<times> kernel_clone_args" where
  "clone3_args_valid u kargs =
     (if has (flags kargs) (NOT (CLONE_LEGACY_FLAGS OR CLONE_CLEAR_SIGHAND OR CLONE_INTO_CGROUP)) then (False, kargs)
      else if has (flags kargs) (CLONE_DETACHED OR CSIGNAL) then (False, kargs)
      else if has_all (flags kargs) (CLONE_SIGHAND OR CLONE_CLEAR_SIGHAND) then (False, kargs)
      else if has (flags kargs) (CLONE_THREAD OR CLONE_PARENT) \<and> exit_signal kargs \<noteq> 0 then (False, kargs)
      else clone3_stack_valid u kargs)"

definition sys_clone3 ::
  "clone_env \<Rightarrow> fork_env \<Rightarrow> user_env \<Rightarrow> uptr \<Rightarrow> nat \<Rightarrow> tptr \<Rightarrow> kernel \<Rightarrow> int result \<times> kernel \<times> cevent list" where
  "sys_clone3 cenv env u uargs usize curp k =
     (case copy_clone_args_from_user u uargs usize of
        Inl e \<Rightarrow> (Inl e, k, [])
      | Inr kargs \<Rightarrow>
          (case clone3_args_valid u kargs of
             (False, _) \<Rightarrow> (Inl EINVAL, k, [])
           | (True, kargs) \<Rightarrow> kernel_clone cenv env kargs curp k))"

subsection \<open>Traces\<close>

definition wakes :: "cevent list \<Rightarrow> tptr list" where
  "wakes ev = concat (map (\<lambda>e. case e of C_wake_up p \<Rightarrow> [p] | _ \<Rightarrow> []) ev)"

definition user_writes :: "cevent list \<Rightarrow> (int \<times> uptr) list" where
  "user_writes ev = concat (map (\<lambda>e. case e of C_put_user v p \<Rightarrow> [(v, p)] | _ \<Rightarrow> []) ev)"

definition ref_balance :: "cevent list \<Rightarrow> int" where
  "ref_balance ev = sum_list (map (\<lambda>e. case e of C_get_pid _ \<Rightarrow> 1 | C_put_pid _ \<Rightarrow> - 1 | C_get_task _ \<Rightarrow> 1 | C_put_task _ \<Rightarrow> - 1 | _ \<Rightarrow> 0) ev)"

lemma trace_simps [simp]:
  "wakes [] = []" "wakes (e # ev) = (case e of C_wake_up p \<Rightarrow> [p] | _ \<Rightarrow> []) @ wakes ev" "wakes (a @ b) = wakes a @ wakes b"
  "user_writes [] = []" "user_writes (e # ev) = (case e of C_put_user v p \<Rightarrow> [(v, p)] | _ \<Rightarrow> []) @ user_writes ev"
  "user_writes (a @ b) = user_writes a @ user_writes b"
  "ref_balance [] = 0" "ref_balance (e # ev) = (case e of C_get_pid _ \<Rightarrow> 1 | C_put_pid _ \<Rightarrow> - 1 | C_get_task _ \<Rightarrow> 1 | C_put_task _ \<Rightarrow> - 1 | _ \<Rightarrow> 0) + ref_balance ev"
  "ref_balance (a @ b) = ref_balance a + ref_balance b"
  by (simp_all add: wakes_def user_writes_def ref_balance_def)

lemma wait_for_vfork_done_effect:
  "wait_for_vfork_done cenv child k = (killed, k', ev) \<Longrightarrow>
     ev = [C_wait child, C_put_task child] \<and> killed = fst (ce_wait cenv k)
     \<and> (killed \<longrightarrow> (case tasks k' child of None \<Rightarrow> True | Some t \<Rightarrow> \<not> t_vfork_done t))
     \<and> (\<not> killed \<longrightarrow> k' = snd (ce_wait cenv k))"
  by (auto simp: wait_for_vfork_done_def set_vfork_done_def Let_def split: prod.splits option.splits if_splits)

lemma child_thread_pid:
  "fe_pid_nr env > 0 \<Longrightarrow> t_thread_pid (child_task env args curp cur) = Some (fe_pid env)"
  by (simp add: child_task_def Let_def split: sum.splits)

lemma copy_process_child:
  assumes "copy_process env args idle curp k = (Inr p, k', ev)"
  obtains cur where "p = fe_task env" "tasks k curp = Some cur" "tasks k' p = Some (child_task env args curp cur)"
  using copy_process_Inr [OF assms] by (auto simp: tasks_new_child current_of_Some)

subsection \<open>Properties\<close>


definition demo_cenv :: clone_env where
  "demo_cenv = \<lparr>ce_ptrace_enabled = (\<lambda>_. False), ce_pid_vnr = (\<lambda>_. 43), ce_wait = (\<lambda>k. (True, k))\<rparr>"


lemma legacy_flags:
  defines "F \<equiv> \<lambda>f. lower_32_bits f AND NOT CSIGNAL"
  shows "\<not> has (F f) (NOT (CLONE_LEGACY_FLAGS OR CLONE_CLEAR_SIGHAND OR CLONE_INTO_CGROUP))"
    and "\<not> has f CLONE_DETACHED \<Longrightarrow> \<not> has (F f) (CLONE_DETACHED OR CSIGNAL)"
    and "\<not> has_all (F f) (CLONE_SIGHAND OR CLONE_CLEAR_SIGHAND)"
    and "has (F f) m \<Longrightarrow> has f m"
    and "\<not> has (F f) CLONE_INTO_CGROUP"
proof -
  have low: "lower_32_bits x = x AND CLONE_LEGACY_FLAGS" for x by (simp add: lower_32_bits_def CLONE_LEGACY_FLAGS_def)
  show "\<not> has (F f) (NOT (CLONE_LEGACY_FLAGS OR CLONE_CLEAR_SIGHAND OR CLONE_INTO_CGROUP))"
    by (auto simp: F_def low has_def bit_eq_iff bit_simps)
  show "\<not> has f CLONE_DETACHED \<Longrightarrow> \<not> has (F f) (CLONE_DETACHED OR CSIGNAL)"
    by (auto simp: F_def low has_def bit_eq_iff bit_simps)
  show "has (F f) m \<Longrightarrow> has f m" by (auto simp: F_def low has_def bit_eq_iff bit_simps)
  have "CLONE_CLEAR_SIGHAND AND CLONE_LEGACY_FLAGS = CLONE_CLEAR_SIGHAND" if "has_all (F f) (CLONE_SIGHAND OR CLONE_CLEAR_SIGHAND)"
    using that unfolding has_all_def F_def low bit_eq_iff bit_simps by blast
  then show "\<not> has_all (F f) (CLONE_SIGHAND OR CLONE_CLEAR_SIGHAND)"
    by (auto simp: CLONE_CLEAR_SIGHAND_def CLONE_LEGACY_FLAGS_def)
  have "F f AND CLONE_INTO_CGROUP = f AND NOT CSIGNAL AND (CLONE_LEGACY_FLAGS AND CLONE_INTO_CGROUP)"
    unfolding F_def low by (auto simp: bit_eq_iff bit_simps)
  then show "\<not> has (F f) CLONE_INTO_CGROUP" by (simp add: has_def CLONE_LEGACY_FLAGS_def CLONE_INTO_CGROUP_def)
qed

text \<open>
  The calls that create processes agree: \<^verbatim>\<open>fork()\<close> is \<^verbatim>\<open>clone(SIGCHLD, 0)\<close>, \<^verbatim>\<open>vfork()\<close> is
  \<^verbatim>\<open>clone(CLONE_VFORK | CLONE_VM | SIGCHLD, 0)\<close>, and \<^verbatim>\<open>clone3\<close> given the flags of a legacy \<^verbatim>\<open>clone\<close> without its
  signal byte, and that byte as exit signal, does exactly what \<^verbatim>\<open>clone\<close> does, for every combination of flags that both
  accept.\<close>

theorem clone_family_agrees:
  assumes "CLONE_ARGS_SIZE_VER0 \<le> usize" "usize \<le> ue_page_size u"
    and "ue_copy_struct u uargs usize = Inr \<lparr>ca_flags = lower_32_bits f AND NOT CSIGNAL, ca_pidfd = ptid, ca_child_tid = ctid,
      ca_parent_tid = ptid, ca_exit_signal = lower_32_bits f AND CSIGNAL, ca_stack = 0, ca_stack_size = 0, ca_tls = tls_arg,
      ca_set_tid = 0, ca_set_tid_size = 0, ca_cgroup = 0\<rparr>"
    and "ue_valid_signal u (lower_32_bits f AND CSIGNAL)" "\<not> has f CLONE_DETACHED"
    and "has f (CLONE_THREAD OR CLONE_PARENT) \<longrightarrow> lower_32_bits f AND CSIGNAL = 0"
  shows "sys_fork cenv env curp k = sys_clone cenv env 17 0 0 0 0 curp k
    \<and> sys_vfork cenv env curp k = sys_clone cenv env (CLONE_VFORK OR CLONE_VM OR 17) 0 0 0 0 curp k
    \<and> sys_clone3 cenv env u uargs usize curp k = sys_clone cenv env f 0 ptid ctid tls_arg curp k"
proof (intro conjI)
  show "sys_fork cenv env curp k = sys_clone cenv env 17 0 0 0 0 curp k"
    by (simp add: sys_fork_def sys_clone_def fork_args_def clone_args_of_def no_args_def lower_32_bits_def CSIGNAL_def SIGCHLD_def)
  show "sys_vfork cenv env curp k = sys_clone cenv env (CLONE_VFORK OR CLONE_VM OR 17) 0 0 0 0 curp k"
    by (simp add: sys_vfork_def sys_clone_def vfork_args_def clone_args_of_def no_args_def lower_32_bits_def clone_defs SIGCHLD_def)
  show "sys_clone3 cenv env u uargs usize curp k = sys_clone cenv env f 0 ptid ctid tls_arg curp k"
  proof -
    have "(lower_32_bits f AND CSIGNAL) AND NOT CSIGNAL = 0" by (auto simp: bit_eq_iff bit_simps)
    then have c: "copy_clone_args_from_user u uargs usize = Inr (clone_args_of f 0 ptid ctid tls_arg)"
      using assms(1-4) by (simp add: copy_clone_args_from_user_def legacy_flags clone_args_of_def no_args_def Let_def)
    have "clone3_args_valid u (clone_args_of f 0 ptid ctid tls_arg) = (True, clone_args_of f 0 ptid ctid tls_arg)"
      using legacy_flags(1,3) [of f] legacy_flags(2) [OF assms(5)] legacy_flags(4) [of f "CLONE_THREAD OR CLONE_PARENT"] assms(6)
      by (auto simp: clone3_args_valid_def clone3_stack_valid_def clone_args_of_def no_args_def)
    with c show ?thesis by (simp add: sys_clone3_def sys_clone_def)
  qed
qed

definition demo_uenv :: "clone_args \<Rightarrow> user_env" where
  "demo_uenv a = \<lparr>ue_copy_struct = (\<lambda>_ _. Inr a), ue_copy_tids = (\<lambda>_ _. None),
     ue_access_ok = (\<lambda>p n. unat p + unat n \<le> 2 ^ 47), ue_valid_signal = (\<lambda>s. s \<le> 64), ue_page_size = 4096\<rparr>"

theorem clone_family_agrees_witness:
  "sys_clone3 demo_cenv demo_env (demo_uenv \<lparr>ca_flags = lower_32_bits (CLONE_VM OR 17) AND NOT CSIGNAL, ca_pidfd = 0,
      ca_child_tid = 0, ca_parent_tid = 0, ca_exit_signal = lower_32_bits (CLONE_VM OR 17) AND CSIGNAL, ca_stack = 0,
      ca_stack_size = 0, ca_tls = 0, ca_set_tid = 0, ca_set_tid_size = 0, ca_cgroup = 0\<rparr>) 0 88 2 demo_kernel
   = sys_clone demo_cenv demo_env (CLONE_VM OR 17) 0 0 0 0 2 demo_kernel"
  by (rule clone_family_agrees [THEN conjunct2, THEN conjunct2])
    (simp_all add: demo_uenv_def CLONE_ARGS_SIZE_VER0_def lower_32_bits_def has_def clone_defs)

text \<open>
  What \<^verbatim>\<open>clone3\<close> lets through is well formed: the flags are known ones without the reserved bits, the exit
  signal is absent for a thread or sibling, and the stack pointer handed on is the exact end of
  the stack given, above its start and without wrap-around, or zero if none was given.\<close>

theorem clone3_args_valid_sound:
  assumes "clone3_args_valid u kargs = (True, kargs')"
    and "\<And>a n. ue_access_ok u a n \<Longrightarrow> unat a + unat n < 2 ^ 64"
  shows "flags kargs' = flags kargs
    \<and> flags kargs' AND NOT (CLONE_LEGACY_FLAGS OR CLONE_CLEAR_SIGHAND OR CLONE_INTO_CGROUP) = 0
    \<and> flags kargs' AND CSIGNAL = 0 \<and> \<not> has (flags kargs') CLONE_DETACHED
    \<and> (has (flags kargs') CLONE_THREAD \<or> has (flags kargs') CLONE_PARENT \<longrightarrow> exit_signal kargs' = 0)
    \<and> unat (stack kargs') = unat (stack kargs) + unat (stack_size kargs)
    \<and> (stack kargs' = 0 \<longleftrightarrow> stack_size kargs = 0)"
proof -
  have f: "\<not> has (flags kargs) (NOT (CLONE_LEGACY_FLAGS OR CLONE_CLEAR_SIGHAND OR CLONE_INTO_CGROUP))"
    "\<not> has (flags kargs) (CLONE_DETACHED OR CSIGNAL)"
    "\<not> (has (flags kargs) (CLONE_THREAD OR CLONE_PARENT) \<and> exit_signal kargs \<noteq> 0)"
    and s: "clone3_stack_valid u kargs = (True, kargs')"
    using assms(1) by (auto simp: clone3_args_valid_def split: if_splits)
  have st: "flags kargs' = flags kargs \<and> exit_signal kargs' = exit_signal kargs
    \<and> unat (stack kargs') = unat (stack kargs) + unat (stack_size kargs) \<and> (stack kargs' = 0 \<longleftrightarrow> stack_size kargs = 0)"
  proof (cases "stack kargs = 0")
    case True
    then show ?thesis using s by (auto simp: clone3_stack_valid_def simp flip: word_neq_0_conv split: if_splits)
  next
    case False
    then have n: "stack_size kargs \<noteq> 0" "ue_access_ok u (stack kargs) (stack_size kargs)"
      "kargs' = kargs\<lparr>stack := stack kargs + stack_size kargs\<rparr>"
      using s by (auto simp: clone3_stack_valid_def split: if_splits)
    have "unat (stack kargs + stack_size kargs) = unat (stack kargs) + unat (stack_size kargs)"
      using assms(2) [OF n(2)] by (simp add: unat_word_ariths)
    then show ?thesis using n False by (metis add_eq_0_iff_both_eq_0 kernel_clone_args.select_convs(1,2,6)
        kernel_clone_args.surjective kernel_clone_args.update_convs(6) unat_0_iff)
  qed
  then show ?thesis using f by (auto simp: has_OR) (auto simp: has_def)
qed

definition demo_uargs :: clone_args where
  "demo_uargs = \<lparr>ca_flags = 0, ca_pidfd = 0, ca_child_tid = 0, ca_parent_tid = 0, ca_exit_signal = 17, ca_stack = 0,
     ca_stack_size = 0, ca_tls = 0, ca_set_tid = 0, ca_set_tid_size = 0, ca_cgroup = 0\<rparr>"

theorem clone3_args_valid_sound_witness:
  "unat (stack (snd (clone3_args_valid (demo_uenv demo_uargs) (no_args\<lparr>flags := CLONE_VM, stack := 4096, stack_size := 8192\<rparr>))))
     = 12288"
proof -
  let ?k = "no_args\<lparr>flags := CLONE_VM, stack := 4096, stack_size := 8192\<rparr>"
  have v: "clone3_args_valid (demo_uenv demo_uargs) ?k = (True, ?k\<lparr>stack := 12288\<rparr>)"
    by (simp add: clone3_args_valid_def clone3_stack_valid_def demo_uenv_def no_args_def has_def has_all_def clone_defs
        CLONE_LEGACY_FLAGS_def)
  have "unat a + unat n < 2 ^ 64" if "ue_access_ok (demo_uenv demo_uargs) a n" for a n
    using that by (simp add: demo_uenv_def)
  from clone3_args_valid_sound [OF v this] show ?thesis unfolding v by (simp add: no_args_def)
qed

end
