(* ===== verification/Unshare.thy ===== *)
theory Unshare
  imports Clone
begin

unbundle bit_operations_syntax

section \<open>unshare, and the limit on threads\<close>

text \<open>
  The end of \<^verbatim>\<open>kernel/fork.c\<close>: \<^verbatim>\<open>ksys_unshare\<close> with its helpers, \<^verbatim>\<open>unshare_files\<close>, and the computation and
  adjustment of \<^verbatim>\<open>max_threads\<close>.  The state is what a task shares: its \<^verbatim>\<open>fs\<close>, \<^verbatim>\<open>files\<close>, \<^verbatim>\<open>cred\<close> and \<^verbatim>\<open>nsproxy\<close>
  pointers with the use counts of the first two; what is allocated and freed is a trace.
\<close>

subsection \<open>State and environment\<close>

datatype uresource = U_fs nat | U_files nat | U_cred nat | U_nsproxy nat

record unshare_state =
  us_fs :: "nat option"
  us_files :: "nat option"
  us_cred :: nat
  us_nsproxy :: nat
  us_fs_users :: "nat \<Rightarrow> nat"
  us_files_count :: "nat \<Rightarrow> nat"

text \<open>\<^verbatim>\<open>copy_fs_struct\<close> and \<^verbatim>\<open>dup_fd\<close> give the new structure or fail; \<^verbatim>\<open>unshare_userns\<close> and
  \<^verbatim>\<open>unshare_nsproxy_namespaces\<close> may also succeed with nothing to do.\<close>

record unshare_env =
  un_group_empty :: bool
  un_sighand_count :: nat
  un_single_threaded :: bool
  un_copy_fs :: "nat option"
  un_dup_fd :: "nat result"
  un_userns :: "u64 \<Rightarrow> nat option result"
  un_nsproxy :: "u64 \<Rightarrow> nat option result"
  un_set_ucounts :: "errno option"

datatype uevent =
    U_ref "uresource revent"
  | U_exit_sem | U_exit_shm | U_shm_init
  | U_switch_namespaces nat | U_commit_creds nat | U_perf

subsection \<open>The flags\<close>

definition implied_flags :: "u64 \<Rightarrow> u64" where
  "implied_flags f =
     (let f = (if has f CLONE_NEWUSER then f OR (CLONE_THREAD OR CLONE_FS) else f);
          f = (if has f CLONE_VM then f OR CLONE_SIGHAND else f);
          f = (if has f CLONE_SIGHAND then f OR CLONE_THREAD else f)
      in if has f CLONE_NEWNS then f OR CLONE_FS else f)"

definition UNSHARE_FLAGS :: u64 where
  "UNSHARE_FLAGS = CLONE_THREAD OR CLONE_FS OR CLONE_NEWNS OR CLONE_SIGHAND OR CLONE_VM OR CLONE_FILES OR CLONE_SYSVSEM
     OR CLONE_NEWUTS OR CLONE_NEWIPC OR CLONE_NEWNET OR CLONE_NEWUSER OR CLONE_NEWPID OR CLONE_NEWCGROUP OR CLONE_NEWTIME"

definition check_unshare_flags :: "unshare_env \<Rightarrow> u64 \<Rightarrow> errno option" where
  "check_unshare_flags env f =
     (if has f (NOT UNSHARE_FLAGS) then Some EINVAL
      else if has f (CLONE_THREAD OR CLONE_SIGHAND OR CLONE_VM) \<and> \<not> un_group_empty env then Some EINVAL
      else if has f (CLONE_SIGHAND OR CLONE_VM) \<and> un_sighand_count env > 1 then Some EINVAL
      else if has f CLONE_VM \<and> \<not> un_single_threaded env then Some EINVAL
      else None)"

subsection \<open>The parts\<close>

definition unshare_fs :: "unshare_env \<Rightarrow> u64 \<Rightarrow> unshare_state \<Rightarrow> nat option result" where
  "unshare_fs env f st =
     (case us_fs st of
        None \<Rightarrow> Inr None
      | Some fs \<Rightarrow>
          if \<not> has f CLONE_FS then Inr None
          else if us_fs_users st fs = 1 then Inr None
          else case un_copy_fs env of None \<Rightarrow> Inl ENOMEM | Some n \<Rightarrow> Inr (Some n))"

definition unshare_fd :: "unshare_env \<Rightarrow> u64 \<Rightarrow> unshare_state \<Rightarrow> nat option result" where
  "unshare_fd env f st =
     (case us_files st of
        None \<Rightarrow> Inr None
      | Some fd \<Rightarrow>
          if has f CLONE_FILES \<and> us_files_count st fd > 1 then
            (case un_dup_fd env of Inl e \<Rightarrow> Inl e | Inr n \<Rightarrow> Inr (Some n))
          else Inr None)"

definition acquired :: "(nat \<Rightarrow> uresource) \<Rightarrow> nat option \<Rightarrow> uevent list" where
  "acquired c r = (case r of None \<Rightarrow> [] | Some n \<Rightarrow> [U_ref (Acq (c n))])"

definition released :: "(nat \<Rightarrow> uresource) \<Rightarrow> nat option \<Rightarrow> uevent list" where
  "released c r = (case r of None \<Rightarrow> [] | Some n \<Rightarrow> [U_ref (Rel (c n))])"

text \<open>\<^verbatim>\<open>current->fs = new_fs; if (--fs->users) new_fs = NULL; else new_fs = fs;\<close> the old structure is what
  remains to be freed.\<close>

definition install_fs :: "nat option \<Rightarrow> unshare_state \<Rightarrow> nat option \<times> unshare_state" where
  "install_fs new_fs st =
     (case (new_fs, us_fs st) of
        (Some n, Some fs) \<Rightarrow>
          let users = us_fs_users st fs - 1;
              st1 = st\<lparr>us_fs := Some n, us_fs_users := (us_fs_users st)(fs := users)\<rparr>
          in (if users \<noteq> 0 then None else Some fs, st1)
      | _ \<Rightarrow> (new_fs, st))"

definition install_fd :: "nat option \<Rightarrow> unshare_state \<Rightarrow> nat option \<times> unshare_state" where
  "install_fd new_fd st =
     (case new_fd of None \<Rightarrow> (None, st) | Some n \<Rightarrow> (us_files st, st\<lparr>us_files := Some n\<rparr>))"

text \<open>\<^verbatim>\<open>put_files_struct\<close> drops a use count.\<close>

definition put_files :: "nat option \<Rightarrow> unshare_state \<Rightarrow> unshare_state" where
  "put_files fd st =
     (case fd of None \<Rightarrow> st | Some n \<Rightarrow> st\<lparr>us_files_count := (us_files_count st)(n := us_files_count st n - 1)\<rparr>)"

text \<open>The block that installs what was made, and what is left in \<^verbatim>\<open>new_fs\<close> and \<^verbatim>\<open>new_fd\<close> for the labels below it.\<close>

definition unshare_install ::
  "u64 \<Rightarrow> nat option \<Rightarrow> nat option \<Rightarrow> nat option \<Rightarrow> nat option \<Rightarrow> unshare_state
   \<Rightarrow> nat option \<times> nat option \<times> unshare_state \<times> uevent list" where
  "unshare_install f new_fs new_fd new_cred new_nsproxy st =
     (let do_sysvsem = has f (CLONE_NEWIPC OR CLONE_SYSVSEM) in
      if new_fs \<noteq> None \<or> new_fd \<noteq> None \<or> do_sysvsem \<or> new_cred \<noteq> None \<or> new_nsproxy \<noteq> None then
        let ev1 = (if do_sysvsem then [U_exit_sem] else []);
            ev2 = (if has f CLONE_NEWIPC then [U_exit_shm, U_shm_init] else []);
            (st, ev3) = (case new_nsproxy of None \<Rightarrow> (st, [])
               | Some n \<Rightarrow> (st\<lparr>us_nsproxy := n\<rparr>, [U_switch_namespaces n, U_ref (Rel (U_nsproxy (us_nsproxy st)))]));
            (new_fs, st) = install_fs new_fs st;
            (new_fd, st) = install_fd new_fd st;
            (st, ev4) = (case new_cred of None \<Rightarrow> (st, [])
               | Some c \<Rightarrow> (st\<lparr>us_cred := c\<rparr>, [U_commit_creds c, U_ref (Rel (U_cred (us_cred st)))]))
        in (new_fs, new_fd, st, ev1 @ ev2 @ ev3 @ ev4)
      else (new_fs, new_fd, st, []))"

definition ksys_unshare :: "unshare_env \<Rightarrow> u64 \<Rightarrow> unshare_state \<Rightarrow> errno option \<times> unshare_state \<times> uevent list" where
  "ksys_unshare env unshare_flags st =
     (let f = implied_flags unshare_flags in
      case check_unshare_flags env f of
        Some e \<Rightarrow> (Some e, st, [])
      | None \<Rightarrow>
      case unshare_fs env f st of
        Inl e \<Rightarrow> (Some e, st, [])
      | Inr new_fs \<Rightarrow>
      let ev = acquired U_fs new_fs in
      case unshare_fd env f st of
        Inl e \<Rightarrow> (Some e, st, ev @ released U_fs new_fs)
      | Inr new_fd \<Rightarrow>
      let ev = ev @ acquired U_files new_fd in
      case un_userns env f of
        Inl e \<Rightarrow> (Some e, st, ev @ released U_files new_fd @ released U_fs new_fs)
      | Inr new_cred \<Rightarrow>
      let ev = ev @ acquired U_cred new_cred in
      case un_nsproxy env f of
        Inl e \<Rightarrow> (Some e, st, ev @ released U_cred new_cred @ released U_files new_fd @ released U_fs new_fs)
      | Inr new_nsproxy \<Rightarrow>
      let ev = ev @ acquired U_nsproxy new_nsproxy in
      case (if new_cred = None then None else un_set_ucounts env) of
        Some e \<Rightarrow> (Some e, st, ev @ released U_cred new_cred @ released U_files new_fd @ released U_fs new_fs)
      | None \<Rightarrow>
          let (old_fs, old_fd, st1, ev2) = unshare_install f new_fs new_fd new_cred new_nsproxy st
          in (None, put_files old_fd st1, ev @ ev2 @ [U_perf] @ released U_files old_fd @ released U_fs old_fs))"

definition unshare_files :: "unshare_env \<Rightarrow> unshare_state \<Rightarrow> errno option \<times> unshare_state \<times> uevent list" where
  "unshare_files env st =
     (case unshare_fd env CLONE_FILES st of
        Inl e \<Rightarrow> (Some e, st, [])
      | Inr None \<Rightarrow> (None, st, [])
      | Inr (Some copy) \<Rightarrow>
          (None, put_files (us_files st) (st\<lparr>us_files := Some copy\<rparr>),
           acquired U_files (Some copy) @ released U_files (us_files st)))"

subsection \<open>The limit on threads\<close>

definition MIN_THREADS :: nat where "MIN_THREADS = 20"
definition MAX_THREADS :: nat where "MAX_THREADS = 0x3fffffff"

text \<open>\<open>totalram\<close> is \<^verbatim>\<open>totalram_pages()\<close>; the arithmetic is on 64 bits.\<close>

definition set_max_threads :: "(u64 \<Rightarrow> nat) \<Rightarrow> u64 \<Rightarrow> u64 \<Rightarrow> u64 \<Rightarrow> u32 \<Rightarrow> u64" where
  "set_max_threads fls64 page_size thread_size totalram suggested =
     (let threads = (if fls64 totalram + fls64 page_size > 64 then of_nat MAX_THREADS
                     else (totalram * page_size) div (thread_size * 8));
          threads = (if threads > ucast suggested then ucast suggested else threads)
      in if threads < of_nat MIN_THREADS then of_nat MIN_THREADS
         else if threads > of_nat MAX_THREADS then of_nat MAX_THREADS else threads)"

text \<open>\<open>dointvec_minmax lo hi write v\<close> is \<^verbatim>\<open>proc_dointvec_minmax\<close> on the copy of the table: the error or the value
  the variable has after it.\<close>

definition sysctl_max_threads :: "(int \<Rightarrow> int \<Rightarrow> bool \<Rightarrow> int \<Rightarrow> int result) \<Rightarrow> bool \<Rightarrow> int \<Rightarrow> errno option \<times> int" where
  "sysctl_max_threads dointvec_minmax wr max_threads =
     (case dointvec_minmax 1 (int MAX_THREADS) wr max_threads of
        Inl e \<Rightarrow> (Some e, max_threads)
      | Inr threads \<Rightarrow> if \<not> wr then (None, max_threads) else (None, threads))"

subsection \<open>What is allocated and freed\<close>

definition refs :: "uevent list \<Rightarrow> uresource revent list" where
  "refs ev = concat (map (\<lambda>e. case e of U_ref r \<Rightarrow> [r] | _ \<Rightarrow> []) ev)"

lemma unshare_refs_simps [simp]:
  "refs [] = []" "refs (e # ev) = (case e of U_ref r \<Rightarrow> [r] | _ \<Rightarrow> []) @ refs ev" "refs (a @ b) = refs a @ refs b"
  by (simp_all add: refs_def)

lemma net_acquired [simp]: "net r (refs (acquired c x)) = (if \<exists>n. x = Some n \<and> c n = r then 1 else 0)"
  by (auto simp: acquired_def split: option.splits)

lemma net_released [simp]: "net r (refs (released c x)) = (if \<exists>n. x = Some n \<and> c n = r then - 1 else 0)"
  by (auto simp: released_def split: option.splits)

lemma has_OR_left: "has (a OR b) m \<longleftrightarrow> has a m \<or> has b m"
  by (auto simp: has_def bit_eq_iff bit_simps)

text \<open>The last step before anything is installed.\<close>

definition ucounts_failed :: "unshare_env \<Rightarrow> u64 \<Rightarrow> unshare_state \<Rightarrow> bool" where
  "ucounts_failed env f st \<longleftrightarrow> check_unshare_flags env f = None \<and> err_of (unshare_fs env f st) = None
     \<and> err_of (unshare_fd env f st) = None \<and> (\<exists>c. un_userns env f = Inr (Some c)) \<and> un_set_ucounts env \<noteq> None"

lemma implied_flags_thread:
  assumes "has f (CLONE_NEWUSER OR CLONE_THREAD OR CLONE_SIGHAND OR CLONE_VM)"
  shows "has (implied_flags f) CLONE_THREAD"
proof -
  have c: "has CLONE_THREAD CLONE_THREAD" "has CLONE_SIGHAND CLONE_SIGHAND" by (simp_all add: has_def clone_defs)
  then show ?thesis using assms by (auto simp: implied_flags_def Let_def has_OR has_OR_left)
qed

lemma unshare_success_parts:
  assumes "ksys_unshare env uf st = (None, st', ev)"
  shows "\<exists>new_fs new_fd new_cred new_ns old_fs old_fd st1 ev2. check_unshare_flags env (implied_flags uf) = None
    \<and> unshare_fs env (implied_flags uf) st = Inr new_fs \<and> unshare_fd env (implied_flags uf) st = Inr new_fd
    \<and> unshare_install (implied_flags uf) new_fs new_fd new_cred new_ns st = (old_fs, old_fd, st1, ev2)
    \<and> st' = put_files old_fd st1"
  using assms by (auto simp: ksys_unshare_def Let_def split: option.splits sum.splits prod.splits if_splits) blast+

lemma unshare_install_fs:
  assumes "unshare_install f new_fs new_fd new_cred new_ns st = (old_fs, old_fd, st1, ev)"
  shows "new_fs = None \<Longrightarrow> us_fs st1 = us_fs st \<and> us_fs_users st1 = us_fs_users st"
    and "new_fs = Some n \<Longrightarrow> us_fs st = Some fs \<Longrightarrow> us_fs st1 = Some n \<and> us_fs_users st1 fs = us_fs_users st fs - 1"
  using assms
  by (auto simp: unshare_install_def install_fs_def install_fd_def Let_def split: option.splits prod.splits if_splits)

lemma unshare_install_fd:
  assumes "unshare_install f new_fs new_fd new_cred new_ns st = (old_fs, old_fd, st1, ev)"
  shows "us_files_count st1 = us_files_count st"
    and "us_files st1 = (if new_fd = None then us_files st else new_fd)"
    and "old_fd = (if new_fd = None then None else us_files st)"
  using assms
  by (auto simp: unshare_install_def install_fs_def install_fd_def Let_def split: option.splits prod.splits if_splits)

subsection \<open>Properties\<close>

text \<open>
  C22: A failing \<^verbatim>\<open>unshare\<close> changes nothing the task uses and frees what it made in vain, with one exception: when
  \<^verbatim>\<open>set_cred_ucounts\<close> fails, the namespaces just made are forgotten, since no label puts \<^verbatim>\<open>new_nsproxy\<close>.\<close>

theorem unshare_failure:
  assumes "ksys_unshare env uf st = (Some e, st', ev)"
  shows "st' = st \<and> (\<forall>n. net (U_fs n) (refs ev) = 0 \<and> net (U_files n) (refs ev) = 0 \<and> net (U_cred n) (refs ev) = 0
    \<and> net (U_nsproxy n) (refs ev)
        = (if ucounts_failed env (implied_flags uf) st \<and> un_nsproxy env (implied_flags uf) = Inr (Some n) then 1 else 0))"
  using assms
  by (auto simp: ksys_unshare_def Let_def ucounts_failed_def err_of_def
      split: option.splits sum.splits prod.splits if_splits)

definition demo_uns :: unshare_env where
  "demo_uns = \<lparr>un_group_empty = True, un_sighand_count = 1, un_single_threaded = True, un_copy_fs = Some 11,
     un_dup_fd = Inr 12, un_userns = (\<lambda>f. Inr (if has f CLONE_NEWUSER then Some 13 else None)),
     un_nsproxy = (\<lambda>f. Inr (if has f (CLONE_NEWNS OR CLONE_NEWUSER) then Some 14 else None)), un_set_ucounts = None\<rparr>"

definition demo_shared :: unshare_state where
  "demo_shared = \<lparr>us_fs = Some 1, us_files = Some 2, us_cred = 3, us_nsproxy = 4, us_fs_users = (\<lambda>_. 2), us_files_count = (\<lambda>_. 2)\<rparr>"

lemmas demo_uns_eval =
  demo_uns_def demo_shared_def ksys_unshare_def implied_flags_def check_unshare_flags_def unshare_fs_def unshare_fd_def
  unshare_install_def install_fs_def install_fd_def put_files_def ucounts_failed_def err_of_def UNSHARE_FLAGS_def
  has_def clone_defs acquired_def released_def

theorem unshare_failure_witness:
  "net (U_nsproxy 14) (refs (snd (snd (ksys_unshare (demo_uns\<lparr>un_set_ucounts := Some EAGAIN\<rparr>) (CLONE_NEWNS OR CLONE_NEWUSER) demo_shared)))) = 1"
proof -
  let ?u = "ksys_unshare (demo_uns\<lparr>un_set_ucounts := Some EAGAIN\<rparr>) (CLONE_NEWNS OR CLONE_NEWUSER) demo_shared"
  have "fst ?u = Some EAGAIN" by (simp add: demo_uns_eval Let_def)
  then have "?u = (Some EAGAIN, fst (snd ?u), snd (snd ?u))" by (metis prod.collapse)
  from unshare_failure [OF this] show ?thesis by (simp add: demo_uns_eval)
qed

text \<open>
  A successful \<^verbatim>\<open>unshare\<close> leaves the task with what it asked for: with \<^verbatim>\<open>CLONE_FS\<close> (asked or implied by a new mount
  or user namespace) it has an \<^verbatim>\<open>fs\<close> structure no other task uses, either its own as before or a new
  one with the old one's count reduced; likewise its descriptor table; what was not asked stays; and a multi-threaded task
  cannot unshare its thread group, signal handlers, memory or user namespace.\<close>

theorem unshare_success:
  assumes "ksys_unshare env uf st = (None, st', ev)"
  shows "(\<forall>fs. us_fs st = Some fs \<longrightarrow>
            (if has (implied_flags uf) CLONE_FS \<and> us_fs_users st fs \<noteq> 1
             then us_fs st' = un_copy_fs env \<and> us_fs st' \<noteq> None \<and> us_fs_users st' fs = us_fs_users st fs - 1
             else us_fs st' = us_fs st \<and> us_fs_users st' = us_fs_users st))
    \<and> (\<forall>fd. us_files st = Some fd \<longrightarrow>
            (if has (implied_flags uf) CLONE_FILES \<and> us_files_count st fd > 1
             then (\<exists>n. un_dup_fd env = Inr n \<and> us_files st' = Some n) \<and> us_files_count st' fd = us_files_count st fd - 1
             else us_files st' = us_files st \<and> us_files_count st' = us_files_count st))
    \<and> (has uf (CLONE_NEWUSER OR CLONE_THREAD OR CLONE_SIGHAND OR CLONE_VM) \<longrightarrow> un_group_empty env)"
proof -
  let ?f = "implied_flags uf"
  obtain new_fs new_fd new_cred new_ns old_fs old_fd st1 ev2 where
    c: "check_unshare_flags env ?f = None" "unshare_fs env ?f st = Inr new_fs" "unshare_fd env ?f st = Inr new_fd"
    and i: "unshare_install ?f new_fs new_fd new_cred new_ns st = (old_fs, old_fd, st1, ev2)" and st': "st' = put_files old_fd st1"
    using unshare_success_parts [OF assms] by blast
  have group: "has uf (CLONE_NEWUSER OR CLONE_THREAD OR CLONE_SIGHAND OR CLONE_VM) \<longrightarrow> un_group_empty env"
    using c(1) implied_flags_thread [of uf] by (auto simp: check_unshare_flags_def has_OR split: if_splits)
  have fs: "us_fs st' = us_fs st1" "us_fs_users st' = us_fs_users st1" "us_files st' = us_files st1"
    by (simp_all add: st' put_files_def split: option.splits)
  have "if has ?f CLONE_FS \<and> us_fs_users st p \<noteq> 1
      then us_fs st' = un_copy_fs env \<and> us_fs st' \<noteq> None \<and> us_fs_users st' p = us_fs_users st p - 1
      else us_fs st' = us_fs st \<and> us_fs_users st' = us_fs_users st" if "us_fs st = Some p" for p
  proof (cases new_fs)
    case None
    then show ?thesis using that c(2) fs unshare_install_fs(1) [OF i None]
      by (auto simp: unshare_fs_def split: option.splits if_splits)
  next
    case (Some n)
    then show ?thesis using that c(2) fs unshare_install_fs(2) [OF i Some that]
      by (auto simp: unshare_fs_def split: option.splits if_splits)
  qed
  moreover have "if has ?f CLONE_FILES \<and> us_files_count st fd > 1
      then (\<exists>n. un_dup_fd env = Inr n \<and> us_files st' = Some n) \<and> us_files_count st' fd = us_files_count st fd - 1
      else us_files st' = us_files st \<and> us_files_count st' = us_files_count st" if "us_files st = Some fd" for fd
    using that c(3) fs(3) unshare_install_fd [OF i]
    by (auto simp: unshare_fd_def st' put_files_def split: option.splits if_splits sum.splits)
  ultimately show ?thesis using group by blast
qed

theorem unshare_success_witness:
  "us_fs (fst (snd (ksys_unshare demo_uns CLONE_NEWNS demo_shared))) = Some 11
   \<and> us_fs_users (fst (snd (ksys_unshare demo_uns CLONE_NEWNS demo_shared))) 1 = 1"
proof -
  let ?u = "ksys_unshare demo_uns CLONE_NEWNS demo_shared"
  have "fst ?u = None" by (simp add: demo_uns_eval Let_def)
  then have "?u = (None, fst (snd ?u), snd (snd ?u))" by (metis prod.collapse)
  note u = unshare_success [OF this]
  have h: "us_fs demo_shared = Some 1" "has (implied_flags CLONE_NEWNS) CLONE_FS" "us_fs_users demo_shared 1 = 2"
    "un_copy_fs demo_uns = Some 11" by (simp_all add: demo_uns_eval)
  from u h show ?thesis by auto
qed

text \<open>
  The limit on threads is always between 20 and the number of thread ids a futex can hold, and whenever the
  first test lets the multiplication through it does not overflow: the limit is then exactly the number of
  thread stacks that fit an eighth of the memory, cut to the suggestion and those bounds.\<close>

theorem set_max_threads_exact:
  assumes "\<And>x. unat x < 2 ^ fls64 x" "thread_size \<noteq> 0" "unat thread_size * 8 < 2 ^ 64"
  shows "MIN_THREADS \<le> unat (set_max_threads fls64 page_size thread_size totalram suggested)
    \<and> unat (set_max_threads fls64 page_size thread_size totalram suggested) \<le> MAX_THREADS
    \<and> (fls64 totalram + fls64 page_size \<le> 64 \<longrightarrow>
        unat (set_max_threads fls64 page_size thread_size totalram suggested)
          = max MIN_THREADS (min MAX_THREADS (min (unat suggested)
              (unat totalram * unat page_size div (unat thread_size * 8)))))"
proof -
  have lim: "unat (of_nat MIN_THREADS :: u64) = MIN_THREADS" "unat (of_nat MAX_THREADS :: u64) = MAX_THREADS" "MIN_THREADS \<le> MAX_THREADS"
    by (simp_all add: MIN_THREADS_def MAX_THREADS_def)
  have prod: "unat (totalram * page_size) = unat totalram * unat page_size" if "fls64 totalram + fls64 page_size \<le> 64"
  proof -
    have "unat totalram * unat page_size < 2 ^ fls64 totalram * 2 ^ fls64 page_size"
      using assms(1) [of totalram] assms(1) [of page_size] by (intro mult_strict_mono) auto
    also have "\<dots> \<le> 2 ^ 64" using that by (simp only: power_add [symmetric]) (rule power_increasing, auto)
    finally show ?thesis by (simp add: unat_word_ariths)
  qed
  have sz: "unat (thread_size * 8) = unat thread_size * 8" using assms(3) by (simp add: unat_word_ariths)
  have sug: "unat (ucast suggested :: u64) = unat suggested" 
    by (simp add: unsigned_ucast_eq take_bit_nat_eq_self unsigned_less [THEN less_trans])
  show ?thesis using prod
    by (auto simp: set_max_threads_def Let_def word_less_nat_alt unat_div sz sug lim)
qed

fun nat_bits :: "nat \<Rightarrow> nat" where
  "nat_bits n = (if n = 0 then 0 else Suc (nat_bits (n div 2)))"

declare nat_bits.simps [simp del]

lemma less_nat_bits: "n < 2 ^ nat_bits n"
proof (induction n rule: nat_bits.induct)
  case (1 n)
  then show ?case by (subst nat_bits.simps) auto
qed

theorem set_max_threads_exact_witness:
  "unat (set_max_threads (\<lambda>x. nat_bits (unat x)) 4096 16384 262144 0x3fffffff) = 8192"
proof -
  have f: "unat x < 2 ^ nat_bits (unat x)" for x :: u64 by (rule less_nat_bits)
  have "nat_bits 262144 = 19" "nat_bits 4096 = 13" by (simp_all add: nat_bits.simps)
  then have "nat_bits (unat (262144 :: u64)) + nat_bits (unat (4096 :: u64)) \<le> 64" by simp
  then show ?thesis
    using set_max_threads_exact [of "\<lambda>x. nat_bits (unat x)" 16384 4096 262144 "0x3fffffff", OF f]
    by (simp add: MIN_THREADS_def MAX_THREADS_def)
qed

end
