(* ===== verification/Task_Stack.thy ===== *)
theory Task_Stack
  imports Runs Task
begin

section \<open>Kernel stacks\<close>

text \<open>
  The stacks of tasks in \<^verbatim>\<open>kernel/fork.c\<close> (with \<^verbatim>\<open>CONFIG_VMAP_STACK\<close> and \<^verbatim>\<open>CONFIG_THREAD_INFO_IN_TASK\<close>): the per-CPU cache of two
  freed stacks, \<^verbatim>\<open>alloc_thread_stack_node\<close>, \<^verbatim>\<open>free_thread_stack\<close>, the charging of their pages, the part of
  \<^verbatim>\<open>dup_task_struct\<close> that uses them, \<^verbatim>\<open>put_task_stack\<close> and \<^verbatim>\<open>release_task_stack\<close>.

  The pool has the cache of the CPU, the areas mapped by \<^verbatim>\<open>vmalloc\<close>, the areas that hold data of a task that
  ran on them, the pages charged to a memory group, the stacks of the tasks and the statistic
  \<^verbatim>\<open>NR_KERNEL_STACK_KB\<close>.  The locale \<open>labelled\<close> is interpreted on its steps.
\<close>

subsection \<open>The pool\<close>

type_synonym area = nat

definition NR_CACHED_STACKS :: nat where "NR_CACHED_STACKS = 2"
definition PAGE_SIZE :: nat where "PAGE_SIZE = 4096"
definition THREAD_SIZE :: nat where "THREAD_SIZE = 4 * PAGE_SIZE"

record task_stack =
  tk_stack :: "area option"
  tk_vm_area :: "area option"
  tk_refcount :: int
  tk_state :: u32

record stack_pool =
  cached_stacks :: "area option list"
  mapped :: "area set"
  dirty :: "area set"
  charged :: "(area \<times> nat) set"
  owners :: "tptr \<rightharpoonup> task_stack"
  stack_kb :: int

subsection \<open>Operations\<close>

text \<open>The loop of \<^verbatim>\<open>alloc_thread_stack_node\<close> over the cache: the first stack found is exchanged for NULL.\<close>

fun take_cached :: "area option list \<Rightarrow> area option \<times> area option list" where
  "take_cached [] = (None, [])"
| "take_cached (None # cs) = (case take_cached cs of (s, cs') \<Rightarrow> (s, None # cs'))"
| "take_cached (Some s # cs) = (Some s, None # cs)"

text \<open>\<open>vmalloc\<close> is the area \<^verbatim>\<open>__vmalloc_node_range\<close> gives, zeroed; \<open>None\<close> is NULL.  A cached stack is cleared by \<^verbatim>\<open>memset\<close>.\<close>

definition set_stack :: "tptr \<Rightarrow> area option \<Rightarrow> stack_pool \<Rightarrow> stack_pool" where
  "set_stack tsk s p = p\<lparr>owners := (owners p)(tsk := map_option (\<lambda>t. t\<lparr>tk_stack := s, tk_vm_area := s\<rparr>) (owners p tsk))\<rparr>"

definition alloc_thread_stack_node :: "area option \<Rightarrow> tptr \<Rightarrow> stack_pool \<Rightarrow> area option \<times> stack_pool" where
  "alloc_thread_stack_node vmalloc tsk p =
     (case take_cached (cached_stacks p) of
        (Some s, cs) \<Rightarrow> (Some s, set_stack tsk (Some s) (p\<lparr>cached_stacks := cs, dirty := dirty p - {s}\<rparr>))
      | (None, cs) \<Rightarrow>
          (case vmalloc of
             None \<Rightarrow> (None, p\<lparr>cached_stacks := cs\<rparr>)
           | Some s \<Rightarrow> (Some s, set_stack tsk (Some s) (p\<lparr>cached_stacks := cs, mapped := insert s (mapped p), dirty := dirty p - {s}\<rparr>))))"

text \<open>The loop of \<^verbatim>\<open>free_thread_stack\<close>: the stack goes to the first free place of the cache; \<open>None\<close> when there is none.\<close>

fun put_cached :: "area \<Rightarrow> area option list \<Rightarrow> area option list option" where
  "put_cached s [] = None"
| "put_cached s (None # cs) = Some (Some s # cs)"
| "put_cached s (Some t # cs) = map_option (\<lambda>cs'. Some t # cs') (put_cached s cs)"

definition uncharge :: "area \<Rightarrow> (area \<times> nat) set \<Rightarrow> (area \<times> nat) set" where
  "uncharge s c = c - (\<lambda>i. (s, i)) ` {0..<THREAD_SIZE div PAGE_SIZE}"

text \<open>\<open>None\<close> is a task whose stack has no area, which this configuration does not make.\<close>

definition free_thread_stack :: "tptr \<Rightarrow> stack_pool \<Rightarrow> stack_pool option" where
  "free_thread_stack tsk p =
     (case owners p tsk of
        None \<Rightarrow> None
      | Some t \<Rightarrow>
          (case tk_vm_area t of
             None \<Rightarrow> None
           | Some vm \<Rightarrow>
               let p = p\<lparr>charged := uncharge vm (charged p)\<rparr>
               in case put_cached vm (cached_stacks p) of
                    Some cs \<Rightarrow> Some (p\<lparr>cached_stacks := cs\<rparr>)
                  | None \<Rightarrow> Some (p\<lparr>mapped := mapped p - {vm}\<rparr>)))"

text \<open>When the CPU goes away its cached stacks are freed.\<close>

definition free_vm_stack_cache :: "stack_pool \<Rightarrow> stack_pool" where
  "free_vm_stack_cache p =
     p\<lparr>mapped := mapped p - {s. Some s \<in> set (cached_stacks p)}, cached_stacks := map (\<lambda>_. None) (cached_stacks p)\<rparr>"

definition account_kernel_stack :: "task_stack \<Rightarrow> int \<Rightarrow> int \<Rightarrow> int" where
  "account_kernel_stack t account kb =
     (case tk_vm_area t of
        Some vm \<Rightarrow> fold (\<lambda>i kb. kb + account * int (PAGE_SIZE div 1024)) [0..<THREAD_SIZE div PAGE_SIZE] kb
      | None \<Rightarrow> kb + account * int (THREAD_SIZE div 1024))"

text \<open>\<open>charge i\<close> is the error of charging page \<open>i\<close>; the pages before it stay charged.\<close>

fun charge_pages :: "(nat \<Rightarrow> errno option) \<Rightarrow> area \<Rightarrow> nat list \<Rightarrow> (area \<times> nat) set \<Rightarrow> errno option \<times> (area \<times> nat) set" where
  "charge_pages charge s [] c = (None, c)"
| "charge_pages charge s (i # is) c = (case charge i of Some e \<Rightarrow> (Some e, c) | None \<Rightarrow> charge_pages charge s is (insert (s, i) c))"

definition memcg_charge_kernel_stack :: "(nat \<Rightarrow> errno option) \<Rightarrow> tptr \<Rightarrow> stack_pool \<Rightarrow> errno option \<times> stack_pool" where
  "memcg_charge_kernel_stack charge tsk p =
     (case owners p tsk of
        None \<Rightarrow> (None, p)
      | Some t \<Rightarrow>
          (case tk_vm_area t of
             None \<Rightarrow> (None, p)
           | Some vm \<Rightarrow>
               (case charge_pages charge vm [0..<THREAD_SIZE div PAGE_SIZE] (charged p) of
                  (r, c) \<Rightarrow> (r, p\<lparr>charged := c\<rparr>))))"

definition release_task_stack :: "tptr \<Rightarrow> stack_pool \<Rightarrow> stack_pool" where
  "release_task_stack tsk p =
     (case owners p tsk of
        None \<Rightarrow> p
      | Some t \<Rightarrow>
          if tk_state t \<noteq> TASK_DEAD then p
          else (case free_thread_stack tsk (p\<lparr>stack_kb := account_kernel_stack t (- 1) (stack_kb p)\<rparr>) of
                  None \<Rightarrow> p
                | Some p' \<Rightarrow> set_stack tsk None p'))"

definition put_task_stack :: "tptr \<Rightarrow> stack_pool \<Rightarrow> stack_pool" where
  "put_task_stack tsk p =
     (case owners p tsk of
        None \<Rightarrow> p
      | Some t \<Rightarrow>
          let p' = p\<lparr>owners := (owners p)(tsk \<mapsto> t\<lparr>tk_refcount := tk_refcount t - 1\<rparr>)\<rparr>
          in if tk_refcount t - 1 = 0 then release_task_stack tsk p' else p')"

text \<open>What \<^verbatim>\<open>dup_task_struct\<close> does with the stack of the new task \<open>tsk\<close>: \<open>err\<close> is the first error of \<^verbatim>\<open>arch_dup_task_struct\<close> and
  \<^verbatim>\<open>scs_prepare\<close>.\<close>

definition free_tsk :: "tptr \<Rightarrow> stack_pool \<Rightarrow> stack_pool" where
  "free_tsk tsk p = p\<lparr>owners := (owners p)(tsk := None)\<rparr>"

definition free_stack :: "tptr \<Rightarrow> stack_pool \<Rightarrow> stack_pool" where
  "free_stack tsk p = (case free_thread_stack tsk p of None \<Rightarrow> p | Some p' \<Rightarrow> free_tsk tsk p')"

definition dup_stack ::
  "area option \<Rightarrow> (nat \<Rightarrow> errno option) \<Rightarrow> errno option \<Rightarrow> tptr \<Rightarrow> stack_pool \<Rightarrow> area option \<times> stack_pool" where
  "dup_stack vmalloc charge err tsk p =
     (let p0 = p\<lparr>owners := (owners p)(tsk \<mapsto> \<lparr>tk_stack = None, tk_vm_area = None, tk_refcount = 0, tk_state = 0\<rparr>)\<rparr>
      in case alloc_thread_stack_node vmalloc tsk p0 of
           (None, p1) \<Rightarrow> (None, free_tsk tsk p1)
         | (Some s, p1) \<Rightarrow>
             (case memcg_charge_kernel_stack charge tsk p1 of
                (Some e, p2) \<Rightarrow> (None, free_stack tsk p2)
              | (None, p2) \<Rightarrow>
                  (case owners p2 tsk of
                     None \<Rightarrow> (None, p2)
                   | Some t \<Rightarrow>
                       let t' = t\<lparr>tk_refcount := 1\<rparr>;
                           p3 = p2\<lparr>owners := (owners p2)(tsk \<mapsto> t')\<rparr>
                       in if err \<noteq> None then (None, free_stack tsk p3)
                          else (Some s, p3\<lparr>stack_kb := account_kernel_stack t' 1 (stack_kb p3)\<rparr>))))"

subsection \<open>Steps\<close>

text \<open>A task may run on its stack, be given up by the scheduler (\<^verbatim>\<open>TASK_DEAD\<close>), have its stack pinned
  (\<^verbatim>\<open>try_get_task_stack\<close>) and unpinned.\<close>

datatype stack_label = New tptr | Run tptr | Die tptr | Pin tptr | Put tptr | Offline

inductive stack_step :: "stack_label \<Rightarrow> stack_pool \<Rightarrow> stack_pool \<Rightarrow> bool" where
  stack_new: "owners p tsk = None \<Longrightarrow> (\<forall>s. vmalloc = Some s \<longrightarrow> s \<notin> mapped p) \<Longrightarrow> dup_stack vmalloc charge err tsk p = (r, p')
    \<Longrightarrow> stack_step (New tsk) p p'"
| stack_run: "owners p tsk = Some t \<Longrightarrow> tk_stack t = Some s \<Longrightarrow> stack_step (Run tsk) p (p\<lparr>dirty := insert s (dirty p)\<rparr>)"
| stack_die: "owners p tsk = Some t \<Longrightarrow> stack_step (Die tsk) p (p\<lparr>owners := (owners p)(tsk \<mapsto> t\<lparr>tk_state := TASK_DEAD\<rparr>)\<rparr>)"
| stack_pin: "owners p tsk = Some t \<Longrightarrow> tk_refcount t > 0
    \<Longrightarrow> stack_step (Pin tsk) p (p\<lparr>owners := (owners p)(tsk \<mapsto> t\<lparr>tk_refcount := tk_refcount t + 1\<rparr>)\<rparr>)"
| stack_put: "owners p tsk = Some t \<Longrightarrow> tk_refcount t > 0 \<Longrightarrow> stack_step (Put tsk) p (put_task_stack tsk p)"
| stack_offline: "stack_step Offline p (free_vm_stack_cache p)"

subsection \<open>The invariant\<close>

text \<open>The areas in a cache, and the area of each task that has a stack.\<close>

definition areas :: "area option list \<Rightarrow> area list" where
  "areas cs = map the (filter (\<lambda>s. s \<noteq> None) cs)"

definition stack_of :: "stack_pool \<Rightarrow> tptr \<rightharpoonup> area" where
  "stack_of p q = (case owners p q of None \<Rightarrow> None | Some t \<Rightarrow> tk_stack t)"

text \<open>No area is cached twice, used twice, or cached and used; the mapped areas are the cached and the used
  ones; only pages of used ones are charged.\<close>

definition areas_ok :: "area option list \<Rightarrow> area set \<Rightarrow> (area \<times> nat) set \<Rightarrow> (tptr \<rightharpoonup> area) \<Rightarrow> bool" where
  "areas_ok cs m c so \<longleftrightarrow> length cs = NR_CACHED_STACKS \<and> distinct (areas cs) \<and> finite (dom so) \<and> inj_on so (dom so)
     \<and> set (areas cs) \<inter> ran so = {} \<and> m = set (areas cs) \<union> ran so \<and> c \<subseteq> ran so \<times> {0..<THREAD_SIZE div PAGE_SIZE}"

definition pool_inv :: "stack_pool \<Rightarrow> bool" where
  "pool_inv p \<longleftrightarrow> areas_ok (cached_stacks p) (mapped p) (charged p) (stack_of p)
     \<and> (\<forall>q t. owners p q = Some t \<longrightarrow> tk_vm_area t = tk_stack t)
     \<and> stack_kb p = int (THREAD_SIZE div 1024) * int (card (dom (stack_of p)))"

lemma areas_simps [simp]: "areas [] = []" "areas (None # cs) = areas cs" "areas (Some s # cs) = s # areas cs"
  by (simp_all add: areas_def)

lemma set_areas: "set (areas cs) = {s. Some s \<in> set cs}"
proof (induction cs)
  case (Cons c cs)
  then show ?case by (cases c) auto
qed simp

lemma take_cached_cases:
  "take_cached cs = (r, cs') \<Longrightarrow> length cs' = length cs \<and> (case r of None \<Rightarrow> areas cs = [] \<and> cs' = cs | Some s \<Rightarrow> areas cs = s # areas cs')"
  by (induction cs arbitrary: cs' rule: take_cached.induct) (auto split: prod.splits option.splits)

lemma put_cached_Some:
  "put_cached s cs = Some cs' \<Longrightarrow> length cs' = length cs \<and> set (areas cs') = insert s (set (areas cs))
     \<and> (distinct (areas cs) \<and> s \<notin> set (areas cs) \<longrightarrow> distinct (areas cs'))"
  by (induction s cs arbitrary: cs' rule: put_cached.induct) auto

lemma ran_drop: "inj_on so (dom so) \<Longrightarrow> so q = Some s \<Longrightarrow> ran (so(q := None)) = ran so - {s}"
  unfolding ran_def inj_on_def dom_def by (auto split: if_splits) (metis option.inject)+

lemma areas_ok_take:
  assumes "areas_ok cs m c so" "so q = None" "take_cached cs = (Some s, cs')"
  shows "areas_ok cs' m c (so(q \<mapsto> s))" "s \<notin> ran so"
proof -
  have t: "length cs' = length cs" "areas cs = s # areas cs'" using take_cached_cases [OF assms(3)] by auto
  then show s: "s \<notin> ran so" using assms(1) by (auto simp: areas_ok_def)
  have "inj_on (so(q \<mapsto> s)) (dom (so(q \<mapsto> s)))"
    using assms(1,2) s by (auto simp: areas_ok_def inj_on_def dom_def ran_def split: if_splits)
  then show "areas_ok cs' m c (so(q \<mapsto> s))" using assms(1,2) t s by (auto simp: areas_ok_def ran_map_upd)
qed

lemma areas_ok_vmalloc:
  assumes "areas_ok cs m c so" "so q = None" "s \<notin> m"
  shows "areas_ok cs (insert s m) c (so(q \<mapsto> s))" "s \<notin> ran so"
proof -
  show s: "s \<notin> ran so" using assms(1,3) by (simp add: areas_ok_def)
  have "inj_on (so(q \<mapsto> s)) (dom (so(q \<mapsto> s)))"
    using assms(1,2) s by (auto simp: areas_ok_def inj_on_def dom_def ran_def split: if_splits)
  then show "areas_ok cs (insert s m) c (so(q \<mapsto> s))" using assms s by (auto simp: areas_ok_def ran_map_upd)
qed

lemma areas_ok_charge:
  assumes "areas_ok cs m c so" "s \<in> ran so"
  shows "areas_ok cs m (snd (charge_pages charge s [0..<THREAD_SIZE div PAGE_SIZE] c)) so"
proof -
  have "snd (charge_pages charge s is c) \<subseteq> c \<union> {s} \<times> set is" for "is" c
    by (induction charge s "is" c rule: charge_pages.induct) (auto split: option.splits)
  from this [of "[0..<THREAD_SIZE div PAGE_SIZE]" c] show ?thesis using assms by (auto simp: areas_ok_def)
qed

lemma areas_ok_give:
  assumes "areas_ok cs m c so" "so q = Some s"
  shows "case put_cached s cs of Some cs' \<Rightarrow> areas_ok cs' m (uncharge s c) (so(q := None))
     | None \<Rightarrow> areas_ok cs (m - {s}) (uncharge s c) (so(q := None))"
proof -
  have r: "ran (so(q := None)) = ran so - {s}" using assms by (intro ran_drop) (auto simp: areas_ok_def)
  have "s \<in> ran so" using assms(2) by (auto simp: ran_def)
  then have s: "s \<notin> set (areas cs)" "s \<in> m" using assms(1) by (auto simp: areas_ok_def)
  have i: "inj_on (so(q := None)) (dom (so(q := None)))" using assms(1) by (auto simp: areas_ok_def inj_on_def)
  have c: "uncharge s c \<subseteq> (ran so - {s}) \<times> {0..<THREAD_SIZE div PAGE_SIZE}"
    using assms(1) by (auto simp: areas_ok_def uncharge_def)
  show ?thesis
  proof (cases "put_cached s cs")
    case None
    then show ?thesis using assms(1) r s i c by (auto simp: areas_ok_def)
  next
    case (Some cs')
    then show ?thesis using assms(1) r s i c put_cached_Some [OF Some] by (auto simp: areas_ok_def)
  qed
qed

lemma account_kernel_stack_kb: "account_kernel_stack t account kb = kb + account * int (THREAD_SIZE div 1024)"
  by (simp add: account_kernel_stack_def THREAD_SIZE_def PAGE_SIZE_def upt_rec split: option.splits)

text \<open>The invariant without the statistic, which lags behind inside an operation.\<close>

definition pool_ok :: "stack_pool \<Rightarrow> bool" where
  "pool_ok p \<longleftrightarrow> areas_ok (cached_stacks p) (mapped p) (charged p) (stack_of p)
     \<and> (\<forall>q t. owners p q = Some t \<longrightarrow> tk_vm_area t = tk_stack t)"

lemma pool_inv_ok: "pool_inv p \<longleftrightarrow> pool_ok p \<and> stack_kb p = int (THREAD_SIZE div 1024) * int (card (dom (stack_of p)))"
  by (simp add: pool_inv_def pool_ok_def)

lemma stack_of_owner: "owners p' = (owners p)(q := o') \<Longrightarrow> stack_of p' = (stack_of p)(q := (case o' of None \<Rightarrow> None | Some t \<Rightarrow> tk_stack t))"
  by (auto simp: stack_of_def fun_eq_iff)

lemma stack_of_cong: "owners p' = owners p \<Longrightarrow> stack_of p' = stack_of p"
  by (simp add: stack_of_def fun_eq_iff)

lemma stack_of_other [simp]:
  "stack_of (p\<lparr>stack_kb := n\<rparr>) = stack_of p" "stack_of (p\<lparr>dirty := d\<rparr>) = stack_of p"
  "stack_of (p\<lparr>owners := ow, stack_kb := n\<rparr>) = stack_of (p\<lparr>owners := ow\<rparr>)"
  by (simp_all add: stack_of_def fun_eq_iff)

lemma alloc_ok:
  assumes "pool_ok p" "owners p q = Some t" "tk_stack t = None" "\<forall>s. vmalloc = Some s \<longrightarrow> s \<notin> mapped p"
    and "alloc_thread_stack_node vmalloc q p = (Some s, p')"
  shows "pool_ok p' \<and> owners p' = (owners p)(q \<mapsto> t\<lparr>tk_stack := Some s, tk_vm_area := Some s\<rparr>) \<and> s \<notin> dirty p' \<and> s \<notin> ran (stack_of p)
    \<and> stack_kb p' = stack_kb p \<and> dirty p' \<subseteq> dirty p"
proof -
  obtain r cs where tc: "take_cached (cached_stacks p) = (r, cs)" by (cases "take_cached (cached_stacks p)")
  have so: "stack_of p q = None" using assms(2,3) by (simp add: stack_of_def)
  have ok: "areas_ok (cached_stacks p) (mapped p) (charged p) (stack_of p)" using assms(1) by (simp add: pool_ok_def)
  have ow: "owners p' = (owners p)(q \<mapsto> t\<lparr>tk_stack := Some s, tk_vm_area := Some s\<rparr>)"
    using assms(2,5) tc by (auto simp: alloc_thread_stack_node_def set_stack_def split: option.splits)
  then have so': "stack_of p' = (stack_of p)(q \<mapsto> s)" using stack_of_owner by fastforce
  show ?thesis
  proof (cases r)
    case None
    then have "cs = cached_stacks p" using take_cached_cases [OF tc] by simp
    then have p': "vmalloc = Some s" "cached_stacks p' = cached_stacks p" "mapped p' = insert s (mapped p)" "charged p' = charged p"
      "dirty p' = dirty p - {s}" "stack_kb p' = stack_kb p"
      using assms(5) tc None by (auto simp: alloc_thread_stack_node_def set_stack_def split: option.splits)
    then show ?thesis using areas_ok_vmalloc [OF ok so] assms(1,4) so' ow by (auto simp: pool_ok_def split: if_splits)
  next
    case (Some s0)
    then have p': "s0 = s" "cached_stacks p' = cs" "mapped p' = mapped p" "charged p' = charged p"
      "dirty p' = dirty p - {s}" "stack_kb p' = stack_kb p"
      using assms(5) tc by (auto simp: alloc_thread_stack_node_def set_stack_def)
    then show ?thesis using areas_ok_take [OF ok so] tc Some assms(1) so' ow by (auto simp: pool_ok_def split: if_splits)
  qed
qed

lemma alloc_None: "alloc_thread_stack_node vmalloc q p = (None, p') \<Longrightarrow> p' = p"
  using take_cached_cases [of "cached_stacks p"]
  by (force simp: alloc_thread_stack_node_def split: prod.splits option.splits)

lemma charge_ok:
  assumes "pool_ok p" "memcg_charge_kernel_stack charge q p = (r, p')"
  shows "pool_ok p'" "owners p' = owners p" "stack_kb p' = stack_kb p" "dirty p' = dirty p"
proof -
  show ow: "owners p' = owners p" and "stack_kb p' = stack_kb p" "dirty p' = dirty p"
    using assms(2) by (auto simp: memcg_charge_kernel_stack_def split: option.splits prod.splits)
  have "charged p' = charged p \<or> (\<exists>s. s \<in> ran (stack_of p)
      \<and> charged p' = snd (charge_pages charge s [0..<THREAD_SIZE div PAGE_SIZE] (charged p)))"
  proof (cases "stack_of p q")
    case None
    then show ?thesis using assms
      by (auto simp: memcg_charge_kernel_stack_def pool_ok_def stack_of_def split: option.splits prod.splits)
  next
    case (Some s)
    then have "charged p' = snd (charge_pages charge s [0..<THREAD_SIZE div PAGE_SIZE] (charged p))"
      using assms by (auto simp: memcg_charge_kernel_stack_def pool_ok_def stack_of_def [of p q] split: option.splits prod.splits)
    then show ?thesis using ranI [of "stack_of p" q s] Some by blast
  qed
  moreover have "cached_stacks p' = cached_stacks p" "mapped p' = mapped p"
    using assms(2) by (auto simp: memcg_charge_kernel_stack_def split: option.splits prod.splits)
  ultimately show "pool_ok p'" using assms(1) ow areas_ok_charge stack_of_cong [OF ow] by (auto simp: pool_ok_def)
qed

text \<open>Giving the stack back, whatever becomes of the owner's entry.\<close>

lemma free_ok:
  assumes "pool_ok p" "owners p q = Some t" "tk_stack t = Some s"
  shows "\<exists>p1. free_thread_stack q p = Some p1 \<and> owners p1 = owners p \<and> stack_kb p1 = stack_kb p
    \<and> (\<forall>o'. (\<forall>t'. o' = Some t' \<longrightarrow> tk_stack t' = None \<and> tk_vm_area t' = None) \<longrightarrow> pool_ok (p1\<lparr>owners := (owners p)(q := o')\<rparr>))"
proof -
  have vm: "tk_vm_area t = Some s" and ok: "areas_ok (cached_stacks p) (mapped p) (charged p) (stack_of p)"
    and so: "stack_of p q = Some s" and all: "\<forall>q t. owners p q = Some t \<longrightarrow> tk_vm_area t = tk_stack t"
    using assms by (auto simp: pool_ok_def stack_of_def)
  have st: "stack_of (p1\<lparr>owners := (owners p)(q := o')\<rparr>) = (stack_of p)(q := None)"
    if "\<forall>t'. o' = Some t' \<longrightarrow> tk_stack t' = None \<and> tk_vm_area t' = None" for o' and p1 :: stack_pool
    using that by (auto simp: stack_of_def fun_eq_iff split: option.splits)
  note give = areas_ok_give [OF ok so]
  show ?thesis
  proof (cases "put_cached s (cached_stacks p)")
    case None
    then show ?thesis using give st all assms(2) vm by (auto simp: free_thread_stack_def Let_def pool_ok_def)
  next
    case (Some cs)
    then show ?thesis using give st all assms(2) vm by (auto simp: free_thread_stack_def Let_def pool_ok_def)
  qed
qed

lemma free_stack_ok:
  assumes "pool_ok p" "owners p q = Some t" "tk_stack t = Some s"
  shows "pool_ok (free_stack q p)" "owners (free_stack q p) = (owners p)(q := None)" "stack_kb (free_stack q p) = stack_kb p"
proof -
  obtain p1 where p1: "free_thread_stack q p = Some p1" "owners p1 = owners p" "stack_kb p1 = stack_kb p"
    and ok: "pool_ok (p1\<lparr>owners := (owners p)(q := None)\<rparr>)" using free_ok [OF assms] by blast
  then show "pool_ok (free_stack q p)" "owners (free_stack q p) = (owners p)(q := None)" "stack_kb (free_stack q p) = stack_kb p"
    by (simp_all add: free_stack_def free_tsk_def)
qed

lemma pool_ok_owner:
  assumes "pool_ok p" "owners p q = Some t" "tk_stack t' = tk_stack t" "tk_vm_area t' = tk_vm_area t"
  shows "pool_ok (p\<lparr>owners := (owners p)(q \<mapsto> t')\<rparr>)" "stack_of (p\<lparr>owners := (owners p)(q \<mapsto> t')\<rparr>) = stack_of p"
proof -
  show so: "stack_of (p\<lparr>owners := (owners p)(q \<mapsto> t')\<rparr>) = stack_of p"
    using assms(2,3) by (auto simp: stack_of_def fun_eq_iff)
  show "pool_ok (p\<lparr>owners := (owners p)(q \<mapsto> t')\<rparr>)"
    unfolding pool_ok_def so using assms by (auto simp: pool_ok_def)
qed

lemma dup_stack_ok:
  assumes "pool_inv p" "owners p q = None" "\<forall>s. vmalloc = Some s \<longrightarrow> s \<notin> mapped p" "dup_stack vmalloc charge err q p = (r, p')"
  shows "pool_inv p'" "r = None \<Longrightarrow> owners p' = owners p"
    "r = Some s \<Longrightarrow> (\<exists>t. owners p' = (owners p)(q \<mapsto> t) \<and> tk_stack t = Some s) \<and> s \<notin> ran (stack_of p) \<and> s \<notin> dirty p'"
proof -
  let ?t0 = "\<lparr>tk_stack = None, tk_vm_area = None, tk_refcount = 0, tk_state = 0\<rparr>"
  define p0 where "p0 = p\<lparr>owners := (owners p)(q \<mapsto> ?t0)\<rparr>"
  have so0: "stack_of p0 = stack_of p" using assms(2) by (auto simp: p0_def stack_of_def fun_eq_iff)
  have ok0: "pool_ok p0" unfolding pool_ok_def so0 using assms(1) by (auto simp: p0_def pool_inv_def)
  have ow0: "owners p0 q = Some ?t0" "(owners p0)(q := None) = owners p" using assms(2) by (auto simp: p0_def)
  have kb: "stack_kb p0 = int (THREAD_SIZE div 1024) * int (card (dom (stack_of p)))" using assms(1) by (simp add: p0_def pool_inv_def)
  have fin: "finite (dom (stack_of p))" "stack_of p q = None" using assms(1,2) by (auto simp: pool_inv_def areas_ok_def stack_of_def)
  have gone: "pool_inv p' \<and> owners p' = owners p" if "pool_ok p'" "owners p' = (owners p0)(q := None)" "stack_kb p' = stack_kb p0"
    using that kb stack_of_cong [of p' p] ow0(2) by (simp add: pool_inv_ok)
  obtain a p1 where a: "alloc_thread_stack_node vmalloc q p0 = (a, p1)" by (cases "alloc_thread_stack_node vmalloc q p0")
  have "pool_inv p' \<and> (r = None \<longrightarrow> owners p' = owners p)
    \<and> (r = Some s \<longrightarrow> (\<exists>t. owners p' = (owners p)(q \<mapsto> t) \<and> tk_stack t = Some s) \<and> s \<notin> ran (stack_of p) \<and> s \<notin> dirty p')"
  proof (cases a)
    case None
    then have "r = None" "p' = free_tsk q p0" using assms(4) a alloc_None [of vmalloc q p0 p1] by (auto simp: dup_stack_def p0_def)
    moreover have "pool_ok (free_tsk q p0)"
      using ok0 so0 fun_upd_idem [of "stack_of p" q None] fin(2) unfolding pool_ok_def by (auto simp: free_tsk_def stack_of_owner [of _ p0] split: if_splits)
    ultimately show ?thesis using gone ow0(2) by (simp add: free_tsk_def)
  next
    case (Some s1)
    let ?t1 = "?t0\<lparr>tk_stack := Some s1, tk_vm_area := Some s1\<rparr>"
    note al = alloc_ok [OF ok0 ow0(1) _ _ a [unfolded Some]]
    have a1: "pool_ok p1" "owners p1 = (owners p0)(q \<mapsto> ?t1)" "s1 \<notin> dirty p1" "s1 \<notin> ran (stack_of p)" "stack_kb p1 = stack_kb p0"
      using al assms(3) so0 by (simp_all add: p0_def)
    obtain c p2 where c: "memcg_charge_kernel_stack charge q p1 = (c, p2)" by (cases "memcg_charge_kernel_stack charge q p1")
    note c2 = charge_ok [OF a1(1) c]
    have o2: "owners p2 q = Some ?t1" using a1(2) c2(2) by simp
    let ?p3 = "p2\<lparr>owners := (owners p2)(q \<mapsto> ?t1\<lparr>tk_refcount := 1\<rparr>)\<rparr>"
    have p': "(r, p') = (case c of Some e \<Rightarrow> (None, free_stack q p2) | None \<Rightarrow>
        if err \<noteq> None then (None, free_stack q ?p3)
        else (Some s1, ?p3\<lparr>stack_kb := stack_kb p0 + int (THREAD_SIZE div 1024)\<rparr>))"
      using assms(4) a Some c o2 c2(3) a1(5)
      by (cases c; cases err) (auto simp: dup_stack_def Let_def p0_def account_kernel_stack_kb)
    have ok3: "pool_ok ?p3" by (rule pool_ok_owner [OF c2(1) o2]) simp_all
    show ?thesis
    proof (cases "c = None \<and> err = None")
      case True
      have so: "stack_of ?p3 = (stack_of p)(q \<mapsto> s1)"
        using a1(2) c2(2) so0 stack_of_owner [of ?p3 p0 q] by (simp add: fun_eq_iff)
      then have "pool_inv (?p3\<lparr>stack_kb := stack_kb p0 + int (THREAD_SIZE div 1024)\<rparr>)"
        using ok3 fin kb by (simp add: pool_inv_ok pool_ok_def domIff algebra_simps)
      moreover have "owners ?p3 = (owners p)(q \<mapsto> ?t1\<lparr>tk_refcount := 1\<rparr>)" using a1(2) c2(2) by (simp add: p0_def)
      ultimately show ?thesis using p' True a1(3,4) c2(4) by auto
    next
      case False
      have "r = None \<and> pool_ok p' \<and> owners p' = (owners p0)(q := None) \<and> stack_kb p' = stack_kb p0"
        using p' False free_stack_ok [OF c2(1) o2] free_stack_ok [OF ok3, of q] a1(2,5) c2(2,3) by (auto split: option.splits if_splits)
      then show ?thesis using gone by simp
    qed
  qed
  then show "pool_inv p'" "r = None \<Longrightarrow> owners p' = owners p"
    "r = Some s \<Longrightarrow> (\<exists>t. owners p' = (owners p)(q \<mapsto> t) \<and> tk_stack t = Some s) \<and> s \<notin> ran (stack_of p) \<and> s \<notin> dirty p'" by blast+
qed

lemma release_ok:
  assumes "pool_inv p" "owners p q = Some t" "tk_stack t = Some s"
  shows "pool_inv (release_task_stack q p)"
proof (cases "tk_state t = TASK_DEAD")
  case False
  then show ?thesis using assms by (simp add: release_task_stack_def)
next
  case True
  let ?p = "p\<lparr>stack_kb := account_kernel_stack t (- 1) (stack_kb p)\<rparr>"
  have so: "stack_of ?p = stack_of p" by (simp add: stack_of_def fun_eq_iff)
  then have ok: "pool_ok ?p" using assms(1) by (simp add: pool_inv_def pool_ok_def)
  let ?t' = "t\<lparr>tk_stack := None, tk_vm_area := None\<rparr>"
  obtain p1 where p1: "free_thread_stack q ?p = Some p1" "owners p1 = owners p" "stack_kb p1 = stack_kb ?p"
    and ok': "pool_ok (p1\<lparr>owners := (owners p)(q \<mapsto> ?t')\<rparr>)"
    using free_ok [OF ok, of q t s] assms(2,3) by fastforce
  have r: "release_task_stack q p = p1\<lparr>owners := (owners p)(q \<mapsto> ?t')\<rparr>"
    using assms(2) True p1 by (simp add: release_task_stack_def set_stack_def)
  have so': "stack_of (release_task_stack q p) = (stack_of p)(q := None)"
    using stack_of_owner [of "release_task_stack q p" p q "Some ?t'"] r by simp
  have q: "q \<in> dom (stack_of p)" "finite (dom (stack_of p))" using assms by (auto simp: stack_of_def pool_inv_def areas_ok_def)
  then have "int (card (dom (stack_of p) - {q})) = int (card (dom (stack_of p))) - 1"
    using card_gt_0_iff [of "dom (stack_of p)"] by (auto simp: card_Diff_singleton)
  moreover have "stack_kb p1 = int (THREAD_SIZE div 1024) * (int (card (dom (stack_of p))) - 1)"
    using assms(1) p1(3) by (simp add: pool_inv_ok account_kernel_stack_kb algebra_simps)
  ultimately show ?thesis using ok' so' unfolding r pool_inv_ok by simp
qed

lemma pool_inv_owner:
  "pool_inv p \<Longrightarrow> owners p q = Some t \<Longrightarrow> tk_stack t' = tk_stack t \<Longrightarrow> tk_vm_area t' = tk_vm_area t
   \<Longrightarrow> pool_inv (p\<lparr>owners := (owners p)(q \<mapsto> t')\<rparr>)"
  using pool_ok_owner [of p q t t'] by (simp add: pool_inv_ok)

lemma offline_ok:
  assumes "pool_inv p"
  shows "pool_inv (free_vm_stack_cache p)"
proof -
  have "areas (map (\<lambda>_. None) cs) = []" for cs :: "area option list" by (induction cs) auto
  moreover have "stack_of (free_vm_stack_cache p) = stack_of p" by (simp add: free_vm_stack_cache_def stack_of_def fun_eq_iff)
  ultimately show ?thesis using assms
    by (auto simp: pool_inv_def areas_ok_def free_vm_stack_cache_def set_areas)
qed

text \<open>A task whose count is positive has its stack: it is given back with the last reference.\<close>

definition counted :: "stack_pool \<Rightarrow> bool" where
  "counted p \<longleftrightarrow> (\<forall>q t. owners p q = Some t \<and> tk_refcount t > 0 \<longrightarrow> tk_stack t \<noteq> None)"

lemma stack_step_inv: "stack_step l p p' \<Longrightarrow> pool_inv p \<and> counted p \<Longrightarrow> pool_inv p' \<and> counted p'"
proof (induction rule: stack_step.induct)
  case (stack_new p q vmalloc charge err r p')
  note d = dup_stack_ok [OF conjunct1 [OF stack_new(4)] stack_new(1-3)]
  have "counted p'"
  proof (cases r)
    case None
    then show ?thesis using d(2) conjunct2 [OF stack_new(4)] by (simp add: counted_def)
  next
    case (Some s)
    then show ?thesis using d(3) stack_new(4) by (auto simp: counted_def split: if_splits)
  qed
  with d(1) show ?case by simp
next
  case (stack_run p q t s)
  then show ?case by (auto simp: pool_inv_def counted_def)
next
  case (stack_die p q t)
  then show ?case using pool_inv_owner [of p q t "t\<lparr>tk_state := TASK_DEAD\<rparr>"] by (auto simp: counted_def)
next
  case (stack_pin p q t)
  then show ?case using pool_inv_owner [of p q t "t\<lparr>tk_refcount := tk_refcount t + 1\<rparr>"] by (auto simp: counted_def)
next
  case (stack_put p q t)
  let ?t = "t\<lparr>tk_refcount := tk_refcount t - 1\<rparr>"
  let ?p = "p\<lparr>owners := (owners p)(q \<mapsto> ?t)\<rparr>"
  obtain s where s: "tk_stack t = Some s" using stack_put by (auto simp: counted_def)
  have i: "pool_inv ?p" using pool_inv_owner [of p q t ?t] stack_put by simp
  have "counted ?p" using stack_put s by (auto simp: counted_def)
  moreover have "counted (release_task_stack q ?p)" if "tk_refcount t = 1"
    using that stack_put(3) by (auto simp: release_task_stack_def free_thread_stack_def set_stack_def counted_def Let_def split: option.splits)
  ultimately show ?case using i release_ok [OF i, of q ?t s] s stack_put(1) by (auto simp: put_task_stack_def Let_def)
next
  case (stack_offline p)
  then show ?case using offline_ok [of p] by (auto simp: counted_def free_vm_stack_cache_def)
qed

interpretation stacks: labelled stack_step "\<lambda>p. pool_inv p \<and> counted p" "\<lambda>_ _. True"
  by unfold_locales (use stack_step_inv in blast)

subsection \<open>Properties\<close>

definition empty_pool :: stack_pool where
  "empty_pool = \<lparr>cached_stacks = [None, None], mapped = {}, dirty = {}, charged = {}, owners = Map.empty, stack_kb = 0\<rparr>"

lemma empty_pool_inv: "pool_inv empty_pool \<and> counted empty_pool"
  by (simp add: pool_inv_def counted_def areas_ok_def empty_pool_def stack_of_def NR_CACHED_STACKS_def dom_def ran_def inj_on_def)


lemmas pool_eval = dup_stack_def alloc_thread_stack_node_def set_stack_def memcg_charge_kernel_stack_def THREAD_SIZE_def PAGE_SIZE_def
  account_kernel_stack_def free_thread_stack_def uncharge_def empty_pool_def Let_def


end
