(* ===== verification/Proc_Number.thy ===== *)
theory Proc_Number
  imports Fork Proc_Hide "HOL-Library.Signed_Division"
begin

unbundle bit_operations_syntax

section \<open>The files of \<^verbatim>\<open>/proc/<pid>\<close> that hold a number or a name\<close>

text \<open>
  \<^verbatim>\<open>fs/proc/base.c\<close>: \<^verbatim>\<open>oom_adj\<close> and \<^verbatim>\<open>oom_score_adj\<close> with \<^verbatim>\<open>__set_oom_adj\<close>, \<^verbatim>\<open>make-it-fail\<close>, \<^verbatim>\<open>fail-nth\<close>,
  \<^verbatim>\<open>timerslack_ns\<close>, \<^verbatim>\<open>coredump_filter\<close> and \<^verbatim>\<open>comm\<close>.  A read gives the text handed to
  \<^verbatim>\<open>simple_read_from_buffer\<close> or the sequence file; a write takes the bytes of the user buffer and their
  count.  The record \<open>num_env\<close> has the answers of the rest of the kernel for one call.

  The locale \<open>proc_file\<close> is what a file of this kind promises: a value written is read back, and a failed write
  changes nothing.  It is interpreted on four of the files.
\<close>

subsection \<open>Environment\<close>

text \<open>\<open>ne_parse_int\<close> is \<^verbatim>\<open>kstrtoint(strstrip(buffer), 0, &v)\<close> on a NUL-terminated buffer, \<open>ne_uint\<close> and \<open>ne_ull\<close> are
  \<^verbatim>\<open>kstrtouint_from_user\<close> and \<^verbatim>\<open>kstrtoull_from_user\<close> on the bytes given.  \<open>ne_find_mm\<close> is \<^verbatim>\<open>find_lock_task_mm\<close>,
  \<open>ne_shares_mm\<close> is \<^verbatim>\<open>process_shares_mm\<close>: both look at the tasks only.\<close>

record num_env =
  ne_task :: "tptr option"
  ne_current :: tptr
  ne_fault :: bool
  ne_parse_int :: "char list \<Rightarrow> int result"
  ne_uint :: "string \<Rightarrow> u32 result"
  ne_ull :: "string \<Rightarrow> u64 result"
  ne_cap_sys_resource :: bool
  ne_noaudit_sys_resource :: bool
  ne_cap_sys_nice :: bool
  ne_setscheduler :: "errno option"
  ne_getscheduler :: "errno option"
  ne_find_mm :: "(tptr \<rightharpoonup> task_struct) \<Rightarrow> tptr \<Rightarrow> tptr option"
  ne_shares_mm :: "(tptr \<rightharpoonup> task_struct) \<Rightarrow> tptr \<Rightarrow> mmptr \<Rightarrow> bool"
  ne_set_task_comm :: "char list \<Rightarrow> char list \<Rightarrow> char list"

definition PROC_NUMBUF :: nat where "PROC_NUMBUF = 13"

definition OOM_DISABLE :: int where "OOM_DISABLE = - 17"
definition OOM_ADJUST_MIN :: int where "OOM_ADJUST_MIN = - 16"
definition OOM_ADJUST_MAX :: int where "OOM_ADJUST_MAX = 15"
definition OOM_SCORE_ADJ_MIN :: int where "OOM_SCORE_ADJ_MIN = - 1000"
definition OOM_SCORE_ADJ_MAX :: int where "OOM_SCORE_ADJ_MAX = 1000"

lemmas oom_defs = OOM_DISABLE_def OOM_ADJUST_MIN_def OOM_ADJUST_MAX_def OOM_SCORE_ADJ_MIN_def OOM_SCORE_ADJ_MAX_def

text \<open>The start of a write handler with a buffer on the stack: the number of bytes accepted and the number
  they spell.\<close>

definition int_arg :: "num_env \<Rightarrow> char list \<Rightarrow> nat \<Rightarrow> nat \<times> int result" where
  "int_arg env buf count =
     (let count = (if count > PROC_NUMBUF - 1 then PROC_NUMBUF - 1 else count);
          buffer = take count buf @ replicate (PROC_NUMBUF - count) NUL
      in (count, if ne_fault env then Inl EFAULT else ne_parse_int env buffer))"

text \<open>The task a file stands for, with its signal structure.\<close>

definition file_task :: "num_env \<Rightarrow> kernel \<Rightarrow> (tptr \<times> task_struct \<times> signal_struct) option" where
  "file_task env k =
     (case ne_task env of None \<Rightarrow> None
      | Some p \<Rightarrow> (case current_of k p of None \<Rightarrow> None | Some (t, sg) \<Rightarrow> Some (p, t, sg)))"

subsection \<open>oom_adj and oom_score_adj\<close>

definition oom_adj_of_score :: "int \<Rightarrow> int" where
  "oom_adj_of_score score =
     (let oom_adj = (if score = OOM_SCORE_ADJ_MAX then OOM_ADJUST_MAX else (score * (- OOM_DISABLE)) sdiv OOM_SCORE_ADJ_MAX)
      in if oom_adj > OOM_ADJUST_MAX then OOM_ADJUST_MAX else oom_adj)"

definition oom_adj_read :: "num_env \<Rightarrow> kernel \<Rightarrow> string result \<times> kevent list" where
  "oom_adj_read env k =
     (case file_task env k of
        None \<Rightarrow> (Inl ESRCH, [])
      | Some (p, t, sg) \<Rightarrow>
          (Inr (snprintf_trunc PROC_NUMBUF (dec_int (oom_adj_of_score (sg_oom_score_adj sg)) @ [NL])),
           [Get_task p, Put_task p]))"

definition to_short :: "int \<Rightarrow> int" where
  "to_short i = signed_take_bit 15 i"

text \<open>The mm whose other users follow the change; \<open>None\<close> is NULL.\<close>

definition oom_shared_mm :: "num_env \<Rightarrow> kernel \<Rightarrow> tptr \<Rightarrow> task_struct \<Rightarrow> mmptr option" where
  "oom_shared_mm env k task t =
     (if t_vfork_done t then None
      else case ne_find_mm env (tasks k) task of
        None \<Rightarrow> None
      | Some p \<Rightarrow>
          (case tasks k p of
             None \<Rightarrow> None
           | Some tp \<Rightarrow>
               (case t_mm tp of
                  None \<Rightarrow> None
                | Some m \<Rightarrow>
                    (case mms k m of
                       None \<Rightarrow> None
                     | Some mm \<Rightarrow> if bit (mm_flags mm) MMF_MULTIPROCESS then Some m else None))))"

definition put_oom :: "num_env \<Rightarrow> int \<Rightarrow> bool \<Rightarrow> sigptr \<Rightarrow> kernel \<Rightarrow> kernel" where
  "put_oom env oom_adj legacy s k =
     update_signal s (\<lambda>sg. sg\<lparr>sg_oom_score_adj := oom_adj,
       sg_oom_score_adj_min := (if \<not> legacy \<and> ne_noaudit_sys_resource env then to_short oom_adj else sg_oom_score_adj_min sg)\<rparr>) k"

text \<open>The test of the loop: \<open>tsig\<close> is \<^verbatim>\<open>task->signal\<close>, which \<^verbatim>\<open>same_thread_group\<close> compares.\<close>

definition follows_oom :: "num_env \<Rightarrow> (tptr \<rightharpoonup> task_struct) \<Rightarrow> sigptr \<Rightarrow> mmptr \<Rightarrow> tptr \<Rightarrow> bool" where
  "follows_oom env ts tsig m p =
     (case ts p of
        None \<Rightarrow> False
      | Some t \<Rightarrow>
          if t_signal t = tsig then False
          else if t_flags t AND PF_KTHREAD \<noteq> 0 \<or> is_global_init t then False
          else \<not> t_vfork_done t \<and> ne_shares_mm env ts p m)"

fun oom_walk :: "num_env \<Rightarrow> int \<Rightarrow> bool \<Rightarrow> sigptr \<Rightarrow> mmptr \<Rightarrow> tptr list \<Rightarrow> kernel \<Rightarrow> kernel" where
  "oom_walk env oom_adj legacy tsig m [] k = k"
| "oom_walk env oom_adj legacy tsig m (p # ps) k =
     (if follows_oom env (tasks k) tsig m p then
        (case tasks k p of
           None \<Rightarrow> oom_walk env oom_adj legacy tsig m ps k
         | Some t \<Rightarrow> oom_walk env oom_adj legacy tsig m ps (put_oom env oom_adj legacy (t_signal t) k))
      else oom_walk env oom_adj legacy tsig m ps k)"

definition set_oom_adj :: "num_env \<Rightarrow> int \<Rightarrow> bool \<Rightarrow> kernel \<Rightarrow> errno option \<times> kernel \<times> kevent list" where
  "set_oom_adj env oom_adj legacy k =
     (case file_task env k of
        None \<Rightarrow> (Some ESRCH, k, [])
      | Some (task, t, sg) \<Rightarrow>
          if legacy \<and> oom_adj < sg_oom_score_adj sg \<and> \<not> ne_cap_sys_resource env
          then (Some EACCES, k, [Get_task task, Put_task task])
          else if \<not> legacy \<and> to_short oom_adj < sg_oom_score_adj_min sg \<and> \<not> ne_cap_sys_resource env
          then (Some EACCES, k, [Get_task task, Put_task task])
          else
            let mm = oom_shared_mm env k task t;
                k1 = put_oom env oom_adj legacy (t_signal t) k;
                k2 = (case mm of None \<Rightarrow> k1 | Some m \<Rightarrow> oom_walk env oom_adj legacy (t_signal t) m (process_list k1) k1)
            in (None, k2, [Get_task task]
                 @ (if legacy then [Printk ''/proc/%d/oom_adj is deprecated'' [KInt (task_pid_nr t)]] else [])
                 @ [Put_task task]))"

definition oom_adj_write :: "num_env \<Rightarrow> char list \<Rightarrow> nat \<Rightarrow> kernel \<Rightarrow> nat result \<times> kernel \<times> kevent list" where
  "oom_adj_write env buf count k =
     (case int_arg env buf count of
        (count, Inl e) \<Rightarrow> (Inl e, k, [])
      | (count, Inr oom_adj) \<Rightarrow>
          if (oom_adj < OOM_ADJUST_MIN \<or> oom_adj > OOM_ADJUST_MAX) \<and> oom_adj \<noteq> OOM_DISABLE then (Inl EINVAL, k, [])
          else
            let score = (if oom_adj = OOM_ADJUST_MAX then OOM_SCORE_ADJ_MAX
                         else (oom_adj * OOM_SCORE_ADJ_MAX) sdiv (- OOM_DISABLE))
            in case set_oom_adj env score True k of
                 (Some e, k', ev) \<Rightarrow> (Inl e, k', ev)
               | (None, k', ev) \<Rightarrow> (Inr count, k', ev))"

definition oom_score_adj_read :: "num_env \<Rightarrow> kernel \<Rightarrow> string result \<times> kevent list" where
  "oom_score_adj_read env k =
     (case file_task env k of
        None \<Rightarrow> (Inl ESRCH, [])
      | Some (p, t, sg) \<Rightarrow>
          (Inr (snprintf_trunc PROC_NUMBUF (dec_int (to_short (sg_oom_score_adj sg)) @ [NL])), [Get_task p, Put_task p]))"

definition oom_score_adj_write :: "num_env \<Rightarrow> char list \<Rightarrow> nat \<Rightarrow> kernel \<Rightarrow> nat result \<times> kernel \<times> kevent list" where
  "oom_score_adj_write env buf count k =
     (case int_arg env buf count of
        (count, Inl e) \<Rightarrow> (Inl e, k, [])
      | (count, Inr oom_score_adj) \<Rightarrow>
          if oom_score_adj < OOM_SCORE_ADJ_MIN \<or> oom_score_adj > OOM_SCORE_ADJ_MAX then (Inl EINVAL, k, [])
          else case set_oom_adj env oom_score_adj False k of
            (Some e, k', ev) \<Rightarrow> (Inl e, k', ev)
          | (None, k', ev) \<Rightarrow> (Inr count, k', ev))"

subsection \<open>Fault injection\<close>

definition proc_fault_inject_read :: "num_env \<Rightarrow> kernel \<Rightarrow> string result \<times> kevent list" where
  "proc_fault_inject_read env k =
     (case file_task env k of
        None \<Rightarrow> (Inl ESRCH, [])
      | Some (p, t, sg) \<Rightarrow> (Inr (snprintf_trunc PROC_NUMBUF (dec_int (t_make_it_fail t) @ [NL])), [Get_task p, Put_task p]))"

definition proc_fault_inject_write :: "num_env \<Rightarrow> char list \<Rightarrow> nat \<Rightarrow> kernel \<Rightarrow> nat result \<times> kernel \<times> kevent list" where
  "proc_fault_inject_write env buf count k =
     (if \<not> ne_cap_sys_resource env then (Inl EPERM, k, [])
      else case int_arg env buf count of
        (count, Inl e) \<Rightarrow> (Inl e, k, [])
      | (count, Inr make_it_fail) \<Rightarrow>
          if make_it_fail < 0 \<or> make_it_fail > 1 then (Inl EINVAL, k, [])
          else case file_task env k of
            None \<Rightarrow> (Inl ESRCH, k, [])
          | Some (p, t, sg) \<Rightarrow>
              (Inr count, update_task p (\<lambda>t. t\<lparr>t_make_it_fail := make_it_fail\<rparr>) k, [Get_task p, Put_task p]))"

definition proc_fail_nth_write :: "num_env \<Rightarrow> char list \<Rightarrow> nat \<Rightarrow> kernel \<Rightarrow> nat result \<times> kernel \<times> kevent list" where
  "proc_fail_nth_write env buf count k =
     (case ne_uint env (take count buf) of
        Inl e \<Rightarrow> (Inl e, k, [])
      | Inr n \<Rightarrow>
          (case file_task env k of
             None \<Rightarrow> (Inl ESRCH, k, [])
           | Some (p, t, sg) \<Rightarrow> (Inr count, update_task p (\<lambda>t. t\<lparr>t_fail_nth := n\<rparr>) k, [Get_task p, Put_task p])))"

definition proc_fail_nth_read :: "num_env \<Rightarrow> kernel \<Rightarrow> string result \<times> kevent list" where
  "proc_fail_nth_read env k =
     (case file_task env k of
        None \<Rightarrow> (Inl ESRCH, [])
      | Some (p, t, sg) \<Rightarrow>
          (Inr (snprintf_trunc PROC_NUMBUF (dec_nat (unat (t_fail_nth t)) @ [NL])), [Get_task p, Put_task p]))"

subsection \<open>timerslack_ns\<close>

text \<open>The checks both handlers make on another task.\<close>

definition slack_denied :: "num_env \<Rightarrow> tptr \<Rightarrow> errno option \<Rightarrow> errno option" where
  "slack_denied env p hook =
     (if p \<noteq> ne_current env then (if \<not> ne_cap_sys_nice env then Some EPERM else hook) else None)"

definition timerslack_ns_write :: "num_env \<Rightarrow> char list \<Rightarrow> nat \<Rightarrow> kernel \<Rightarrow> nat result \<times> kernel \<times> kevent list" where
  "timerslack_ns_write env buf count k =
     (case ne_ull env (take count buf) of
        Inl e \<Rightarrow> (Inl e, k, [])
      | Inr slack_ns \<Rightarrow>
          (case file_task env k of
             None \<Rightarrow> (Inl ESRCH, k, [])
           | Some (p, t, sg) \<Rightarrow>
               (case slack_denied env p (ne_setscheduler env) of
                  Some e \<Rightarrow> (Inl e, k, [Get_task p, Put_task p])
                | None \<Rightarrow>
                    (Inr count,
                     update_task p (\<lambda>t. t\<lparr>t_timer_slack_ns := (if slack_ns = 0 then t_default_timer_slack_ns t else slack_ns)\<rparr>) k,
                     [Get_task p, Put_task p]))))"

definition timerslack_ns_show :: "num_env \<Rightarrow> kernel \<Rightarrow> string result \<times> kevent list" where
  "timerslack_ns_show env k =
     (case file_task env k of
        None \<Rightarrow> (Inl ESRCH, [])
      | Some (p, t, sg) \<Rightarrow>
          (case slack_denied env p (ne_getscheduler env) of
             Some e \<Rightarrow> (Inl e, [Get_task p, Put_task p])
           | None \<Rightarrow> (Inr (dec_nat (unat (t_timer_slack_ns t)) @ [NL]), [Get_task p, Put_task p])))"

subsection \<open>coredump_filter\<close>

definition MMF_DUMP_FILTER_SHIFT :: nat where "MMF_DUMP_FILTER_SHIFT = 2"
definition MMF_DUMP_FILTER_BITS :: nat where "MMF_DUMP_FILTER_BITS = 9"

definition MMF_DUMP_FILTER_MASK :: u64 where
  "MMF_DUMP_FILTER_MASK = push_bit MMF_DUMP_FILTER_SHIFT (mask MMF_DUMP_FILTER_BITS)"

definition get_task_mm :: "kernel \<Rightarrow> task_struct \<Rightarrow> (mmptr \<times> mm_struct) option" where
  "get_task_mm k t =
     (if t_flags t AND PF_KTHREAD \<noteq> 0 then None
      else case t_mm t of None \<Rightarrow> None
        | Some m \<Rightarrow> (case mms k m of None \<Rightarrow> None | Some mm \<Rightarrow> Some (m, mm)))"

definition hex8 :: "nat \<Rightarrow> string" where
  "hex8 n = replicate (8 - length (hex_nat n)) (CHR ''0'') @ hex_nat n"

definition proc_coredump_filter_read :: "num_env \<Rightarrow> kernel \<Rightarrow> string result \<times> kevent list" where
  "proc_coredump_filter_read env k =
     (case file_task env k of
        None \<Rightarrow> (Inl ESRCH, [])
      | Some (p, t, sg) \<Rightarrow>
          (case get_task_mm k t of
             None \<Rightarrow> (Inr [], [Get_task p, Put_task p])
           | Some (m, mm) \<Rightarrow>
               (Inr (snprintf_trunc PROC_NUMBUF
                  (hex8 (unat (drop_bit MMF_DUMP_FILTER_SHIFT (mm_flags mm AND MMF_DUMP_FILTER_MASK))) @ [NL])),
                [Get_task p, Put_task p])))"

text \<open>The loop over the bits, from bit \<open>i\<close> on for \<open>n\<close> more turns.\<close>

fun filter_loop :: "nat \<Rightarrow> nat \<Rightarrow> u64 \<Rightarrow> u32 \<Rightarrow> u64 \<Rightarrow> u64" where
  "filter_loop 0 i msk val fl = fl"
| "filter_loop (Suc n) i msk val fl =
     filter_loop n (Suc i) (push_bit 1 msk) val
       (if (ucast val :: u64) AND msk \<noteq> 0 then set_bit (i + MMF_DUMP_FILTER_SHIFT) fl
        else unset_bit (i + MMF_DUMP_FILTER_SHIFT) fl)"

definition proc_coredump_filter_write :: "num_env \<Rightarrow> char list \<Rightarrow> nat \<Rightarrow> kernel \<Rightarrow> nat result \<times> kernel \<times> kevent list" where
  "proc_coredump_filter_write env buf count k =
     (case ne_uint env (take count buf) of
        Inl e \<Rightarrow> (Inl e, k, [])
      | Inr val \<Rightarrow>
          (case file_task env k of
             None \<Rightarrow> (Inl ESRCH, k, [])
           | Some (p, t, sg) \<Rightarrow>
               (case get_task_mm k t of
                  None \<Rightarrow> (Inl ESRCH, k, [Get_task p, Put_task p])
                | Some (m, mm) \<Rightarrow>
                    (Inr count, update_mm m (\<lambda>mm. mm\<lparr>mm_flags := filter_loop MMF_DUMP_FILTER_BITS 0 1 val (mm_flags mm)\<rparr>) k,
                     [Get_task p, Put_task p]))))"

subsection \<open>comm\<close>

definition comm_write :: "num_env \<Rightarrow> char list \<Rightarrow> nat \<Rightarrow> kernel \<Rightarrow> nat result \<times> kernel \<times> kevent list" where
  "comm_write env buf count k =
     (let maxlen = TASK_COMM_LEN - 1;
          n = (if count > maxlen then maxlen else count);
          buffer = take n buf @ replicate (TASK_COMM_LEN - n) NUL
      in if ne_fault env then (Inl EFAULT, k, [])
         else case file_task env k of
           None \<Rightarrow> (Inl ESRCH, k, [])
         | Some (p, t, sg) \<Rightarrow>
             (case tasks k (ne_current env) of
                None \<Rightarrow> (Inl ESRCH, k, [])
              | Some cur \<Rightarrow>
                  if t_signal cur = t_signal t
                  then (Inr count, update_task p (\<lambda>t. t\<lparr>t_comm := ne_set_task_comm env (t_comm t) buffer\<rparr>) k,
                        [Get_task p, Put_task p])
                  else (Inl EINVAL, k, [Get_task p, Put_task p])))"

text \<open>\<open>escape\<close> is what \<^verbatim>\<open>proc_task_name(m, p, false)\<close> prints.\<close>

definition comm_show :: "(string \<Rightarrow> string) \<Rightarrow> num_env \<Rightarrow> kernel \<Rightarrow> string result \<times> kevent list" where
  "comm_show task_name env k =
     (case file_task env k of
        None \<Rightarrow> (Inl ESRCH, [])
      | Some (p, t, sg) \<Rightarrow> (Inr (task_name (cstr (t_comm t)) @ [NL]), [Get_task p, Put_task p]))"

subsection \<open>Who follows a change of the score\<close>

definition oom_of :: "kernel \<Rightarrow> sigptr \<Rightarrow> int option" where
  "oom_of k s = map_option sg_oom_score_adj (signals k s)"

lemma put_oom_simps [simp]:
  "tasks (put_oom env v legacy s k) = tasks k" "process_list (put_oom env v legacy s k) = process_list k"
  "hidden_flag (put_oom env v legacy s k) = hidden_flag k" "mms (put_oom env v legacy s k) = mms k"
  "oom_of (put_oom env v legacy s k) r = (if r = s then map_option (\<lambda>_. v) (oom_of k s) else oom_of k r)"
  by (simp_all add: put_oom_def oom_of_def option.map_comp o_def)

lemma oom_walk_frame [simp]:
  "tasks (oom_walk env v legacy tsig m ps k) = tasks k" "process_list (oom_walk env v legacy tsig m ps k) = process_list k"
  "hidden_flag (oom_walk env v legacy tsig m ps k) = hidden_flag k" "mms (oom_walk env v legacy tsig m ps k) = mms k"
  by (induction ps arbitrary: k) (auto split: option.splits)

lemma oom_walk_exact:
  "oom_of (oom_walk env v legacy tsig m ps k) s =
     (if \<exists>p \<in> set ps. follows_oom env (tasks k) tsig m p \<and> (\<exists>t. tasks k p = Some t \<and> t_signal t = s)
      then map_option (\<lambda>_. v) (oom_of k s) else oom_of k s)"
proof (induction ps arbitrary: k)
  case (Cons p ps)
  then show ?case by (auto simp: option.map_comp o_def split: option.splits)
qed simp

text \<open>The signal structures that get the new score.\<close>

definition oom_targets :: "num_env \<Rightarrow> kernel \<Rightarrow> tptr \<Rightarrow> task_struct \<Rightarrow> sigptr set" where
  "oom_targets env k task t = insert (t_signal t)
     {s. \<exists>m p u. oom_shared_mm env k task t = Some m \<and> p \<in> set (process_list k)
        \<and> follows_oom env (tasks k) (t_signal t) m p \<and> tasks k p = Some u \<and> t_signal u = s}"

lemma set_oom_adj_effect:
  assumes "set_oom_adj env v legacy k = (None, k', ev)"
  shows "\<exists>task t sg. file_task env k = Some (task, t, sg) \<and> tasks k' = tasks k \<and> process_list k' = process_list k
    \<and> hidden_flag k' = hidden_flag k \<and> mms k' = mms k
    \<and> (\<forall>s. oom_of k' s = (if s \<in> oom_targets env k task t then map_option (\<lambda>_. v) (oom_of k s) else oom_of k s))"
proof (cases "file_task env k")
  case None
  then show ?thesis using assms by (simp add: set_oom_adj_def)
next
  case (Some c)
  obtain task t sg where c: "c = (task, t, sg)" by (cases c)
  have k': "k' = (case oom_shared_mm env k task t of None \<Rightarrow> put_oom env v legacy (t_signal t) k
      | Some m \<Rightarrow> oom_walk env v legacy (t_signal t) m (process_list k) (put_oom env v legacy (t_signal t) k))"
    using assms Some c by (auto simp: set_oom_adj_def Let_def split: if_splits option.splits)
  have "oom_of k' s = (if s \<in> oom_targets env k task t then map_option (\<lambda>_. v) (oom_of k s) else oom_of k s)" for s
  proof (cases "oom_shared_mm env k task t")
    case None
    then show ?thesis by (simp add: k' oom_targets_def)
  next
    case (Some m)
    then show ?thesis by (auto simp: k' oom_targets_def oom_walk_exact option.map_comp o_def)
  qed
  moreover have "tasks k' = tasks k" "process_list k' = process_list k" "hidden_flag k' = hidden_flag k" "mms k' = mms k"
    by (simp_all add: k' split: option.splits)
  ultimately show ?thesis using Some c by blast
qed

definition oom_in_range :: "kernel \<Rightarrow> bool" where
  "oom_in_range k \<longleftrightarrow> (\<forall>s v. oom_of k s = Some v \<longrightarrow> OOM_SCORE_ADJ_MIN \<le> v \<and> v \<le> OOM_SCORE_ADJ_MAX)"

lemma set_oom_adj_range:
  assumes "set_oom_adj env v legacy k = (r, k', ev)" "oom_in_range k" "OOM_SCORE_ADJ_MIN \<le> v" "v \<le> OOM_SCORE_ADJ_MAX"
  shows "oom_in_range k'"
proof (cases r)
  case None
  then obtain S where "\<forall>s. oom_of k' s = (if s \<in> S then map_option (\<lambda>_. v) (oom_of k s) else oom_of k s)"
    using set_oom_adj_effect [of env v legacy k k' ev] assms(1) by blast
  then have "oom_of k' s = Some w \<Longrightarrow> w = v \<or> oom_of k s = Some w" for s w by (auto split: if_splits)
  then show ?thesis using assms(2-4) unfolding oom_in_range_def by blast
next
  case (Some e)
  then show ?thesis using assms by (auto simp: set_oom_adj_def Let_def split: option.splits if_splits)
qed

lemma sdiv_17_bounds: "OOM_ADJUST_MIN \<le> v \<or> v = OOM_DISABLE \<Longrightarrow> v \<le> OOM_ADJUST_MAX \<Longrightarrow>
  OOM_SCORE_ADJ_MIN \<le> (v * OOM_SCORE_ADJ_MAX) sdiv (- OOM_DISABLE) \<and> (v * OOM_SCORE_ADJ_MAX) sdiv (- OOM_DISABLE) \<le> OOM_SCORE_ADJ_MAX"
  by (auto simp: oom_defs signed_divide_int_def sgn_if)

lemma file_task_Some: "file_task env k = Some (p, t, sg) \<longleftrightarrow> ne_task env = Some p \<and> tasks k p = Some t \<and> signals k (t_signal t) = Some sg"
  by (auto simp: file_task_def current_of_def split: option.splits)

lemma file_task_update_task:
  "file_task env k = Some (p, t, sg) \<Longrightarrow> t_signal (f t) = t_signal t \<Longrightarrow> file_task env (update_task p f k) = Some (p, f t, sg)"
  by (simp add: file_task_Some)

subsection \<open>A written value is read back\<close>

locale proc_file =
  fixes rd :: "'s \<Rightarrow> string result"
    and wr :: "string \<Rightarrow> 's \<Rightarrow> nat result \<times> 's"
    and text_of :: "'v \<Rightarrow> string"
    and allowed :: "'s \<Rightarrow> 'v \<Rightarrow> bool"
  assumes written: "allowed s v \<Longrightarrow> fst (wr (text_of v) s) = Inr (length (text_of v)) \<and> rd (snd (wr (text_of v) s)) = Inr (text_of v)"
    and stays_allowed: "allowed s v \<Longrightarrow> allowed s w \<Longrightarrow> allowed (snd (wr (text_of v) s)) w"
    and refused: "is_err (fst (wr b s)) \<Longrightarrow> snd (wr b s) = s"
begin

text \<open>After any sequence of writes of allowed values the last one is read.\<close>

lemma last_write_read:
  "vs \<noteq> [] \<Longrightarrow> \<forall>v \<in> set vs. allowed s v \<Longrightarrow> rd (fold (\<lambda>v s. snd (wr (text_of v) s)) vs s) = Inr (text_of (last vs))"
proof (induction vs arbitrary: s)
  case (Cons v vs)
  show ?case
  proof (cases "vs = []")
    case True
    then show ?thesis using Cons.prems written by simp
  next
    case False
    have "\<forall>w \<in> set vs. allowed (snd (wr (text_of v) s)) w" using Cons.prems stays_allowed by simp
    then show ?thesis using Cons.IH [OF False] False by simp
  qed
qed simp

end

text \<open>What the parsers are documented to do with a decimal number and a newline.\<close>

definition parsers_doc :: "num_env \<Rightarrow> bool" where
  "parsers_doc env \<longleftrightarrow> \<not> ne_fault env
     \<and> (\<forall>i r. - (2 ^ 31) \<le> i \<and> i < 2 ^ 31 \<longrightarrow> ne_parse_int env (dec_int i @ NL # NUL # r) = Inr i)
     \<and> (\<forall>n. ne_uint env (dec_nat (unat n) @ [NL]) = Inr n)
     \<and> (\<forall>n. ne_ull env (dec_nat (unat n) @ [NL]) = Inr n)"

lemma length_dec_int: "- (10 ^ k) < i \<Longrightarrow> i < 10 ^ k \<Longrightarrow> 0 < k \<Longrightarrow> length (dec_int i) \<le> Suc k"
  using length_dec_nat [of "nat i" k] length_dec_nat [of "nat (- i)" k]
  by (auto simp: dec_int_def nat_less_iff le_SucI)

lemma int_arg_dec:
  assumes "parsers_doc env" "- (10 ^ 9) < i" "i < 10 ^ 9"
  shows "int_arg env (dec_int i @ [NL]) (length (dec_int i @ [NL])) = (length (dec_int i @ [NL]), Inr i)"
proof -
  have len: "length (dec_int i @ [NL]) \<le> 11" using length_dec_int [of 9 i] assms(2,3) by simp
  have "replicate (PROC_NUMBUF - length (dec_int i @ [NL])) NUL = NUL # replicate (PROC_NUMBUF - length (dec_int i @ [NL]) - 1) NUL"
    using len by (simp add: PROC_NUMBUF_def flip: replicate_Suc)
  moreover have "- (2 ^ 31) \<le> i \<and> i < 2 ^ 31" using assms(2,3) by simp
  ultimately show ?thesis using len assms(1) by (simp add: int_arg_def parsers_doc_def PROC_NUMBUF_def Let_def)
qed

lemma snprintf_dec_int: "- (10 ^ 9) < i \<Longrightarrow> i < 10 ^ 9 \<Longrightarrow> snprintf_trunc PROC_NUMBUF (dec_int i @ [NL]) = dec_int i @ [NL]"
  using length_dec_int [of 9 i] by (simp add: snprintf_trunc_def PROC_NUMBUF_def)

lemma snprintf_fail_nth: "snprintf_trunc PROC_NUMBUF (dec_nat (unat (n :: u32)) @ [NL]) = dec_nat (unat n) @ [NL]"
proof -
  have "unat n < 2 ^ 32" using unsigned_less [of n] by simp
  then have "unat n < 10 ^ 10" by simp
  from length_dec_nat [OF this] show ?thesis by (simp add: snprintf_trunc_def PROC_NUMBUF_def)
qed

text \<open>Four files; the values allowed are those the handler accepts in the given state and environment.\<close>

definition num_text :: "int \<Rightarrow> string" where
  "num_text i = dec_int i @ [NL]"

definition write_all :: "(char list \<Rightarrow> nat \<Rightarrow> kernel \<Rightarrow> nat result \<times> kernel \<times> kevent list) \<Rightarrow> string \<Rightarrow> kernel \<Rightarrow> nat result \<times> kernel" where
  "write_all w b k = (case w b (length b) k of (r, k', ev) \<Rightarrow> (r, k'))"

definition fault_inject_allowed :: "num_env \<Rightarrow> kernel \<Rightarrow> int \<Rightarrow> bool" where
  "fault_inject_allowed env k i \<longleftrightarrow> parsers_doc env \<and> file_task env k \<noteq> None \<and> ne_cap_sys_resource env \<and> (i = 0 \<or> i = 1)"

interpretation fault_inject: proc_file "\<lambda>k. fst (proc_fault_inject_read env k)" "write_all (proc_fault_inject_write env)"
  num_text "fault_inject_allowed env" for env
proof
  fix k i assume a: "fault_inject_allowed env k i"
  have i: "- (10 ^ 9) < i" "i < 10 ^ 9" using a by (auto simp: fault_inject_allowed_def)
  obtain p t sg where t: "file_task env k = Some (p, t, sg)" using a by (auto simp: fault_inject_allowed_def)
  let ?k = "update_task p (\<lambda>t. t\<lparr>t_make_it_fail := i\<rparr>) k"
  have f: "file_task env ?k = Some (p, t\<lparr>t_make_it_fail := i\<rparr>, sg)" by (rule file_task_update_task [OF t]) simp
  have w: "write_all (proc_fault_inject_write env) (num_text i) k = (Inr (length (num_text i)), ?k)"
    using a t int_arg_dec [OF _ i, of env]
    by (auto simp: write_all_def proc_fault_inject_write_def num_text_def fault_inject_allowed_def)
  then show "fst (write_all (proc_fault_inject_write env) (num_text i) k) = Inr (length (num_text i))
    \<and> fst (proc_fault_inject_read env (snd (write_all (proc_fault_inject_write env) (num_text i) k))) = Inr (num_text i)"
    using f snprintf_dec_int [OF i] by (simp add: proc_fault_inject_read_def num_text_def)
  fix j assume "fault_inject_allowed env k j"
  then show "fault_inject_allowed env (snd (write_all (proc_fault_inject_write env) (num_text i) k)) j"
    using w f by (simp add: fault_inject_allowed_def)
next
  fix b k assume "is_err (fst (write_all (proc_fault_inject_write env) b k))"
  then show "snd (write_all (proc_fault_inject_write env) b k) = k"
    by (auto simp: write_all_def proc_fault_inject_write_def split: prod.splits sum.splits option.splits if_splits)
qed

definition fail_nth_text :: "u32 \<Rightarrow> string" where
  "fail_nth_text n = dec_nat (unat n) @ [NL]"

interpretation fail_nth: proc_file "\<lambda>k. fst (proc_fail_nth_read env k)" "write_all (proc_fail_nth_write env)"
  fail_nth_text "\<lambda>k n. parsers_doc env \<and> file_task env k \<noteq> None" for env
proof
  fix k :: kernel and n m :: u32
  assume a: "parsers_doc env \<and> file_task env k \<noteq> None"
  then obtain p t sg where t: "file_task env k = Some (p, t, sg)" by auto
  let ?k = "update_task p (\<lambda>t. t\<lparr>t_fail_nth := n\<rparr>) k"
  have f: "file_task env ?k = Some (p, t\<lparr>t_fail_nth := n\<rparr>, sg)" by (rule file_task_update_task [OF t]) simp
  have u: "ne_uint env (fail_nth_text n) = Inr n" using a by (simp add: parsers_doc_def fail_nth_text_def)
  show "fst (write_all (proc_fail_nth_write env) (fail_nth_text n) k) = Inr (length (fail_nth_text n))
    \<and> fst (proc_fail_nth_read env (snd (write_all (proc_fail_nth_write env) (fail_nth_text n) k))) = Inr (fail_nth_text n)"
    using u t f by (simp add: write_all_def proc_fail_nth_write_def proc_fail_nth_read_def snprintf_fail_nth fail_nth_text_def)
  show "parsers_doc env \<and> file_task env (snd (write_all (proc_fail_nth_write env) (fail_nth_text n) k)) \<noteq> None"
    using u t f a by (simp add: write_all_def proc_fail_nth_write_def)
next
  fix b k assume "is_err (fst (write_all (proc_fail_nth_write env) b k))"
  then show "snd (write_all (proc_fail_nth_write env) b k) = k"
    by (auto simp: write_all_def proc_fail_nth_write_def split: prod.splits sum.splits option.splits if_splits)
qed

definition slack_text :: "u64 \<Rightarrow> string" where
  "slack_text n = dec_nat (unat n) @ [NL]"

definition slack_allowed :: "num_env \<Rightarrow> kernel \<Rightarrow> u64 \<Rightarrow> bool" where
  "slack_allowed env k n \<longleftrightarrow> parsers_doc env \<and> file_task env k \<noteq> None \<and> n \<noteq> 0
     \<and> (ne_task env = Some (ne_current env)
        \<or> ne_cap_sys_nice env \<and> ne_setscheduler env = None \<and> ne_getscheduler env = None)"

interpretation timerslack: proc_file "\<lambda>k. fst (timerslack_ns_show env k)" "write_all (timerslack_ns_write env)"
  slack_text "slack_allowed env" for env
proof
  fix k n assume a: "slack_allowed env k n"
  then obtain p t sg where t: "file_task env k = Some (p, t, sg)" by (auto simp: slack_allowed_def)
  let ?k = "update_task p (\<lambda>t. t\<lparr>t_timer_slack_ns := (if n = 0 then t_default_timer_slack_ns t else n)\<rparr>) k"
  have f: "file_task env ?k = Some (p, t\<lparr>t_timer_slack_ns := (if n = 0 then t_default_timer_slack_ns t else n)\<rparr>, sg)"
    by (rule file_task_update_task [OF t]) simp
  have d: "slack_denied env p (ne_setscheduler env) = None" "slack_denied env p (ne_getscheduler env) = None"
    using a t by (auto simp: slack_allowed_def slack_denied_def file_task_Some)
  have w: "write_all (timerslack_ns_write env) (slack_text n) k = (Inr (length (slack_text n)), ?k)"
    using a t d by (simp add: write_all_def timerslack_ns_write_def slack_allowed_def parsers_doc_def slack_text_def)
  then show "fst (write_all (timerslack_ns_write env) (slack_text n) k) = Inr (length (slack_text n))
    \<and> fst (timerslack_ns_show env (snd (write_all (timerslack_ns_write env) (slack_text n) k))) = Inr (slack_text n)"
    using f d a by (simp add: timerslack_ns_show_def slack_text_def slack_allowed_def)
  fix m assume "slack_allowed env k m"
  then show "slack_allowed env (snd (write_all (timerslack_ns_write env) (slack_text n) k)) m"
    using w f by (simp add: slack_allowed_def)
next
  fix b k assume "is_err (fst (write_all (timerslack_ns_write env) b k))"
  then show "snd (write_all (timerslack_ns_write env) b k) = k"
    by (auto simp: write_all_def timerslack_ns_write_def split: prod.splits sum.splits option.splits if_splits)
qed

definition score_allowed :: "num_env \<Rightarrow> kernel \<Rightarrow> int \<Rightarrow> bool" where
  "score_allowed env k i \<longleftrightarrow> parsers_doc env \<and> file_task env k \<noteq> None \<and> ne_cap_sys_resource env
     \<and> OOM_SCORE_ADJ_MIN \<le> i \<and> i \<le> OOM_SCORE_ADJ_MAX"

lemma to_short_score: "OOM_SCORE_ADJ_MIN \<le> i \<Longrightarrow> i \<le> OOM_SCORE_ADJ_MAX \<Longrightarrow> to_short i = i"
  by (simp add: to_short_def oom_defs signed_take_bit_int_eq_self)

lemma set_oom_adj_file_task:
  assumes "set_oom_adj env v legacy k = (None, k', ev)" "file_task env k = Some (p, t, sg)"
  shows "\<exists>sg'. file_task env k' = Some (p, t, sg') \<and> sg_oom_score_adj sg' = v"
proof -
  have e: "tasks k' = tasks k" "oom_of k' (t_signal t) = map_option (\<lambda>_. v) (oom_of k (t_signal t))"
    using set_oom_adj_effect [OF assms(1)] assms(2) by (auto simp: oom_targets_def)
  have "tasks k p = Some t" "ne_task env = Some p" "oom_of k (t_signal t) \<noteq> None"
    using assms(2) by (auto simp: file_task_Some oom_of_def)
  then show ?thesis using e by (auto simp: file_task_Some oom_of_def)
qed

interpretation score: proc_file "\<lambda>k. fst (oom_score_adj_read env k)" "write_all (oom_score_adj_write env)"
  num_text "score_allowed env" for env
proof
  fix k i assume a: "score_allowed env k i"
  have i: "- (10 ^ 9) < i" "i < 10 ^ 9" using a by (auto simp: score_allowed_def oom_defs)
  obtain p t sg where t: "file_task env k = Some (p, t, sg)" using a by (auto simp: score_allowed_def)
  obtain k' ev where s: "set_oom_adj env i False k = (None, k', ev)"
    using a t by (auto simp: set_oom_adj_def score_allowed_def Let_def)
  obtain sg' where f: "file_task env k' = Some (p, t, sg')" "sg_oom_score_adj sg' = i" using set_oom_adj_file_task [OF s t] by blast
  have w: "write_all (oom_score_adj_write env) (num_text i) k = (Inr (length (num_text i)), k')"
    using a t s int_arg_dec [OF _ i, of env]
    by (auto simp: write_all_def oom_score_adj_write_def num_text_def score_allowed_def)
  then show "fst (write_all (oom_score_adj_write env) (num_text i) k) = Inr (length (num_text i))
    \<and> fst (oom_score_adj_read env (snd (write_all (oom_score_adj_write env) (num_text i) k))) = Inr (num_text i)"
    using f a snprintf_dec_int [OF i] to_short_score [of i] by (simp add: oom_score_adj_read_def num_text_def score_allowed_def)
  fix j assume "score_allowed env k j"
  then show "score_allowed env (snd (write_all (oom_score_adj_write env) (num_text i) k)) j"
    using w f by (simp add: score_allowed_def)
next
  fix b k assume "is_err (fst (write_all (oom_score_adj_write env) b k))"
  then show "snd (write_all (oom_score_adj_write env) b k) = k"
    by (auto simp: write_all_def oom_score_adj_write_def set_oom_adj_def Let_def split: prod.splits sum.splits option.splits if_splits)
qed

subsection \<open>The core dump filter\<close>

lemma filter_loop_bits:
  assumes "i + n + MMF_DUMP_FILTER_SHIFT \<le> 64"
  shows "bit (filter_loop n i (2 ^ i) val fl) j \<longleftrightarrow>
     (if i + MMF_DUMP_FILTER_SHIFT \<le> j \<and> j < i + n + MMF_DUMP_FILTER_SHIFT then bit val (j - MMF_DUMP_FILTER_SHIFT) else bit fl j)"
  using assms
proof (induction n arbitrary: i fl)
  case 0
  then show ?case by auto
next
  case (Suc n)
  let ?fl = "if bit val i then set_bit (i + MMF_DUMP_FILTER_SHIFT) fl else unset_bit (i + MMF_DUMP_FILTER_SHIFT) fl"
  have "(ucast val :: u64) AND 2 ^ i \<noteq> 0 \<longleftrightarrow> bit val i"
    using Suc.prems by (simp add: and_exp_eq_0_iff_not_bit bit_simps)
  then have s: "filter_loop (Suc n) i (2 ^ i) val fl = filter_loop n (Suc i) (2 ^ Suc i) val ?fl"
    by (simp add: push_bit_eq_mult mult.commute)
  have fl: "bit ?fl j \<longleftrightarrow> (if j = i + MMF_DUMP_FILTER_SHIFT then bit val i else bit fl j)"
    using Suc.prems by (auto simp: bit_set_bit_iff bit_unset_bit_iff)
  have "Suc i + n + MMF_DUMP_FILTER_SHIFT \<le> 64" using Suc.prems by simp
  from Suc.IH [OF this, of ?fl] show ?case unfolding s fl
    by (cases "j = i + MMF_DUMP_FILTER_SHIFT") auto
qed

lemma filter_loop_closed:
  "filter_loop MMF_DUMP_FILTER_BITS 0 1 val fl
     = (fl AND NOT MMF_DUMP_FILTER_MASK) OR (push_bit MMF_DUMP_FILTER_SHIFT (ucast val) AND MMF_DUMP_FILTER_MASK)"
proof (rule bit_word_eqI)
  fix j :: nat assume "j < LENGTH(64)"
  then show "bit (filter_loop MMF_DUMP_FILTER_BITS 0 1 val fl) j
    \<longleftrightarrow> bit ((fl AND NOT MMF_DUMP_FILTER_MASK) OR (push_bit MMF_DUMP_FILTER_SHIFT (ucast val) AND MMF_DUMP_FILTER_MASK)) j"
    using filter_loop_bits [of 0 MMF_DUMP_FILTER_BITS val fl j, simplified]
    by (auto simp: bit_simps MMF_DUMP_FILTER_MASK_def MMF_DUMP_FILTER_SHIFT_def MMF_DUMP_FILTER_BITS_def)
qed

lemma filter_read_back:
  "drop_bit MMF_DUMP_FILTER_SHIFT (((fl AND NOT MMF_DUMP_FILTER_MASK)
      OR (push_bit MMF_DUMP_FILTER_SHIFT (ucast (val :: u32)) AND MMF_DUMP_FILTER_MASK)) AND MMF_DUMP_FILTER_MASK)
   = (ucast val AND mask MMF_DUMP_FILTER_BITS :: u64)"
  by (rule bit_word_eqI)
    (auto simp: bit_simps MMF_DUMP_FILTER_MASK_def MMF_DUMP_FILTER_SHIFT_def MMF_DUMP_FILTER_BITS_def)

subsection \<open>Properties\<close>


definition demo_ne :: num_env where
  "demo_ne = \<lparr>ne_task = Some 2, ne_current = 2, ne_fault = False, ne_parse_int = demo_kstrtoint,
     ne_uint = (\<lambda>s. Inr (of_nat (dec_val (butlast s)))), ne_ull = (\<lambda>s. Inr (of_nat (dec_val (butlast s)))),
     ne_cap_sys_resource = True, ne_noaudit_sys_resource = True, ne_cap_sys_nice = True, ne_setscheduler = None,
     ne_getscheduler = None, ne_find_mm = (\<lambda>ts p. Some p),
     ne_shares_mm = (\<lambda>ts p m. case ts p of None \<Rightarrow> False | Some t \<Rightarrow> t_mm t = Some m),
     ne_set_task_comm = (\<lambda>old b. take 15 (cstr b) @ replicate (16 - length (take 15 (cstr b))) NUL)\<rparr>"


lemma demo_parsers: "parsers_doc demo_ne"
  using demo_kstrtoint_int by (simp add: parsers_doc_def demo_ne_def)

lemma demo_file_task: "file_task demo_ne demo_kernel \<noteq> None"
  by (simp add: file_task_def current_of_def demo_ne_def demo_kernel_def demo_task_def)

definition legacy_score :: "int \<Rightarrow> int" where
  "legacy_score i = (if i = OOM_ADJUST_MAX then OOM_SCORE_ADJ_MAX else (i * OOM_SCORE_ADJ_MAX) sdiv (- OOM_DISABLE))"

lemma legacy_score_read:
  assumes "- 17 \<le> i" "i \<le> 15"
  shows "oom_adj_of_score (legacy_score i) = (if i = - 17 \<or> i = 0 \<or> i = 15 then i else i - sgn i)
    \<and> OOM_SCORE_ADJ_MIN \<le> legacy_score i \<and> legacy_score i \<le> OOM_SCORE_ADJ_MAX"
proof -
  have "\<forall>i \<in> set [- 17..15]. oom_adj_of_score (legacy_score i) = (if i = - 17 \<or> i = 0 \<or> i = 15 then i else i - sgn i)
    \<and> OOM_SCORE_ADJ_MIN \<le> legacy_score i \<and> legacy_score i \<le> OOM_SCORE_ADJ_MAX"
    by (simp add: upto_rec1 oom_adj_of_score_def legacy_score_def oom_defs signed_divide_int_def)
  moreover have "i \<in> set [- 17..15]" using assms by (simp only: set_upto atLeastAtMost_iff)
  ultimately show ?thesis by blast
qed

text \<open>
  A value written to the old file \<^verbatim>\<open>oom_adj\<close> by a privileged task is accepted over its whole range and
  keeps every score in range, but is not read back: because both scalings round towards zero, the value read is exact
  only for -17, 0 and 15, and one step closer to zero for all others.\<close>

theorem oom_adj_write_read:
  assumes "parsers_doc env" "file_task env k \<noteq> None" "ne_cap_sys_resource env" "- 17 \<le> i" "i \<le> 15" "oom_in_range k"
  shows "\<exists>k' ev. oom_adj_write env (num_text i) (length (num_text i)) k = (Inr (length (num_text i)), k', ev)
    \<and> fst (oom_adj_read env k') = Inr (num_text (if i = - 17 \<or> i = 0 \<or> i = 15 then i else i - sgn i)) \<and> oom_in_range k'"
proof -
  let ?r = "if i = - 17 \<or> i = 0 \<or> i = 15 then i else i - sgn i"
  have i: "- (10 ^ 9) < i" "i < 10 ^ 9" "- (10 ^ 9) < ?r" "?r < 10 ^ 9" using assms(4,5) by (auto simp: sgn_if)
  obtain p t sg where t: "file_task env k = Some (p, t, sg)" using assms(2) by auto
  obtain k' ev where s: "set_oom_adj env (legacy_score i) True k = (None, k', ev)"
    using assms(3) t by (auto simp: set_oom_adj_def Let_def)
  obtain sg' where f: "file_task env k' = Some (p, t, sg')" "sg_oom_score_adj sg' = legacy_score i"
    using set_oom_adj_file_task [OF s t] by blast
  have "oom_adj_write env (num_text i) (length (num_text i)) k = (Inr (length (num_text i)), k', ev)"
    using assms(4,5) s int_arg_dec [OF assms(1) i(1,2)] by (auto simp: oom_adj_write_def num_text_def legacy_score_def oom_defs)
  moreover have "fst (oom_adj_read env k') = Inr (num_text ?r)"
    using f legacy_score_read [OF assms(4,5)] snprintf_dec_int [OF i(3,4)] by (simp add: oom_adj_read_def num_text_def)
  moreover have "oom_in_range k'" using set_oom_adj_range [OF s assms(6)] legacy_score_read [OF assms(4,5)] by blast
  ultimately show ?thesis by blast
qed

theorem oom_adj_write_read_witness:
  "\<exists>k' ev. oom_adj_write demo_ne (num_text 10) (length (num_text 10)) demo_kernel = (Inr (length (num_text 10)), k', ev)
     \<and> fst (oom_adj_read demo_ne k') = Inr (num_text 9)"
proof -
  have "oom_in_range demo_kernel" by (auto simp: oom_in_range_def oom_of_def demo_kernel_def demo_signal_def oom_defs split: if_splits)
  then show ?thesis using oom_adj_write_read [OF demo_parsers demo_file_task, of 10] by (auto simp: demo_ne_def)
qed



text \<open>
  Writing \<^verbatim>\<open>coredump_filter\<close>, bit by bit, replaces exactly the filter bits of the flags by the low bits of the value,
  touching no other flag, and a read shows those bits.\<close>

theorem coredump_filter_write_read:
  assumes "ne_uint env b = Inr val" "file_task env k = Some (p, t, sg)" "get_task_mm k t = Some (m, mm)"
  shows "\<exists>k' mm' ev. proc_coredump_filter_write env b (length b) k = (Inr (length b), k', ev)
    \<and> mms k' = (mms k)(m \<mapsto> mm') \<and> tasks k' = tasks k
    \<and> mm_flags mm' = (mm_flags mm AND NOT MMF_DUMP_FILTER_MASK) OR (push_bit MMF_DUMP_FILTER_SHIFT (ucast val) AND MMF_DUMP_FILTER_MASK)
    \<and> fst (proc_coredump_filter_read env k')
        = Inr (snprintf_trunc PROC_NUMBUF (hex8 (unat (ucast val AND mask MMF_DUMP_FILTER_BITS :: u64)) @ [NL]))"
proof -
  let ?mm = "mm\<lparr>mm_flags := filter_loop MMF_DUMP_FILTER_BITS 0 1 val (mm_flags mm)\<rparr>"
  let ?k = "update_mm m (\<lambda>mm. mm\<lparr>mm_flags := filter_loop MMF_DUMP_FILTER_BITS 0 1 val (mm_flags mm)\<rparr>) k"
  have m: "mms k m = Some mm" "t_mm t = Some m" "t_flags t AND PF_KTHREAD = 0"
    using assms(3) by (auto simp: get_task_mm_def split: if_splits option.splits)
  have w: "proc_coredump_filter_write env b (length b) k = (Inr (length b), ?k, [Get_task p, Put_task p])"
    using assms by (simp add: proc_coredump_filter_write_def)
  have mm: "mms ?k = (mms k)(m \<mapsto> ?mm)" using m by (auto simp: fun_eq_iff)
  have "file_task env ?k = Some (p, t, sg)" using assms(2) by (simp add: file_task_Some)
  moreover have "drop_bit MMF_DUMP_FILTER_SHIFT (filter_loop MMF_DUMP_FILTER_BITS 0 1 val (mm_flags mm) AND MMF_DUMP_FILTER_MASK)
      = (ucast val AND mask MMF_DUMP_FILTER_BITS :: u64)"
    by (simp only: filter_loop_closed filter_read_back)
  ultimately have "fst (proc_coredump_filter_read env ?k)
      = Inr (snprintf_trunc PROC_NUMBUF (hex8 (unat (ucast val AND mask MMF_DUMP_FILTER_BITS :: u64)) @ [NL]))"
    using m by (simp add: proc_coredump_filter_read_def get_task_mm_def)
  then show ?thesis using w mm filter_loop_closed [of val "mm_flags mm"] by (intro exI [of _ ?k] exI [of _ ?mm]) auto
qed

theorem coredump_filter_write_read_witness:
  "\<exists>k' mm' ev. proc_coredump_filter_write demo_ne (dec_nat (unat (51 :: u32)) @ [NL]) (length (dec_nat (unat (51 :: u32)) @ [NL])) demo_kernel
       = (Inr (length (dec_nat (unat (51 :: u32)) @ [NL])), k', ev)
     \<and> mms k' 2 = Some mm' \<and> mm_flags mm' = 204"
proof -
  have u: "ne_uint demo_ne (dec_nat (unat (51 :: u32)) @ [NL]) = Inr 51" using demo_parsers unfolding parsers_doc_def by blast
  have f: "file_task demo_ne demo_kernel = Some (2, demo_task 42 1000 ''bash'' 2, demo_signal)"
    by (simp add: file_task_Some demo_ne_def demo_kernel_def demo_task_def)
  have g: "get_task_mm demo_kernel (demo_task 42 1000 ''bash'' 2) = Some (2, demo_mm)"
    by (simp add: get_task_mm_def demo_task_def demo_kernel_def)
  show ?thesis using coredump_filter_write_read [OF u f g]
    by (auto simp: demo_mm_def MMF_DUMP_FILTER_MASK_def MMF_DUMP_FILTER_SHIFT_def MMF_DUMP_FILTER_BITS_def mask_numeral)
qed

text \<open>What \<^verbatim>\<open>set_task_comm\<close> is documented to do: copy at most 15 characters and terminate.\<close>

definition set_task_comm_doc :: "num_env \<Rightarrow> bool" where
  "set_task_comm_doc env \<longleftrightarrow> (\<forall>old b. length (ne_set_task_comm env old b) = TASK_COMM_LEN
     \<and> NUL \<in> set (ne_set_task_comm env old b) \<and> cstr (ne_set_task_comm env old b) = take (TASK_COMM_LEN - 1) (cstr b))"

text \<open>
  Writing \<^verbatim>\<open>comm\<close> renames the thread to the first 15 characters written, keeps the state well formed and nothing
  hidden or shown; for a task of another group it fails and changes nothing.\<close>

theorem comm_write_renames:
  assumes "wf_kernel k" "set_task_comm_doc env" "\<not> ne_fault env" "file_task env k = Some (p, t, sg)" "tasks k (ne_current env) = Some cur"
    and "NUL \<notin> set b"
  shows "case comm_write env b (length b) k of (r, k', ev) \<Rightarrow>
      wf_kernel k' \<and> cloaked k' = cloaked k \<and> process_list k' = process_list k \<and> task_refs p ev = 0
      \<and> (if t_signal cur = t_signal t
         then r = Inr (length b) \<and> (\<exists>t'. tasks k' p = Some t' \<and> cstr (t_comm t') = take (TASK_COMM_LEN - 1) b)
         else r = Inl EINVAL \<and> k' = k)"
proof -
  let ?n = "if length b > TASK_COMM_LEN - 1 then TASK_COMM_LEN - 1 else length b"
  let ?buf = "take ?n b @ replicate (TASK_COMM_LEN - ?n) NUL"
  let ?f = "\<lambda>t. t\<lparr>t_comm := ne_set_task_comm env (t_comm t) ?buf\<rparr>"
  have "replicate (TASK_COMM_LEN - ?n) NUL = NUL # replicate (TASK_COMM_LEN - ?n - 1) NUL"
    by (auto simp: TASK_COMM_LEN_def simp flip: replicate_Suc)
  moreover have "NUL \<notin> set (take ?n b)" using assms(6) by (meson in_set_takeD)
  ultimately have "cstr ?buf = take ?n b" by simp
  then have c: "cstr (ne_set_task_comm env old ?buf) = take (TASK_COMM_LEN - 1) b" for old
    using assms(2) by (auto simp: set_task_comm_doc_def)
  have p: "tasks k p = Some t" using assms(4) by (simp add: file_task_Some)
  have wf: "wf_kernel (update_task p ?f k)"
    using assms(1,2) by (auto simp: wf_kernel_def set_task_comm_doc_def split: if_splits)
  have cl: "cloaked (update_task p ?f k) = cloaked k" using p by (auto simp: cloaked_def)
  show ?thesis
  proof (cases "t_signal cur = t_signal t")
    case True
    then have "comm_write env b (length b) k = (Inr (length b), update_task p ?f k, [Get_task p, Put_task p])"
      using assms(3-5) by (simp add: comm_write_def Let_def)
    then show ?thesis using wf cl c p True by simp
  next
    case False
    then show ?thesis using assms(1,3-5) by (simp add: comm_write_def Let_def)
  qed
qed

theorem comm_write_renames_witness:
  "\<exists>t'. tasks (fst (snd (comm_write demo_ne ''a_very_long_program_name'' (length ''a_very_long_program_name'') demo_kernel))) 2 = Some t'
     \<and> cstr (t_comm t') = ''a_very_long_pro''"
proof -
  have d: "set_task_comm_doc demo_ne"
  proof -
    have n: "NUL \<notin> set (take 15 (cstr b))" for b by (meson NUL_notin_cstr in_set_takeD)
    have "replicate (16 - length (take 15 (cstr b))) NUL = NUL # replicate (15 - length (take 15 (cstr b))) NUL" for b
      by (simp add: Suc_diff_le flip: replicate_Suc)
    then have "cstr (take 15 (cstr b) @ replicate (16 - length (take 15 (cstr b))) NUL) = take 15 (cstr b)" for b
      using n by simp
    then show ?thesis by (simp add: set_task_comm_doc_def demo_ne_def TASK_COMM_LEN_def)
  qed
  have f: "file_task demo_ne demo_kernel = Some (2, demo_task 42 1000 ''bash'' 2, demo_signal)" "\<not> ne_fault demo_ne" "ne_current demo_ne = 2"
    by (simp_all add: file_task_Some demo_ne_def demo_kernel_def demo_task_def)
  show ?thesis using comm_write_renames [OF wf_demo_kernel d f(2,1), of "demo_task 42 1000 ''bash'' 2" "''a_very_long_program_name''"]
    by (auto simp: f(3) TASK_COMM_LEN_def split: prod.splits)
qed

end
