(* ===== verification/Mm_Life.thy ===== *)
theory Mm_Life
  imports Runs Clone Proc_Number
begin

unbundle bit_operations_syntax

section \<open>The life of an address space\<close>

text \<open>
  \<^verbatim>\<open>kernel/fork.c\<close>: \<^verbatim>\<open>mm_init\<close>, \<^verbatim>\<open>dup_mmap\<close> and \<^verbatim>\<open>dup_mm\<close>, which make the copy of an address space that a forked process
  gets, and \<^verbatim>\<open>mmput\<close>, \<^verbatim>\<open>__mmput\<close>, \<^verbatim>\<open>mmdrop\<close> and \<^verbatim>\<open>__mmdrop\<close>, which take it apart; the executable file of an address space; and
  the checks and notifications around it (\<^verbatim>\<open>mm_access\<close>, \<^verbatim>\<open>mm_release\<close>).

  The record \<open>mm_struct\<close> of the tasks is extended by the fields these functions work on.  Everything acquired and
  released is an event of a trace.  \<^verbatim>\<open>dup_mm\<close> refines what \<^verbatim>\<open>copy_process\<close> relies on, \<open>new_mm_struct\<close>.
\<close>

subsection \<open>Data\<close>

definition VM_SHARED :: u64 where "VM_SHARED = 0x8"
definition VM_LOCKED :: u64 where "VM_LOCKED = 0x2000"
definition VM_DONTCOPY :: u64 where "VM_DONTCOPY = 0x20000"
definition VM_LOCKONFAULT :: u64 where "VM_LOCKONFAULT = 0x80000"
definition VM_ACCOUNT :: u64 where "VM_ACCOUNT = 0x100000"
definition VM_WIPEONFORK :: u64 where "VM_WIPEONFORK = 0x2000000"
definition PAGE_SHIFT :: nat where "PAGE_SHIFT = 12"

lemmas vm_flag_defs = VM_SHARED_def VM_LOCKED_def VM_DONTCOPY_def VM_LOCKONFAULT_def VM_ACCOUNT_def VM_WIPEONFORK_def

record vma =
  vm_start :: u64
  vm_end :: u64
  vm_flags :: u64
  vm_file :: "nat option"
  vm_anon :: "nat option"

definition vma_pages :: "vma \<Rightarrow> nat" where
  "vma_pages v = unat (drop_bit PAGE_SHIFT (vm_end v - vm_start v))"

record mm_full = mm_struct +
  mm_count :: int
  mm_owner :: "tptr option"
  mm_def_flags :: u64
  map_count :: int
  total_vm :: int
  vmas :: "vma list"
  exe_file :: "nat option"
  binfmt :: "nat option"

datatype mres =
    M_mm | M_pgd | M_context | M_user_ns | M_vma | M_policy | M_page | M_file nat | M_module nat
  | M_uprobe | M_lock_old | M_lock_new

text \<open>The answers of the rest of the kernel: allocations, locks, and for each area of the old space (by its place in
  the list) the calls made for it.  \<open>de_stat\<close> is the effect of \<^verbatim>\<open>vm_stat_account\<close> on \<^verbatim>\<open>total_vm\<close>, \<open>de_exit_mmap\<close> what
  \<^verbatim>\<open>exit_mmap\<close> releases.\<close>

record dup_env =
  de_alloc_mm :: bool
  de_alloc_pgd :: bool
  de_context :: "errno option"
  de_killed :: bool
  de_file_live :: "nat \<Rightarrow> bool"
  de_ksm_fork :: "errno option"
  de_khugepaged_fork :: "errno option"
  de_fatal_signal :: "nat \<Rightarrow> bool"
  de_enough_memory :: "nat \<Rightarrow> errno option"
  de_alloc_vma :: "nat \<Rightarrow> bool"
  de_dup_policy :: "nat \<Rightarrow> errno option"
  de_userfaultfd :: "nat \<Rightarrow> errno option"
  de_anon_vma_fork :: "nat \<Rightarrow> errno option"
  de_anon_vma :: "nat \<Rightarrow> nat option"
  de_copy_page_range :: "nat \<Rightarrow> errno option"
  de_arch_dup_mmap :: "errno option"
  de_module_get :: bool
  de_init_mask :: u64
  de_def_mask :: u64
  de_dump_filter :: u64
  de_stat :: "u64 \<Rightarrow> int \<Rightarrow> int \<Rightarrow> int"
  de_exit_mmap :: "vma list \<Rightarrow> mres revent list"

subsection \<open>The executable file\<close>

definition get_mm_exe_file :: "dup_env \<Rightarrow> mm_full \<Rightarrow> nat option \<times> mres revent list" where
  "get_mm_exe_file env mm =
     (case exe_file mm of
        None \<Rightarrow> (None, [])
      | Some f \<Rightarrow> if \<not> de_file_live env f then (None, []) else (Some f, [Acq (M_file f)]))"

definition set_mm_exe_file :: "nat option \<Rightarrow> mm_full \<Rightarrow> mm_full \<times> mres revent list" where
  "set_mm_exe_file new_exe_file mm =
     (mm\<lparr>exe_file := new_exe_file\<rparr>, map Acq (optv M_file new_exe_file) @ map Rel (optv M_file (exe_file mm)))"

definition get_task_exe_file :: "dup_env \<Rightarrow> task_struct \<Rightarrow> mm_full option \<Rightarrow> nat option \<times> mres revent list" where
  "get_task_exe_file env task mm =
     (case mm of
        None \<Rightarrow> (None, [])
      | Some mm \<Rightarrow> if t_flags task AND PF_KTHREAD = 0 then get_mm_exe_file env mm else (None, []))"

subsection \<open>Taking an address space apart\<close>

definition mmdrop_final :: "mres revent list" where
  "mmdrop_final = [Rel M_pgd, Rel M_context, Rel M_user_ns, Rel M_mm]"

definition mmdrop :: "mm_full \<Rightarrow> mm_full \<times> mres revent list" where
  "mmdrop mm = (let mm = mm\<lparr>mm_count := mm_count mm - 1\<rparr> in (mm, if mm_count mm = 0 then mmdrop_final else []))"

definition mmput_final :: "dup_env \<Rightarrow> mm_full \<Rightarrow> mm_full \<times> mres revent list" where
  "mmput_final env mm =
     (let ev1 = de_exit_mmap env (vmas mm);
          (mm, ev2) = set_mm_exe_file None (mm\<lparr>vmas := []\<rparr>);
          ev3 = map Rel (optv M_module (binfmt mm));
          (mm, ev4) = mmdrop mm
      in (mm, ev1 @ ev2 @ ev3 @ ev4))"

definition mmput :: "dup_env \<Rightarrow> mm_full \<Rightarrow> mm_full \<times> mres revent list" where
  "mmput env mm =
     (let mm = mm\<lparr>mm_users := mm_users mm - 1\<rparr> in if mm_users mm = 0 then mmput_final env mm else (mm, []))"

subsection \<open>Making one\<close>

datatype init_label = Fail_nocontext | Fail_nopgd

definition init_ladder :: "(init_label \<times> mres revent list) list" where
  "init_ladder = [(Fail_nocontext, [Rel M_pgd]), (Fail_nopgd, [Rel M_mm])]"

definition init_stages :: "dup_env \<Rightarrow> (mres, init_label) stage list" where
  "init_stages env =
     [(fail_if (\<not> de_alloc_pgd env) ENOMEM, [], Fail_nopgd, [Acq M_pgd]),
      (de_context env, [], Fail_nocontext, [Acq M_context])]"

text \<open>\<open>cur\<close> is \<^verbatim>\<open>current->mm\<close>, \<open>p\<close> the owner to be.\<close>

definition mm_init_fields :: "dup_env \<Rightarrow> mm_full option \<Rightarrow> tptr option \<Rightarrow> mm_full \<Rightarrow> mm_full" where
  "mm_init_fields env cur p mm =
     (let mm = mm\<lparr>vmas := [], mm_users := 1, mm_count := 1, map_count := 0, mm_owner := p, exe_file := None\<rparr>
      in case cur of
           Some c \<Rightarrow> mm\<lparr>mm_flags := mm_flags c AND de_init_mask env, mm_def_flags := mm_def_flags c AND de_def_mask env\<rparr>
         | None \<Rightarrow> mm\<lparr>mm_flags := de_dump_filter env, mm_def_flags := 0\<rparr>)"

definition mm_init :: "dup_env \<Rightarrow> mm_full option \<Rightarrow> tptr option \<Rightarrow> mm_full \<Rightarrow> mm_full option \<times> mres revent list" where
  "mm_init env cur p mm =
     (let mm = mm_init_fields env cur p mm
      in case run_stages (fall_through init_ladder) (init_stages env) of
           (Some e, ev) \<Rightarrow> (None, ev)
         | (None, ev) \<Rightarrow> (Some mm, ev @ [Acq M_user_ns]))"

definition zero_mm :: mm_full where
  "zero_mm = \<lparr>mm_flags = 0, mm_users = 0, mm_arg_start = 0, mm_arg_end = 0, mm_env_start = 0, mm_env_end = 0, mm_count = 0,
     mm_owner = None, mm_def_flags = 0, map_count = 0, total_vm = 0, vmas = [], exe_file = None, binfmt = None\<rparr>"

definition mm_alloc :: "dup_env \<Rightarrow> mm_full option \<Rightarrow> tptr \<Rightarrow> mm_full option \<times> mres revent list" where
  "mm_alloc env cur current =
     (if \<not> de_alloc_mm env then (None, [])
      else case mm_init env cur (Some current) zero_mm of (mm, ev) \<Rightarrow> (mm, Acq M_mm # ev))"

subsection \<open>Copying the areas\<close>

datatype vma_label = Fail_nomem_anon_vma_fork | Fail_nomem_policy | Fail_nomem | Fail_nomem_uncharged | Out_label

text \<open>\<open>charge\<close> is still 0 when the check of the memory limit fails.\<close>

definition vma_ladder :: "nat \<Rightarrow> (vma_label \<times> mres revent list) list" where
  "vma_ladder charge =
     [(Fail_nomem_anon_vma_fork, [Rel M_policy]), (Fail_nomem_policy, [Rel M_vma]),
      (Fail_nomem, map Rel (replicate charge M_page)), (Fail_nomem_uncharged, []), (Out_label, [])]"

definition vma_charge :: "vma \<Rightarrow> nat" where
  "vma_charge v = (if vm_flags v AND VM_ACCOUNT \<noteq> 0 then vma_pages v else 0)"

definition nomem :: "errno option \<Rightarrow> errno option" where
  "nomem r = map_option (\<lambda>_. ENOMEM) r"

definition vma_stages :: "dup_env \<Rightarrow> nat \<Rightarrow> vma \<Rightarrow> (mres, vma_label) stage list" where
  "vma_stages env i mpnt =
     [(fail_if (de_fatal_signal env i) EINTR, [], Out_label, []),
      (if vm_flags mpnt AND VM_ACCOUNT \<noteq> 0 then nomem (de_enough_memory env i) else None, [], Fail_nomem_uncharged,
         map Acq (replicate (vma_charge mpnt) M_page)),
      (fail_if (\<not> de_alloc_vma env i) ENOMEM, [], Fail_nomem, [Acq M_vma]),
      (nomem (de_dup_policy env i), [], Fail_nomem_policy, [Acq M_policy]),
      (nomem (de_userfaultfd env i), [], Fail_nomem_anon_vma_fork, []),
      (if vm_flags mpnt AND VM_WIPEONFORK \<noteq> 0 then None else nomem (de_anon_vma_fork env i), [], Fail_nomem_anon_vma_fork,
         map Acq (optv M_file (vm_file mpnt)))]"

text \<open>\<^verbatim>\<open>vm_area_dup\<close> and what the loop changes in the copy.\<close>

definition vma_copy :: "dup_env \<Rightarrow> nat \<Rightarrow> vma \<Rightarrow> vma" where
  "vma_copy env i mpnt =
     mpnt\<lparr>vm_anon := (if vm_flags mpnt AND VM_WIPEONFORK \<noteq> 0 then None else de_anon_vma env i),
       vm_flags := vm_flags mpnt AND NOT (VM_LOCKED OR VM_LOCKONFAULT)\<rparr>"

fun dup_mmap_loop :: "dup_env \<Rightarrow> nat \<Rightarrow> vma list \<Rightarrow> mm_full \<Rightarrow> errno option \<times> mm_full \<times> mres revent list" where
  "dup_mmap_loop env i [] mm = (de_arch_dup_mmap env, mm, [])"
| "dup_mmap_loop env i (mpnt # vs) mm =
     (if vm_flags mpnt AND VM_DONTCOPY \<noteq> 0
      then dup_mmap_loop env (Suc i) vs (mm\<lparr>total_vm := de_stat env (vm_flags mpnt) (- int (vma_pages mpnt)) (total_vm mm)\<rparr>)
      else case run_stages (fall_through (vma_ladder (vma_charge mpnt))) (vma_stages env i mpnt) of
        (Some e, ev) \<Rightarrow> (Some e, mm, ev)
      | (None, ev) \<Rightarrow>
          let mm = mm\<lparr>vmas := vmas mm @ [vma_copy env i mpnt], map_count := map_count mm + 1\<rparr>;
              retval = (if vm_flags mpnt AND VM_WIPEONFORK = 0 then de_copy_page_range env i else None)
          in if retval \<noteq> None then (retval, mm, ev)
             else case dup_mmap_loop env (Suc i) vs mm of (r, mm', ev') \<Rightarrow> (r, mm', ev @ ev'))"

definition dup_mmap :: "dup_env \<Rightarrow> mm_full \<Rightarrow> mm_full \<Rightarrow> errno option \<times> mm_full \<times> mres revent list" where
  "dup_mmap env mm oldmm =
     (if de_killed env then (Some EINTR, mm, [Acq M_uprobe, Rel M_uprobe])
      else
        let (exe, ev1) = get_mm_exe_file env oldmm;
            mm = mm\<lparr>exe_file := exe, total_vm := total_vm oldmm\<rparr>;
            (r, mm, ev2) = (if de_ksm_fork env \<noteq> None then (de_ksm_fork env, mm, [])
                            else if de_khugepaged_fork env \<noteq> None then (de_khugepaged_fork env, mm, [])
                            else dup_mmap_loop env 0 (vmas oldmm) mm)
        in (r, mm, [Acq M_uprobe, Acq M_lock_old, Acq M_lock_new] @ ev1 @ ev2 @ [Rel M_lock_new, Rel M_lock_old, Rel M_uprobe]))"

definition dup_mm :: "dup_env \<Rightarrow> mm_full option \<Rightarrow> tptr option \<Rightarrow> mm_full \<Rightarrow> mm_full option \<times> mres revent list" where
  "dup_mm env cur tsk oldmm =
     (if \<not> de_alloc_mm env then (None, [])
      else case mm_init env cur tsk oldmm of
        (None, ev) \<Rightarrow> (None, Acq M_mm # ev)
      | (Some mm, ev) \<Rightarrow>
          (case dup_mmap env mm oldmm of
             (err, mm, ev') \<Rightarrow>
               let free_pt = snd (mmput env (mm\<lparr>binfmt := None, mm_owner := None\<rparr>))
               in if err \<noteq> None then (None, Acq M_mm # ev @ ev' @ free_pt)
                  else if binfmt mm \<noteq> None \<and> \<not> de_module_get env then (None, Acq M_mm # ev @ ev' @ free_pt)
                  else (Some mm, Acq M_mm # ev @ ev' @ map Acq (optv M_module (binfmt mm)))))"

definition copy_init_mm :: "dup_env \<Rightarrow> mm_full option \<Rightarrow> mm_full \<Rightarrow> mm_full option \<times> mres revent list" where
  "copy_init_mm env cur init_mm = dup_mm env cur None init_mm"

subsection \<open>What an address space holds\<close>

definition vma_res :: "vma \<Rightarrow> mres list" where
  "vma_res v = [M_vma, M_policy] @ optv M_file (vm_file v) @ replicate (vma_charge v) M_page"

definition vmas_res :: "vma list \<Rightarrow> mres list" where
  "vmas_res vs = concat (map vma_res vs)"

definition struct_res :: "mres list" where
  "struct_res = [M_mm, M_pgd, M_context, M_user_ns]"

definition mm_res :: "mm_full \<Rightarrow> mres list" where
  "mm_res mm = struct_res @ optv M_file (exe_file mm) @ optv M_module (binfmt mm) @ vmas_res (vmas mm)"

text \<open>What \<^verbatim>\<open>exit_mmap\<close> is documented to do: release every area with its policy, file and accounted pages.\<close>

definition exit_mmap_doc :: "dup_env \<Rightarrow> bool" where
  "exit_mmap_doc env \<longleftrightarrow> (\<forall>vs r. net r (de_exit_mmap env vs) = - int (count_list (vmas_res vs) r))"

lemma net_map_Acq [simp]: "net r (map Acq xs) = int (count_list xs r)"
  by (induction xs) auto

lemma net_map_Rel [simp]: "net r (map Rel xs) = - int (count_list xs r)"
  by (induction xs) auto

lemma count_list_replicate [simp]: "count_list (replicate n x) r = (if x = r then n else 0)"
  by (induction n) auto

lemma vmas_res_append [simp]: "vmas_res [] = []" "vmas_res (vs @ ws) = vmas_res vs @ vmas_res ws" "vmas_res [v] = vma_res v"
  by (simp_all add: vmas_res_def)

lemma unstack_replicate [simp]:
  "unstack (replicate n (Acq r)) st = Some (replicate n r @ st)"
  "unstack (replicate n (Rel r)) (replicate n r @ st) = Some st"
  "unstack (replicate n (Rel r)) (replicate n r) = Some []"
proof -
  show "unstack (replicate n (Acq r)) st = Some (replicate n r @ st)"
    by (induction n arbitrary: st) (auto simp: replicate_app_Cons_same)
  show r: "unstack (replicate n (Rel r)) (replicate n r @ st) = Some st" for st by (induction n) auto
  show "unstack (replicate n (Rel r)) (replicate n r) = Some []" using r [of "[]"] by simp
qed

lemma net_replicate [simp]:
  "net x (replicate n (Acq r)) = (if r = x then int n else 0)" "net x (replicate n (Rel r)) = (if r = x then - int n else 0)"
  by (induction n) auto

interpretation vma_dup: goto_unwind "fall_through (vma_ladder (vma_charge mpnt))" "vma_stages env i mpnt" for env i mpnt
  unfolding vma_stages_def
  by unfold_locales (simp add: coherent_Cons fall_through_def vma_ladder_def)

lemma flags_copied: "(f AND NOT (VM_LOCKED OR VM_LOCKONFAULT)) AND VM_ACCOUNT = f AND VM_ACCOUNT"
proof -
  have "(NOT (VM_LOCKED OR VM_LOCKONFAULT)) AND VM_ACCOUNT = VM_ACCOUNT" by (simp add: vm_flag_defs)
  then show ?thesis by (metis and.assoc)
qed

lemma vma_copy_res: "vma_res (vma_copy env i v) = vma_res v"
  unfolding vma_res_def vma_charge_def vma_copy_def vma_pages_def by (simp add: flags_copied del: de_Morgan_disj bit.de_Morgan_disj)

lemma run_vma_stages:
  assumes "run_stages (fall_through (vma_ladder (vma_charge mpnt))) (vma_stages env i mpnt) = (r, ev)"
  shows "net x ev = (if r = None then int (count_list (vma_res mpnt) x) else 0)"
proof (cases r)
  case None
  then have "unstack ev [] = held_after (vma_stages env i mpnt)" using vma_dup.completed [of mpnt env i] assms by simp
  moreover have "held_after (vma_stages env i mpnt)
      = Some (optv M_file (vm_file mpnt) @ [M_policy, M_vma] @ replicate (vma_charge mpnt) M_page)"
    by (simp add: held_after_def vma_stages_def unstack_append)
  ultimately show ?thesis using None net_unstack [of ev "[]"] by (simp add: vma_res_def)
next
  case (Some e)
  then have "unstack ev [] = Some []" using vma_dup.unwound [of mpnt env i e] assms by simp
  then show ?thesis using Some net_unstack [of ev "[]" "[]"] by simp
qed

lemma dup_mmap_loop_net:
  "dup_mmap_loop env i vs mm = (r, mm', ev) \<Longrightarrow>
   net x ev = int (count_list (vmas_res (vmas mm')) x) - int (count_list (vmas_res (vmas mm)) x)
   \<and> exe_file mm' = exe_file mm \<and> binfmt mm' = binfmt mm \<and> mm_count mm' = mm_count mm
   \<and> mm_struct.truncate mm' = mm_struct.truncate mm"
proof (induction env i vs mm arbitrary: r mm' ev rule: dup_mmap_loop.induct)
  case (2 env i v vs mm)
  show ?case
  proof (cases "vm_flags v AND VM_DONTCOPY \<noteq> 0")
    case True
    then show ?thesis using "2.IH"(1) [OF True] "2.prems" by (simp add: mm_struct.truncate_def)
  next
    case False
    obtain rs evs where rs: "run_stages (fall_through (vma_ladder (vma_charge v))) (vma_stages env i v) = (rs, evs)" by (rule prod.exhaust)
    note n = run_vma_stages [OF rs, of x]
    let ?mm = "mm\<lparr>vmas := vmas mm @ [vma_copy env i v], map_count := map_count mm + 1\<rparr>"
    show ?thesis
    proof (cases rs)
      case (Some e)
      then show ?thesis using "2.prems" False rs n by auto
    next
      case None
      show ?thesis
      proof (cases "vm_flags v AND VM_WIPEONFORK = 0 \<and> de_copy_page_range env i \<noteq> None")
        case True
        then show ?thesis using "2.prems" False rs None n by (auto simp: vma_copy_res mm_struct.truncate_def Let_def)
      next
        case c: False
        obtain r2 mm2 ev2 where l: "dup_mmap_loop env (Suc i) vs ?mm = (r2, mm2, ev2)" by (rule prod_cases3)
        have "net x ev2 = int (count_list (vmas_res (vmas mm2)) x) - int (count_list (vmas_res (vmas ?mm)) x)
            \<and> exe_file mm2 = exe_file mm \<and> binfmt mm2 = binfmt mm \<and> mm_count mm2 = mm_count mm
            \<and> mm_struct.truncate mm2 = mm_struct.truncate mm"
          using "2.IH"(2) [OF False rs [symmetric] None refl refl _ l] c by (auto simp: mm_struct.truncate_def)
        then show ?thesis using "2.prems" False rs None n l c by (auto simp: vma_copy_res Let_def split: if_splits)
      qed
    qed
  qed
qed simp

text \<open>What a loop that completes has copied.\<close>

definition copied_areas :: "vma list \<Rightarrow> vma list" where
  "copied_areas vs = filter (\<lambda>v. vm_flags v AND VM_DONTCOPY = 0) vs"

definition copy_of :: "vma \<Rightarrow> vma \<Rightarrow> bool" where
  "copy_of v v' \<longleftrightarrow> v' = v\<lparr>vm_flags := vm_flags v AND NOT (VM_LOCKED OR VM_LOCKONFAULT), vm_anon := vm_anon v'\<rparr>
     \<and> (vm_flags v AND VM_WIPEONFORK \<noteq> 0 \<longrightarrow> vm_anon v' = None)"

lemma vma_copy_is_copy: "copy_of v (vma_copy env i v)"
  by (simp add: copy_of_def vma_copy_def)

text \<open>What \<^verbatim>\<open>vm_stat_account\<close> is documented to do to \<^verbatim>\<open>total_vm\<close>.\<close>

definition stat_doc :: "dup_env \<Rightarrow> bool" where
  "stat_doc env \<longleftrightarrow> (\<forall>fl n total. de_stat env fl n total = total + n)"

lemma dup_mmap_loop_copies:
  "dup_mmap_loop env i vs mm = (None, mm', ev) \<Longrightarrow> stat_doc env \<Longrightarrow>
   (\<exists>ws. vmas mm' = vmas mm @ ws \<and> list_all2 copy_of (copied_areas vs) ws)
   \<and> map_count mm' = map_count mm + int (length (copied_areas vs))
   \<and> total_vm mm' = total_vm mm - (\<Sum>v \<leftarrow> filter (\<lambda>v. vm_flags v AND VM_DONTCOPY \<noteq> 0) vs. int (vma_pages v))"
proof (induction env i vs mm arbitrary: mm' ev rule: dup_mmap_loop.induct)
  case (2 env i v vs mm)
  show ?case
  proof (cases "vm_flags v AND VM_DONTCOPY \<noteq> 0")
    case True
    then show ?thesis using "2.IH"(1) [OF True] "2.prems" by (auto simp: copied_areas_def stat_doc_def)
  next
    case False
    let ?mm = "mm\<lparr>vmas := vmas mm @ [vma_copy env i v], map_count := map_count mm + 1\<rparr>"
    obtain evs ev2 where rs: "run_stages (fall_through (vma_ladder (vma_charge v))) (vma_stages env i v) = (None, evs)"
      and c: "(if vm_flags v AND VM_WIPEONFORK = 0 then de_copy_page_range env i else None) = None"
      and l: "dup_mmap_loop env (Suc i) vs ?mm = (None, mm', ev2)"
      using "2.prems"(1) False by (auto simp: Let_def split: prod.splits option.splits if_splits)
    have "(\<exists>ws. vmas mm' = vmas ?mm @ ws \<and> list_all2 copy_of (copied_areas vs) ws)
        \<and> map_count mm' = map_count ?mm + int (length (copied_areas vs))
        \<and> total_vm mm' = total_vm ?mm - (\<Sum>v \<leftarrow> filter (\<lambda>v. vm_flags v AND VM_DONTCOPY \<noteq> 0) vs. int (vma_pages v))"
      using "2.IH"(2) [OF False rs [symmetric] refl refl refl _ l "2.prems"(2)] c by simp
    then show ?thesis using False vma_copy_is_copy by (auto simp: copied_areas_def)
  qed
qed (simp add: copied_areas_def)

subsection \<open>Traces of the whole functions\<close>

lemma mm_init_net:
  assumes "mm_init env cur p mm = (r, ev)"
  shows "net x ev = (if r = None then (if x = M_mm then - 1 else 0) else int (count_list [M_pgd, M_context, M_user_ns] x))"
    "r = None \<or> r = Some (mm_init_fields env cur p mm)"
  using assms
  by (cases "de_alloc_pgd env"; cases "de_context env";
      auto simp: mm_init_def init_stages_def init_ladder_def fall_through_def fail_if_def Let_def)+

lemma mm_init_fields_simps:
  "vmas (mm_init_fields env cur p mm) = []" "exe_file (mm_init_fields env cur p mm) = None"
  "binfmt (mm_init_fields env cur p mm) = binfmt mm" "mm_count (mm_init_fields env cur p mm) = 1"
  "mm_users (mm_init_fields env cur p mm) = 1" "map_count (mm_init_fields env cur p mm) = 0"
  "mm_struct.truncate (mm_init_fields env (Some c) p mm)
     = (mm_struct.truncate mm)\<lparr>mm_users := 1, mm_flags := mm_flags c AND de_init_mask env\<rparr>"
  by (simp_all add: mm_init_fields_def Let_def mm_struct.truncate_def split: option.splits)

lemma truncate_users: "mm_struct.truncate a = mm_struct.truncate b \<Longrightarrow> mm_users a = mm_users b"
  by (simp add: mm_struct.truncate_def)

lemma dup_mmap_net:
  assumes "dup_mmap env mm old = (r, mm', ev)" "vmas mm = []" "exe_file mm = None"
  shows "net x ev = int (count_list (optv M_file (exe_file mm') @ vmas_res (vmas mm')) x)
     \<and> binfmt mm' = binfmt mm \<and> mm_count mm' = mm_count mm \<and> mm_struct.truncate mm' = mm_struct.truncate mm"
proof (cases "de_killed env")
  case True
  then show ?thesis using assms by (auto simp: dup_mmap_def optv_def)
next
  case False
  obtain exe ev1 where e: "get_mm_exe_file env old = (exe, ev1)" by (cases "get_mm_exe_file env old")
  have e1: "net x ev1 = int (count_list (optv M_file exe) x)"
    using e by (auto simp: get_mm_exe_file_def optv_def split: option.splits if_splits)
  let ?mm = "mm\<lparr>exe_file := exe, total_vm := total_vm old\<rparr>"
  define l where "l = (if de_ksm_fork env \<noteq> None then (de_ksm_fork env, ?mm, [])
     else if de_khugepaged_fork env \<noteq> None then (de_khugepaged_fork env, ?mm, []) else dup_mmap_loop env 0 (vmas old) ?mm)"
  obtain r2 mm2 ev2 where l2: "l = (r2, mm2, ev2)" by (rule prod_cases3)
  have "net x ev2 = int (count_list (vmas_res (vmas mm2)) x) - int (count_list (vmas_res (vmas ?mm)) x)
      \<and> exe_file mm2 = exe_file ?mm \<and> binfmt mm2 = binfmt ?mm \<and> mm_count mm2 = mm_count ?mm
      \<and> mm_struct.truncate mm2 = mm_struct.truncate ?mm"
    using dup_mmap_loop_net [of env 0 "vmas old" ?mm r2 mm2 ev2 x] l2 by (auto simp: l_def split: if_splits)
  moreover have "dup_mmap env mm old
      = (r2, mm2, [Acq M_uprobe, Acq M_lock_old, Acq M_lock_new] @ ev1 @ ev2 @ [Rel M_lock_new, Rel M_lock_old, Rel M_uprobe])"
    using False by (simp only: dup_mmap_def e Let_def prod.case if_False l2 [unfolded l_def])
  ultimately show ?thesis using assms e1 by (auto simp: mm_struct.truncate_def)
qed

lemma mmput_last:
  assumes "exit_mmap_doc env" "mm_users mm = 1" "mm_count mm = 1"
  shows "net x (snd (mmput env mm)) = - int (count_list (mm_res mm) x)"
  using assms
  by (auto simp: mmput_def mmput_final_def set_mm_exe_file_def mmdrop_def mmdrop_final_def Let_def exit_mmap_doc_def
      mm_res_def struct_res_def optv_def split: option.splits)

lemma dup_mm_trace:
  assumes "exit_mmap_doc env" "dup_mm env cur tsk old = (r, ev)"
  shows "net x ev = (case r of None \<Rightarrow> 0 | Some mm \<Rightarrow> int (count_list (mm_res mm) x))"
proof (cases "de_alloc_mm env")
  case False
  then show ?thesis using assms(2) by (auto simp: dup_mm_def)
next
  case True
  obtain i ev1 where i: "mm_init env cur tsk old = (i, ev1)" by (cases "mm_init env cur tsk old")
  note n1 = mm_init_net(1) [OF i, of x]
  show ?thesis
  proof (cases i)
    case None
    then show ?thesis using assms(2) True i n1 by (auto simp: dup_mm_def)
  next
    case (Some mm)
    then have mm: "mm = mm_init_fields env cur tsk old" using mm_init_net(2) [OF i] by simp
    obtain err mm2 ev2 where d: "dup_mmap env mm old = (err, mm2, ev2)" by (rule prod_cases3)
    have d2: "net x ev2 = int (count_list (optv M_file (exe_file mm2) @ vmas_res (vmas mm2)) x)"
      "mm_count mm2 = 1" "mm_users mm2 = 1"
      using dup_mmap_net [OF d, of x] truncate_users [of mm2 mm] mm by (simp_all add: mm_init_fields_simps)
    let ?mm = "mm2\<lparr>binfmt := None, mm_owner := None\<rparr>"
    have put: "net x (snd (mmput env ?mm)) = - int (count_list (mm_res ?mm) x)"
      by (rule mmput_last [OF assms(1)]) (simp_all add: d2)
    show ?thesis
    proof (cases "err = None \<and> (binfmt mm2 \<noteq> None \<longrightarrow> de_module_get env)")
      case True
      then have "r = Some mm2" "ev = Acq M_mm # ev1 @ ev2 @ map Acq (optv M_module (binfmt mm2))"
        using assms(2) \<open>de_alloc_mm env\<close> i Some d by (auto simp: dup_mm_def Let_def)
      then show ?thesis using n1 Some d2 by (simp add: mm_res_def struct_res_def)
    next
      case False
      then have "r = None" "ev = Acq M_mm # ev1 @ ev2 @ snd (mmput env ?mm)"
        using assms(2) True i Some d by (auto simp: dup_mm_def Let_def split: if_splits)
      then show ?thesis using n1 Some d2 put by (simp add: mm_res_def struct_res_def optv_def [of _ None])
    qed
  qed
qed

lemma dup_mm_Some:
  assumes "dup_mm env cur tsk old = (Some mm, ev)"
  shows "\<exists>ev2. dup_mmap env (mm_init_fields env cur tsk old) old = (None, mm, ev2)" "mm_users mm = 1" "mm_count mm = 1"
proof -
  show d: "\<exists>ev2. dup_mmap env (mm_init_fields env cur tsk old) old = (None, mm, ev2)"
    using assms mm_init_net(2) [of env cur tsk old]
    by (auto simp: dup_mm_def Let_def split: if_splits prod.splits option.splits)
  then show "mm_users mm = 1" "mm_count mm = 1"
    using dup_mmap_net [of env "mm_init_fields env cur tsk old" old None mm] truncate_users [of mm "mm_init_fields env cur tsk old"]
    by (auto simp: mm_init_fields_simps)
qed

subsection \<open>Holders\<close>

text \<open>An address space with the references others hold: users (\<^verbatim>\<open>mmget\<close>, given back by \<^verbatim>\<open>mmput\<close>) and lazy
  references to the structure only (\<^verbatim>\<open>mmgrab\<close>, given back by \<^verbatim>\<open>mmdrop\<close>).\<close>

record mm_life =
  lf_mm :: mm_full
  lf_users :: nat
  lf_grabs :: nat
  lf_log :: "mres revent list"

datatype life_label = Mmget | Mmput | Mmgrab | Mmdrop

inductive life_step :: "dup_env \<Rightarrow> life_label \<Rightarrow> mm_life \<Rightarrow> mm_life \<Rightarrow> bool" for env where
  life_get: "lf_users s > 0 \<Longrightarrow> life_step env Mmget s
    (s\<lparr>lf_mm := (lf_mm s)\<lparr>mm_users := mm_users (lf_mm s) + 1\<rparr>, lf_users := lf_users s + 1\<rparr>)"
| life_put: "lf_users s > 0 \<Longrightarrow> mmput env (lf_mm s) = (mm, ev) \<Longrightarrow> life_step env Mmput s
    (s\<lparr>lf_mm := mm, lf_users := lf_users s - 1, lf_log := lf_log s @ ev\<rparr>)"
| life_grab: "lf_users s > 0 \<or> lf_grabs s > 0 \<Longrightarrow> life_step env Mmgrab s
    (s\<lparr>lf_mm := (lf_mm s)\<lparr>mm_count := mm_count (lf_mm s) + 1\<rparr>, lf_grabs := lf_grabs s + 1\<rparr>)"
| life_drop: "lf_grabs s > 0 \<Longrightarrow> mmdrop (lf_mm s) = (mm, ev) \<Longrightarrow> life_step env Mmdrop s
    (s\<lparr>lf_mm := mm, lf_grabs := lf_grabs s - 1, lf_log := lf_log s @ ev\<rparr>)"

definition life_holds :: "mm_life \<Rightarrow> mres list" where
  "life_holds s = (if lf_users s > 0 then mm_res (lf_mm s) else if lf_grabs s > 0 then struct_res else [])"

definition life_inv :: "mm_life \<Rightarrow> bool" where
  "life_inv s \<longleftrightarrow> mm_users (lf_mm s) = int (lf_users s)
     \<and> mm_count (lf_mm s) = int (lf_grabs s) + (if lf_users s > 0 then 1 else 0)
     \<and> (\<forall>x. net x (lf_log s) = int (count_list (life_holds s) x))"

lemma life_step_inv:
  assumes "life_step env l s s'" "exit_mmap_doc env" "life_inv s"
  shows "life_inv s'"
  using assms(1)
proof cases
  case life_get
  then show ?thesis using assms(3) by (auto simp: life_inv_def life_holds_def mm_res_def)
next
  case (life_put mm ev)
  show ?thesis
  proof (cases "lf_users s = 1")
    case True
    let ?m = "lf_mm s"
    have ev: "ev = de_exit_mmap env (vmas ?m) @ map Rel (optv M_file (exe_file ?m)) @ map Rel (optv M_module (binfmt ?m))
        @ (if lf_grabs s = 0 then mmdrop_final else [])" "mm_users mm = 0" "mm_count mm = int (lf_grabs s)"
      using life_put(4) True assms(3)
      by (auto simp: mmput_def mmput_final_def set_mm_exe_file_def mmdrop_def Let_def life_inv_def optv_def)
    have "net x ev = int (count_list (if lf_grabs s = 0 then [] else struct_res) x) - int (count_list (mm_res ?m) x)" for x
      using assms(2) unfolding ev by (auto simp: exit_mmap_doc_def mm_res_def struct_res_def mmdrop_final_def)
    then show ?thesis using life_put(1-3) True assms(3) ev by (auto simp: life_inv_def life_holds_def)
  next
    case False
    then have "mm = (lf_mm s)\<lparr>mm_users := mm_users (lf_mm s) - 1\<rparr>" "ev = []"
      using life_put(3,4) assms(3) by (auto simp: mmput_def Let_def life_inv_def)
    then show ?thesis using life_put(1-3) False assms(3) by (auto simp: life_inv_def life_holds_def mm_res_def)
  qed
next
  case life_grab
  then show ?thesis using assms(3) by (auto simp: life_inv_def life_holds_def mm_res_def)
next
  case (life_drop mm ev)
  then have "mm = (lf_mm s)\<lparr>mm_count := mm_count (lf_mm s) - 1\<rparr>"
    "ev = (if lf_users s = 0 \<and> lf_grabs s = 1 then mmdrop_final else [])"
    using assms(3) by (auto simp: mmdrop_def Let_def life_inv_def split: if_splits)
  then show ?thesis using life_drop(1-3) assms(3)
    by (auto simp: life_inv_def life_holds_def mm_res_def struct_res_def mmdrop_final_def)
qed

interpretation life: labelled "life_step env" "\<lambda>s. exit_mmap_doc env \<and> life_inv s" "\<lambda>_ _. True" for env
  by unfold_locales (use life_step_inv in blast)

subsection \<open>Access from outside\<close>

text \<open>References to the memory of an address space, and to its structure only.\<close>

datatype mmref = Mm_user mmptr | Mm_grab mmptr

text \<open>\<open>lock\<close> is the error of \<^verbatim>\<open>down_read_killable\<close>, \<open>curmm\<close> is \<^verbatim>\<open>current->mm\<close>, \<open>may\<close> is \<^verbatim>\<open>ptrace_may_access\<close>.\<close>

definition mm_access ::
  "errno option \<Rightarrow> mmptr option \<Rightarrow> bool \<Rightarrow> kernel \<Rightarrow> task_struct \<Rightarrow> mmptr option result \<times> mmref revent list" where
  "mm_access lock curmm may k task =
     (case lock of
        Some err \<Rightarrow> (Inl err, [])
      | None \<Rightarrow>
          (case get_task_mm k task of
             None \<Rightarrow> (Inr None, [])
           | Some (m, mm) \<Rightarrow>
               if Some m \<noteq> curmm \<and> \<not> may then (Inl EACCES, [Acq (Mm_user m), Rel (Mm_user m)])
               else (Inr (Some m), [Acq (Mm_user m)])))"

text \<open>\<open>task\<close> is \<^verbatim>\<open>get_proc_task\<close>.\<close>

definition proc_mem_open ::
  "errno option \<Rightarrow> mmptr option \<Rightarrow> bool \<Rightarrow> kernel \<Rightarrow> tptr option \<Rightarrow> mmptr option result \<times> mmref revent list \<times> kevent list" where
  "proc_mem_open lock curmm may k task =
     (case task of
        None \<Rightarrow> (Inl ESRCH, [], [])
      | Some p \<Rightarrow>
          (case tasks k p of
             None \<Rightarrow> (Inl ESRCH, [], [])
           | Some t \<Rightarrow>
               (case mm_access lock curmm may k t of
                  (Inr (Some m), ev) \<Rightarrow> (Inr (Some m), ev @ [Acq (Mm_grab m), Rel (Mm_user m)], [Get_task p, Put_task p])
                | (r, ev) \<Rightarrow> (r, ev, [Get_task p, Put_task p]))))"

text \<open>Opening \<^verbatim>\<open>mem\<close>, \<^verbatim>\<open>environ\<close> or \<^verbatim>\<open>auxv\<close>: the error or the new \<^verbatim>\<open>file->private_data\<close>; and closing.\<close>

definition mem_open ::
  "errno option \<Rightarrow> mmptr option \<Rightarrow> bool \<Rightarrow> kernel \<Rightarrow> tptr option \<Rightarrow> mmptr option result \<times> mmref revent list" where
  "mem_open lock curmm may k task = (case proc_mem_open lock curmm may k task of (r, ev, _) \<Rightarrow> (r, ev))"

definition mem_release :: "mmptr option \<Rightarrow> mmref revent list" where
  "mem_release private_data = (case private_data of None \<Rightarrow> [] | Some m \<Rightarrow> [Rel (Mm_grab m)])"

definition SIGNAL_GROUP_COREDUMP :: u32 where "SIGNAL_GROUP_COREDUMP = 0x8"

datatype release_event = Put_user_zero uptr | Futex_wake uptr

text \<open>\<open>ctid\<close> is \<^verbatim>\<open>tsk->clear_child_tid\<close>, \<open>users\<close> the count of the address space given up.\<close>

definition mm_release ::
  "u32 \<Rightarrow> int \<Rightarrow> uptr option \<Rightarrow> tptr \<Rightarrow> kernel \<Rightarrow> uptr option \<times> kernel \<times> release_event list \<times> cevent list" where
  "mm_release sig_flags users ctid tsk k =
     (let ev = (case ctid of
                  None \<Rightarrow> []
                | Some a \<Rightarrow> if sig_flags AND SIGNAL_GROUP_COREDUMP = 0 \<and> users > 1 then [Put_user_zero a, Futex_wake a] else []);
          (k', cev) = (if (case tasks k tsk of None \<Rightarrow> False | Some t \<Rightarrow> t_vfork_done t) then complete_vfork_done tsk k else (k, []))
      in (None, k', ev, cev))"

subsection \<open>Properties\<close>

text \<open>
  C29: \<^verbatim>\<open>dup_mm\<close> implements the copy that \<^verbatim>\<open>copy_process\<close> relies on: a new structure with one user, the argument and environment
  addresses of the old one and its flags cut to the inherited ones.  It has a copy of every area but those marked
  \<^verbatim>\<open>VM_DONTCOPY\<close>, in order, unlocked and without pages where \<^verbatim>\<open>VM_WIPEONFORK\<close> asks for it; the number of areas and the
  total size count exactly these.\<close>

theorem dup_mm_copies:
  assumes "dup_mm env (Some old) tsk old = (Some mm, ev)" "stat_doc env"
  shows "mm_struct.truncate mm = new_mm_struct (de_init_mask env) (mm_struct.truncate old)
    \<and> list_all2 copy_of (copied_areas (vmas old)) (vmas mm) \<and> map_count mm = int (length (vmas mm))
    \<and> total_vm mm = total_vm old - (\<Sum>v \<leftarrow> filter (\<lambda>v. vm_flags v AND VM_DONTCOPY \<noteq> 0) (vmas old). int (vma_pages v))"
proof -
  let ?i = "mm_init_fields env (Some old) tsk old"
  obtain ev2 where d: "dup_mmap env ?i old = (None, mm, ev2)" using dup_mm_Some(1) [OF assms(1)] by blast
  have "mm_struct.truncate mm = mm_struct.truncate ?i" using dup_mmap_net [OF d] by (simp add: mm_init_fields_simps)
  then have "mm_struct.truncate mm = new_mm_struct (de_init_mask env) (mm_struct.truncate old)"
    unfolding mm_init_fields_simps(7) by (simp add: new_mm_struct_def mm_struct.truncate_def)
  moreover obtain exe ev3 where "dup_mmap_loop env 0 (vmas old) (?i\<lparr>exe_file := exe, total_vm := total_vm old\<rparr>) = (None, mm, ev3)"
    using d by (auto simp: dup_mmap_def Let_def split: if_splits prod.splits)
  note l = dup_mmap_loop_copies [OF this assms(2)]
  have "list_all2 copy_of (copied_areas (vmas old)) (vmas mm)" using l by (auto simp: mm_init_fields_simps)
  moreover from this have "length (vmas mm) = length (copied_areas (vmas old))" by (simp add: list_all2_lengthD)
  ultimately show ?thesis using l by (simp add: mm_init_fields_simps)
qed

definition demo_de :: dup_env where
  "demo_de = \<lparr>de_alloc_mm = True, de_alloc_pgd = True, de_context = None, de_killed = False, de_file_live = (\<lambda>_. True),
     de_ksm_fork = None, de_khugepaged_fork = None, de_fatal_signal = (\<lambda>_. False), de_enough_memory = (\<lambda>_. None),
     de_alloc_vma = (\<lambda>_. True), de_dup_policy = (\<lambda>_. None), de_userfaultfd = (\<lambda>_. None), de_anon_vma_fork = (\<lambda>_. None),
     de_anon_vma = (\<lambda>i. Some i), de_copy_page_range = (\<lambda>_. None), de_arch_dup_mmap = None, de_module_get = True,
     de_init_mask = 0xff, de_def_mask = 0, de_dump_filter = 0, de_stat = (\<lambda>fl n total. total + n),
     de_exit_mmap = (\<lambda>vs. map Rel (vmas_res vs))\<rparr>"

lemma demo_exit_mmap: "exit_mmap_doc demo_de" "exit_mmap_doc (demo_de\<lparr>de_copy_page_range := c\<rparr>)"
  by (simp_all add: exit_mmap_doc_def demo_de_def)

text \<open>A mapped file, an area that is not copied, and a locked, accounted one that is wiped.\<close>

definition demo_vmas :: "vma list" where
  "demo_vmas = [\<lparr>vm_start = 0x1000, vm_end = 0x3000, vm_flags = 0, vm_file = Some 9, vm_anon = None\<rparr>,
     \<lparr>vm_start = 0x4000, vm_end = 0x5000, vm_flags = VM_DONTCOPY, vm_file = None, vm_anon = None\<rparr>,
     \<lparr>vm_start = 0x6000, vm_end = 0x8000, vm_flags = VM_WIPEONFORK OR VM_LOCKED OR VM_ACCOUNT, vm_file = None, vm_anon = Some 4\<rparr>]"

definition demo_mm_full :: mm_full where
  "demo_mm_full = zero_mm\<lparr>mm_flags := 0x1ff, mm_users := 3, mm_count := 2, total_vm := 5, map_count := 3, vmas := demo_vmas,
     exe_file := Some 9, binfmt := Some 2\<rparr>"

lemmas dup_eval = dup_mm_def dup_mmap_def mm_init_def mm_init_fields_def init_stages_def fail_if_def vma_stages_def nomem_def
  demo_de_def demo_mm_full_def demo_vmas_def zero_mm_def get_mm_exe_file_def vm_flag_defs vma_copy_def Let_def

theorem dup_mm_copies_witness:
  "\<exists>mm ev. dup_mm demo_de (Some demo_mm_full) (Some 5) demo_mm_full = (Some mm, ev) \<and> total_vm mm = 4 \<and> mm_flags mm = 0xff
     \<and> map vm_start (vmas mm) = [0x1000, 0x6000] \<and> map_count mm = 2"
proof -
  have "\<exists>mm ev. dup_mm demo_de (Some demo_mm_full) (Some 5) demo_mm_full = (Some mm, ev) \<and> vmas mm = [vma_copy demo_de 0 (demo_vmas ! 0), vma_copy demo_de 2 (demo_vmas ! 2)]"
    by (simp add: dup_eval)
  then obtain mm ev where d: "dup_mm demo_de (Some demo_mm_full) (Some 5) demo_mm_full = (Some mm, ev)"
    and v: "vmas mm = [vma_copy demo_de 0 (demo_vmas ! 0), vma_copy demo_de 2 (demo_vmas ! 2)]" by blast
  have st: "stat_doc demo_de" by (simp add: stat_doc_def demo_de_def)
  have "total_vm demo_mm_full - (\<Sum>v \<leftarrow> filter (\<lambda>v. vm_flags v AND VM_DONTCOPY \<noteq> 0) (vmas demo_mm_full). int (vma_pages v)) = 4"
    by (simp add: demo_mm_full_def zero_mm_def demo_vmas_def vm_flag_defs vma_pages_def PAGE_SHIFT_def drop_bit_eq_div)
  moreover have "mm_flags (new_mm_struct (de_init_mask demo_de) (mm_struct.truncate demo_mm_full)) = 0xff"
    by (simp add: new_mm_struct_def mm_struct.truncate_def demo_de_def demo_mm_full_def)
  moreover have "mm_flags mm = mm_flags (mm_struct.truncate mm)" by (simp add: mm_struct.truncate_def)
  ultimately show ?thesis using dup_mm_copies [OF d st] d v by (auto simp: vma_copy_def demo_vmas_def)
qed

text \<open>
  A failing \<^verbatim>\<open>dup_mm\<close> leaves nothing behind, at whichever of its steps and areas it fails: every structure, page
  table, area, policy, file reference, accounted page and lock it took is given back exactly once.\<close>

theorem dup_mm_unwinds:
  assumes "exit_mmap_doc env" "dup_mm env cur tsk old = (None, ev)"
  shows "net x ev = 0"
  using dup_mm_trace [OF assms] by simp

theorem dup_mm_unwinds_witness:
  "\<exists>ev. dup_mm (demo_de\<lparr>de_copy_page_range := (\<lambda>_. Some ENOMEM)\<rparr>) (Some demo_mm_full) (Some 5) demo_mm_full = (None, ev)
     \<and> net (M_file 9) ev = 0 \<and> Acq (M_file 9) \<in> set ev"
proof -
  let ?e = "demo_de\<lparr>de_copy_page_range := (\<lambda>_. Some ENOMEM)\<rparr>"
  have "\<exists>ev. dup_mm ?e (Some demo_mm_full) (Some 5) demo_mm_full = (None, ev) \<and> Acq (M_file 9) \<in> set ev"
    by (simp add: dup_eval)
  then show ?thesis using dup_mm_unwinds [OF demo_exit_mmap(2)] by metis
qed

text \<open>
  C30: The counts of an address space rule its life: in every sequence of \<^verbatim>\<open>mmget\<close>, \<^verbatim>\<open>mmput\<close>, \<^verbatim>\<open>mmgrab\<close> and \<^verbatim>\<open>mmdrop\<close> by holders that only give
  back what they have, the areas and files are there as long as someone uses it and are released, once, with the last
  user; the structure and its page table stay until the last lazy reference is dropped too, and
  then nothing is left.\<close>

theorem mm_lifetime:
  assumes "exit_mmap_doc env" "dup_mm env cur tsk old = (Some mm, ev)"
    and "run (life_step env) \<lparr>lf_mm = mm, lf_users = 1, lf_grabs = 0, lf_log = ev\<rparr> ls s"
  shows "net x (lf_log s) = int (count_list (if lf_users s > 0 then mm_res (lf_mm s) else if lf_grabs s > 0 then struct_res else []) x)"
proof -
  have "life_inv \<lparr>lf_mm = mm, lf_users = 1, lf_grabs = 0, lf_log = ev\<rparr>"
    using dup_mm_trace [OF assms(1,2)] dup_mm_Some(2,3) [OF assms(2)] by (simp add: life_inv_def life_holds_def)
  then have "life_inv s" using life.invariant [OF assms(3)] assms(1) by simp
  then show ?thesis by (simp add: life_inv_def life_holds_def)
qed

theorem mm_lifetime_witness:
  "\<exists>mm ev s. dup_mm demo_de (Some demo_mm_full) (Some 5) demo_mm_full = (Some mm, ev)
     \<and> run (life_step demo_de) \<lparr>lf_mm = mm, lf_users = 1, lf_grabs = 0, lf_log = ev\<rparr> [Mmgrab, Mmput] s
     \<and> net M_vma (lf_log s) = 0 \<and> net M_mm (lf_log s) = 1"
proof -
  have "\<exists>mm ev. dup_mm demo_de (Some demo_mm_full) (Some 5) demo_mm_full = (Some mm, ev)" by (simp add: dup_eval)
  then obtain mm ev where d: "dup_mm demo_de (Some demo_mm_full) (Some 5) demo_mm_full = (Some mm, ev)" by blast
  let ?s0 = "\<lparr>lf_mm = mm, lf_users = 1, lf_grabs = 0, lf_log = ev\<rparr>"
  let ?s1 = "?s0\<lparr>lf_mm := mm\<lparr>mm_count := mm_count mm + 1\<rparr>, lf_grabs := 1\<rparr>"
  obtain mm2 ev2 where p: "mmput demo_de (lf_mm ?s1) = (mm2, ev2)" by (rule prod.exhaust)
  let ?s2 = "?s1\<lparr>lf_mm := mm2, lf_users := 0, lf_log := ev @ ev2\<rparr>"
  have "life_step demo_de Mmgrab ?s0 ?s1" using life_grab [of ?s0 demo_de] by simp
  moreover have "life_step demo_de Mmput ?s1 ?s2" using life_put [of ?s1 demo_de mm2 ev2] p by simp
  ultimately have r: "run (life_step demo_de) ?s0 [Mmgrab, Mmput] ?s2" by (auto simp: run_simps)
  show ?thesis using mm_lifetime [OF demo_exit_mmap(1) d r, of M_vma] mm_lifetime [OF demo_exit_mmap(1) d r, of M_mm] d r
    by (auto simp: struct_res_def)
qed

text \<open>
  An open \<^verbatim>\<open>/proc/<pid>/mem\<close> (\<^verbatim>\<open>environ\<close>, \<^verbatim>\<open>auxv\<close>) keeps the structure of the address space but not its memory: opening ends with one
  reference to the structure and none to the memory, closing gives it back, and a refused or failing
  open holds nothing.  It is refused exactly to those who may not trace the task and do not share its memory.\<close>

theorem mem_open_pins_struct:
  assumes "tasks k p = Some t"
  shows "case mem_open None curmm may k (Some p) of
      (Inl e, ev) \<Rightarrow> e = EACCES \<and> \<not> may \<and> get_task_mm k t \<noteq> None \<and> (\<forall>x. net x ev = 0)
    | (Inr None, ev) \<Rightarrow> get_task_mm k t = None \<and> ev = []
    | (Inr (Some m), ev) \<Rightarrow> (may \<or> curmm = Some m) \<and> (\<forall>x. net x ev = (if x = Mm_grab m then 1 else 0))
        \<and> (\<forall>x. net x (ev @ mem_release (Some m)) = 0)"
  using assms
  by (auto simp: mem_open_def proc_mem_open_def mm_access_def mem_release_def split: option.splits prod.splits)

theorem mem_open_pins_struct_witness:
  "mem_open None None True demo_kernel (Some 2) = (Inr (Some 2), [Acq (Mm_user 2), Acq (Mm_grab 2), Rel (Mm_user 2)])
   \<and> net (Mm_user 2) (snd (mem_open None None True demo_kernel (Some 2))) = 0"
proof -
  have "mem_open None None True demo_kernel (Some 2) = (Inr (Some 2), [Acq (Mm_user 2), Acq (Mm_grab 2), Rel (Mm_user 2)])"
    by (simp add: mem_open_def proc_mem_open_def mm_access_def get_task_mm_def demo_task_def demo_kernel_def)
  then show ?thesis using mem_open_pins_struct [OF demo_kernel_sel(5), where curmm = None and may = True] by simp
qed

end
