(* ===== verification/Proc_Link.thy ===== *)
theory Proc_Link
  imports Proc_Tables Mm_Life
begin

unbundle bit_operations_syntax

section \<open>The links of \<^verbatim>\<open>/proc/<pid>\<close>\<close>

text \<open>
  \<^verbatim>\<open>fs/proc/base.c\<close>: \<^verbatim>\<open>cwd\<close>, \<^verbatim>\<open>root\<close> and \<^verbatim>\<open>exe\<close>, following and reading a link, and \<^verbatim>\<open>proc_setattr\<close>.  Paths and open files are numbers.
  A function gives its result and the references and locks it takes and drops; following a link hands the reference of the
  path to \<^verbatim>\<open>nd_jump_link\<close>.

  The locale \<open>link_target\<close> is what following and reading a link rely on: a target that was found is referenced once, and
  nothing else is kept.  It is interpreted on the three links.
\<close>

datatype lres = L_task tptr | L_alloc_lock tptr | L_path nat | L_mm mres | L_page

text \<open>\<open>le_task\<close> is \<^verbatim>\<open>get_proc_task\<close>, \<open>le_fs\<close> the working and the root directory in \<^verbatim>\<open>task->fs\<close>, \<open>le_mm\<close> the address space of the
  task, \<open>le_f_path\<close> is \<^verbatim>\<open>f_path\<close> of an open file, \<open>le_d_path\<close> is \<^verbatim>\<open>d_path\<close> with a buffer of one page.\<close>

record link_env =
  le_task :: "(tptr \<times> task_struct) option"
  le_may_read :: bool
  le_fs :: "tptr \<Rightarrow> (nat \<times> nat) option"
  le_mm :: "tptr \<Rightarrow> mm_full option"
  le_dup :: dup_env
  le_f_path :: "nat \<Rightarrow> nat"
  le_nd_jump_link :: "nat \<Rightarrow> errno option"
  le_page :: bool
  le_d_path :: "nat \<Rightarrow> string result"
  le_copy_fault :: bool

definition get_task_root :: "link_env \<Rightarrow> tptr \<Rightarrow> nat result \<times> lres revent list" where
  "get_task_root env task =
     (case le_fs env task of
        Some (pwd, root) \<Rightarrow> (Inr root, [Acq (L_alloc_lock task), Acq (L_path root), Rel (L_alloc_lock task)])
      | None \<Rightarrow> (Inl ENOENT, [Acq (L_alloc_lock task), Rel (L_alloc_lock task)]))"

definition proc_cwd_link :: "link_env \<Rightarrow> nat result \<times> lres revent list" where
  "proc_cwd_link env =
     (case le_task env of
        None \<Rightarrow> (Inl ENOENT, [])
      | Some (task, _) \<Rightarrow>
          (case le_fs env task of
             Some (pwd, root) \<Rightarrow>
               (Inr pwd, [Acq (L_task task), Acq (L_alloc_lock task), Acq (L_path pwd), Rel (L_alloc_lock task), Rel (L_task task)])
           | None \<Rightarrow> (Inl ENOENT, [Acq (L_task task), Acq (L_alloc_lock task), Rel (L_alloc_lock task), Rel (L_task task)])))"

definition proc_root_link :: "link_env \<Rightarrow> nat result \<times> lres revent list" where
  "proc_root_link env =
     (case le_task env of
        None \<Rightarrow> (Inl ENOENT, [])
      | Some (task, _) \<Rightarrow> (case get_task_root env task of (r, ev) \<Rightarrow> (r, [Acq (L_task task)] @ ev @ [Rel (L_task task)])))"

definition proc_exe_link :: "link_env \<Rightarrow> nat result \<times> lres revent list" where
  "proc_exe_link env =
     (case le_task env of
        None \<Rightarrow> (Inl ENOENT, [])
      | Some (task, t) \<Rightarrow>
          (case get_task_exe_file (le_dup env) t (le_mm env task) of
             (exe, ev) \<Rightarrow>
               let ev = [Acq (L_task task)] @ map (map_revent L_mm) ev @ [Rel (L_task task)]
               in case exe of
                    Some f \<Rightarrow> (Inr (le_f_path env f), ev @ [Acq (L_path (le_f_path env f)), Rel (L_mm (M_file f))])
                  | None \<Rightarrow> (Inl ENOENT, ev)))"

definition proc_fd_access_allowed :: "link_env \<Rightarrow> bool \<times> lres revent list" where
  "proc_fd_access_allowed env =
     (case le_task env of
        None \<Rightarrow> (False, [])
      | Some (task, _) \<Rightarrow> (le_may_read env, [Acq (L_task task), Rel (L_task task)]))"

text \<open>\<open>dentry\<close> is whether there is a dentry (there is none in a walk under RCU).\<close>

definition proc_pid_get_link ::
  "(link_env \<Rightarrow> nat result \<times> lres revent list) \<Rightarrow> bool \<Rightarrow> link_env \<Rightarrow> nat result \<times> lres revent list" where
  "proc_pid_get_link proc_get_link dentry env =
     (if \<not> dentry then (Inl ECHILD, [])
      else case proc_fd_access_allowed env of
        (allowed, ev) \<Rightarrow>
          if \<not> allowed then (Inl EACCES, ev)
          else case proc_get_link env of
            (Inl e, ev2) \<Rightarrow> (Inl e, ev @ ev2)
          | (Inr path, ev2) \<Rightarrow>
              ((case le_nd_jump_link env path of None \<Rightarrow> Inr path | Some e \<Rightarrow> Inl e), ev @ ev2 @ [Rel (L_path path)]))"

text \<open>The characters copied to the user.\<close>

definition do_proc_readlink :: "link_env \<Rightarrow> nat \<Rightarrow> nat \<Rightarrow> string result \<times> lres revent list" where
  "do_proc_readlink env path buflen =
     (if \<not> le_page env then (Inl ENOMEM, [])
      else ((case le_d_path env path of
               Inl e \<Rightarrow> Inl e
             | Inr pathname \<Rightarrow>
                 let len = length pathname;
                     len = (if len > buflen then buflen else len)
                 in if le_copy_fault env then Inl EFAULT else Inr (take len pathname)),
            [Acq L_page, Rel L_page]))"

definition proc_pid_readlink ::
  "(link_env \<Rightarrow> nat result \<times> lres revent list) \<Rightarrow> nat \<Rightarrow> link_env \<Rightarrow> string result \<times> lres revent list" where
  "proc_pid_readlink proc_get_link buflen env =
     (case proc_fd_access_allowed env of
        (allowed, ev) \<Rightarrow>
          if \<not> allowed then (Inl EACCES, ev)
          else case proc_get_link env of
            (Inl e, ev2) \<Rightarrow> (Inl e, ev @ ev2)
          | (Inr path, ev2) \<Rightarrow> (case do_proc_readlink env path buflen of (r, ev3) \<Rightarrow> (r, ev @ ev2 @ ev3 @ [Rel (L_path path)])))"

definition ATTR_MODE :: u32 where "ATTR_MODE = 1"

text \<open>\<open>prepare\<close> is the result of \<^verbatim>\<open>setattr_prepare\<close>, \<open>copy\<close> is \<^verbatim>\<open>setattr_copy\<close>.  The last component says whether the inode was marked
  dirty.\<close>

definition proc_setattr :: "errno option \<Rightarrow> (u32 \<Rightarrow> inode \<Rightarrow> inode) \<Rightarrow> u32 \<Rightarrow> inode \<Rightarrow> errno option \<times> inode \<times> bool" where
  "proc_setattr prepare copy ia_valid inode =
     (if ia_valid AND ATTR_MODE \<noteq> 0 then (Some EPERM, inode, False)
      else case prepare of
        Some e \<Rightarrow> (Some e, inode, False)
      | None \<Rightarrow> (None, copy ia_valid inode, True))"

subsection \<open>The contract of a link\<close>

locale link_target =
  fixes get_link :: "link_env \<Rightarrow> nat result \<times> lres revent list"
    and target :: "link_env \<Rightarrow> nat option"
  assumes found: "fst (get_link env) = (case target env of Some p \<Rightarrow> Inr p | None \<Rightarrow> Inl ENOENT)"
    and referenced: "net x (snd (get_link env)) = (case target env of Some p \<Rightarrow> if x = L_path p then 1 else 0 | None \<Rightarrow> 0)"
begin

lemma get_link_cases:
  obtains (hit) p ev where "get_link env = (Inr p, ev)" "target env = Some p" "\<And>x. net x ev = (if x = L_path p then 1 else 0)"
    | (miss) ev where "get_link env = (Inl ENOENT, ev)" "target env = None" "\<And>x. net x ev = 0"
proof (cases "target env")
  case None
  obtain r ev where "get_link env = (r, ev)" by (cases "get_link env")
  with None found [of env] referenced [where env = env] show ?thesis by (intro miss) auto
next
  case (Some p)
  obtain r ev where "get_link env = (r, ev)" by (cases "get_link env")
  with Some found [of env] referenced [where env = env] show ?thesis by (intro hit) auto
qed

lemma readlink_balanced: "net x (snd (proc_pid_readlink get_link buflen env)) = 0"
  by (rule get_link_cases [of env])
    (auto simp: proc_pid_readlink_def proc_fd_access_allowed_def do_proc_readlink_def split: option.splits)

lemma follow_balanced: "net x (snd (proc_pid_get_link get_link dentry env)) = 0"
  by (rule get_link_cases [of env]) (auto simp: proc_pid_get_link_def proc_fd_access_allowed_def split: option.splits)

lemma readlink_refused:
  "le_task env = None \<or> \<not> le_may_read env \<Longrightarrow>
   fst (proc_pid_readlink get_link buflen env) = Inl EACCES \<and> fst (proc_pid_get_link get_link True env) = Inl EACCES"
  by (auto simp: proc_pid_readlink_def proc_pid_get_link_def proc_fd_access_allowed_def split: option.splits)

lemma readlink_text:
  assumes "le_task env \<noteq> None" "le_may_read env" "target env = Some p" "le_page env" "le_d_path env p = Inr s" "\<not> le_copy_fault env"
  shows "fst (proc_pid_readlink get_link buflen env) = Inr (take buflen s)"
  by (rule get_link_cases [of env])
    (use assms in \<open>auto simp: proc_pid_readlink_def proc_fd_access_allowed_def do_proc_readlink_def Let_def split: option.splits\<close>)

lemma readlink_missing:
  assumes "le_task env \<noteq> None" "le_may_read env" "target env = None"
  shows "fst (proc_pid_readlink get_link buflen env) = Inl ENOENT"
  by (rule get_link_cases [of env]) (use assms in \<open>auto simp: proc_pid_readlink_def proc_fd_access_allowed_def split: option.splits\<close>)

lemma follow_jumps:
  assumes "le_task env \<noteq> None" "le_may_read env" "target env = Some p" "le_nd_jump_link env p = None"
  shows "fst (proc_pid_get_link get_link True env) = Inr p"
  by (rule get_link_cases [of env])
    (use assms in \<open>auto simp: proc_pid_get_link_def proc_fd_access_allowed_def split: option.splits\<close>)

end

text \<open>What the three links stand for.\<close>

definition cwd_of :: "link_env \<Rightarrow> nat option" where
  "cwd_of env = (case le_task env of None \<Rightarrow> None | Some (p, _) \<Rightarrow> map_option fst (le_fs env p))"

definition root_of :: "link_env \<Rightarrow> nat option" where
  "root_of env = (case le_task env of None \<Rightarrow> None | Some (p, _) \<Rightarrow> map_option snd (le_fs env p))"

definition exe_of :: "link_env \<Rightarrow> nat option" where
  "exe_of env = (case le_task env of
       None \<Rightarrow> None
     | Some (p, t) \<Rightarrow> (case le_mm env p of
           None \<Rightarrow> None
         | Some mm \<Rightarrow> if t_flags t AND PF_KTHREAD = 0
             then map_option (le_f_path env) (case exe_file mm of Some f \<Rightarrow> if de_file_live (le_dup env) f then Some f else None | None \<Rightarrow> None)
             else None))"

interpretation cwd_link: link_target proc_cwd_link cwd_of
  by unfold_locales (auto simp: proc_cwd_link_def cwd_of_def split: option.splits)

interpretation root_link: link_target proc_root_link root_of
  by unfold_locales (auto simp: proc_root_link_def get_task_root_def root_of_def split: option.splits)

interpretation exe_link: link_target proc_exe_link exe_of
  by unfold_locales
    (auto simp: proc_exe_link_def exe_of_def get_task_exe_file_def get_mm_exe_file_def Let_def split: option.splits)

lemma proc_setattr_keeps_mode:
  "(\<And>v i. v AND ATTR_MODE = 0 \<Longrightarrow> i_mode (copy v i) = i_mode i) \<Longrightarrow> i_mode (fst (snd (proc_setattr prepare copy ia_valid inode))) = i_mode inode"
  by (simp add: proc_setattr_def split: option.splits)

text \<open>
  the links \<^verbatim>\<open>cwd\<close>, \<^verbatim>\<open>root\<close> and \<^verbatim>\<open>exe\<close> are readable exactly with the right to read the process.  For a process that has gone or may
  not be read, both \<^verbatim>\<open>readlink\<close> and following the link are refused with \<^verbatim>\<open>EACCES\<close>.  Otherwise following leads to the working
  directory, the root or the executable, and \<^verbatim>\<open>readlink\<close> gives the first \<open>buflen\<close> characters of its path, or \<^verbatim>\<open>ENOENT\<close> when there is none
  (a kernel thread, an exited task).  On every path the references of the task, the path and the file and the lock are
  dropped again.\<close>

theorem links_protected_exact:
  assumes "(get_link, tgt) \<in> {(proc_cwd_link, cwd_of), (proc_root_link, root_of), (proc_exe_link, exe_of)}"
  shows "(\<forall>x. net x (snd (proc_pid_readlink get_link buflen env)) = 0) \<and> (\<forall>x. net x (snd (proc_pid_get_link get_link dentry env)) = 0)
    \<and> (le_task env = None \<or> \<not> le_may_read env \<longrightarrow>
        fst (proc_pid_readlink get_link buflen env) = Inl EACCES \<and> fst (proc_pid_get_link get_link True env) = Inl EACCES)
    \<and> (le_task env \<noteq> None \<and> le_may_read env \<longrightarrow>
        (case tgt env of
           None \<Rightarrow> fst (proc_pid_readlink get_link buflen env) = Inl ENOENT
         | Some p \<Rightarrow>
             (le_nd_jump_link env p = None \<longrightarrow> fst (proc_pid_get_link get_link True env) = Inr p)
             \<and> (\<forall>s. le_page env \<and> le_d_path env p = Inr s \<and> \<not> le_copy_fault env \<longrightarrow>
                 fst (proc_pid_readlink get_link buflen env) = Inr (take buflen s))))"
proof -
  have l: "link_target get_link tgt"
    using assms cwd_link.link_target_axioms root_link.link_target_axioms exe_link.link_target_axioms by auto
  show ?thesis
    using link_target.readlink_balanced [OF l] link_target.follow_balanced [OF l] link_target.readlink_refused [OF l, of env buflen]
      link_target.follow_jumps [OF l, of env] link_target.readlink_text [OF l, of env] link_target.readlink_missing [OF l, of env buflen]
    by (auto split: option.splits)
qed

definition demo_links :: link_env where
  "demo_links = \<lparr>le_task = Some (2, demo_task 2 1000 ''sh'' 5),
     le_may_read = True, le_fs = (\<lambda>_. Some (7, 8)), le_mm = (\<lambda>_. None), le_dup = demo_de, le_f_path = (\<lambda>f. f + 10),
     le_nd_jump_link = (\<lambda>_. None), le_page = True, le_d_path = (\<lambda>p. Inr (if p = 7 then ''/home/u'' else ''/'')), le_copy_fault = False\<rparr>"

theorem links_protected_exact_witness:
  "fst (proc_pid_readlink proc_cwd_link 5 demo_links) = Inr ''/home''
   \<and> fst (proc_pid_get_link proc_root_link True demo_links) = Inr 8
   \<and> fst (proc_pid_readlink proc_exe_link 5 demo_links) = Inl ENOENT
   \<and> fst (proc_pid_readlink proc_cwd_link 5 (demo_links\<lparr>le_may_read := False\<rparr>)) = Inl EACCES"
proof -
  have d: "le_task demo_links \<noteq> None" "le_may_read demo_links" "le_page demo_links" "\<not> le_copy_fault demo_links"
    "cwd_of demo_links = Some 7" "root_of demo_links = Some 8" "exe_of demo_links = None"
    "le_d_path demo_links 7 = Inr ''/home/u''" "le_nd_jump_link demo_links 8 = None"
    by (simp_all add: demo_links_def cwd_of_def root_of_def exe_of_def)
  show ?thesis
    using links_protected_exact [of proc_cwd_link cwd_of 5 demo_links True] links_protected_exact [of proc_root_link root_of 5 demo_links True]
      links_protected_exact [of proc_exe_link exe_of 5 demo_links True]
      links_protected_exact [of proc_cwd_link cwd_of 5 "demo_links\<lparr>le_may_read := False\<rparr>" True] d
    by simp
qed

end
