(* ===== verification/Proc_Map_Files.thy ===== *)
theory Proc_Map_Files
  imports Proc_Link
begin

unbundle bit_operations_syntax

section \<open>The directory \<^verbatim>\<open>map_files\<close>\<close>

text \<open>
  \<^verbatim>\<open>fs/proc/base.c\<close>: \<^verbatim>\<open>/proc/<pid>/map_files\<close> has a symbolic link for each mapped file, named after the address range of the
  area.  A listing takes the areas from the address space and prints their names; a lookup reads the name back and
  searches the area.  The environment has the answers of the rest of the kernel: \<^verbatim>\<open>ptrace_may_access\<close>,
  the lock of the address space, \<^verbatim>\<open>genradix_ptr_alloc\<close>, the areas of an address space, \<^verbatim>\<open>find_exact_vma\<close>, the mode of an open file and
  \<^verbatim>\<open>_parse_integer\<close> with base 16, which gives the number of characters read, the value and whether it overflowed.

  The listing is shown to be the listing of a table with these names, so the contract \<open>positional_dir\<close> carries over.
\<close>

record map_env =
  mp_may_read :: "tptr \<Rightarrow> bool"
  mp_lock :: "errno option"
  mp_alloc :: "nat \<Rightarrow> bool"
  mp_areas :: "mmptr \<Rightarrow> vma list"
  mp_find_exact_vma :: "vma list \<Rightarrow> u64 \<Rightarrow> u64 \<Rightarrow> vma option"
  mp_fmode :: "nat \<Rightarrow> u32"
  mp_parse :: "string \<Rightarrow> nat \<times> u64 \<times> bool"

definition FMODE_READ :: u32 where "FMODE_READ = 1"
definition FMODE_WRITE :: u32 where "FMODE_WRITE = 2"

record map_files_info =
  mi_start :: u64
  mi_end :: u64
  mi_mode :: u32

subsection \<open>Names\<close>

text \<open>Character \<open>i\<close> of a C string; behind its end is the NUL.\<close>

definition char_at :: "string \<Rightarrow> nat \<Rightarrow> char" where
  "char_at s i = (if i < length s then s ! i else NUL)"

definition dname_to_vma_addr :: "map_env \<Rightarrow> string \<Rightarrow> (u64 \<times> u64) result" where
  "dname_to_vma_addr env str =
     (if char_at str 0 = CHR ''0'' \<and> char_at str 1 \<noteq> CHR ''-'' then Inl EINVAL
      else case mp_parse env str of
        (len, sval, overflow) \<Rightarrow>
          if overflow then Inl EINVAL
          else let str = drop len str
               in if char_at str 0 \<noteq> CHR ''-'' then Inl EINVAL
                  else let str = drop 1 str
                       in if char_at str 0 = CHR ''0'' \<and> char_at str 1 \<noteq> NUL then Inl EINVAL
                          else case mp_parse env str of
                            (len, eval, overflow) \<Rightarrow>
                              if overflow then Inl EINVAL
                              else if char_at (drop len str) 0 \<noteq> NUL then Inl EINVAL
                              else Inr (sval, eval))"

definition range_name :: "u64 \<Rightarrow> u64 \<Rightarrow> string" where
  "range_name s e = snprintf_trunc 34 (hex_nat (unat s) @ CHR ''-'' # hex_nat (unat e))"

subsection \<open>Links\<close>

text \<open>\<open>task\<close> is \<^verbatim>\<open>get_proc_task\<close>.  The result is the file of the area.\<close>

definition map_files_get_link :: "map_env \<Rightarrow> kernel \<Rightarrow> tptr option \<Rightarrow> string \<Rightarrow> nat result \<times> mmref revent list \<times> kevent list" where
  "map_files_get_link env k task name =
     (case task of
        None \<Rightarrow> (Inl ENOENT, [], [])
      | Some p \<Rightarrow>
          (case (case tasks k p of None \<Rightarrow> None | Some t \<Rightarrow> get_task_mm k t) of
             None \<Rightarrow> (Inl ENOENT, [], [Get_task p, Put_task p])
           | Some (m, mm) \<Rightarrow>
               ((case dname_to_vma_addr env name of
                   Inl e \<Rightarrow> Inl e
                 | Inr (vs, ve) \<Rightarrow>
                     (case mp_lock env of
                        Some e \<Rightarrow> Inl e
                      | None \<Rightarrow>
                          (case mp_find_exact_vma env (mp_areas env m) vs ve of
                             None \<Rightarrow> Inl ENOENT
                           | Some v \<Rightarrow> (case vm_file v of None \<Rightarrow> Inl ENOENT | Some f \<Rightarrow> Inr f)))),
                [Acq (Mm_user m), Rel (Mm_user m)], [Get_task p, Put_task p])))"

text \<open>\<open>capable\<close> is \<^verbatim>\<open>checkpoint_restore_ns_capable\<close>.\<close>

definition proc_map_files_get_link ::
  "(link_env \<Rightarrow> nat result \<times> lres revent list) \<Rightarrow> bool \<Rightarrow> bool \<Rightarrow> link_env \<Rightarrow> nat result \<times> lres revent list" where
  "proc_map_files_get_link proc_get_link capable dentry env =
     (if \<not> capable then (Inl EPERM, []) else proc_pid_get_link proc_get_link dentry env)"

text \<open>The status of a dentry: positive when it is still valid; the second component is the refreshed owner.\<close>

definition map_files_d_revalidate ::
  "proc_env \<Rightarrow> map_env \<Rightarrow> errno option \<Rightarrow> mmptr option \<Rightarrow> bool \<Rightarrow> kernel \<Rightarrow> tptr option \<Rightarrow> string
   \<Rightarrow> int result \<times> (u32 \<times> u32) option \<times> mmref revent list" where
  "map_files_d_revalidate penv env lock curmm rcu k task name =
     (if rcu then (Inl ECHILD, None, [])
      else case task of
        None \<Rightarrow> (Inr 0, None, [])
      | Some p \<Rightarrow>
          (case tasks k p of
             None \<Rightarrow> (Inr 0, None, [])
           | Some t \<Rightarrow>
               (case mm_access lock curmm (mp_may_read env p) k t of
                  (Inr (Some m), ev) \<Rightarrow>
                    let (status, ex) = (case dname_to_vma_addr env name of
                          Inl _ \<Rightarrow> (Inr 0, False)
                        | Inr (vs, ve) \<Rightarrow>
                            (case mp_lock env of
                               Some e \<Rightarrow> (Inl e, False)
                             | None \<Rightarrow> (Inr 0, mp_find_exact_vma env (mp_areas env m) vs ve \<noteq> None)))
                    in (if ex then Inr 1 else status, if ex then Some (task_dump_owner penv t 0) else None, ev @ [Rel (Mm_user m)])
                | (_, ev) \<Rightarrow> (Inr 0, None, ev))))"

definition proc_map_files_instantiate :: "proc_env \<Rightarrow> task_struct \<Rightarrow> u32 \<Rightarrow> inode result \<times> kevent list" where
  "proc_map_files_instantiate penv t mode =
     (case proc_pid_make_inode penv t (S_IFLNK OR (if mode AND FMODE_READ \<noteq> 0 then S_IRUSR else 0)
                                        OR (if mode AND FMODE_WRITE \<noteq> 0 then S_IWUSR else 0)) of
        (None, ev) \<Rightarrow> (Inl ENOENT, ev)
      | (Some inode, ev) \<Rightarrow> (Inr (inode\<lparr>i_op := ''proc_map_files_link_inode_operations'', i_size := 64\<rparr>), ev))"

definition proc_map_files_lookup ::
  "proc_env \<Rightarrow> map_env \<Rightarrow> kernel \<Rightarrow> tptr option \<Rightarrow> string \<Rightarrow> inode result \<times> mmref revent list \<times> kevent list" where
  "proc_map_files_lookup penv env k task name =
     (case task of
        None \<Rightarrow> (Inl ENOENT, [], [])
      | Some p \<Rightarrow>
          (case tasks k p of
             None \<Rightarrow> (Inl ENOENT, [], [])
           | Some t \<Rightarrow>
               if \<not> mp_may_read env p then (Inl EACCES, [], [Get_task p, Put_task p])
               else case dname_to_vma_addr env name of
                 Inl _ \<Rightarrow> (Inl ENOENT, [], [Get_task p, Put_task p])
               | Inr (vs, ve) \<Rightarrow>
                   (case get_task_mm k t of
                      None \<Rightarrow> (Inl ENOENT, [], [Get_task p, Put_task p])
                    | Some (m, mm) \<Rightarrow>
                        let (r, ev) = (if mp_lock env \<noteq> None then (Inl EINTR, [])
                              else case mp_find_exact_vma env (mp_areas env m) vs ve of
                                None \<Rightarrow> (Inl ENOENT, [])
                              | Some v \<Rightarrow>
                                  (case vm_file v of
                                     None \<Rightarrow> (Inl ENOENT, [])
                                   | Some f \<Rightarrow> proc_map_files_instantiate penv t (mp_fmode env f)))
                        in (r, [Acq (Mm_user m), Rel (Mm_user m)], Get_task p # ev @ [Put_task p]))))"

subsection \<open>Listing\<close>

text \<open>The first pass: \<open>pos\<close> counts the areas with a file, \<open>nr_files\<close> those taken.  \<open>None\<close>: out of memory.\<close>

fun map_files_collect :: "map_env \<Rightarrow> int \<Rightarrow> int \<Rightarrow> nat \<Rightarrow> vma list \<Rightarrow> map_files_info list option" where
  "map_files_collect env seen pos nr_files [] = Some []"
| "map_files_collect env seen pos nr_files (v # vs) =
     (case vm_file v of
        None \<Rightarrow> map_files_collect env seen pos nr_files vs
      | Some f \<Rightarrow>
          if pos + 1 \<le> seen then map_files_collect env seen (pos + 1) nr_files vs
          else if \<not> mp_alloc env nr_files then None
          else map_option (\<lambda>fs. \<lparr>mi_start = vm_start v, mi_end = vm_end v, mi_mode = mp_fmode env f\<rparr> # fs)
                 (map_files_collect env seen (pos + 1) (nr_files + 1) vs))"

fun map_files_loop :: "(string \<Rightarrow> (nat \<times> umode) option) \<Rightarrow> actor \<Rightarrow> map_files_info list \<Rightarrow> dir_context \<Rightarrow> dir_context" where
  "map_files_loop dcache actor [] ctx = ctx"
| "map_files_loop dcache actor (p # ps) ctx =
     (case proc_fill_cache dcache actor (range_name (mi_start p) (mi_end p)) ctx of
        (False, ctx) \<Rightarrow> ctx
      | (True, ctx) \<Rightarrow> map_files_loop dcache actor ps (ctx\<lparr>ctx_pos := ctx_pos ctx + 1\<rparr>))"

definition proc_map_files_readdir ::
  "(actor \<Rightarrow> dir_context \<Rightarrow> bool \<times> dir_context) \<Rightarrow> (string \<Rightarrow> (nat \<times> umode) option) \<Rightarrow> map_env \<Rightarrow> kernel \<Rightarrow> tptr option
   \<Rightarrow> actor \<Rightarrow> dir_context \<Rightarrow> errno option \<times> dir_context \<times> mmref revent list \<times> kevent list" where
  "proc_map_files_readdir dir_emit_dots dcache env k task actor ctx =
     (case task of
        None \<Rightarrow> (Some ENOENT, ctx, [], [])
      | Some p \<Rightarrow>
          let ev = [Get_task p, Put_task p] in
          if \<not> mp_may_read env p then (Some EACCES, ctx, [], ev)
          else case dir_emit_dots actor ctx of
            (False, ctx) \<Rightarrow> (None, ctx, [], ev)
          | (True, ctx) \<Rightarrow>
              (case (case tasks k p of None \<Rightarrow> None | Some t \<Rightarrow> get_task_mm k t) of
                 None \<Rightarrow> (None, ctx, [], ev)
               | Some (m, mm) \<Rightarrow>
                   let mev = [Acq (Mm_user m), Rel (Mm_user m)] in
                   (case mp_lock env of
                      Some e \<Rightarrow> (Some e, ctx, mev, ev)
                    | None \<Rightarrow>
                        (case map_files_collect env (ctx_pos ctx) 2 0 (mp_areas env m) of
                           None \<Rightarrow> (Some ENOMEM, ctx, mev, ev)
                         | Some fs \<Rightarrow> (None, map_files_loop dcache actor fs ctx, mev, ev)))))"

subsection \<open>Printing and reading a name\<close>

definition hex_digit :: "char \<Rightarrow> bool" where
  "hex_digit c \<longleftrightarrow> (48 \<le> (of_char c :: nat) \<and> (of_char c :: nat) < 58) \<or> (97 \<le> (of_char c :: nat) \<and> (of_char c :: nat) < 103)"

definition hex_digit_val :: "char \<Rightarrow> nat" where
  "hex_digit_val c = (if (of_char c :: nat) < 58 then of_char c - 48 else of_char c - 87)"

definition hex_val :: "string \<Rightarrow> nat" where
  "hex_val s = foldl (\<lambda>a c. 16 * a + hex_digit_val c) 0 s"

text \<open>What \<^verbatim>\<open>_parse_integer\<close> is documented to do: read the longest run of digits.\<close>

definition parse_doc :: "map_env \<Rightarrow> bool" where
  "parse_doc env \<longleftrightarrow> (\<forall>ds rest. list_all hex_digit ds \<and> (rest = [] \<or> hd rest = CHR ''-'')
     \<longrightarrow> mp_parse env (ds @ rest) = (length ds, of_nat (hex_val ds), hex_val ds \<ge> 2 ^ 64))"

lemma digit_char_hex: "d < 16 \<Longrightarrow> hex_digit (digit_char d) \<and> hex_digit_val (digit_char d) = d \<and> (digit_char d = CHR ''0'' \<longleftrightarrow> d = 0)"
proof -
  assume d: "d < 16"
  then have v: "(of_char (digit_char d) :: nat) = (if d < 10 then 48 + d else 87 + d)" by (simp add: digit_char_def)
  have "(of_char (CHR ''0'') :: nat) = 48" by simp
  then have "digit_char d = CHR ''0'' \<longleftrightarrow> (of_char (digit_char d) :: nat) = 48" by (metis of_char_eq_iff)
  then show ?thesis using v d by (auto simp: hex_digit_def hex_digit_val_def)
qed

lemma hex_val_snoc: "hex_val (s @ [c]) = 16 * hex_val s + hex_digit_val c"
  by (simp add: hex_val_def)

lemma hex_nat_digits: "list_all hex_digit (hex_nat n)" "hex_val (hex_nat n) = n" "hex_nat n \<noteq> []"
proof (induction n rule: hex_nat.induct)
  case (1 n)
  have d: "hex_digit (digit_char (n mod 16))" "hex_digit_val (digit_char (n mod 16)) = n mod 16" using digit_char_hex [of "n mod 16"] by simp_all
  {
    case 1
    then show ?case using "1.IH"(1) d digit_char_hex [of n] by (subst hex_nat.simps) auto
  next
    case 2
    then show ?case using "1.IH"(2) d digit_char_hex [of n]
      by (subst hex_nat.simps) (auto simp: hex_val_snoc, auto simp: hex_val_def)
  next
    case 3
    then show ?case by (subst hex_nat.simps) simp
  }
qed

lemma hex_nat_head: "hd (hex_nat n) = CHR ''0'' \<longleftrightarrow> n = 0"
proof (induction n rule: hex_nat.induct)
  case (1 n)
  show ?case
  proof (cases "n < 16")
    case True
    then show ?thesis using digit_char_hex [of n] by (subst hex_nat.simps) auto
  next
    case False
    then show ?thesis using 1 hex_nat_digits(3) [of "n div 16"] by (subst hex_nat.simps) auto
  qed
qed

lemma length_hex_nat: "n < 16 ^ k \<Longrightarrow> 0 < k \<Longrightarrow> length (hex_nat n) \<le> k"
proof (induction n arbitrary: k rule: hex_nat.induct)
  case (1 n)
  show ?case
  proof (cases "n < 16")
    case True
    with 1 show ?thesis by (subst hex_nat.simps) simp
  next
    case False
    with "1.prems" obtain j where k: "k = Suc j" "0 < j" by (cases k; cases "k - 1") auto
    have "n div 16 < 16 ^ j" using "1.prems" k by (simp add: div_less_iff_less_mult mult.commute)
    then have "length (hex_nat (n div 16)) \<le> j" using "1.IH" [OF False] k by blast
    with False k show ?thesis by (subst hex_nat.simps) simp
  qed
qed

text \<open>The buffer of 34 characters holds the longest name.\<close>

lemma range_name_fits: "range_name s e = hex_nat (unat s) @ CHR ''-'' # hex_nat (unat e)"
proof -
  have "length (hex_nat (unat w)) \<le> 16" for w :: u64
    using unat_less_64 [of w] by (intro length_hex_nat) simp_all
  from this [of s] this [of e] show ?thesis by (simp add: range_name_def snprintf_trunc_def)
qed

lemma char_at_0: "char_at (c # s) 0 = c" "char_at [] i = NUL" "char_at (c # s) (Suc i) = char_at s i"
  by (simp_all add: char_at_def)

lemma dname_range:
  assumes "parse_doc env"
  shows "dname_to_vma_addr env (range_name s e) = Inr (s, e)"
proof -
  have small: "\<not> unat w \<ge> 2 ^ 64" for w :: u64 using unat_less_64 [of w] by simp
  have p1: "mp_parse env (hex_nat (unat s) @ CHR ''-'' # hex_nat (unat e)) = (length (hex_nat (unat s)), s, False)"
    using assms small [of s] by (auto simp: parse_doc_def hex_nat_digits)
  have p2: "mp_parse env (hex_nat (unat e)) = (length (hex_nat (unat e)), e, False)"
    using assms [unfolded parse_doc_def, rule_format, of "hex_nat (unat e)" "[]"] small [of e] by (simp add: hex_nat_digits)
  have zero: "hex_nat 0 = ''0''" by code_simp
  have c1: "\<not> (char_at (hex_nat (unat s) @ CHR ''-'' # hex_nat (unat e)) 0 = CHR ''0''
      \<and> char_at (hex_nat (unat s) @ CHR ''-'' # hex_nat (unat e)) 1 \<noteq> CHR ''-'')"
    using hex_nat_head [of "unat s"] hex_nat_digits(3) [of "unat s"] zero
    by (auto simp: char_at_def nth_append hd_conv_nth)
  have c2: "\<not> (char_at (hex_nat (unat e)) 0 = CHR ''0'' \<and> char_at (hex_nat (unat e)) 1 \<noteq> NUL)"
    using hex_nat_head [of "unat e"] hex_nat_digits(3) [of "unat e"] zero by (auto simp: char_at_def hd_conv_nth)
  have "drop 1 (c # x) = x" for c :: char and x by simp
  then show ?thesis unfolding range_name_fits dname_to_vma_addr_def using c1 c2 p1 p2
    by (simp add: char_at_0 Let_def del: One_nat_def drop_Suc_Cons)
qed

subsection \<open>The listing is a table\<close>

text \<open>The areas with a file.\<close>

definition file_areas :: "vma list \<Rightarrow> vma list" where
  "file_areas vs = filter (\<lambda>v. vm_file v \<noteq> None) vs"

definition info_of :: "map_env \<Rightarrow> vma \<Rightarrow> map_files_info" where
  "info_of env v = \<lparr>mi_start = vm_start v, mi_end = vm_end v, mi_mode = (case vm_file v of None \<Rightarrow> 0 | Some f \<Rightarrow> mp_fmode env f)\<rparr>"

definition area_name :: "vma \<Rightarrow> string" where
  "area_name v = range_name (vm_start v) (vm_end v)"

definition area_entry :: "vma \<Rightarrow> pid_entry" where
  "area_entry v = LNK (area_name v) ''map_files_get_link''"

lemma collect_all:
  assumes "\<And>n. mp_alloc env n"
  shows "map_files_collect env seen pos n vs = Some (map (info_of env) (drop (nat (seen - pos)) (file_areas vs)))"
proof (induction vs arbitrary: pos n)
  case (Cons v vs)
  show ?case
  proof (cases "vm_file v")
    case None
    then show ?thesis using Cons by (simp add: file_areas_def)
  next
    case (Some f)
    show ?thesis
    proof (cases "pos + 1 \<le> seen")
      case True
      then have "nat (seen - pos) = Suc (nat (seen - (pos + 1)))" by simp
      then show ?thesis using Cons [of "pos + 1" n] True Some by (simp add: file_areas_def)
    next
      case False
      then have "nat (seen - pos) = 0" "nat (seen - (pos + 1)) = 0" by simp_all
      then show ?thesis using Cons [of "pos + 1" "Suc n"] False Some assms by (simp add: file_areas_def info_of_def)
    qed
  qed
qed (simp add: file_areas_def)

lemma map_files_loop_table: "map_files_loop dcache a (map (info_of env) vs) ctx = pident_loop dcache a (map area_entry vs) ctx"
  by (induction vs arbitrary: ctx)
    (simp_all add: info_of_def area_entry_def area_name_def LNK_def NOD_def split: prod.splits bool.splits)

text \<open>A task that may be read, with an address space that can be locked, and memory for the first pass.\<close>

definition map_access :: "map_env \<Rightarrow> kernel \<Rightarrow> tptr \<Rightarrow> mmptr \<Rightarrow> bool" where
  "map_access env k p m \<longleftrightarrow> mp_may_read env p \<and> mp_lock env = None \<and> (\<forall>n. mp_alloc env n)
     \<and> (\<exists>t mm. tasks k p = Some t \<and> get_task_mm k t = Some (m, mm))"

lemma map_files_readdir_table:
  assumes "map_access env k p m" "dots_doc dots d dd"
  shows "proc_map_files_readdir dots dcache env k (Some p) a ctx = (None, c, mev, ev) \<Longrightarrow>
    fst (proc_pident_readdir dots dcache (Some p) (map area_entry (file_areas (mp_areas env m))) a ctx) = Inr c"
proof -
  let ?fs = "map area_entry (file_areas (mp_areas env m))"
  assume r: "proc_map_files_readdir dots dcache env k (Some p) a ctx = (None, c, mev, ev)"
  obtain b c0 where dc: "dots a ctx = (b, c0)" by fastforce
  show ?thesis
  proof (cases b)
    case False
    then show ?thesis using r dc assms(1) by (auto simp: proc_map_files_readdir_def proc_pident_readdir_def map_access_def Let_def)
  next
    case True
    have "c = map_files_loop dcache a (map (info_of env) (drop (nat (ctx_pos c0 - 2)) (file_areas (mp_areas env m)))) c0"
      using r dc True assms(1) by (auto simp: proc_map_files_readdir_def map_access_def Let_def collect_all)
    then have "c = pident_loop dcache a (drop (nat (ctx_pos c0 - 2)) ?fs) c0" by (simp add: map_files_loop_table drop_map)
    then show ?thesis using dc True by (auto simp: proc_pident_readdir_def)
  qed
qed

lemma map_files_readdir_ok:
  assumes "map_access env k p m"
  shows "\<exists>c mev. proc_map_files_readdir dots dcache env k (Some p) a ctx = (None, c, mev, [Get_task p, Put_task p]) \<and> (\<forall>x. net x mev = 0)"
  using assms by (auto simp: proc_map_files_readdir_def map_access_def Let_def collect_all split: prod.splits bool.splits)

definition map_read ::
  "(actor \<Rightarrow> dir_context \<Rightarrow> bool \<times> dir_context) \<Rightarrow> (string \<Rightarrow> (nat \<times> umode) option) \<Rightarrow> map_env \<Rightarrow> kernel \<Rightarrow> tptr
   \<Rightarrow> actor \<Rightarrow> int \<Rightarrow> dirent list \<times> int" where
  "map_read dots dcache env k p a pos =
     (case proc_map_files_readdir dots dcache env k (Some p) a \<lparr>ctx_pos = pos, ctx_out = []\<rparr> of (r, c, _) \<Rightarrow> (ctx_out c, ctx_pos c))"

lemma map_read_table:
  assumes "map_access env k p m" "dots_doc dots d dd"
  shows "map_read dots dcache env k p a pos = pident_read dots dcache p (map area_entry (file_areas (mp_areas env m))) a pos"
proof -
  obtain c mev where r: "proc_map_files_readdir dots dcache env k (Some p) a \<lparr>ctx_pos = pos, ctx_out = []\<rparr> = (None, c, mev, [Get_task p, Put_task p])"
    using map_files_readdir_ok [OF assms(1)] by blast
  from map_files_readdir_table [OF assms r] show ?thesis using r by (simp add: map_read_def pident_read_def)
qed

interpretation map_dir: positional_dir "map_read dots dcache env k p" "pident_dir d dd dcache (map area_entry (file_areas (mp_areas env m)))"
    "int (length (file_areas (mp_areas env m))) + 2" "\<lambda>pos. map_access env k p m \<and> dots_doc dots d dd \<and> 0 \<le> pos"
  for dots dcache env k p d dd m
proof unfold_locales
  fix pos :: int and a :: actor
  assume ok: "map_access env k p m \<and> dots_doc dots d dd \<and> 0 \<le> pos"
  note t = map_read_table [OF conjunct1 [OF ok] conjunct1 [OF conjunct2 [OF ok]], of dcache a pos]
  let ?xs = "pident_dir d dd dcache (map area_entry (file_areas (mp_areas env m)))" and ?n = "int (length (file_areas (mp_areas env m))) + 2"
  show "pos < ?n \<Longrightarrow> map_read dots dcache env k p a pos
      = (let c = emit_seq a (from_pos pos ?xs) ?n \<lparr>ctx_pos = pos, ctx_out = []\<rparr> in (ctx_out c, ctx_pos c))"
    using pident.rd_emit [of dots d dd pos "map area_entry (file_areas (mp_areas env m))" dcache p a] ok t by simp
  show "?n \<le> pos \<Longrightarrow> map_read dots dcache env k p a pos = ([], pos)"
    using pident.rd_end [of dots d dd pos "map area_entry (file_areas (mp_areas env m))" dcache p a] ok t by simp
  show "sorted_wrt (<) (map fst ?xs) \<and> (\<forall>(p, e) \<in> set ?xs. p < ?n)"
    using pident_dir_positions [of d dd dcache "map area_entry (file_areas (mp_areas env m))"] by simp
qed simp

subsection \<open>Properties\<close>

text \<open>The areas of an address space do not overlap; here only that no two have the same bounds.\<close>

definition areas_distinct :: "vma list \<Rightarrow> bool" where
  "areas_distinct vs \<longleftrightarrow> distinct (map (\<lambda>v. (vm_start v, vm_end v)) vs)"

text \<open>\<^verbatim>\<open>find_exact_vma\<close> finds an area with exactly the given bounds, if there is one.\<close>

definition find_doc :: "map_env \<Rightarrow> bool" where
  "find_doc env \<longleftrightarrow> (\<forall>vs s e. case mp_find_exact_vma env vs s e of
      Some v \<Rightarrow> v \<in> set vs \<and> vm_start v = s \<and> vm_end v = e
    | None \<Rightarrow> \<not> (\<exists>v \<in> set vs. vm_start v = s \<and> vm_end v = e))"

lemma find_area:
  assumes "find_doc env" "areas_distinct vs" "v \<in> set vs"
  shows "mp_find_exact_vma env vs (vm_start v) (vm_end v) = Some v"
proof -
  have inj: "w = v" if "w \<in> set vs" "vm_start w = vm_start v" "vm_end w = vm_end v" for w
    using assms(2,3) that by (auto simp: areas_distinct_def distinct_map dest: inj_onD)
  have "case mp_find_exact_vma env vs (vm_start v) (vm_end v) of
      Some w \<Rightarrow> w \<in> set vs \<and> vm_start w = vm_start v \<and> vm_end w = vm_end v
    | None \<Rightarrow> \<not> (\<exists>w \<in> set vs. vm_start w = vm_start v \<and> vm_end w = vm_end v)"
    using assms(1) unfolding find_doc_def by blast
  with inj assms(3) show ?thesis by (auto split: option.splits)
qed

text \<open>
  C31: \<^verbatim>\<open>map_files\<close> lists the two dots and then, in the order of the address space, a name for each area that maps a file and for
  no other, and reading it in pieces of any size loses and repeats nothing.  Each name listed can be looked up,
  gives a link readable and writable as the file is open, and leads to the file of exactly that area; no name is
  cut by the buffer, and all references are given back.\<close>

theorem map_files_listed_found:
  assumes "map_access env k p m" "dots_doc dots d dd" "parse_doc env" "areas_distinct (mp_areas env m)" "find_doc env"
    and "tasks k p = Some t" "t_thread_pid t = Some pid" "new_ino penv = Some ino"
    and "0 \<le> pos" "map_read dots dcache env k p a pos = (es, pos')"
  shows "map fst (fst (map_read dots dcache env k p greedy 0)) = fst d # fst dd # map area_name (file_areas (mp_areas env m))
    \<and> es @ fst (map_read dots dcache env k p greedy pos') = fst (map_read dots dcache env k p greedy pos)
    \<and> (\<forall>v f. v \<in> set (mp_areas env m) \<and> vm_file v = Some f \<longrightarrow>
        (\<exists>inode mev ev. proc_map_files_lookup penv env k (Some p) (area_name v) = (Inr inode, mev, ev)
           \<and> (i_mode inode AND S_IRUSR \<noteq> 0 \<longleftrightarrow> mp_fmode env f AND FMODE_READ \<noteq> 0)
           \<and> (\<forall>x. net x mev = 0) \<and> task_refs q ev = 0)
        \<and> fst (map_files_get_link env k (Some p) (area_name v)) = Inr f)"
proof (intro conjI allI impI)
  let ?ents = "map area_entry (file_areas (mp_areas env m))"
  have "from_pos 0 (pident_dir d dd dcache ?ents) = pident_dir d dd dcache ?ents"
    by (rule from_pos_all) (auto simp: pident_dir_def pident_entries_def)
  then have "fst (map_read dots dcache env k p greedy 0) = map snd (pident_dir d dd dcache ?ents)"
    using map_dir.rd_greedy [of env k p m dots d dd 0 dcache] assms(1,2) by simp
  moreover have "map (fst \<circ> snd) (pident_entries dcache ?ents) = map pe_name (map snd (List.enumerate 2 ?ents))"
    unfolding pident_entries_def map_map by (rule map_cong) auto
  moreover have "map pe_name ?ents = map area_name (file_areas (mp_areas env m))"
    by (simp add: area_entry_def LNK_def NOD_def o_def)
  ultimately show "map fst (fst (map_read dots dcache env k p greedy 0)) = fst d # fst dd # map area_name (file_areas (mp_areas env m))"
    by (simp add: pident_dir_def)
  show "es @ fst (map_read dots dcache env k p greedy pos') = fst (map_read dots dcache env k p greedy pos)"
    using map_dir.rd_resume [of env k p m dots d dd pos dcache a es pos'] map_dir.rd_greedy [of env k p m dots d dd pos dcache] assms(1,2,9,10)
    by simp
next
  fix v f
  assume v: "v \<in> set (mp_areas env m) \<and> vm_file v = Some f"
  obtain mm where mm: "get_task_mm k t = Some (m, mm)" "mp_may_read env p" "mp_lock env = None" using assms(1,6) by (auto simp: map_access_def)
  have n: "dname_to_vma_addr env (area_name v) = Inr (vm_start v, vm_end v)" using dname_range [OF assms(3)] by (simp add: area_name_def)
  note fa = find_area [OF assms(5,4) conjunct1 [OF v]]
  show "fst (map_files_get_link env k (Some p) (area_name v)) = Inr f" using n mm fa v assms(6) by (simp add: map_files_get_link_def)
  show "\<exists>inode mev ev. proc_map_files_lookup penv env k (Some p) (area_name v) = (Inr inode, mev, ev)
      \<and> (i_mode inode AND S_IRUSR \<noteq> 0 \<longleftrightarrow> mp_fmode env f AND FMODE_READ \<noteq> 0) \<and> (\<forall>x. net x mev = 0) \<and> task_refs q ev = 0"
    using n mm fa v assms(6-8)
    by (auto simp: proc_map_files_lookup_def proc_map_files_instantiate_def proc_pid_make_inode_def mode_defs Let_def split: prod.splits)
qed

definition demo_parse :: "string \<Rightarrow> nat \<times> u64 \<times> bool" where
  "demo_parse s = (let ds = takeWhile hex_digit s in (length ds, of_nat (hex_val ds), hex_val ds \<ge> 2 ^ 64))"

definition demo_map :: map_env where
  "demo_map = \<lparr>mp_may_read = (\<lambda>_. True), mp_lock = None, mp_alloc = (\<lambda>_. True), mp_areas = (\<lambda>_. demo_vmas),
     mp_find_exact_vma = (\<lambda>vs s e. List.find (\<lambda>v. vm_start v = s \<and> vm_end v = e) vs), mp_fmode = (\<lambda>_. 1), mp_parse = demo_parse\<rparr>"

lemma demo_parse_doc: "parse_doc demo_map"
proof -
  have "takeWhile hex_digit (ds @ rest) = ds" if "list_all hex_digit ds" "rest = [] \<or> hd rest = CHR ''-''" for ds rest
    using that by (cases rest) (auto simp: list_all_iff takeWhile_append hex_digit_def)
  then show ?thesis by (auto simp: parse_doc_def demo_map_def demo_parse_def Let_def)
qed

lemma demo_find_doc: "find_doc demo_map"
  by (auto simp: find_doc_def demo_map_def find_Some_iff find_None_iff split: option.splits)

theorem map_files_listed_found_witness:
  "map fst (fst (map_read demo_dots (\<lambda>_. None) demo_map demo_kernel 2 greedy 0)) = [''.'', ''..'', ''1000-3000'']
   \<and> fst (map_files_get_link demo_map demo_kernel (Some 2) ''1000-3000'') = Inr 9"
proof -
  have a: "map_access demo_map demo_kernel 2 2"
    by (simp add: map_access_def demo_map_def get_task_mm_def demo_task_def demo_kernel_def)
  have d: "areas_distinct (mp_areas demo_map 2)" by (simp add: areas_distinct_def demo_map_def demo_vmas_def)
  have t: "tasks demo_kernel 2 = Some (demo_task 42 1000 ''bash'' 2)" "t_thread_pid (demo_task 42 1000 ''bash'' 2) = Some 2"
    "new_ino (Proc_Inode.demo_env True) = Some 7" by (simp_all add: demo_task_def Proc_Inode.demo_env_def)
  have "digit_char 0 = CHR ''0''" "digit_char (Suc 0) = CHR ''1''" "digit_char 3 = CHR ''3''" by code_simp+
  then have "hex_nat 4096 = ''1000''" "hex_nat 12288 = ''3000''" by (simp_all add: hex_nat.simps)
  then have n: "area_name (hd demo_vmas) = ''1000-3000''" unfolding area_name_def range_name_fits by (simp add: demo_vmas_def)
  have f: "file_areas (mp_areas demo_map 2) = [hd demo_vmas]" "hd demo_vmas \<in> set (mp_areas demo_map 2)" "vm_file (hd demo_vmas) = Some 9"
    by (simp_all add: file_areas_def demo_map_def demo_vmas_def)
  note w = map_files_listed_found [OF a demo_dots_doc demo_parse_doc d demo_find_doc t order_refl surjective_pairing]
  have "fst (map_files_get_link demo_map demo_kernel (Some 2) (area_name (hd demo_vmas))) = Inr 9" using w f(2,3) by blast
  moreover have "map fst (fst (map_read demo_dots (\<lambda>_. None) demo_map demo_kernel 2 greedy 0)) = [''.'', ''..'', ''1000-3000'']"
    using w n f(1) by simp
  ultimately show ?thesis using n by simp
qed

end
