(* ===== verification/Mm_Start.thy ===== *)
theory Mm_Start
  imports Mm_Life Proc_Number Proc_Map_Files
begin

unbundle bit_operations_syntax

section \<open>The start and the end of an address space\<close>

text \<open>
  The small functions of \<^verbatim>\<open>kernel/fork.c\<close> around an address space: the boot parameter \<^verbatim>\<open>coredump_filter=\<close>, the parts of \<^verbatim>\<open>mm_init\<close>, the allocation of
  an area, and the check for leaks when the structure is freed (\<^verbatim>\<open>check_mm\<close>).

  The main result follows the boot parameter through \<^verbatim>\<open>mm_init\<close> and every fork and exec to the text that \<^verbatim>\<open>/proc/<pid>/coredump_filter\<close>
  shows.
\<close>

subsection \<open>The boot parameter\<close>

text \<open>The new value of \<^verbatim>\<open>default_dump_filter\<close> and the result.\<close>

definition coredump_filter_setup :: "(string \<Rightarrow> u64) \<Rightarrow> string \<Rightarrow> u64 \<times> int" where
  "coredump_filter_setup simple_strtoul s =
     (push_bit MMF_DUMP_FILTER_SHIFT (simple_strtoul s) AND MMF_DUMP_FILTER_MASK, 1)"

subsection \<open>Parts of an address space\<close>

text \<open>The fields that \<open>mm_full\<close> lacks.\<close>

record mm_extra =
  mx_ioctx_table :: "nat option"
  mx_pasid :: u32
  mx_xol_area :: "nat option"
  mx_pgd :: "nat option"
  mx_rss :: "int list"
  mx_pgtables_bytes :: int

definition mm_init_aio :: "mm_extra \<Rightarrow> mm_extra" where "mm_init_aio mm = mm\<lparr>mx_ioctx_table := None\<rparr>"
definition mm_init_owner :: "tptr option \<Rightarrow> mm_full \<Rightarrow> mm_full" where "mm_init_owner p mm = mm\<lparr>mm_owner := p\<rparr>"
definition mm_init_pasid :: "u32 \<Rightarrow> mm_extra \<Rightarrow> mm_extra" where "mm_init_pasid init_pasid mm = mm\<lparr>mx_pasid := init_pasid\<rparr>"
definition mm_init_uprobes_state :: "mm_extra \<Rightarrow> mm_extra" where "mm_init_uprobes_state mm = mm\<lparr>mx_xol_area := None\<rparr>"

definition mm_alloc_pgd :: "nat option \<Rightarrow> mm_extra \<Rightarrow> errno option \<times> mm_extra" where
  "mm_alloc_pgd pgd mm = (let mm = mm\<lparr>mx_pgd := pgd\<rparr> in (if mx_pgd mm = None then Some ENOMEM else None, mm))"

datatype pgd_event = Pgd_free "nat option"

definition mm_free_pgd :: "mm_extra \<Rightarrow> pgd_event list" where "mm_free_pgd mm = [Pgd_free (mx_pgd mm)]"

text \<open>An area with its links.  \<open>vma_init\<close> is the function of \<^verbatim>\<open>mm.h\<close>, \<open>slab\<close> the memory the allocator gives.\<close>

record vma_node =
  vn_area :: vma
  vn_anon_chain :: "nat list"
  vn_next :: "nat option"
  vn_prev :: "nat option"
  vn_mm :: "nat option"

definition vm_area_alloc :: "(vma_node \<Rightarrow> nat \<Rightarrow> vma_node) \<Rightarrow> vma_node option \<Rightarrow> nat \<Rightarrow> vma_node option" where
  "vm_area_alloc vma_init slab mm = (case slab of None \<Rightarrow> None | Some vma \<Rightarrow> Some (vma_init vma mm))"

definition vm_area_dup :: "vma_node option \<Rightarrow> vma_node \<Rightarrow> vma_node option" where
  "vm_area_dup slab orig =
     (case slab of
        None \<Rightarrow> None
      | Some new \<Rightarrow> let new = orig; new = new\<lparr>vn_anon_chain := []\<rparr> in Some (new\<lparr>vn_next := None, vn_prev := None\<rparr>))"

text \<open>Whatever was in the memory, the duplicate is the original with its links cut, and a second one is the same.\<close>

lemma vm_area_dup_Some:
  assumes "vm_area_dup slab orig = Some new"
  shows "vn_area new = vn_area orig" "vn_mm new = vn_mm orig" "vn_anon_chain new = []" "vn_next new = None" "vn_prev new = None"
    "vm_area_dup (Some s) new = Some new"
  using assms by (auto simp: vm_area_dup_def Let_def split: option.splits)

subsection \<open>The check at the end\<close>

definition resident_page_types :: "string list" where
  "resident_page_types = [''MM_FILEPAGES'', ''MM_ANONPAGES'', ''MM_SWAPENTS'', ''MM_SHMEMPAGES'']"

definition NR_MM_COUNTERS :: nat where "NR_MM_COUNTERS = 4"

lemma page_types_complete: "length resident_page_types = NR_MM_COUNTERS"
  by (simp add: resident_page_types_def NR_MM_COUNTERS_def)

text \<open>The messages; \<open>shown\<close> is the text of the pointer.\<close>

definition check_mm :: "string \<Rightarrow> mm_extra \<Rightarrow> string list" where
  "check_mm shown mm =
     concat (map (\<lambda>i. let x = mx_rss mm ! i
        in if x \<noteq> 0 then [''BUG: Bad rss-counter state mm:'' @ shown @ '' type:'' @ resident_page_types ! i @ '' val:'' @ dec_int x @ [NL]] else [])
       [0..<NR_MM_COUNTERS])
     @ (if mx_pgtables_bytes mm \<noteq> 0
        then [''BUG: non-zero pgtables_bytes on freeing mm: '' @ dec_int (mx_pgtables_bytes mm) @ [NL]] else [])"

lemma concat_if_Nil: "concat (map (\<lambda>i. if P i then [f i] else []) xs) = [] \<longleftrightarrow> (\<forall>i \<in> set xs. \<not> P i)"
  by (induction xs) auto

lemma check_mm_silent:
  assumes "length (mx_rss mm) = NR_MM_COUNTERS"
  shows "check_mm shown mm = [] \<longleftrightarrow> (\<forall>x \<in> set (mx_rss mm). x = 0) \<and> mx_pgtables_bytes mm = 0"
proof -
  have "check_mm shown mm = [] \<longleftrightarrow> (\<forall>i < NR_MM_COUNTERS. mx_rss mm ! i = 0) \<and> mx_pgtables_bytes mm = 0"
    unfolding check_mm_def Let_def append_is_Nil_conv concat_if_Nil by auto
  then show ?thesis by (simp add: assms all_set_conv_all_nth)
qed

subsection \<open>From the boot parameter to a process\<close>

text \<open>\<open>mm_from f mm\<close>: \<open>mm\<close> was made when no address space was in use and the default filter was \<open>f\<close>, or by a fork or an exec of
  a process that has such an address space.\<close>

definition inherits_filter :: "dup_env \<Rightarrow> bool" where
  "inherits_filter env \<longleftrightarrow> de_init_mask env AND MMF_DUMP_FILTER_MASK = MMF_DUMP_FILTER_MASK"

inductive mm_from :: "u64 \<Rightarrow> mm_full \<Rightarrow> bool" for f where
  first: "mm_alloc env None t = (Some mm, ev) \<Longrightarrow> de_dump_filter env = f \<Longrightarrow> mm_from f mm"
| init: "copy_init_mm env None init_mm = (Some mm, ev) \<Longrightarrow> de_dump_filter env = f \<Longrightarrow> mm_from f mm"
| fork: "mm_from f cur \<Longrightarrow> inherits_filter env \<Longrightarrow> dup_mm env (Some cur) tsk cur = (Some mm, ev) \<Longrightarrow> mm_from f mm"
| exec: "mm_from f cur \<Longrightarrow> inherits_filter env \<Longrightarrow> mm_alloc env (Some cur) t = (Some mm, ev) \<Longrightarrow> mm_from f mm"

lemma mm_alloc_flags:
  assumes "mm_alloc env cur t = (Some mm, ev)"
  shows "mm_flags mm = (case cur of None \<Rightarrow> de_dump_filter env | Some c \<Rightarrow> mm_flags c AND de_init_mask env)"
  using assms mm_init_net(2) [of env cur "Some t" zero_mm]
  by (auto simp: mm_alloc_def mm_init_fields_def Let_def split: if_splits prod.splits option.splits)

lemma dup_mm_flags:
  assumes "dup_mm env cur tsk old = (Some mm, ev)"
  shows "mm_flags mm = (case cur of None \<Rightarrow> de_dump_filter env | Some c \<Rightarrow> mm_flags c AND de_init_mask env)"
proof -
  obtain ev2 where d: "dup_mmap env (mm_init_fields env cur tsk old) old = (None, mm, ev2)" using dup_mm_Some(1) [OF assms] by blast
  have "mm_struct.truncate mm = mm_struct.truncate (mm_init_fields env cur tsk old)" using dup_mmap_net [OF d] by (simp add: mm_init_fields_simps)
  then have "mm_flags mm = mm_flags (mm_init_fields env cur tsk old)" by (simp add: mm_struct.truncate_def)
  then show ?thesis by (auto simp: mm_init_fields_def Let_def split: option.splits)
qed

lemma inherited_filter_bits:
  assumes "inherits_filter env"
  shows "(w AND de_init_mask env) AND MMF_DUMP_FILTER_MASK = w AND MMF_DUMP_FILTER_MASK"
  using assms by (simp add: inherits_filter_def and.assoc)

lemma mm_from_filter: "mm_from f mm \<Longrightarrow> mm_flags mm AND MMF_DUMP_FILTER_MASK = f AND MMF_DUMP_FILTER_MASK"
  by (induction rule: mm_from.induct)
    (auto simp: copy_init_mm_def inherited_filter_bits dest!: mm_alloc_flags dup_mm_flags)

lemma shown_filter:
  "unat (drop_bit MMF_DUMP_FILTER_SHIFT ((push_bit MMF_DUMP_FILTER_SHIFT v AND MMF_DUMP_FILTER_MASK) AND MMF_DUMP_FILTER_MASK))
     = unat (v :: u64) mod 512"
proof -
  have "drop_bit MMF_DUMP_FILTER_SHIFT ((push_bit MMF_DUMP_FILTER_SHIFT v AND MMF_DUMP_FILTER_MASK) AND MMF_DUMP_FILTER_MASK)
      = take_bit 9 v"
    by (rule bit_word_eqI) (auto simp: bit_simps MMF_DUMP_FILTER_MASK_def MMF_DUMP_FILTER_SHIFT_def MMF_DUMP_FILTER_BITS_def)
  then show ?thesis by (simp only: unsigned_take_bit_eq) (simp add: take_bit_eq_mod)
qed

subsection \<open>Property\<close>

text \<open>
  The boot parameter \<^verbatim>\<open>coredump_filter=\<close> reaches every process that did not change its filter: for an address space that descends, by any
  number of forks and execs, from one made at start-up, \<^verbatim>\<open>/proc/<pid>/coredump_filter\<close> shows the low nine bits of the number given, as
  eight hexadecimal digits and a newline, and the buffer of the read is large enough.\<close>

theorem coredump_filter_from_boot:
  assumes "mm_from (fst (coredump_filter_setup strtoul s)) mm"
    and "file_task env k = Some (p, t, sg)" "get_task_mm k t = Some (m, mm_struct.truncate mm)"
  shows "proc_coredump_filter_read env k = (Inr (hex8 (unat (strtoul s) mod 512) @ [NL]), [Get_task p, Put_task p])"
proof -
  have fl: "mm_flags (mm_struct.truncate mm) AND MMF_DUMP_FILTER_MASK
      = (push_bit MMF_DUMP_FILTER_SHIFT (strtoul s) AND MMF_DUMP_FILTER_MASK) AND MMF_DUMP_FILTER_MASK"
    using mm_from_filter [OF assms(1)] by (simp add: coredump_filter_setup_def mm_struct.truncate_def)
  have "length (hex_nat (unat (strtoul s) mod 512)) \<le> 8" by (rule length_hex_nat) (auto intro: order_less_trans [of _ 512])
  then have "snprintf_trunc PROC_NUMBUF (hex8 (unat (strtoul s) mod 512) @ [NL]) = hex8 (unat (strtoul s) mod 512) @ [NL]"
    by (simp add: snprintf_trunc_def PROC_NUMBUF_def hex8_def)
  then show ?thesis unfolding proc_coredump_filter_read_def assms(2) option.case prod.case assms(3) fl shown_filter by simp
qed

text \<open>Boot with the filter 51, one exec and one fork.\<close>

theorem coredump_filter_from_boot_witness:
  "\<exists>mm. mm_from (fst (coredump_filter_setup (\<lambda>_. 51) ''0x33'')) mm
     \<and> fst (proc_coredump_filter_read demo_ne (demo_kernel\<lparr>mms := [2 \<mapsto> mm_struct.truncate mm]\<rparr>)) = Inr (hex8 51 @ [NL])"
proof -
  let ?e = "demo_de\<lparr>de_dump_filter := fst (coredump_filter_setup (\<lambda>_. 51) ''0x33''), de_init_mask := 0x7ff\<rparr>"
  let ?f = "fst (coredump_filter_setup (\<lambda>_. 51) ''0x33'')"
  have i: "inherits_filter ?e"
    by (simp add: inherits_filter_def MMF_DUMP_FILTER_MASK_def MMF_DUMP_FILTER_SHIFT_def MMF_DUMP_FILTER_BITS_def mask_numeral)
  have "\<exists>a ev. mm_alloc ?e None 1 = (Some a, ev)" by (simp add: mm_alloc_def mm_init_def init_stages_def fail_if_def demo_de_def Let_def)
  then obtain a where a: "mm_from ?f a" using mm_from.first by fastforce
  have "\<exists>b ev. mm_alloc ?e (Some a) 1 = (Some b, ev) \<and> vmas b = [] \<and> binfmt b = None \<and> exe_file b = None"
    by (simp add: mm_alloc_def mm_init_def mm_init_fields_def init_stages_def fail_if_def demo_de_def zero_mm_def Let_def)
  then obtain b where b: "mm_from ?f b" "vmas b = []" "binfmt b = None" "exe_file b = None" using mm_from.exec [OF a i] by blast
  have "\<exists>c ev. dup_mm ?e (Some b) (Some 5) b = (Some c, ev)"
    using b by (simp add: dup_mm_def dup_mmap_def mm_init_def mm_init_fields_def init_stages_def fail_if_def demo_de_def get_mm_exe_file_def Let_def)
  then obtain c where c: "mm_from ?f c" using mm_from.fork [OF b(1) i] by blast
  let ?k = "demo_kernel\<lparr>mms := [2 \<mapsto> mm_struct.truncate c]\<rparr>"
  have f: "file_task demo_ne ?k = Some (2, demo_task 42 1000 ''bash'' 2, demo_signal)"
    by (simp add: file_task_Some demo_ne_def demo_kernel_def demo_task_def)
  have g: "get_task_mm ?k (demo_task 42 1000 ''bash'' 2) = Some (2, mm_struct.truncate c)"
    by (simp add: get_task_mm_def demo_task_def)
  show ?thesis using coredump_filter_from_boot [OF c f g] c by (intro exI [of _ c]) simp
qed

end
