(* ===== verification/Task_Life.thy ===== *)
theory Task_Life
  imports Clone Mm_Life Unshare
begin

unbundle bit_operations_syntax

section \<open>The end of a task\<close>

text \<open>
  \<^verbatim>\<open>kernel/fork.c\<close>: what happens when the last reference to a task is dropped (\<^verbatim>\<open>__put_task_struct\<close>, \<^verbatim>\<open>put_signal_struct\<close>, \<^verbatim>\<open>free_task\<close>), the
  variants that leave the work on an address space to a worker (\<^verbatim>\<open>mmdrop_async\<close>, \<^verbatim>\<open>mmput_async\<close>), the count of the processes, the
  handles on a process (\<^verbatim>\<open>pidfd\<close>), the idle tasks, and the limits set at start-up.  Hooks into other parts of the kernel
  are entries of a trace.

  The locale \<open>labelled\<close> carries the reference count of the signal structures through all sequences of \<^verbatim>\<open>copy_process\<close> and of final
  puts.
\<close>

subsection \<open>Dropping the last reference\<close>

datatype levent =
    L_hook string tptr
  | L_sighook string sigptr
  | L_mmdrop_work mmptr
  | L_mmput_work
  | L_free_signal sigptr
  | L_free_kthread tptr
  | L_free_task tptr
  | L_call_rcu tptr

text \<open>\<open>re_oom_mm\<close> is \<^verbatim>\<open>sig->oom_mm\<close>, \<open>re_mm_count\<close> the number of references of an address space, \<open>re_handoff\<close> the result of \<^verbatim>\<open>profile_handoff_task\<close>.\<close>

record release_env =
  re_oom_mm :: "sigptr \<Rightarrow> mmptr option"
  re_mm_count :: "mmptr \<Rightarrow> int"
  re_handoff :: bool
  re_memcg :: bool

definition mmdrop_async :: "mmptr \<Rightarrow> int \<Rightarrow> int \<times> levent list" where
  "mmdrop_async mm n = (n - 1, if n - 1 = 0 then [L_mmdrop_work mm] else [])"

definition free_signal_struct :: "release_env \<Rightarrow> sigptr \<Rightarrow> kernel \<Rightarrow> kernel \<times> levent list" where
  "free_signal_struct env sig k =
     (k\<lparr>signals := (signals k)(sig := None)\<rparr>,
      [L_sighook ''taskstats_tgid_free'' sig, L_sighook ''sched_autogroup_exit'' sig]
      @ (case re_oom_mm env sig of Some mm \<Rightarrow> snd (mmdrop_async mm (re_mm_count env mm)) | None \<Rightarrow> [])
      @ [L_free_signal sig])"

definition put_signal_struct :: "release_env \<Rightarrow> sigptr \<Rightarrow> kernel \<Rightarrow> kernel \<times> levent list" where
  "put_signal_struct env sig k =
     (let k1 = update_signal sig (\<lambda>s. s\<lparr>sg_sigcnt := sg_sigcnt s - 1\<rparr>) k
      in case signals k1 sig of
           Some s \<Rightarrow> if sg_sigcnt s = 0 then free_signal_struct env sig k1 else (k1, [])
         | None \<Rightarrow> (k1, []))"

definition free_task :: "tptr \<Rightarrow> task_struct \<Rightarrow> kernel \<Rightarrow> kernel \<times> levent list" where
  "free_task p tsk k =
     (k\<lparr>tasks := (tasks k)(p := None)\<rparr>,
      [L_hook ''scs_release'' p, L_hook ''rt_mutex_debug_task_free'' p, L_hook ''ftrace_graph_exit_task'' p,
       L_hook ''arch_release_task_struct'' p]
      @ (if t_flags tsk AND PF_KTHREAD \<noteq> 0 then [L_free_kthread p] else []) @ [L_free_task p])"

definition put_task_struct_final :: "release_env \<Rightarrow> tptr \<Rightarrow> task_struct \<Rightarrow> kernel \<Rightarrow> kernel \<times> levent list" where
  "put_task_struct_final env p tsk k =
     (let ev = map (\<lambda>h. L_hook h p) [''io_uring_free'', ''cgroup_free'', ''task_numa_free'', ''security_task_free'',
                 ''bpf_task_storage_free'', ''exit_creds'', ''delayacct_tsk_free''];
          (k, ev2) = put_signal_struct env (t_signal tsk) k
      in if \<not> re_handoff env then (case free_task p tsk k of (k, ev3) \<Rightarrow> (k, ev @ ev2 @ ev3)) else (k, ev @ ev2))"

definition delayed_free_task :: "release_env \<Rightarrow> tptr \<Rightarrow> task_struct \<Rightarrow> kernel \<Rightarrow> kernel \<times> levent list" where
  "delayed_free_task env p tsk k = (if re_memcg env then (k, [L_call_rcu p]) else free_task p tsk k)"

subsection \<open>Address spaces left to a worker\<close>

definition mmput_async_fn :: "dup_env \<Rightarrow> mm_full \<Rightarrow> mm_full \<times> mres revent list" where
  "mmput_async_fn env mm = mmput_final env mm"

text \<open>The second component says whether the work was queued.\<close>

definition mmput_async :: "mm_full \<Rightarrow> mm_full \<times> bool" where
  "mmput_async mm = (mm\<lparr>mm_users := mm_users mm - 1\<rparr>, mm_users mm - 1 = 0)"

definition mm_clear_owner :: "tptr \<Rightarrow> mm_full \<Rightarrow> mm_full" where
  "mm_clear_owner p mm = (if mm_owner mm = Some p then mm\<lparr>mm_owner := None\<rparr> else mm)"

definition exit_mm_release ::
  "u32 \<Rightarrow> int \<Rightarrow> uptr option \<Rightarrow> tptr \<Rightarrow> kernel \<Rightarrow> levent list \<times> uptr option \<times> kernel \<times> release_event list \<times> cevent list" where
  "exit_mm_release sig_flags users ctid tsk k = ([L_hook ''futex_exit_release'' tsk], mm_release sig_flags users ctid tsk k)"

definition exec_mm_release ::
  "u32 \<Rightarrow> int \<Rightarrow> uptr option \<Rightarrow> tptr \<Rightarrow> kernel \<Rightarrow> levent list \<times> uptr option \<times> kernel \<times> release_event list \<times> cevent list" where
  "exec_mm_release sig_flags users ctid tsk k = ([L_hook ''futex_exec_release'' tsk], mm_release sig_flags users ctid tsk k)"

subsection \<open>Counting processes\<close>

text \<open>\<open>counts\<close> has the value of \<^verbatim>\<open>process_counts\<close> for each CPU.  The sum of an \<^verbatim>\<open>int\<close> and an \<^verbatim>\<open>unsigned long\<close> is cut to 32 bits.\<close>

definition nr_processes :: "u64 list \<Rightarrow> int" where
  "nr_processes counts = foldl (\<lambda>total c. sint (word_of_int (total + uint c) :: 32 word)) 0 counts"

subsection \<open>Handles on a process\<close>

definition pidfd_pid :: "bool \<Rightarrow> pidptr \<Rightarrow> pidptr result" where
  "pidfd_pid is_pidfd private_data = (if is_pidfd then Inr private_data else Inl EBADF)"

definition pidfd_release :: "pidptr \<Rightarrow> pidptr option \<times> kevent list" where
  "pidfd_release pid = (None, [Put_pid (Some pid)])"

text \<open>\<open>numbers\<close> are the numbers of a \<^verbatim>\<open>struct pid\<close>, from the initial namespace down; \<open>level\<close> is the level of the namespace of the \<^verbatim>\<open>/proc\<close> mount,
  and \<open>pid_nr_ns\<close> the number of the process there.\<close>

definition pidfd_show_fdinfo :: "bool \<Rightarrow> int \<Rightarrow> nat \<Rightarrow> int list \<Rightarrow> string" where
  "pidfd_show_fdinfo has_task pid_nr_ns level numbers =
     (let nr = (if has_task then pid_nr_ns else - 1)
      in ''Pid:'' @ TAB # dec_int nr @ NL # ''NSpid:'' @ TAB # dec_int nr
         @ (if nr > 0 then concat (map (\<lambda>n. TAB # dec_int n) (drop (level + 1) numbers)) else []) @ [NL])"

definition EPOLLIN :: u32 where "EPOLLIN = 1"
definition EPOLLRDNORM :: u32 where "EPOLLRDNORM = 0x40"

definition pidfd_poll :: "(pidptr \<Rightarrow> bool) \<Rightarrow> pidptr \<Rightarrow> u32" where
  "pidfd_poll thread_group_exited pid = (if thread_group_exited pid then EPOLLIN OR EPOLLRDNORM else 0)"

subsection \<open>Idle tasks and start-up\<close>

datatype pid_type = PIDTYPE_PID | PIDTYPE_TGID | PIDTYPE_PGID | PIDTYPE_SID

text \<open>\<open>pids\<close> is \<^verbatim>\<open>signal->pids\<close>.\<close>

definition init_task_pid ::
  "tptr \<Rightarrow> pid_type \<Rightarrow> pidptr \<Rightarrow> kernel \<times> (pid_type \<rightharpoonup> pidptr) \<Rightarrow> kernel \<times> (pid_type \<rightharpoonup> pidptr)" where
  "init_task_pid task type pid s =
     (case s of (k, pids) \<Rightarrow>
        if type = PIDTYPE_PID then (update_task task (\<lambda>t. t\<lparr>t_thread_pid := Some pid\<rparr>) k, pids)
        else (k, pids(type \<mapsto> pid)))"

definition init_idle_pids :: "pidptr \<Rightarrow> tptr \<Rightarrow> kernel \<times> (pid_type \<rightharpoonup> pidptr) \<Rightarrow> kernel \<times> (pid_type \<rightharpoonup> pidptr)" where
  "init_idle_pids init_struct_pid idle s =
     fold (\<lambda>type. init_task_pid idle type init_struct_pid) [PIDTYPE_PID, PIDTYPE_TGID, PIDTYPE_PGID, PIDTYPE_SID] s"

definition idle_args :: kernel_clone_args where
  "idle_args = \<lparr>flags = CLONE_VM, exit_signal = 0, pidfd = 0, child_tid = 0, parent_tid = 0, stack = 0, stack_size = 0,
     tls = 0, set_tid = [], cgroup = 0, io_thread = False\<rparr>"

text \<open>\<open>init_idle\<close> is the scheduler's part.\<close>

definition fork_idle ::
  "fork_env \<Rightarrow> pidptr \<Rightarrow> (tptr \<Rightarrow> kernel \<Rightarrow> kernel) \<Rightarrow> tptr \<Rightarrow> kernel \<Rightarrow> tptr result \<times> kernel \<times> fresource revent list" where
  "fork_idle env init_struct_pid init_idle curp k =
     (case copy_process env idle_args True curp k of
        (Inl e, k, ev) \<Rightarrow> (Inl e, k, ev)
      | (Inr task, k, ev) \<Rightarrow> (Inr task, init_idle task (fst (init_idle_pids init_struct_pid task (k, Map.empty))), ev))"

definition RLIMIT_NPROC :: nat where "RLIMIT_NPROC = 6"
definition RLIMIT_SIGPENDING :: nat where "RLIMIT_SIGPENDING = 11"

text \<open>The limits of the first process and of the initial user namespace, from \<^verbatim>\<open>max_threads\<close>.\<close>

definition fork_init_limits :: "u64 \<Rightarrow> nat \<Rightarrow> (u64 \<times> u64) list \<Rightarrow> (u64 \<times> u64) list \<times> u64 list" where
  "fork_init_limits max_threads ucount_counts rlim =
     (let half = max_threads div 2;
          rlim = rlim[RLIMIT_NPROC := (half, snd (rlim ! RLIMIT_NPROC))];
          rlim = rlim[RLIMIT_NPROC := (fst (rlim ! RLIMIT_NPROC), half)];
          rlim = rlim[RLIMIT_SIGPENDING := rlim ! RLIMIT_NPROC]
      in (rlim, replicate ucount_counts half))"

text \<open>\<^verbatim>\<open>clear_child_tid\<close> and the number returned.\<close>

definition set_tid_address :: "uptr option \<Rightarrow> int \<Rightarrow> uptr option \<times> int" where
  "set_tid_address tidptr task_pid_vnr = (tidptr, task_pid_vnr)"

record seccomp_state =
  sc_mode :: nat
  sc_filter :: "nat option"
  sc_no_new_privs :: bool
  sc_work_flag :: bool

text \<open>\<open>cur\<close> is the state of the caller and \<open>p\<close> that of the new task, copied earlier; the second component is the filter that got a
  new user.\<close>

definition copy_seccomp :: "seccomp_state \<Rightarrow> seccomp_state \<Rightarrow> seccomp_state \<times> nat option" where
  "copy_seccomp cur p =
     (let p = p\<lparr>sc_mode := sc_mode cur, sc_filter := sc_filter cur\<rparr>;
          p = (if sc_no_new_privs cur then p\<lparr>sc_no_new_privs := True\<rparr> else p);
          p = (if sc_mode p \<noteq> 0 then p\<lparr>sc_work_flag := True\<rparr> else p)
      in (p, sc_filter cur))"

subsection \<open>References of the signal structures\<close>

definition sig_counted :: "kernel \<Rightarrow> bool" where
  "sig_counted k \<longleftrightarrow> counted sg_sigcnt k \<and> (\<forall>s. signals k s \<noteq> None \<longrightarrow> group_of k s \<noteq> {})"

lemma sig_counted_new_child:
  assumes "sig_counted k" "fresh_env env k" "signals k (t_signal cur) = Some sg" "copy_process_checks env sg (flags args) = Inr u"
    and "err_of (copy_signal env (flags args) (t_signal cur)) = None"
    and "fe_pid_nr env > 0" "0 \<le> exit_signal args" "0 \<le> fe_leader_exit_signal env"
  shows "sig_counted (new_child env args curp cur sg k)"
proof -
  let ?k = "new_child env args curp cur sg k" and ?s = "t_signal (child_task env args curp cur)"
  have oom: "map_option sg_sigcnt (signals (copy_oom_score_adj fl s p k') r) = map_option sg_sigcnt (signals k' r)" for fl s p k' r
    by (auto simp: copy_oom_score_adj_def Let_def option.map_comp o_def split: option.splits)
  have cnt: "map_option sg_sigcnt \<circ> signals ?k
      = (if has (flags args) CLONE_THREAD then (map_option sg_sigcnt \<circ> signals k)(t_signal cur := map_option (\<lambda>x. sg_sigcnt x + 1) (signals k (t_signal cur)))
         else (map_option sg_sigcnt \<circ> signals k)(?s \<mapsto> 1))"
    using assms(6) child_exit_signal_leader [OF assms(7,8)]
    by (auto simp: new_child_def link_child_def Let_def child_task_fields fun_eq_iff new_signal_struct_def option.map_comp o_def oom)
  have c: "counted sg_sigcnt ?k" using assms(1) by (intro counted_new_child [OF _ assms(2-5) cnt]) (simp add: sig_counted_def)
  have "group_of ?k s \<noteq> {}" if "signals ?k s \<noteq> None" for s
  proof -
    have "s = ?s \<or> signals k s \<noteq> None"
      using fun_cong [OF cnt, of s] that assms(3) by (cases "signals k s") (auto split: if_splits)
    moreover have "tasks k (fe_task env) = None" using assms(2) by (simp add: fresh_env_def)
    ultimately show ?thesis using assms(1) by (auto simp: group_of_new_child sig_counted_def)
  qed
  with c show ?thesis by (simp add: sig_counted_def)
qed

lemma signals_clear: "signals (clear_nproc_exceeded curp k) = signals k"
  by (simp add: clear_nproc_exceeded_def)

lemma sig_counted_copy_process:
  assumes "copy_process env args idle curp k = (r, k', ev)" "sig_counted k" "fresh_env env k" "fe_pid_nr env > 0"
    "0 \<le> exit_signal args" "0 \<le> fe_leader_exit_signal env"
  shows "sig_counted k'"
proof -
  have clr: "sig_counted (clear_nproc_exceeded curp k)"
    using assms(2) counted_clear [of sg_sigcnt k curp] by (simp add: sig_counted_def signals_clear)
  show ?thesis
  proof (cases r)
    case (Inl e)
    then have "k' = k \<or> k' = clear_nproc_exceeded curp k"
      using assms(1) by (auto simp: copy_process_def Let_def split: option.splits sum.splits prod.splits if_splits)
    then show ?thesis using assms(2) clr by auto
  next
    case (Inr p)
    then obtain cur sg k1 ev0 where c: "current_of k curp = Some (cur, sg)" "copy_process_checks env sg (flags args) = Inr ()"
      "k1 = k \<or> k1 = clear_nproc_exceeded curp k" "k' = new_child env args curp cur sg k1"
      "run_copy_process env args idle cur = (None, ev0)"
      using copy_process_Inr assms(1) by metis
    have "sig_counted k1" "fresh_env env k1" "signals k1 (t_signal cur) = Some sg"
      using c(1,3) assms(2,3) clr fresh_env_clear by (auto simp: current_of_Some)
    from sig_counted_new_child [OF this c(2) run_copy_process_None(2) [OF c(5)] assms(4-6)] show ?thesis using c(4) by simp
  qed
qed

text \<open>The final put: the group loses the task, and the structure goes with the last one.\<close>

lemma put_task_struct_final_effect:
  assumes "sig_counted k" "tasks k p = Some t" "\<not> re_handoff env" "put_task_struct_final env p t k = (k', ev)"
  shows "tasks k' = (tasks k)(p := None)"
    and "group_of k' s = group_of k s - {p}"
    and "signals k' s = (if s \<noteq> t_signal t then signals k s
      else if group_of k s = {p} then None else map_option (\<lambda>sg. sg\<lparr>sg_sigcnt := sg_sigcnt sg - 1\<rparr>) (signals k s))"
    and "L_free_signal s \<in> set ev \<longleftrightarrow> s = t_signal t \<and> group_of k s = {p}"
    and "L_free_task q \<in> set ev \<longleftrightarrow> q = p"
proof -
  have p: "p \<in> group_of k (t_signal t)" using assms(2) by (auto simp: group_of_def)
  then obtain sg where sg: "signals k (t_signal t) = Some sg" using assms(1) by (auto simp: sig_counted_def counted_def)
  have fin: "finite (group_of k (t_signal t))" using assms(1) finite_group by (auto simp: sig_counted_def)
  have "sg_sigcnt sg = int (card (group_of k (t_signal t)))" using assms(1) sg by (auto simp: sig_counted_def counted_def)
  then have last: "sg_sigcnt sg - 1 = 0 \<longleftrightarrow> group_of k (t_signal t) = {p}"
    using p fin by (auto simp: card_1_singleton_iff)
  let ?k1 = "update_signal (t_signal t) (\<lambda>s. s\<lparr>sg_sigcnt := sg_sigcnt s - 1\<rparr>) k"
  let ?ev1 = "map (\<lambda>h. L_hook h p) [''io_uring_free'', ''cgroup_free'', ''task_numa_free'', ''security_task_free'',
      ''bpf_task_storage_free'', ''exit_creds'', ''delayacct_tsk_free'']"
  have put: "put_signal_struct env (t_signal t) k
      = (if group_of k (t_signal t) = {p} then free_signal_struct env (t_signal t) ?k1 else (?k1, []))"
    using sg last by (simp add: put_signal_struct_def)
  have k': "k' = fst (free_task p t (fst (put_signal_struct env (t_signal t) k)))"
    "ev = ?ev1 @ snd (put_signal_struct env (t_signal t) k) @ snd (free_task p t (fst (put_signal_struct env (t_signal t) k)))"
    using assms(3,4) by (auto simp: put_task_struct_final_def Let_def split: prod.splits)
  show t: "tasks k' = (tasks k)(p := None)" by (simp add: k'(1) put free_task_def free_signal_struct_def)
  then show "group_of k' s = group_of k s - {p}" by (auto simp: group_of_def)
  show "signals k' s = (if s \<noteq> t_signal t then signals k s
      else if group_of k s = {p} then None else map_option (\<lambda>sg. sg\<lparr>sg_sigcnt := sg_sigcnt sg - 1\<rparr>) (signals k s))"
    by (simp add: k'(1) put free_task_def free_signal_struct_def)
  show "L_free_signal s \<in> set ev \<longleftrightarrow> s = t_signal t \<and> group_of k s = {p}"
    by (auto simp: k'(2) put free_task_def free_signal_struct_def mmdrop_async_def split: option.splits)
  show "L_free_task q \<in> set ev \<longleftrightarrow> q = p"
    by (auto simp: k'(2) put free_task_def free_signal_struct_def mmdrop_async_def split: option.splits)
qed

lemma sig_counted_put:
  assumes "sig_counted k" "tasks k p = Some t" "\<not> re_handoff env" "put_task_struct_final env p t k = (k', ev)"
  shows "sig_counted k'"
proof -
  note e = put_task_struct_final_effect [OF assms]
  have fin: "finite (group_of k s)" for s using assms(1) finite_group by (auto simp: sig_counted_def)
  have p: "p \<in> group_of k (t_signal t)" "s \<noteq> t_signal t \<Longrightarrow> p \<notin> group_of k s" for s using assms(2) by (auto simp: group_of_def)
  have "finite (dom (tasks k'))" using assms(1) by (simp add: e(1) sig_counted_def counted_def)
  moreover have "signals k' s \<noteq> None" if "group_of k' s \<noteq> {}" for s
    using that assms(1) p by (auto simp: e(2,3) sig_counted_def counted_def)
  moreover have "sg_sigcnt sg = int (card (group_of k' s)) \<and> group_of k' s \<noteq> {}" if "signals k' s = Some sg" for s sg
  proof (cases "s = t_signal t")
    case True
    with that obtain sg0 where "signals k s = Some sg0" "sg_sigcnt sg = sg_sigcnt sg0 - 1" and ne: "group_of k s \<noteq> {p}"
      by (auto simp: e(3) split: if_splits)
    then have "sg_sigcnt sg = int (card (group_of k s)) - 1" using assms(1) by (auto simp: sig_counted_def counted_def)
    moreover have "card (group_of k s - {p}) = card (group_of k s) - 1" "0 < card (group_of k s)"
      using p(1) fin True by (auto simp: card_gt_0_iff)
    ultimately show ?thesis using ne p(1) True by (auto simp: e(2) of_nat_diff)
  next
    case False
    then show ?thesis using that assms(1) p(2) [OF False] by (auto simp: e(2,3) sig_counted_def counted_def)
  qed
  ultimately show ?thesis by (auto simp: sig_counted_def counted_def)
qed

subsection \<open>Runs of forks and final puts\<close>

datatype task_call = Fork_call fork_env kernel_clone_args bool tptr | Put_call release_env tptr

inductive task_step :: "task_call \<Rightarrow> kernel \<Rightarrow> kernel \<Rightarrow> bool" where
  task_fork: "copy_process env args idle curp k = (r, k', ev) \<Longrightarrow> fresh_env env k \<Longrightarrow> fe_pid_nr env > 0 \<Longrightarrow> 0 \<le> exit_signal args
    \<Longrightarrow> 0 \<le> fe_leader_exit_signal env \<Longrightarrow> task_step (Fork_call env args idle curp) k k'"
| task_put: "tasks k p = Some t \<Longrightarrow> \<not> re_handoff env \<Longrightarrow> put_task_struct_final env p t k = (k', ev) \<Longrightarrow> task_step (Put_call env p) k k'"

interpretation task_refs: labelled task_step sig_counted "\<lambda>_ _. True"
  by unfold_locales (auto elim!: task_step.cases intro: sig_counted_copy_process sig_counted_put)

text \<open>
  C33: the signal structure of a thread group lives exactly as long as a task of the group exists.  Start with structures that count
  their tasks; after any sequence of calls of \<^verbatim>\<open>copy_process\<close>, failing or not, for threads and processes, and of final puts of tasks
  in any order, every structure has a task and counts its tasks, no task is left with a freed structure, and the put
  of a task frees its structure exactly if it was the last.  The hand-over of tasks to a profiler is excluded.\<close>

theorem signal_lifetime:
  assumes "run task_step k ls k'" and "sig_counted k"
  shows "(\<forall>s. signals k' s \<noteq> None \<longleftrightarrow> group_of k' s \<noteq> {})
    \<and> (\<forall>s sg. signals k' s = Some sg \<longrightarrow> sg_sigcnt sg = int (card (group_of k' s)))
    \<and> (\<forall>p t. tasks k' p = Some t \<longrightarrow> signals k' (t_signal t) \<noteq> None)
    \<and> (\<forall>env p t k'' ev s. tasks k' p = Some t \<and> \<not> re_handoff env \<and> put_task_struct_final env p t k' = (k'', ev) \<longrightarrow>
         (L_free_signal s \<in> set ev \<longleftrightarrow> s = t_signal t \<and> group_of k' s = {p}))"
proof -
  have inv: "sig_counted k'" using task_refs.invariant [OF assms] by simp
  then have "signals k' (t_signal t) \<noteq> None" if "tasks k' p = Some t" for p t
    using that by (auto simp: sig_counted_def counted_def group_of_def)
  moreover have "(\<forall>s. signals k' s \<noteq> None \<longleftrightarrow> group_of k' s \<noteq> {})
      \<and> (\<forall>s sg. signals k' s = Some sg \<longrightarrow> sg_sigcnt sg = int (card (group_of k' s)))"
    using inv unfolding sig_counted_def counted_def by blast
  ultimately show ?thesis using put_task_struct_final_effect(4) [OF inv] by blast
qed

definition demo_release :: release_env where
  "demo_release = \<lparr>re_oom_mm = (\<lambda>_. None), re_mm_count = (\<lambda>_. 1), re_handoff = False, re_memcg = False\<rparr>"

lemma sig_counted_demo: "sig_counted demo_kernel"
proof -
  have "group_of demo_kernel s = (if s = 1 then {1} else if s = 2 then {2} else {})" for s
    by (auto simp: group_of_def demo_kernel_def demo_task_def split: if_splits)
  then show ?thesis by (auto simp: sig_counted_def counted_def demo_kernel_def demo_signal_def split: if_splits)
qed

theorem signal_lifetime_witness:
  "\<exists>k'. run task_step demo_kernel [Put_call demo_release 2] k' \<and> signals k' 2 = None \<and> group_of k' 2 = {}
     \<and> (signals k' 1 \<noteq> None \<longleftrightarrow> group_of k' 1 \<noteq> {})"
proof -
  obtain t where t: "tasks demo_kernel 2 = Some t" by (simp add: demo_kernel_def)
  obtain k' ev where p: "put_task_struct_final demo_release 2 t demo_kernel = (k', ev)" by (cases "put_task_struct_final demo_release 2 t demo_kernel")
  have h: "\<not> re_handoff demo_release" by (simp add: demo_release_def)
  have r: "run task_step demo_kernel [Put_call demo_release 2] k'"
    by (simp add: run_simps) (rule task_put [OF t h p])
  have "group_of demo_kernel 2 = {2}" by (auto simp: group_of_def demo_kernel_def demo_task_def split: if_splits)
  then have g: "group_of k' 2 = {}" using put_task_struct_final_effect(2) [OF sig_counted_demo t h p, of 2] by simp
  with signal_lifetime [OF r sig_counted_demo] have "signals k' 2 = None" "signals k' 1 \<noteq> None \<longleftrightarrow> group_of k' 1 \<noteq> {}" by blast+
  with r g show ?thesis by blast
qed

subsection \<open>The count of processes\<close>

datatype count_event = Forked nat | Exited nat

text \<open>A task may exit on another CPU than the one that forked it, so that a counter can wrap below zero.\<close>

fun count_step :: "count_event \<Rightarrow> u64 list \<Rightarrow> u64 list" where
  "count_step (Forked cpu) cs = cs[cpu := cs ! cpu + 1]"
| "count_step (Exited cpu) cs = cs[cpu := cs ! cpu - 1]"

fun cpu_of :: "count_event \<Rightarrow> nat" where
  "cpu_of (Forked cpu) = cpu"
| "cpu_of (Exited cpu) = cpu"

fun change :: "count_event \<Rightarrow> int" where
  "change (Forked cpu) = 1"
| "change (Exited cpu) = - 1"

lemma ucast_plus: "(ucast (a + b :: u64) :: 32 word) = ucast a + ucast b"
proof -
  have "take_bit 32 (take_bit 64 (uint a + uint b)) = take_bit 32 (uint a + uint b)" by (simp add: take_bit_take_bit)
  moreover have "uint (a + b) = take_bit 64 (uint a + uint b)" by (simp add: uint_word_ariths take_bit_eq_mod)
  ultimately have "(word_of_int (uint (a + b)) :: 32 word) = word_of_int (uint a + uint b)" by (simp only: word_of_int_eq_iff) simp
  then show ?thesis by simp
qed

lemma nr_processes_fold:
  "foldl (\<lambda>total c. sint (word_of_int (total + uint c) :: 32 word)) (sint (x :: 32 word)) cs = sint (x + ucast (sum_list cs :: u64))"
  by (induction cs arbitrary: x) (simp_all add: ucast_plus scast_id add.assoc)

lemma sum_list_upd: "i < length cs \<Longrightarrow> sum_list (cs[i := cs ! i + d]) = sum_list cs + (d :: u64)"
  by (induction cs arbitrary: i) (auto simp: nth_Cons add_ac split: nat.splits)

lemma sum_list_step: "cpu_of e < length cs \<Longrightarrow> sum_list (count_step e cs) = sum_list cs + of_int (change e)"
  using sum_list_upd [of "cpu_of e" cs "- 1"] by (cases e) (simp_all add: sum_list_upd)

lemma length_count_step [simp]: "length (count_step e cs) = length cs"
  by (cases e) simp_all

lemma sum_list_steps:
  "\<forall>e \<in> set es. cpu_of e < length cs \<Longrightarrow> sum_list (fold count_step es cs) = sum_list cs + of_int (sum_list (map change es))"
  by (induction es arbitrary: cs) (simp_all add: sum_list_step add.assoc)

text \<open>
  \<^verbatim>\<open>nr_processes\<close> is exact although its counters are not.  Each CPU counts up for the forks and down for the exits that happen on it;
  a counter wraps below zero when more tasks exit on the CPU than were forked there, and the sum is cut to an \<^verbatim>\<open>int\<close> after
  each addition.  As long as the number of processes fits an \<^verbatim>\<open>int\<close>, the result is the number of forks less the number of exits,
  for any distribution of these over the CPUs.\<close>

theorem nr_processes_exact:
  assumes "\<forall>e \<in> set es. cpu_of e < n"
    and "- (2 ^ 31) \<le> sum_list (map change es)" and "sum_list (map change es) < 2 ^ 31"
  shows "nr_processes (fold count_step es (replicate n 0)) = sum_list (map change es)"
proof -
  let ?d = "sum_list (map change es)"
  have "sum_list (fold count_step es (replicate n 0)) = (of_int ?d :: u64)"
    using sum_list_steps [of es "replicate n 0"] assms(1) by (simp add: sum_list_replicate)
  then have "nr_processes (fold count_step es (replicate n 0)) = sint (ucast (of_int ?d :: u64) :: 32 word)"
    using nr_processes_fold [of 0 "fold count_step es (replicate n 0)"] by (simp add: nr_processes_def)
  also have "(ucast (of_int ?d :: u64) :: 32 word) = of_int ?d"
  proof -
    have "(word_of_int (uint (word_of_int ?d :: u64)) :: 32 word) = word_of_int ?d"
      by (simp only: unsigned_of_int word_of_int_eq_iff) (simp add: take_bit_take_bit)
    then show ?thesis by simp
  qed
  also have "sint (of_int ?d :: 32 word) = ?d" using assms(2,3) by (simp add: signed_of_int signed_take_bit_int_eq_self)
  finally show ?thesis .
qed

theorem nr_processes_exact_witness:
  "fold count_step [Forked 0, Forked 0, Exited 1] (replicate 2 0) = [2, - 1]
   \<and> nr_processes (fold count_step [Forked 0, Forked 0, Exited 1] (replicate 2 0)) = 1"
proof
  show "fold count_step [Forked 0, Forked 0, Exited 1] (replicate 2 0) = [2, - 1]" by (simp add: numeral_2_eq_2)
  show "nr_processes (fold count_step [Forked 0, Forked 0, Exited 1] (replicate 2 0)) = 1"
    by (subst nr_processes_exact) auto
qed

subsection \<open>Work that is put off\<close>

text \<open>Dropping an address space now or through the worker ends in the same state.\<close>

lemma mmput_async_agrees:
  "mmput env mm = (case mmput_async mm of (mm', queued) \<Rightarrow> if queued then mmput_async_fn env mm' else (mm', []))"
  by (simp add: mmput_def mmput_async_def mmput_async_fn_def Let_def)

text \<open>A pidfd shows the numbers of its process from the namespace of the mount down, the first one twice; a process that has gone is
  shown as -1, one outside the namespace as 0.\<close>

lemma pidfd_show_fdinfo_numbers:
  assumes "level < length numbers" "0 < numbers ! level"
  shows "pidfd_show_fdinfo True (numbers ! level) level numbers
      = ''Pid:'' @ TAB # dec_int (numbers ! level) @ NL # ''NSpid:'' @ concat (map (\<lambda>n. TAB # dec_int n) (drop level numbers)) @ [NL]"
    and "pidfd_show_fdinfo False nr level numbers = ''Pid:'' @ TAB # ''-1'' @ NL # ''NSpid:'' @ TAB # ''-1'' @ [NL]"
    and "pidfd_show_fdinfo True 0 level numbers = ''Pid:'' @ TAB # ''0'' @ NL # ''NSpid:'' @ TAB # ''0'' @ [NL]"
proof -
  have "drop level numbers = numbers ! level # drop (level + 1) numbers" using assms(1) by (simp add: Cons_nth_drop_Suc)
  then show "pidfd_show_fdinfo True (numbers ! level) level numbers
      = ''Pid:'' @ TAB # dec_int (numbers ! level) @ NL # ''NSpid:'' @ concat (map (\<lambda>n. TAB # dec_int n) (drop level numbers)) @ [NL]"
    using assms(2) by (simp add: pidfd_show_fdinfo_def Let_def)
  have "dec_int (- 1) = ''-1''" "dec_int 0 = ''0''" by code_simp+
  then show "pidfd_show_fdinfo False nr level numbers = ''Pid:'' @ TAB # ''-1'' @ NL # ''NSpid:'' @ TAB # ''-1'' @ [NL]"
    and "pidfd_show_fdinfo True 0 level numbers = ''Pid:'' @ TAB # ''0'' @ NL # ''NSpid:'' @ TAB # ''0'' @ [NL]"
    by (simp_all add: pidfd_show_fdinfo_def Let_def)
qed

text \<open>The limits at start-up: half of \<^verbatim>\<open>max_threads\<close>, soft and hard, for processes and pending signals alike.\<close>

lemma fork_init_limits_set:
  assumes "length rlim = 16" "fork_init_limits m n rlim = (rlim', ucount)"
  shows "rlim' ! RLIMIT_NPROC = (m div 2, m div 2)" "rlim' ! RLIMIT_SIGPENDING = (m div 2, m div 2)"
    "i \<noteq> RLIMIT_NPROC \<Longrightarrow> i \<noteq> RLIMIT_SIGPENDING \<Longrightarrow> rlim' ! i = rlim ! i" "\<forall>u \<in> set ucount. u = m div 2"
  using assms by (auto simp: fork_init_limits_def Let_def RLIMIT_NPROC_def RLIMIT_SIGPENDING_def)

text \<open>The new task has the filters of its parent, cannot gain privileges its parent gave up, and enters the filters at each call.\<close>

lemma copy_seccomp_inherits:
  assumes "copy_seccomp cur p = (q, f)"
  shows "sc_mode q = sc_mode cur \<and> sc_filter q = sc_filter cur \<and> f = sc_filter cur
    \<and> (sc_no_new_privs cur \<or> sc_no_new_privs p \<longrightarrow> sc_no_new_privs q) \<and> (sc_mode cur \<noteq> 0 \<longrightarrow> sc_work_flag q)"
  using assms by (auto simp: copy_seccomp_def Let_def split: if_splits)

text \<open>An idle task is a new task with the pid of the first one, on no list of processes.\<close>

lemma fork_idle_pid:
  assumes "fork_idle env init_pid (\<lambda>_ k. k) curp k = (Inr task, k', ev)"
  shows "\<exists>t. tasks k' task = Some t \<and> t_thread_pid t = Some init_pid \<and> t_cloak t = 0"
proof -
  obtain k1 where c: "copy_process env idle_args True curp k = (Inr task, k1, ev)"
    "k' = update_task task (\<lambda>t. t\<lparr>t_thread_pid := Some init_pid\<rparr>) k1"
    using assms by (auto simp: fork_idle_def init_idle_pids_def init_task_pid_def split: sum.splits prod.splits)
  then obtain cur sg k2 where "k1 = new_child env idle_args curp cur sg k2" "task = fe_task env"
    using copy_process_Inr by metis
  then show ?thesis using c(2) by (simp add: tasks_new_child child_task_fields)
qed

end
