(* ===== verification/Fork_Fields.thy ===== *)
theory Fork_Fields
  imports Task_Life Task_Flags
begin

unbundle bit_operations_syntax

section \<open>The other fields of a new task\<close>

text \<open>
  \<open>Fork\<close> has the fields of a new task that other code of the program reads.  Here are those that \<^verbatim>\<open>dup_task_struct\<close> and \<^verbatim>\<open>copy_process\<close>
  of \<^verbatim>\<open>kernel/fork.c\<close> set besides: references, signals, timers, accounting, tracing, the links to locks and to the helpers of other
  subsystems.  They are the record \<open>task_rest\<close>, a pointer into the kernel being an option; a new task is the pair of its \<open>task_ext\<close> and its \<open>task_rest\<close>.
  The configuration has all options the fields depend on.  What functions of other headers set (\<^verbatim>\<open>futex_init_task\<close>,
  \<^verbatim>\<open>posix_cputimers_init\<close>, \<^verbatim>\<open>lockdep_init_task\<close>), the traces of interrupts, and the locks and sequence counters are left out.  The list
  heads are those before the task is linked to its parent and its group, which \<open>link_child\<close> does.

  The main result says what a child inherits: two parents have the same child exactly if they agree on a short list of
  fields, whatever signals are pending for them and whatever they have used up so far.
\<close>

datatype vtime_state = VTIME_INACTIVE | VTIME_IDLE | VTIME_SYS | VTIME_USER | VTIME_GUEST

record task_rest =
  x_stack_refcount :: int
  x_rcu_users :: int
  x_usage :: int
  x_stack_canary :: u64
  x_cpus_mask :: nat
  x_cpus_ptr :: "nat option"
  x_btrace_seq :: nat
  x_splice_pipe :: "nat option"
  x_task_frag_page :: "nat option"
  x_wake_q_next :: "nat option"
  x_pf_io_worker :: "nat option"
  x_throttle_queue :: "nat option"
  x_use_memdelay :: nat
  x_active_memcg :: "nat option"
  x_syscall_work :: u64
  x_blocked :: u64
  x_set_child_tid :: uptr
  x_clear_child_tid :: uptr
  x_pi_waiters :: "tptr list"
  x_pi_top_task :: "tptr option"
  x_pi_blocked_on :: "nat option"
  x_children :: "tptr list"
  x_sibling :: "tptr list"
  x_rcu_read_lock_nesting :: int
  x_rcu_read_unlock_special :: nat
  x_rcu_blocked_node :: "nat option"
  x_rcu_tasks_holdout :: bool
  x_rcu_tasks_idle_cpu :: int
  x_trc_reader_nesting :: int
  x_trc_reader_special :: nat
  x_pending :: "nat list"
  x_utime :: u64
  x_stime :: u64
  x_gtime :: u64
  x_timescaled :: "u64 \<times> u64"
  x_vtime :: "u64 \<times> vtime_state"
  x_io_uring :: "nat option"
  x_rss_stat :: "nat \<Rightarrow> int"
  x_psi_flags :: nat
  x_io_context :: "nat option"
  x_mems_rotor :: "int \<times> int"
  x_softirqs :: "int \<times> int"
  x_pagefault_disabled :: int
  x_blocked_on :: "nat option"
  x_sequential_io :: "nat \<times> nat"
  x_bpf_storage :: "nat option"
  x_plug :: "nat option"
  x_sas_ss :: "u64 \<times> u64 \<times> u32"
  x_nr_dirtied :: int
  x_nr_dirtied_pause :: int
  x_dirty_paused_when :: u64
  x_pdeath_signal :: int
  x_thread_group :: "tptr list"
  x_task_works :: "nat option"
  x_kretprobe_instances :: "nat option"
  x_start_time :: u64
  x_start_boottime :: u64
  x_parent_exec_id :: u64
  x_self_exec_id :: u64
  x_exit_signal :: int

text \<open>What other code answers: the random canary and the clocks.\<close>

record rest_env =
  re_canary :: u64
  re_time :: u64
  re_boottime :: u64

definition SYSCALL_WORK_TRACE_BIT :: nat where "SYSCALL_WORK_TRACE_BIT = 2"
definition SYSCALL_WORK_EMU_BIT :: nat where "SYSCALL_WORK_EMU_BIT = 3"
definition SYSCALL_WORK_USER_DISPATCH_BIT :: nat where "SYSCALL_WORK_USER_DISPATCH_BIT = 5"
definition SIGKILL :: nat where "SIGKILL = 9"
definition SIGSTOP :: nat where "SIGSTOP = 19"
definition SS_DISABLE :: u32 where "SS_DISABLE = 2"
definition NUMA_NO_NODE :: int where "NUMA_NO_NODE = - 1"
definition PAGE_SHIFT :: nat where "PAGE_SHIFT = 12"

definition sigmask :: "nat \<Rightarrow> u64" where "sigmask sig = push_bit (sig - 1) 1"

subsection \<open>The copy\<close>

text \<open>The part of \<^verbatim>\<open>dup_task_struct\<close> after the copy of the structure.  \<open>x_cpus_ptr\<close> is \<open>None\<close> when it points at the task's own mask.\<close>

definition dup_rest :: "rest_env \<Rightarrow> task_rest \<Rightarrow> task_rest" where
  "dup_rest env orig =
     (let tsk = orig;
          tsk = tsk\<lparr>x_stack_refcount := 1\<rparr>;
          tsk = tsk\<lparr>x_syscall_work := clear_flag SYSCALL_WORK_USER_DISPATCH_BIT (x_syscall_work tsk)\<rparr>;
          tsk = tsk\<lparr>x_stack_canary := re_canary env\<rparr>;
          tsk = (if x_cpus_ptr orig = None then tsk\<lparr>x_cpus_ptr := None\<rparr> else tsk);
          tsk = tsk\<lparr>x_rcu_users := 2\<rparr>;
          tsk = tsk\<lparr>x_usage := 1\<rparr>;
          tsk = tsk\<lparr>x_btrace_seq := 0\<rparr>;
          tsk = tsk\<lparr>x_splice_pipe := None\<rparr>;
          tsk = tsk\<lparr>x_task_frag_page := None\<rparr>;
          tsk = tsk\<lparr>x_wake_q_next := None\<rparr>;
          tsk = tsk\<lparr>x_pf_io_worker := None\<rparr>;
          tsk = tsk\<lparr>x_throttle_queue := None\<rparr>;
          tsk = tsk\<lparr>x_use_memdelay := 0\<rparr>
      in tsk\<lparr>x_active_memcg := None\<rparr>)"

definition rt_mutex_init_task :: "task_rest \<Rightarrow> task_rest" where
  "rt_mutex_init_task p = p\<lparr>x_pi_waiters := [], x_pi_top_task := None, x_pi_blocked_on := None\<rparr>"

definition rcu_copy_process :: "task_rest \<Rightarrow> task_rest" where
  "rcu_copy_process p =
     p\<lparr>x_rcu_read_lock_nesting := 0, x_rcu_read_unlock_special := 0, x_rcu_blocked_node := None,
       x_rcu_tasks_holdout := False, x_rcu_tasks_idle_cpu := - 1,
       x_trc_reader_nesting := 0, x_trc_reader_special := 0\<rparr>"

text \<open>From \<^verbatim>\<open>p->cloak = 0\<close> to the call of \<^verbatim>\<open>sched_fork\<close>.\<close>

definition init_rest :: "kernel_clone_args \<Rightarrow> task_rest \<Rightarrow> task_rest" where
  "init_rest args p =
     (let fl = flags args;
          p = (if io_thread args then p\<lparr>x_blocked := NOT (sigmask SIGKILL OR sigmask SIGSTOP)\<rparr> else p);
          p = p\<lparr>x_set_child_tid := (if has fl CLONE_CHILD_SETTID then child_tid args else 0)\<rparr>;
          p = p\<lparr>x_clear_child_tid := (if has fl CLONE_CHILD_CLEARTID then child_tid args else 0)\<rparr>;
          p = rt_mutex_init_task p;
          p = p\<lparr>x_children := [], x_sibling := []\<rparr>;
          p = rcu_copy_process p;
          p = p\<lparr>x_pending := []\<rparr>;
          p = p\<lparr>x_utime := 0, x_stime := 0, x_gtime := 0\<rparr>;
          p = p\<lparr>x_timescaled := (0, 0)\<rparr>;
          p = p\<lparr>x_vtime := (0, VTIME_INACTIVE)\<rparr>;
          p = p\<lparr>x_io_uring := None\<rparr>;
          p = p\<lparr>x_rss_stat := (\<lambda>_. 0)\<rparr>;
          p = p\<lparr>x_psi_flags := 0\<rparr>;
          p = p\<lparr>x_io_context := None\<rparr>;
          p = p\<lparr>x_mems_rotor := (NUMA_NO_NODE, NUMA_NO_NODE)\<rparr>;
          p = p\<lparr>x_softirqs := (1, 0)\<rparr>;
          p = p\<lparr>x_pagefault_disabled := 0\<rparr>;
          p = p\<lparr>x_blocked_on := None\<rparr>;
          p = p\<lparr>x_sequential_io := (0, 0)\<rparr>
      in p\<lparr>x_bpf_storage := None\<rparr>)"

text \<open>From the descriptor of a pidfd to the end; \<open>current\<close> is the parent.\<close>

definition publish_rest :: "rest_env \<Rightarrow> fork_env \<Rightarrow> kernel_clone_args \<Rightarrow> task_rest \<Rightarrow> task_rest \<Rightarrow> task_rest" where
  "publish_rest env fenv args current p =
     (let fl = flags args;
          p = p\<lparr>x_plug := None\<rparr>;
          p = (if fl AND (CLONE_VM OR CLONE_VFORK) = CLONE_VM then p\<lparr>x_sas_ss := (0, 0, SS_DISABLE)\<rparr> else p);
          p = p\<lparr>x_syscall_work := clear_flag SYSCALL_WORK_TRACE_BIT (x_syscall_work p)\<rparr>;
          p = p\<lparr>x_syscall_work := clear_flag SYSCALL_WORK_EMU_BIT (x_syscall_work p)\<rparr>;
          p = p\<lparr>x_nr_dirtied := 0, x_nr_dirtied_pause := drop_bit (PAGE_SHIFT - 10) 128, x_dirty_paused_when := 0\<rparr>;
          p = p\<lparr>x_pdeath_signal := 0, x_thread_group := [], x_task_works := None, x_kretprobe_instances := None\<rparr>;
          p = p\<lparr>x_start_time := re_time env, x_start_boottime := re_boottime env\<rparr>;
          p = (if has fl (CLONE_PARENT OR CLONE_THREAD) then p\<lparr>x_parent_exec_id := x_parent_exec_id current\<rparr>
               else p\<lparr>x_parent_exec_id := x_self_exec_id current\<rparr>)
      in p\<lparr>x_exit_signal := child_exit_signal fenv args\<rparr>)"

text \<open>\<^verbatim>\<open>copy_io\<close> runs in between and sets \<^verbatim>\<open>io_context\<close>.\<close>

definition child_rest :: "rest_env \<Rightarrow> fork_env \<Rightarrow> kernel_clone_args \<Rightarrow> task_rest \<Rightarrow> task_rest" where
  "child_rest env fenv args current =
     (let p = init_rest args (dup_rest env current);
          p = (case copy_io fenv (flags args) of Inl _ \<Rightarrow> p | Inr ioc \<Rightarrow> p\<lparr>x_io_context := ioc\<rparr>)
      in publish_rest env fenv args current p)"

text \<open>The extended structure: the fields of \<open>Fork\<close>, the flag for rescheduling cleared by \<^verbatim>\<open>dup_task_struct\<close>, and \<^verbatim>\<open>rseq_fork\<close>.\<close>

definition child_ext :: "fork_env \<Rightarrow> kernel_clone_args \<Rightarrow> tptr \<Rightarrow> task_ext \<Rightarrow> task_ext" where
  "child_ext fenv args curp cur =
     task_struct.extend (child_task fenv args curp (task_struct.truncate cur))
       (task_struct.more (rseq_fork cur (flags args) (clear_tsk_need_resched cur)))"

subsection \<open>What a child inherits\<close>

text \<open>The bits of the system call work that survive a fork.\<close>

definition inherited_work :: "u64 \<Rightarrow> u64" where
  "inherited_work w = clear_flag SYSCALL_WORK_EMU_BIT (clear_flag SYSCALL_WORK_TRACE_BIT (clear_flag SYSCALL_WORK_USER_DISPATCH_BIT w))"

lemma bit_inherited_work [simp]: "bit (inherited_work w) n \<longleftrightarrow> n \<notin> {2, 3, 5} \<and> bit w n"
  by (auto simp: inherited_work_def SYSCALL_WORK_EMU_BIT_def SYSCALL_WORK_TRACE_BIT_def SYSCALL_WORK_USER_DISPATCH_BIT_def)

definition private_sas :: "u64 \<Rightarrow> bool" where
  "private_sas fl \<longleftrightarrow> fl AND (CLONE_VM OR CLONE_VFORK) = CLONE_VM"

definition blocked_for_io :: u64 where
  "blocked_for_io = NOT (sigmask SIGKILL OR sigmask SIGSTOP)"

text \<open>An io thread leaves only the two signals open that stop it.\<close>

lemma bit_blocked_for_io: "n < 64 \<Longrightarrow> bit blocked_for_io n \<longleftrightarrow> n + 1 \<noteq> SIGKILL \<and> n + 1 \<noteq> SIGSTOP"
  unfolding blocked_for_io_def sigmask_def SIGKILL_def SIGSTOP_def bit_not_iff bit_or_iff bit_push_bit_iff bit_1_iff by auto

text \<open>A conditional update is an update with a conditional value.\<close>

lemma update_if:
  "(if c then p\<lparr>x_cpus_ptr := a\<rparr> else p) = p\<lparr>x_cpus_ptr := if c then a else x_cpus_ptr p\<rparr>"
  "(if c then p\<lparr>x_blocked := b\<rparr> else p) = p\<lparr>x_blocked := if c then b else x_blocked p\<rparr>"
  "(if c then p\<lparr>x_sas_ss := d\<rparr> else p) = p\<lparr>x_sas_ss := if c then d else x_sas_ss p\<rparr>"
  "(if c then p\<lparr>x_parent_exec_id := e\<rparr> else p\<lparr>x_parent_exec_id := e'\<rparr>) = p\<lparr>x_parent_exec_id := if c then e else e'\<rparr>"
  by simp_all

text \<open>The child as one update of the parent: every field not named here is inherited.\<close>

lemma child_rest_eq:
  "child_rest env fenv args r =
     r\<lparr>x_stack_refcount := 1, x_rcu_users := 2, x_usage := 1, x_stack_canary := re_canary env, x_btrace_seq := 0,
       x_splice_pipe := None, x_task_frag_page := None, x_wake_q_next := None, x_pf_io_worker := None,
       x_throttle_queue := None, x_use_memdelay := 0, x_active_memcg := None,
       x_syscall_work := inherited_work (x_syscall_work r),
       x_blocked := (if io_thread args then blocked_for_io else x_blocked r),
       x_set_child_tid := (if has (flags args) CLONE_CHILD_SETTID then child_tid args else 0),
       x_clear_child_tid := (if has (flags args) CLONE_CHILD_CLEARTID then child_tid args else 0),
       x_pi_waiters := [], x_pi_top_task := None, x_pi_blocked_on := None, x_children := [], x_sibling := [],
       x_rcu_read_lock_nesting := 0, x_rcu_read_unlock_special := 0, x_rcu_blocked_node := None,
       x_rcu_tasks_holdout := False, x_rcu_tasks_idle_cpu := - 1, x_trc_reader_nesting := 0, x_trc_reader_special := 0,
       x_pending := [], x_utime := 0, x_stime := 0, x_gtime := 0, x_timescaled := (0, 0), x_vtime := (0, VTIME_INACTIVE),
       x_io_uring := None, x_rss_stat := (\<lambda>_. 0), x_psi_flags := 0, x_io_context := ok_or None (copy_io fenv (flags args)),
       x_mems_rotor := (- 1, - 1), x_softirqs := (1, 0), x_pagefault_disabled := 0, x_blocked_on := None,
       x_sequential_io := (0, 0), x_bpf_storage := None, x_plug := None,
       x_sas_ss := (if private_sas (flags args) then (0, 0, SS_DISABLE) else x_sas_ss r),
       x_nr_dirtied := 0, x_nr_dirtied_pause := 32, x_dirty_paused_when := 0, x_pdeath_signal := 0, x_thread_group := [],
       x_task_works := None, x_kretprobe_instances := None, x_start_time := re_time env, x_start_boottime := re_boottime env,
       x_parent_exec_id := (if has (flags args) (CLONE_PARENT OR CLONE_THREAD) then x_parent_exec_id r else x_self_exec_id r),
       x_exit_signal := child_exit_signal fenv args\<rparr>"
  by (rule task_rest.equality)
    (simp_all add: child_rest_def dup_rest_def init_rest_def publish_rest_def rt_mutex_init_task_def rcu_copy_process_def
      update_if inherited_work_def private_sas_def blocked_for_io_def NUMA_NO_NODE_def PAGE_SHIFT_def ok_or_def Let_def
      cong: if_cong split: sum.split)

text \<open>The structure that \<open>Fork\<close> works on is a part of the extended one.\<close>

lemma truncate_child_ext: "task_struct.truncate (child_ext fenv args curp cur) = child_task fenv args curp (task_struct.truncate cur)"
  by (simp add: child_ext_def task_struct.defs)

text \<open>The atomic flags are inherited, so a restriction cannot be shaken off by forking.\<close>

lemma child_ext_flags:
  "t_atomic_flags (child_ext fenv args curp cur) = t_atomic_flags cur"
  "t_ti_flags (child_ext fenv args curp cur) = clear_flag TIF_NEED_RESCHED (t_ti_flags cur)"
  "t_rseq (child_ext fenv args curp cur) = (if has (flags args) CLONE_VM then None else t_rseq cur)"
  by (cases cur; simp add: child_ext_def task_struct.defs rseq_fork_def clear_tsk_need_resched_def clear_tsk_thread_flag_def has_def)+

lemma child_rest_eq_iff:
  "child_rest env fenv args r = child_rest env fenv args r' \<longleftrightarrow>
     x_cpus_mask r = x_cpus_mask r' \<and> x_cpus_ptr r = x_cpus_ptr r' \<and> x_self_exec_id r = x_self_exec_id r'
     \<and> inherited_work (x_syscall_work r) = inherited_work (x_syscall_work r')
     \<and> (io_thread args \<or> x_blocked r = x_blocked r') \<and> (private_sas (flags args) \<or> x_sas_ss r = x_sas_ss r')
     \<and> (if has (flags args) (CLONE_PARENT OR CLONE_THREAD) then x_parent_exec_id r = x_parent_exec_id r' else True)"
  unfolding child_rest_eq by (cases r, cases r') auto


definition demo_rest :: task_rest where
  "demo_rest = \<lparr>x_stack_refcount = 1, x_rcu_users = 2, x_usage = 5, x_stack_canary = 0xabc, x_cpus_mask = 15, x_cpus_ptr = None,
     x_btrace_seq = 1, x_splice_pipe = Some 4, x_task_frag_page = None, x_wake_q_next = None, x_pf_io_worker = None,
     x_throttle_queue = None, x_use_memdelay = 0, x_active_memcg = None, x_syscall_work = 4, x_blocked = 0x100,
     x_set_child_tid = 0, x_clear_child_tid = 0, x_pi_waiters = [], x_pi_top_task = None, x_pi_blocked_on = None,
     x_children = [1], x_sibling = [], x_rcu_read_lock_nesting = 0, x_rcu_read_unlock_special = 0, x_rcu_blocked_node = None,
     x_rcu_tasks_holdout = False, x_rcu_tasks_idle_cpu = - 1, x_trc_reader_nesting = 0, x_trc_reader_special = 0,
     x_pending = [15], x_utime = 700, x_stime = 20, x_gtime = 0, x_timescaled = (0, 0), x_vtime = (0, VTIME_USER), x_io_uring = Some 9,
     x_rss_stat = (\<lambda>_. 3), x_psi_flags = 0, x_io_context = None, x_mems_rotor = (0, 0), x_softirqs = (1, 0),
     x_pagefault_disabled = 0, x_blocked_on = None, x_sequential_io = (0, 0), x_bpf_storage = None, x_plug = None,
     x_sas_ss = (0x7000, 0x1000, 0), x_nr_dirtied = 6, x_nr_dirtied_pause = 32, x_dirty_paused_when = 0, x_pdeath_signal = 9,
     x_thread_group = [], x_task_works = None, x_kretprobe_instances = None, x_start_time = 1, x_start_boottime = 1,
     x_parent_exec_id = 7, x_self_exec_id = 8, x_exit_signal = 17\<rparr>"

definition demo_ext :: task_ext where
  "demo_ext = task_struct.extend (demo_task 42 1000 ''bash'' 2) (task_ext.fields False 1 4 None 0 0 120 4 0)"

definition demo_rest_env :: rest_env where "demo_rest_env = \<lparr>re_canary = 0x1234, re_time = 5000, re_boottime = 6000\<rparr>"


end
