(* ===== verification/Process_Tree.thy ===== *)
theory Process_Tree
  imports Task
begin

section \<open>Walking the process tree\<close>

text \<open>
  \<^verbatim>\<open>walk_process_tree\<close> of \<^verbatim>\<open>kernel/fork.c\<close> visits the descendants of a process without a stack: two nested list loops,
  a jump \<^verbatim>\<open>down\<close> into a child and a jump \<^verbatim>\<open>up\<close> that finds its way back through \<^verbatim>\<open>real_parent\<close> and
  \<^verbatim>\<open>group_leader\<close> and goes on in the middle of the loops.  Here the machine with its jumps is a step function on
  configurations, and the specification is the recursion over the tree that the code avoids.
\<close>

subsection \<open>The code\<close>

text \<open>The lists behind \<^verbatim>\<open>for_each_thread\<close> and \<^verbatim>\<open>children\<close>, and the two pointers that lead back.\<close>

record tree_links =
  tl_threads :: "tptr \<Rightarrow> tptr list"
  tl_children :: "tptr \<Rightarrow> tptr list"
  tl_real_parent :: "tptr \<Rightarrow> tptr"
  tl_group_leader :: "tptr \<Rightarrow> tptr"

type_synonym 's visitor = "tptr \<Rightarrow> 's \<Rightarrow> int \<times> 's"

text \<open>\<open>Walk leader ps cs s\<close>: inside the loops for \<open>leader\<close>, with the children \<open>cs\<close> of the current thread and then the
  threads \<open>ps\<close> still to come.\<close>

datatype 's walk = Walk tptr "tptr list" "tptr list" 's | Out 's

text \<open>The rest of a list after one of its elements: what a list loop entered at that element has left.\<close>

definition after :: "'a \<Rightarrow> 'a list \<Rightarrow> 'a list" where
  "after x xs = tl (dropWhile (\<lambda>y. y \<noteq> x) xs)"

fun walk_step :: "tree_links \<Rightarrow> 's visitor \<Rightarrow> tptr \<Rightarrow> 's walk \<Rightarrow> 's walk" where
  "walk_step ln visitor top_task (Out s) = Out s"
| "walk_step ln visitor top_task (Walk leader ps (child # cs) s) =
     (case visitor child s of (res, s') \<Rightarrow>
        if res \<noteq> 0 then (if res < 0 then Out s' else Walk child (tl_threads ln child) [] s')
        else Walk leader ps cs s')"
| "walk_step ln visitor top_task (Walk leader (parent # ps) [] s) = Walk leader ps (tl_children ln parent) s"
| "walk_step ln visitor top_task (Walk leader [] [] s) =
     (if leader \<noteq> top_task then
        let child = leader;
            parent = tl_real_parent ln child;
            leader = tl_group_leader ln parent
        in Walk leader (after parent (tl_threads ln leader)) (after child (tl_children ln parent)) s
      else Out s)"

definition walk_process_tree :: "tree_links \<Rightarrow> tptr \<Rightarrow> 's visitor \<Rightarrow> 's \<Rightarrow> nat \<Rightarrow> 's walk" where
  "walk_process_tree ln top0 visitor s fuel =
     (let top_task = tl_group_leader ln top0
      in (walk_step ln visitor top_task ^^ fuel) (Walk top_task (tl_threads ln top_task) [] s))"

subsection \<open>The tree and the recursive walk\<close>

datatype ptree = Proc tptr "pthread list"
  and pthread = Thread tptr "ptree list"

fun root :: "ptree \<Rightarrow> tptr" where "root (Proc l ths) = l"
fun tid_of :: "pthread \<Rightarrow> tptr" where "tid_of (Thread p cs) = p"

text \<open>The links are those of the tree.\<close>

fun linked :: "tree_links \<Rightarrow> ptree \<Rightarrow> bool"
  and linked_threads :: "tree_links \<Rightarrow> tptr \<Rightarrow> pthread list \<Rightarrow> bool"
  and linked_kids :: "tree_links \<Rightarrow> tptr \<Rightarrow> ptree list \<Rightarrow> bool" where
  "linked ln (Proc l ths) \<longleftrightarrow> tl_threads ln l = map tid_of ths \<and> distinct (map tid_of ths) \<and> linked_threads ln l ths"
| "linked_threads ln l [] \<longleftrightarrow> True"
| "linked_threads ln l (Thread p cs # ths) \<longleftrightarrow> tl_group_leader ln p = l \<and> tl_children ln p = map root cs
     \<and> distinct (map root cs) \<and> linked_kids ln p cs \<and> linked_threads ln l ths"
| "linked_kids ln p [] \<longleftrightarrow> True"
| "linked_kids ln p (c # cs) \<longleftrightarrow> tl_real_parent ln (root c) = p \<and> linked ln c \<and> linked_kids ln p cs"

text \<open>The processes below the root.\<close>

fun below :: "ptree \<Rightarrow> tptr list"
  and below_threads :: "pthread list \<Rightarrow> tptr list"
  and below_kids :: "ptree list \<Rightarrow> tptr list" where
  "below (Proc l ths) = below_threads ths"
| "below_threads [] = []"
| "below_threads (Thread p cs # ths) = below_kids cs @ below_threads ths"
| "below_kids [] = []"
| "below_kids (c # cs) = root c # below c @ below_kids cs"

text \<open>Depth first in the order of the lists.  A positive answer of the visitor descends, zero skips what is
  below, a negative one ends the walk: the first component.\<close>

fun visit :: "'s visitor \<Rightarrow> ptree \<Rightarrow> 's \<Rightarrow> bool \<times> 's"
  and visit_threads :: "'s visitor \<Rightarrow> pthread list \<Rightarrow> 's \<Rightarrow> bool \<times> 's"
  and visit_kids :: "'s visitor \<Rightarrow> ptree list \<Rightarrow> 's \<Rightarrow> bool \<times> 's" where
  "visit v (Proc l ths) s = visit_threads v ths s"
| "visit_threads v [] s = (False, s)"
| "visit_threads v (Thread p cs # ths) s =
     (case visit_kids v cs s of (True, s') \<Rightarrow> (True, s') | (False, s') \<Rightarrow> visit_threads v ths s')"
| "visit_kids v [] s = (False, s)"
| "visit_kids v (c # cs) s =
     (case v (root c) s of (res, s') \<Rightarrow>
        if res < 0 then (True, s')
        else if res = 0 then visit_kids v cs s'
        else (case visit v c s' of (True, s'') \<Rightarrow> (True, s'') | (False, s'') \<Rightarrow> visit_kids v cs s''))"

subsection \<open>The jumps compute the recursion\<close>

lemma after_middle: "x \<notin> set xs \<Longrightarrow> after x (xs @ x # ys) = ys"
  by (induction xs) (auto simp: after_def)

definition leads :: "('c \<Rightarrow> 'c) \<Rightarrow> 'c \<Rightarrow> 'c \<Rightarrow> bool" where
  "leads f c d \<longleftrightarrow> (\<exists>n. (f ^^ n) c = d)"

lemma leads_refl [simp]: "leads f c c"
  by (auto simp: leads_def intro: exI [of _ 0])

lemma leads_step: "leads f (f c) d \<Longrightarrow> leads f c d"
  by (auto simp: leads_def) (metis funpow_swap1 funpow_simps_right(2) o_apply)

lemma leads_trans: "leads f c d \<Longrightarrow> leads f d e \<Longrightarrow> leads f c e"
  unfolding leads_def by (metis funpow_add o_apply)

text \<open>Where a part of the walk ends: outside if it was stopped, else with its loops exhausted.\<close>

definition walk_end :: "tptr \<Rightarrow> tptr list \<Rightarrow> bool \<times> 's \<Rightarrow> 's walk" where
  "walk_end l ps r = (if fst r then Out (snd r) else Walk l ps [] (snd r))"

text \<open>Going down into a child and coming back up.\<close>

lemma walk_descends:
  assumes "leads (walk_step ln v top_task) (Walk c (tl_threads ln c) [] s') (walk_end c [] (b, s''))" "v c s = (res, s')" "res > 0"
    and "c \<noteq> top_task" "tl_children ln (tl_real_parent ln c) = pre @ c # cs" "c \<notin> set pre"
    and "after (tl_real_parent ln c) (tl_threads ln (tl_group_leader ln (tl_real_parent ln c))) = ps"
  shows "leads (walk_step ln v top_task) (Walk (tl_group_leader ln (tl_real_parent ln c)) ps (c # cs) s)
     (if b then Out s'' else Walk (tl_group_leader ln (tl_real_parent ln c)) ps cs s'')"
proof -
  let ?f = "walk_step ln v top_task" and ?l = "tl_group_leader ln (tl_real_parent ln c)"
  have d: "leads ?f (Walk ?l ps (c # cs) s) (walk_end c [] (b, s''))"
    using assms(1-3) by - (rule leads_step, simp)
  have "?f (Walk c [] [] s'') = Walk ?l ps cs s''" using assms(4-7) by (simp add: Let_def after_middle)
  then have "leads ?f (Walk c [] [] s'') (Walk ?l ps cs s'')" by (metis leads_refl leads_step)
  with d show ?thesis using leads_trans by (fastforce simp: walk_end_def)
qed

lemma walk_leads:
  "linked ln t \<Longrightarrow> top_task \<notin> set (below t) \<Longrightarrow>
     leads (walk_step ln v top_task) (Walk (root t) (tl_threads ln (root t)) [] s) (walk_end (root t) [] (visit v t s))"
  "linked_threads ln l ths \<Longrightarrow> top_task \<notin> set (below_threads ths) \<Longrightarrow> tl_threads ln l = pre @ map tid_of ths \<Longrightarrow>
     distinct (tl_threads ln l) \<Longrightarrow> leads (walk_step ln v top_task) (Walk l (map tid_of ths) [] s) (walk_end l [] (visit_threads v ths s))"
  "linked_kids ln p cs \<Longrightarrow> top_task \<notin> set (below_kids cs) \<Longrightarrow> tl_children ln p = pre @ map root cs \<Longrightarrow> distinct (tl_children ln p) \<Longrightarrow>
     tl_threads ln (tl_group_leader ln p) = tpre @ p # ps \<Longrightarrow> distinct (tl_threads ln (tl_group_leader ln p)) \<Longrightarrow>
     leads (walk_step ln v top_task) (Walk (tl_group_leader ln p) ps (map root cs) s) (walk_end (tl_group_leader ln p) ps (visit_kids v cs s))"
proof (induction v t s and v ths s and v cs s arbitrary: and l pre and p pre tpre ps rule: visit_visit_threads_visit_kids.induct)
  case (1 v l ths s)
  then show ?case by simp
next
  case (2 v s)
  then show ?case by (simp add: walk_end_def)
next
  case (3 v p cs ths s)
  let ?f = "walk_step ln v top_task"
  have gl: "tl_group_leader ln p = l" and ch: "tl_children ln p = map root cs" "distinct (map root cs)" "linked_kids ln p cs"
    and th: "tl_threads ln l = pre @ p # map tid_of ths" "distinct (tl_threads ln l)" "linked_threads ln l ths"
    and top: "top_task \<notin> set (below_kids cs)" "top_task \<notin> set (below_threads ths)"
    using "3.prems" by simp_all
  have kids: "leads ?f (Walk l (map tid_of ths) (map root cs) s) (walk_end l (map tid_of ths) (visit_kids v cs s))"
    using "3.IH"(1) [OF ch(3) top(1), of "[]" pre "map tid_of ths", unfolded gl] ch th by simp
  then have k: "leads ?f (Walk l (p # map tid_of ths) [] s) (walk_end l (map tid_of ths) (visit_kids v cs s))"
    using ch(1) by - (rule leads_step, simp)
  obtain b s' where r: "visit_kids v cs s = (b, s')" by (cases "visit_kids v cs s")
  show ?case
  proof (cases b)
    case True
    then show ?thesis using k r by (simp add: walk_end_def)
  next
    case False
    have "leads ?f (Walk l (map tid_of ths) [] s') (walk_end l [] (visit_threads v ths s'))"
      using "3.IH"(2) [OF r [symmetric], of l "pre @ [p]"] False th top(2) by simp
    then show ?thesis using k r False leads_trans by (fastforce simp: walk_end_def)
  qed
next
  case (4 v s)
  then show ?case by (simp add: walk_end_def)
next
  case (5 v c cs s)
  let ?f = "walk_step ln v top_task" and ?l = "tl_group_leader ln p"
  have rp: "tl_real_parent ln (root c) = p" and c: "linked ln c" "linked_kids ln p cs"
    and top: "top_task \<notin> set (below c)" "top_task \<notin> set (below_kids cs)" "root c \<noteq> top_task"
    and ch: "tl_children ln p = (pre @ [root c]) @ map root cs" "tl_children ln p = pre @ root c # map root cs" "root c \<notin> set pre"
    using "5.prems"(1-4) by auto
  have ps: "after p (tl_threads ln ?l) = ps" using "5.prems"(5,6) by (simp add: after_middle)
  note rest = "5.prems"(4-6)
  obtain res s' where v: "v (root c) s = (res, s')" by (cases "v (root c) s")
  consider "res < 0" | "res = 0" | "res > 0" by linarith
  then show ?case
  proof cases
    case 1
    then show ?thesis using v by - (rule leads_step, simp add: walk_end_def)
  next
    case 2
    then show ?thesis using "5.IH"(1) [OF v [symmetric] _ _ c(2) top(2) ch(1) rest] v by - (rule leads_step, simp)
  next
    case 3
    obtain b s'' where r: "visit v c s' = (b, s'')" by (cases "visit v c s'")
    have "leads ?f (Walk (root c) (tl_threads ln (root c)) [] s') (walk_end (root c) [] (b, s''))"
      using "5.IH"(2) [OF v [symmetric] _ _ c(1) top(1)] 3 r by simp
    then have d: "leads ?f (Walk ?l ps (map root (c # cs)) s) (if b then Out s'' else Walk ?l ps (map root cs) s'')"
      using walk_descends [where c = "root c" and ln = ln and top_task = top_task and b = b and s'' = s'' and v = v and s = s and res = res and s' = s' and pre = pre and cs = "map root cs" and ps = ps]
        v 3 top(3) rp ps ch(2,3) by (cases b) simp_all
    show ?thesis
    proof (cases b)
      case True
      then show ?thesis using d r v 3 by (simp add: walk_end_def)
    next
      case False
      then have "leads ?f (Walk ?l ps (map root cs) s'') (walk_end ?l ps (visit_kids v cs s''))"
        using "5.IH"(3) [OF v [symmetric] _ _ r [symmetric] _ c(2) top(2) ch(1) rest] 3 by simp
      then show ?thesis using d False leads_trans r v 3 by fastforce
    qed
  qed
qed

lemma funpow_Out: "(walk_step ln v top_task ^^ n) (Out s) = Out s"
  by (induction n) auto

lemma visit_all:
  "visit (\<lambda>c seen. (1, seen @ [c])) t seen = (False, seen @ below t)"
  "visit_threads (\<lambda>c seen. (1, seen @ [c])) ths seen = (False, seen @ below_threads ths)"
  "visit_kids (\<lambda>c seen. (1, seen @ [c])) cs seen = (False, seen @ below_kids cs)"
  by (induction t and ths and cs arbitrary: seen and seen and seen rule: below_below_threads_below_kids.induct) auto

lemma walk_process_tree_leads:
  assumes "linked ln t" "root t \<notin> set (below t)" "tl_group_leader ln p = root t"
  shows "\<exists>n. \<forall>m \<ge> n. walk_process_tree ln p v s m = Out (snd (visit v t s))"
proof -
  let ?f = "walk_step ln v (root t)"
  have "leads ?f (Walk (root t) (tl_threads ln (root t)) [] s) (walk_end (root t) [] (visit v t s))"
    by (rule walk_leads(1) [OF assms(1,2)])
  moreover have "leads ?f (walk_end (root t) [] (visit v t s)) (Out (snd (visit v t s)))"
    by (rule leads_step) (simp add: walk_end_def)
  ultimately obtain n where n: "(?f ^^ n) (Walk (root t) (tl_threads ln (root t)) [] s) = Out (snd (visit v t s))"
    using leads_trans by (metis leads_def)
  have "(?f ^^ m) (Walk (root t) (tl_threads ln (root t)) [] s) = Out (snd (visit v t s))" if "n \<le> m" for m
  proof -
    have "(?f ^^ m) = (?f ^^ (m - n)) \<circ> (?f ^^ n)" using that by (simp flip: funpow_add)
    then show ?thesis using n by (simp add: funpow_Out)
  qed
  then show ?thesis using assms(3) unfolding walk_process_tree_def Let_def by metis
qed

subsection \<open>Properties\<close>

text \<open>
  C27: \<^verbatim>\<open>walk_process_tree\<close> ends on every process tree and for every visitor, and does what the recursive walk does: the
  descendants of the group of the task it is given, depth first, in the order of the thread and child
  lists, skipping what is below a process the visitor answers 0 for and stopping at the first negative answer.
  A visitor that always descends sees every descendant exactly where the tree has it.\<close>

theorem walk_process_tree_terminates:
  assumes "linked ln t" "root t \<notin> set (below t)" "tl_group_leader ln p = root t"
  shows "(\<exists>n. \<forall>m \<ge> n. walk_process_tree ln p v s m = Out (snd (visit v t s)))
    \<and> (\<exists>n. \<forall>m \<ge> n. walk_process_tree ln p (\<lambda>c seen. (1, seen @ [c])) [] m = Out (below t))"
  using walk_process_tree_leads [OF assms, of v s] walk_process_tree_leads [OF assms, of "\<lambda>c seen. (1, seen @ [c])" "[]"]
  by (simp add: visit_all)

text \<open>Process 1 with a second thread 2; 3 and 4 are children of the threads, 5 is a child of 3.\<close>

definition demo_links :: tree_links where
  "demo_links = \<lparr>tl_threads = (\<lambda>l. if l = 1 then [1, 2] else [l]),
     tl_children = (\<lambda>p. if p = 1 then [3] else if p = 2 then [4] else if p = 3 then [5] else []),
     tl_real_parent = (\<lambda>p. if p = 3 then 1 else if p = 4 then 2 else if p = 5 then 3 else 0),
     tl_group_leader = (\<lambda>p. if p = 2 then 1 else p)\<rparr>"

definition demo_tree :: ptree where
  "demo_tree = Proc 1 [Thread 1 [Proc 3 [Thread 3 [Proc 5 [Thread 5 []]]]], Thread 2 [Proc 4 [Thread 4 []]]]"

theorem walk_process_tree_terminates_witness:
  "(\<exists>n. walk_process_tree demo_links 2 (\<lambda>c seen. (if c = 3 then 0 else 1, seen @ [c])) [] n = Out [3, 4])
   \<and> (\<exists>n. walk_process_tree demo_links 2 (\<lambda>c seen. (1, seen @ [c])) [] n = Out [3, 5, 4])"
proof -
  have l: "linked demo_links demo_tree" "root demo_tree \<notin> set (below demo_tree)" "tl_group_leader demo_links 2 = root demo_tree"
    by (simp_all add: demo_links_def demo_tree_def)
  have "snd (visit (\<lambda>c seen. (if c = 3 then 0 else 1, seen @ [c])) demo_tree []) = [3, 4]" "below demo_tree = [3, 5, 4]"
    by (simp_all add: demo_tree_def)
  then show ?thesis
    using walk_process_tree_terminates [OF l, of "\<lambda>c seen. (if c = 3 then 0 else 1, seen @ [c])" "[]"] by auto
qed

end
