(* ===== verification/Proc_Mem.thy ===== *)
theory Proc_Mem
  imports Proc_Number
begin

section \<open>The files of \<^verbatim>\<open>/proc/<pid>\<close> that show memory\<close>

text \<open>
  \<^verbatim>\<open>fs/proc/base.c\<close>: \<^verbatim>\<open>cmdline\<close>, \<^verbatim>\<open>mem\<close>, \<^verbatim>\<open>environ\<close> and \<^verbatim>\<open>auxv\<close>.  The memory of the other process is a partial
  function from addresses to bytes; \<^verbatim>\<open>access_remote_vm\<close> transfers the longest accessible run from an
  address on.  A read gives its result, the bytes that reach the user buffer, and the new file position.
  Addresses are 64-bit and wrap.

  The loops move at most a page at a time.  The locale \<open>chunked\<close> says when a loop over pieces is as good as one
  transfer; it is interpreted on the memory, and the loops below are shown to compute the single
  transfer.
\<close>

type_synonym vmem = "u64 \<rightharpoonup> char"

subsection \<open>Remote memory\<close>

fun readable :: "vmem \<Rightarrow> u64 \<Rightarrow> nat \<Rightarrow> char list" where
  "readable m a 0 = []"
| "readable m a (Suc n) = (case m a of None \<Rightarrow> [] | Some c \<Rightarrow> c # readable m (a + 1) n)"

fun store :: "vmem \<Rightarrow> u64 \<Rightarrow> char list \<Rightarrow> nat \<times> vmem" where
  "store m a [] = (0, m)"
| "store m a (c # cs) = (case m a of None \<Rightarrow> (0, m) | Some _ \<Rightarrow> (case store (m(a \<mapsto> c)) (a + 1) cs of (n, m') \<Rightarrow> (Suc n, m')))"

locale chunked =
  fixes rd :: "'a \<Rightarrow> nat \<Rightarrow> 'c list"
    and adv :: "'a \<Rightarrow> nat \<Rightarrow> 'a"
  assumes short: "length (rd a n) \<le> n"
    and split: "rd a (n + m) = (if length (rd a n) = n then rd a n @ rd (adv a n) m else rd a n)"
    and stopped: "length (rd a n) < n \<Longrightarrow> rd (adv a (length (rd a n))) m = []"
begin

text \<open>Continuing where a piece of any size ended gives the whole.\<close>

lemma piece:
  assumes "k \<le> n" "got = length (rd a k)"
  shows "rd a n = rd a k @ rd (adv a got) (n - got)"
proof (cases "got = k")
  case True
  then show ?thesis using split [of a k "n - k"] assms by simp
next
  case False
  then have "got < k" using assms(2) short [of a k] by simp
  then have "rd a n = rd a k" using split [of a k "n - k"] assms False by simp
  then show ?thesis using stopped [of a k] \<open>got < k\<close> assms(2) by simp
qed

lemma nothing:
  assumes "0 < k" "rd a k = []"
  shows "rd a n = []"
proof (cases "k \<le> n")
  case True
  then show ?thesis using piece [of k n 0 a] stopped [of a k n] assms by simp
next
  case False
  then show ?thesis using piece [of n k "length (rd a n)" a] assms(2) by simp
qed

end

lemma readable_numeral:
  "readable m a (numeral k) = (case m a of None \<Rightarrow> [] | Some c \<Rightarrow> c # readable m (a + 1) (pred_numeral k))"
  by (simp add: numeral_eq_Suc)

lemma length_readable: "length (readable m a n) \<le> n"
  by (induction m a n rule: readable.induct) (auto split: option.splits)

lemma readable_split:
  "readable m a (n + k) = (if length (readable m a n) = n then readable m a n @ readable m (a + of_nat n) k else readable m a n)"
proof (induction m a n rule: readable.induct)
  case (2 m a n)
  then show ?case using length_readable [of m "a + 1" n] by (auto simp: add.assoc split: option.splits)
qed simp

lemma readable_stopped: "length (readable m a n) < n \<Longrightarrow> readable m (a + of_nat (length (readable m a n))) k = []"
proof (induction m a n rule: readable.induct)
  case (2 m a n)
  then show ?case by (cases k) (auto simp: add.assoc split: option.splits)
qed simp

interpretation vm: chunked "readable m" "\<lambda>a n. a + of_nat n" for m
  by unfold_locales (rule length_readable readable_split readable_stopped; assumption?)+

subsection \<open>Environment\<close>

text \<open>\<open>me_to_user off n\<close> is the number of bytes \<^verbatim>\<open>copy_to_user\<close> leaves uncopied when given \<open>n\<close> bytes at offset \<open>off\<close> of the
  user buffer; \<open>me_from_user off n\<close> whether \<^verbatim>\<open>copy_from_user\<close> fails there.\<close>

record mem_env =
  me_page :: nat
  me_alloc :: bool
  me_mmget :: bool
  me_to_user :: "nat \<Rightarrow> nat \<Rightarrow> nat"
  me_from_user :: "nat \<Rightarrow> nat \<Rightarrow> bool"

definition user_ok :: "mem_env \<Rightarrow> bool" where
  "user_ok env \<longleftrightarrow> 0 < me_page env \<and> me_alloc env \<and> me_mmget env
     \<and> (\<forall>off n. me_to_user env off n = 0 \<and> \<not> me_from_user env off n)"

subsection \<open>cmdline\<close>

definition strnlen :: "char list \<Rightarrow> nat" where
  "strnlen s = length (cstr s)"

definition get_mm_proctitle :: "mem_env \<Rightarrow> vmem \<Rightarrow> nat \<Rightarrow> u64 \<Rightarrow> u64 \<Rightarrow> nat result \<times> string" where
  "get_mm_proctitle env vm count pos arg_start =
     (if unat pos \<ge> me_page env then (Inr 0, [])
      else if \<not> me_alloc env then (Inl ENOMEM, [])
      else
        let page = readable vm arg_start (me_page env);
            got = length page
        in if got > 0 then
             let len = strnlen page;
                 len = (if len < got then len + 1 else len)
             in if len > unat pos then
                  let len = len - unat pos;
                      len = (if len > count then count else len);
                      len = len - me_to_user env 0 len
                  in if len = 0 then (Inl EFAULT, []) else (Inr len, take len (drop (unat pos) page))
                else (Inr 0, [])
           else (Inr 0, []))"

function cmdline_loop :: "mem_env \<Rightarrow> vmem \<Rightarrow> nat \<Rightarrow> u64 \<Rightarrow> string \<Rightarrow> nat result \<times> string" where
  "cmdline_loop env vm count pos out =
     (if count = 0 then (Inr (length out), out)
      else
        let sz = min (me_page env) count;
            page = readable vm pos sz
        in if page = [] then (Inr (length out), out)
           else
             let got = length page - me_to_user env (length out) (length page)
             in if got = 0 then (if out = [] then (Inl EFAULT, out) else (Inr (length out), out))
                else cmdline_loop env vm (count - got) (pos + of_nat got) (out @ take got page))"
  by pat_completeness auto

termination
  by (relation "measure (\<lambda>(env, vm, count, pos, out). count)") auto

declare cmdline_loop.simps [simp del]

text \<open>\<^verbatim>\<open>env_end\<close> after the test whether the environment follows the arguments.\<close>

definition cmdline_end :: "mm_struct \<Rightarrow> u64" where
  "cmdline_end mm =
     (if mm_env_start mm \<noteq> mm_arg_end mm \<or> mm_env_end mm < mm_env_start mm then mm_arg_end mm else mm_env_end mm)"

definition get_mm_cmdline :: "mem_env \<Rightarrow> vmem \<Rightarrow> mm_struct \<Rightarrow> nat \<Rightarrow> u64 \<Rightarrow> nat result \<times> string" where
  "get_mm_cmdline env vm mm count ppos =
     (if mm_env_end mm = 0 then (Inr 0, [])
      else
        let arg_start = mm_arg_start mm;
            arg_end = mm_arg_end mm
        in if arg_start \<ge> arg_end then (Inr 0, [])
           else
             let len = cmdline_end mm - arg_start;
                 pos = ppos
             in if pos \<ge> len then (Inr 0, [])
                else
                  let count = (if count > unat (len - pos) then unat (len - pos) else count)
                  in if count = 0 then (Inr 0, [])
                     else if (case readable vm (arg_end - 1) 1 of [c] \<Rightarrow> c \<noteq> NUL | _ \<Rightarrow> False)
                     then get_mm_proctitle env vm count pos arg_start
                     else
                       let pos = pos + arg_start
                       in if pos < arg_start \<or> pos \<ge> arg_end then (Inr 0, [])
                          else
                            let count = (if count > unat (arg_end - pos) then unat (arg_end - pos) else count)
                            in if \<not> me_alloc env then (Inl ENOMEM, [])
                               else cmdline_loop env vm count pos [])"

definition get_task_cmdline :: "mem_env \<Rightarrow> vmem \<Rightarrow> kernel \<Rightarrow> task_struct \<Rightarrow> nat \<Rightarrow> u64 \<Rightarrow> nat result \<times> string" where
  "get_task_cmdline env vm k t count pos =
     (case get_task_mm k t of None \<Rightarrow> (Inr 0, []) | Some (m, mm) \<Rightarrow> get_mm_cmdline env vm mm count pos)"

text \<open>\<open>task\<close> is \<^verbatim>\<open>get_proc_task\<close>; the position moves by what was read.\<close>

definition proc_pid_cmdline_read ::
  "mem_env \<Rightarrow> vmem \<Rightarrow> kernel \<Rightarrow> tptr option \<Rightarrow> nat \<Rightarrow> u64 \<Rightarrow> nat result \<times> string \<times> u64 \<times> kevent list" where
  "proc_pid_cmdline_read env vm k task count pos =
     (case task of
        None \<Rightarrow> (Inl ESRCH, [], pos, [])
      | Some p \<Rightarrow>
          (case tasks k p of
             None \<Rightarrow> (Inl ESRCH, [], pos, [])
           | Some t \<Rightarrow>
               (case get_task_cmdline env vm k t count pos of
                  (ret, out) \<Rightarrow>
                    (ret, out, (case ret of Inr n \<Rightarrow> pos + of_nat n | Inl _ \<Rightarrow> pos), [Get_task p, Put_task p]))))"

subsection \<open>mem\<close>

text \<open>The loop of \<^verbatim>\<open>mem_rw\<close>: \<open>out\<close> is what a read has delivered, \<open>inp\<close> what a write still has
  to transfer.\<close>

function mem_rw_loop ::
  "mem_env \<Rightarrow> bool \<Rightarrow> vmem \<Rightarrow> nat \<Rightarrow> u64 \<Rightarrow> nat \<Rightarrow> char list \<Rightarrow> string \<Rightarrow> nat result \<times> string \<times> u64 \<times> vmem" where
  "mem_rw_loop env wr vm count addr copied inp out =
     (if count = 0 then (Inr copied, out, addr, vm)
      else
        let this_len = min count (me_page env)
        in if wr \<and> me_from_user env copied this_len then (Inl EFAULT, out, addr, vm)
           else
             let bytes = readable vm addr this_len;
                 (n, vm') = (if wr then store vm addr (take this_len inp) else (length bytes, vm))
             in if n = 0 then ((if copied = 0 then Inl EIO else Inr copied), out, addr, vm')
                else if \<not> wr \<and> me_to_user env copied n \<noteq> 0 then (Inl EFAULT, out, addr, vm')
                else mem_rw_loop env wr vm' (count - n) (addr + of_nat n) (copied + n) (drop n inp)
                       (if wr then out else out @ bytes))"
  by pat_completeness auto

termination
  by (relation "measure (\<lambda>(env, wr, vm, count, addr, copied, inp, out). count)") auto

declare mem_rw_loop.simps [simp del]

text \<open>\<open>mm\<close> is \<^verbatim>\<open>file->private_data\<close>.\<close>

definition mem_rw ::
  "mem_env \<Rightarrow> bool \<Rightarrow> vmem option \<Rightarrow> char list \<Rightarrow> nat \<Rightarrow> u64 \<Rightarrow> nat result \<times> string \<times> u64 \<times> vmem option" where
  "mem_rw env wr mm buf count ppos =
     (case mm of
        None \<Rightarrow> (Inr 0, [], ppos, None)
      | Some vm \<Rightarrow>
          if \<not> me_alloc env then (Inl ENOMEM, [], ppos, mm)
          else if \<not> me_mmget env then (Inr 0, [], ppos, mm)
          else case mem_rw_loop env wr vm count ppos 0 buf [] of
            (copied, out, addr, vm') \<Rightarrow> (copied, out, addr, Some vm'))"

definition mem_read :: "mem_env \<Rightarrow> vmem option \<Rightarrow> nat \<Rightarrow> u64 \<Rightarrow> nat result \<times> string \<times> u64" where
  "mem_read env mm count ppos = (case mem_rw env False mm [] count ppos of (r, out, pos, _) \<Rightarrow> (r, out, pos))"

definition mem_write :: "mem_env \<Rightarrow> vmem option \<Rightarrow> char list \<Rightarrow> nat \<Rightarrow> u64 \<Rightarrow> nat result \<times> u64 \<times> vmem option" where
  "mem_write env mm buf count ppos = (case mem_rw env True mm buf count ppos of (r, _, pos, vm) \<Rightarrow> (r, pos, vm))"

definition mem_lseek :: "u64 \<Rightarrow> u64 \<Rightarrow> int \<Rightarrow> u64 result \<times> u64" where
  "mem_lseek f_pos offset orig =
     (if orig = 0 then (Inr offset, offset)
      else if orig = 1 then (Inr (f_pos + offset), f_pos + offset)
      else (Inl EINVAL, f_pos))"

subsection \<open>environ\<close>

function environ_loop :: "mem_env \<Rightarrow> vmem \<Rightarrow> u64 \<Rightarrow> u64 \<Rightarrow> nat \<Rightarrow> u64 \<Rightarrow> nat \<Rightarrow> string \<Rightarrow> nat result \<times> string \<times> u64" where
  "environ_loop env vm env_start env_end count src ret out =
     (if count = 0 then (Inr ret, out, src)
      else if src \<ge> env_end - env_start then (Inr ret, out, src)
      else
        let this_len = unat (env_end - (env_start + src));
            max_len = min (me_page env) count;
            this_len = min max_len this_len;
            page = readable vm (env_start + src) this_len;
            retval = length page
        in if retval = 0 then (Inr 0, out, src)
           else if me_to_user env (length out) retval \<noteq> 0 then (Inl EFAULT, out, src)
           else environ_loop env vm env_start env_end (count - retval) (src + of_nat retval) (ret + retval) (out @ page))"
  by pat_completeness auto

termination
  by (relation "measure (\<lambda>(env, vm, es, ee, count, src, ret, out). count)") auto

declare environ_loop.simps [simp del]

definition environ_read :: "mem_env \<Rightarrow> (vmem \<times> mm_struct) option \<Rightarrow> nat \<Rightarrow> u64 \<Rightarrow> nat result \<times> string \<times> u64" where
  "environ_read env mm count ppos =
     (case mm of
        None \<Rightarrow> (Inr 0, [], ppos)
      | Some (vm, m) \<Rightarrow>
          if mm_env_end m = 0 then (Inr 0, [], ppos)
          else if \<not> me_alloc env then (Inl ENOMEM, [], ppos)
          else if \<not> me_mmget env then (Inr 0, [], ppos)
          else environ_loop env vm (mm_env_start m) (mm_env_end m) count ppos 0 [])"

subsection \<open>auxv\<close>

text \<open>The loop that counts the words up to \<^verbatim>\<open>AT_NULL\<close>; \<open>None\<close> is a read past the end of \<^verbatim>\<open>saved_auxv\<close>.  The
  result of \<open>auxv_read\<close> is the contents handed to \<^verbatim>\<open>simple_read_from_buffer\<close>, as words.\<close>

fun auxv_words :: "u64 list \<Rightarrow> nat option" where
  "auxv_words (t # v # rest) = (if t = 0 then Some 2 else map_option (\<lambda>n. n + 2) (auxv_words rest))"
| "auxv_words _ = None"

definition auxv_read :: "u64 list option \<Rightarrow> u64 list option" where
  "auxv_read mm = (case mm of None \<Rightarrow> Some [] | Some auxv \<Rightarrow> map_option (\<lambda>n. take n auxv) (auxv_words auxv))"

subsection \<open>The loops as single transfers\<close>

lemma readable_chunk:
  assumes "0 < page" "0 < count" "b = readable vm a (min count page)"
  shows "readable vm a count = b @ readable vm (a + of_nat (length b)) (count - length b)"
  using vm.piece [of "min count page" count "length b" vm a] assms by simp

lemma readable_chunk_Nil:
  assumes "0 < page" "0 < count" "readable vm a (min count page) = []"
  shows "readable vm a count = []"
  using vm.nothing [of "min count page" vm a count] assms by simp

lemma mem_read_loop_exact:
  assumes "user_ok env"
  shows "mem_rw_loop env False vm count addr copied inp out =
     (let b = readable vm addr count
      in (if copied = 0 \<and> b = [] \<and> 0 < count then Inl EIO else Inr (copied + length b), out @ b, addr + of_nat (length b), vm))"
  using assms
proof (induction env "False" vm count addr copied inp out rule: mem_rw_loop.induct)
  case (1 env vm count addr copied inp out)
  let ?b = "readable vm addr (min count (me_page env))"
  have pg: "0 < me_page env" "\<And>off n. me_to_user env off n = 0" using 1(2) by (simp_all add: user_ok_def)
  show ?case
  proof (cases "count = 0")
    case True
    then show ?thesis by (simp add: mem_rw_loop.simps)
  next
    case False
    show ?thesis
    proof (cases "?b = []")
      case True
      then show ?thesis using False readable_chunk_Nil [OF pg(1), of count vm addr] by (simp add: mem_rw_loop.simps)
    next
      case b: False
      have "readable vm addr count = ?b @ readable vm (addr + of_nat (length ?b)) (count - length ?b)"
        using readable_chunk [OF pg(1), of count ?b vm addr] False by simp
      then show ?thesis using False b pg 1(1) [of "min count (me_page env)" ?b "(length ?b, vm)" "length ?b" vm] 1(2)
        by (subst mem_rw_loop.simps) (simp add: Let_def add.assoc)
    qed
  qed
qed

lemma cmdline_loop_exact:
  assumes "user_ok env"
  shows "cmdline_loop env vm count pos out = (let b = readable vm pos count in (Inr (length (out @ b)), out @ b))"
  using assms
proof (induction env vm count pos out rule: cmdline_loop.induct)
  case (1 env vm count pos out)
  let ?b = "readable vm pos (min count (me_page env))"
  have pg: "0 < me_page env" "\<And>off n. me_to_user env off n = 0" using 1(2) by (simp_all add: user_ok_def)
  have mn: "min (me_page env) count = min count (me_page env)" by simp
  show ?case
  proof (cases "count = 0 \<or> ?b = []")
    case True
    then show ?thesis using readable_chunk_Nil [OF pg(1), of count vm pos]
      by (cases "count = 0") (simp_all add: cmdline_loop.simps min.commute)
  next
    case b: False
    have "readable vm pos count = ?b @ readable vm (pos + of_nat (length ?b)) (count - length ?b)"
      using readable_chunk [OF pg(1), of count ?b vm pos] b by simp
    then show ?thesis using b pg 1(1) [OF _ refl refl, of "length ?b"] 1(2)
      by (subst cmdline_loop.simps) (simp add: Let_def mn)
  qed
qed

text \<open>What a read of the environment can still ask for from a position.\<close>

definition env_left :: "u64 \<Rightarrow> u64 \<Rightarrow> u64 \<Rightarrow> nat" where
  "env_left env_start env_end src = unat (env_end - env_start) - unat src"

lemma env_left_word:
  assumes "src < env_end - env_start"
  shows "unat (env_end - (env_start + src)) = env_left env_start env_end src"
proof -
  have "env_end - (env_start + src) = (env_end - env_start) - src" by simp
  moreover have "src \<le> env_end - env_start" using assms by simp
  ultimately show ?thesis by (simp only: env_left_def unat_sub)
qed

lemma unat_add_of_nat: "unat (a :: u64) + n < 2 ^ 64 \<Longrightarrow> unat (a + of_nat n) = unat a + n"
  by (simp add: unat_word_ariths unat_of_nat_small)

lemma environ_loop_exact:
  assumes "user_ok env" "unat src \<le> unat (env_end - env_start)"
  shows "environ_loop env vm env_start env_end count src ret out =
     (let n = min count (env_left env_start env_end src); b = readable vm (env_start + src) n
      in (Inr (if length b = n then ret + n else 0), out @ b, src + of_nat (length b)))"
  using assms
proof (induction env vm env_start env_end count src ret out rule: environ_loop.induct)
  case (1 env vm env_start env_end count src ret out)
  have pg: "0 < me_page env" "\<And>off n. me_to_user env off n = 0" using 1(2) by (simp_all add: user_ok_def)
  show ?case
  proof (cases "count = 0 \<or> src \<ge> env_end - env_start")
    case True
    then have "min count (env_left env_start env_end src) = 0"
      using 1(3) by (auto simp: env_left_def word_le_nat_alt)
    then show ?thesis using True by (subst environ_loop.simps) (auto simp: Let_def)
  next
    case False
    define n where "n = min count (env_left env_start env_end src)"
    define b where "b = readable vm (env_start + src) (min n (me_page env))"
    have lt: "src < env_end - env_start" and nle: "\<not> env_end - env_start \<le> src" and c: "count \<noteq> 0" using False by auto
    have left: "0 < env_left env_start env_end src" using lt by (simp add: env_left_def word_less_nat_alt)
    have len: "min (min (me_page env) count) (unat (env_end - (env_start + src))) = min n (me_page env)"
      by (simp add: n_def env_left_word [OF lt] min.commute min.left_commute)
    have n: "0 < n" using left c by (simp add: n_def)
    show ?thesis
    proof (cases "b = []")
      case True
      then have "readable vm (env_start + src) n = []" using readable_chunk_Nil [OF pg(1) n] by (simp add: b_def)
      then show ?thesis using True lt c n
        by (subst environ_loop.simps) (simp add: Let_def len nle flip: n_def b_def)
    next
      case b: False
      have split: "readable vm (env_start + src) n = b @ readable vm (env_start + (src + of_nat (length b))) (n - length b)"
        using readable_chunk [OF pg(1) n b_def] by (simp add: add.assoc)
      have bn: "length b \<le> n" using length_readable [of vm "env_start + src" "min n (me_page env)"] by (simp add: b_def)
      then have room: "unat src + length b \<le> unat (env_end - env_start)" using left by (auto simp: n_def env_left_def)
      then have src: "unat (src + of_nat (length b)) = unat src + length b"
        using unat_less_64 [of "env_end - env_start"] unat_add_of_nat [of src "length b"] by simp
      have n': "min (count - length b) (env_left env_start env_end (src + of_nat (length b))) = n - length b"
        using bn by (simp add: n_def env_left_def src min_diff)
      have "environ_loop env vm env_start env_end count src ret out
        = environ_loop env vm env_start env_end (count - length b) (src + of_nat (length b)) (ret + length b) (out @ b)"
        using b c pg nle by (subst environ_loop.simps) (simp add: Let_def len flip: b_def)
      also have "\<dots> = (Inr (if length (readable vm (env_start + (src + of_nat (length b))) (n - length b)) = n - length b
            then ret + length b + (n - length b) else 0),
          (out @ b) @ readable vm (env_start + (src + of_nat (length b))) (n - length b),
          src + of_nat (length b) + of_nat (length (readable vm (env_start + (src + of_nat (length b))) (n - length b))))"
        using 1(1) [OF c _ refl refl refl] b lt c pg len n' room src 1(2)
        by (simp add: Let_def flip: b_def)
      finally have whole: "environ_loop env vm env_start env_end count src ret out = \<dots>" .
      have "length b + length (readable vm (env_start + (src + of_nat (length b))) (n - length b)) = n
        \<longleftrightarrow> length (readable vm (env_start + (src + of_nat (length b))) (n - length b)) = n - length b"
        using bn by auto
      then show ?thesis unfolding whole using bn by (simp add: Let_def split flip: n_def)
    qed
  qed
qed

subsection \<open>Writing\<close>

lemma store_Cons:
  "store m a (c # cs) = (if m a = None then (0, m) else (Suc (fst (store (m(a \<mapsto> c)) (a + 1) cs)), snd (store (m(a \<mapsto> c)) (a + 1) cs)))"
  by (simp split: option.splits prod.splits)

declare store.simps(2) [simp del] store_Cons [simp]

lemma store_length: "fst (store m a cs) \<le> length cs"
  by (induction cs arbitrary: m a) auto

lemma store_append:
  "store m a (xs @ ys) =
     (case store m a xs of (n, m') \<Rightarrow>
        if n = length xs then (case store m' (a + of_nat n) ys of (n', m'') \<Rightarrow> (n + n', m'')) else (n, m'))"
  by (induction xs arbitrary: m a) (auto simp: add.assoc split: prod.splits)

lemma store_unchanged: "fst (store m a cs) = 0 \<Longrightarrow> snd (store m a cs) = m"
  by (cases cs) (auto split: if_splits)

lemma store_stopped:
  "fst (store m a cs) < length cs \<Longrightarrow> snd (store m a cs) (a + of_nat (fst (store m a cs))) = None"
proof (induction cs arbitrary: m a)
  case (Cons c cs)
  then show ?case using Cons.IH [of "m(a \<mapsto> c)" "a + 1"] by (simp add: add.assoc del: fun_upd_apply split: if_splits)
qed simp

lemma store_other:
  "\<forall>i < length cs. b \<noteq> a + of_nat i \<Longrightarrow> snd (store m a cs) b = m b"
proof (induction cs arbitrary: m a)
  case (Cons c cs)
  have "b \<noteq> a + 1 + of_nat i" if "i < length cs" for i
    using Cons.prems that by (auto dest: spec [of _ "Suc i"] simp: add.assoc)
  moreover have "b \<noteq> a" using Cons.prems by (auto dest: spec [of _ 0])
  ultimately show ?case using Cons.IH [of "a + 1" "m(a \<mapsto> c)"]
    by (simp del: fun_upd_apply) (simp add: fun_upd_other)
qed simp

lemma readable_store:
  assumes "fst (store m a cs) = length cs" "length cs < 2 ^ 64"
  shows "readable (snd (store m a cs)) a (length cs) = cs"
  using assms
proof (induction cs arbitrary: m a)
  case (Cons c cs)
  then have x: "m a \<noteq> None" by (auto split: if_splits)
  let ?m = "m(a \<mapsto> c)"
  have full: "fst (store ?m (a + 1) cs) = length cs" using Cons.prems x by (auto split: prod.splits)
  have "a \<noteq> a + 1 + of_nat i" if "i < length cs" for i
  proof
    assume "a = a + 1 + of_nat i"
    then have "(of_nat (Suc i) :: u64) = 0" by (simp add: add.assoc)
    then have "unat (of_nat (Suc i) :: u64) = 0" by (simp only: unsigned_0)
    then show False using that Cons.prems(2) unat_of_nat_small [of "Suc i", where ?'a = 64] by simp
  qed
  then have "snd (store ?m (a + 1) cs) a = Some c" using store_other [of cs a "a + 1" ?m] by simp
  then show ?case using Cons.IH [OF full] Cons.prems(2) x by (simp del: fun_upd_apply)
qed simp

lemma mem_write_loop_exact:
  assumes "user_ok env" "count \<le> length inp"
  shows "mem_rw_loop env True vm count addr copied inp out =
     (case store vm addr (take count inp) of (n, vm') \<Rightarrow>
        (if copied = 0 \<and> n = 0 \<and> 0 < count then Inl EIO else Inr (copied + n), out, addr + of_nat n, vm'))"
  using assms
proof (induction env "True" vm count addr copied inp out rule: mem_rw_loop.induct)
  case (1 env vm count addr copied inp out)
  let ?l = "min count (me_page env)"
  have pg: "0 < me_page env" "\<And>off n. \<not> me_from_user env off n" using 1(2) by (simp_all add: user_ok_def)
  show ?case
  proof (cases "count = 0")
    case True
    then show ?thesis by (simp add: mem_rw_loop.simps)
  next
    case False
    obtain n vm' where st: "store vm addr (take ?l inp) = (n, vm')" by (cases "store vm addr (take ?l inp)")
    have l: "length (take ?l inp) = ?l" "0 < ?l" using 1(3) False pg by auto
    have tk: "take count inp = take ?l inp @ take (count - ?l) (drop ?l inp)" by (simp flip: take_add)
    have nl: "n \<le> ?l" using store_length [of vm addr "take ?l inp"] st l by simp
    have whole: "store vm addr (take count inp) =
        (case store vm' (addr + of_nat n) (take (count - n) (drop n inp)) of (n', m) \<Rightarrow> (n + n', m))"
    proof (cases "n = ?l")
      case True
      then show ?thesis using l by (simp add: tk store_append st)
    next
      case n: False
      then have "n < length (take ?l inp)" using nl unfolding l(1) by linarith
      then have "vm' (addr + of_nat n) = None" using store_stopped [of vm addr "take ?l inp"] st by simp
      then have "store vm' (addr + of_nat n) ds = (0, vm')" for ds by (cases ds) auto
      then show ?thesis using n l by (simp add: tk store_append st)
    qed
    show ?thesis
    proof (cases "n = 0")
      case True
      then have "fst (store vm addr (take ?l inp)) < length (take ?l inp)" using st unfolding l(1) using l(2) by simp
      then have "vm' addr = None" "vm' = vm"
        using store_stopped [of vm addr "take ?l inp"] store_unchanged [of vm addr "take ?l inp"] st True by simp_all
      then have "store vm addr (take count inp) = (0, vm')" by (cases "take count inp") auto
      then show ?thesis using False True st pg by (simp add: mem_rw_loop.simps Let_def)
    next
      case n: False
      show ?thesis using False n st pg 1(1) [OF False refl _ refl] 1(2,3) nl whole
        by (subst mem_rw_loop.simps) (auto simp: Let_def add.assoc split: prod.splits)
    qed
  qed
qed

lemma if_min: "(if (c :: nat) > x then x else c) = min c x"
  by auto

subsection \<open>Properties\<close>

definition demo_me :: mem_env where
  "demo_me = \<lparr>me_page = 4, me_alloc = True, me_mmget = True, me_to_user = (\<lambda>_ _. 0), me_from_user = (\<lambda>_ _. False)\<rparr>"

lemma demo_user_ok: "user_ok demo_me"
  by (simp add: user_ok_def demo_me_def)

definition demo_vm :: vmem where
  "demo_vm a = (if 16 \<le> a \<and> a < 32 then Some (if a = 23 then NUL else CHR ''x'') else None)"

text \<open>
  C25: Reading \<^verbatim>\<open>/proc/<pid>/mem\<close> page by page gives exactly the longest accessible run of bytes from the position, at
  most as many as asked: the result is their number, the position moves behind them, nothing is
  changed, and only a run that is empty from the start is an error.\<close>

theorem mem_read_exact:
  assumes "user_ok env"
  shows "mem_read env (Some vm) count ppos =
     (let b = readable vm ppos count
      in (if b = [] \<and> 0 < count then Inl EIO else Inr (length b), b, ppos + of_nat (length b)))"
  using mem_read_loop_exact [OF assms, of vm count ppos 0 "[]" "[]"] assms
  by (simp add: mem_read_def mem_rw_def user_ok_def Let_def)

theorem mem_read_exact_witness: "mem_read demo_me (Some demo_vm) 10 26 = (Inr 6, ''xxxxxx'', 32)"
proof -
  have "readable demo_vm 26 10 = ''xxxxxx''" by (simp add: readable_numeral demo_vm_def)
  then show ?thesis using mem_read_exact [OF demo_user_ok, of demo_vm 10 26] by simp
qed

text \<open>
  C26: What is written to \<^verbatim>\<open>/proc/<pid>/mem\<close> is read back: a write that reports all its bytes, seeking back and
  reading as many gives the bytes written, whatever the page size; addresses outside the range written keep their
  contents.\<close>

theorem mem_write_read:
  assumes "user_ok env" "0 < length buf" "length buf < 2 ^ 64"
    and "mem_write env (Some vm) buf (length buf) ppos = (Inr (length buf), pos', vm')"
    and "user_ok env2"
  shows "\<exists>m. vm' = Some m \<and> pos' = ppos + of_nat (length buf)
    \<and> mem_lseek pos' ppos 0 = (Inr ppos, ppos)
    \<and> mem_read env2 vm' (length buf) ppos = (Inr (length buf), buf, pos')
    \<and> (\<forall>a. (\<forall>i < length buf. a \<noteq> ppos + of_nat i) \<longrightarrow> m a = vm a)"
proof -
  obtain n m where st: "store vm ppos buf = (n, m)" by (cases "store vm ppos buf")
  have w: "mem_write env (Some vm) buf (length buf) ppos
      = (if n = 0 \<and> 0 < length buf then Inl EIO else Inr n, ppos + of_nat n, Some m)"
    using mem_write_loop_exact [OF assms(1), of "length buf" buf vm ppos 0 "[]"] st assms(1)
    by (simp add: mem_write_def mem_rw_def user_ok_def)
  then have n: "n = length buf" "vm' = Some m" "pos' = ppos + of_nat (length buf)" using assms(4) by (auto split: if_splits)
  have r: "readable m ppos (length buf) = buf" using readable_store [of vm ppos buf] st n assms(3) by simp
  have "mem_read env2 vm' (length buf) ppos = (Inr (length buf), buf, pos')"
    using mem_read_loop_exact [OF assms(5), of m "length buf" ppos 0 "[]" "[]"] assms(2,5) r n
    by (simp add: mem_read_def mem_rw_def user_ok_def Let_def)
  moreover have "m a = vm a" if "\<forall>i < length buf. a \<noteq> ppos + of_nat i" for a
    using store_other [OF that, of vm] st by simp
  ultimately show ?thesis using n by (simp add: mem_lseek_def)
qed

theorem mem_write_read_witness:
  "\<exists>m. mem_write demo_me (Some demo_vm) ''hello'' (length ''hello'') 20 = (Inr (length ''hello''), 25, Some m)
     \<and> mem_read demo_me (Some m) (length ''hello'') 20 = (Inr (length ''hello''), ''hello'', 25)"
proof -
  let ?w = "mem_write demo_me (Some demo_vm) ''hello'' (length ''hello'') 20"
  have "fst (store demo_vm 20 ''hello'') = 5" by (simp add: demo_vm_def)
  then obtain m where "store demo_vm 20 ''hello'' = (5, m)" by (metis prod.collapse)
  then have w: "?w = (Inr (length ''hello''), 25, Some m)"
    using mem_write_loop_exact [OF demo_user_ok, of "length ''hello''" "''hello''" demo_vm 20 0 "[]"]
    by (simp add: mem_write_def mem_rw_def demo_me_def)
  show ?thesis using mem_write_read [OF demo_user_ok _ _ w demo_user_ok] w by auto
qed

text \<open>
  \<^verbatim>\<open>/proc/<pid>/cmdline\<close> never shows a byte outside the argument area unless the process has overwritten the end of
  it: while the last argument byte is NUL, a read gives exactly the accessible bytes from the position to the
  end of the arguments, cut to the count asked, and behind the arguments it gives nothing, even though the
  length computed first includes the environment.\<close>

theorem cmdline_within_args:
  assumes "user_ok env" "mm_env_end mm \<noteq> 0" "mm_arg_start mm < mm_arg_end mm" "readable vm (mm_arg_end mm - 1) 1 = [NUL]"
  shows "get_mm_cmdline env vm mm count pos =
     (let b = readable vm (mm_arg_start mm + pos) (min count (unat (mm_arg_end mm - mm_arg_start mm) - unat pos))
      in (Inr (length b), b))"
proof -
  let ?a = "mm_arg_start mm" and ?e = "mm_arg_end mm"
  define env_end where "env_end = cmdline_end mm"
  have order: "?a < ?e" "?e \<le> env_end" using assms(3) by (auto simp: env_end_def cmdline_end_def not_less)
  have al: "unat (?e - ?a) = unat ?e - unat ?a" "unat (env_end - ?a) = unat env_end - unat ?a"
    using order by (simp_all add: unat_sub)
  have o: "unat ?a < unat ?e" "unat ?e \<le> unat env_end" "unat env_end < 2 ^ 64"
    using order unat_less_64 [of env_end] by (simp_all add: word_less_nat_alt word_le_nat_alt)
  have alloc: "me_alloc env" using assms(1) by (simp add: user_ok_def)
  have e: "get_mm_cmdline env vm mm count pos =
      (if env_end - ?a \<le> pos then (Inr 0, [])
       else if min count (unat (env_end - ?a - pos)) = 0 then (Inr 0, [])
       else if pos + ?a < ?a \<or> ?e \<le> pos + ?a then (Inr 0, [])
       else cmdline_loop env vm (min (min count (unat (env_end - ?a - pos))) (unat (?e - (pos + ?a)))) (pos + ?a) [])"
    unfolding get_mm_cmdline_def Let_def if_min env_end_def using assms(2-4) alloc by auto
  show ?thesis
  proof (cases "unat pos < unat ?e - unat ?a")
    case False
    have "pos + ?a \<ge> ?e" if "\<not> env_end - ?a \<le> pos"
    proof -
      have "unat pos + unat ?a < 2 ^ 64" using that o al by (simp add: word_le_nat_alt)
      then show ?thesis using False by (simp add: word_le_nat_alt unat_word_ariths)
    qed
    then have "get_mm_cmdline env vm mm count pos = (Inr 0, [])" unfolding e by auto
    then show ?thesis using False al by simp
  next
    case True
    have p: "unat (pos + ?a) = unat pos + unat ?a" using True o by (simp add: unat_word_ariths)
    have c1: "\<not> env_end - ?a \<le> pos" "\<not> pos + ?a < ?a" "\<not> ?e \<le> pos + ?a"
      using True o al p by (simp_all add: word_le_nat_alt word_less_nat_alt)
    have left: "unat (?e - (pos + ?a)) = unat ?e - unat ?a - unat pos" "unat (env_end - ?a - pos) = unat env_end - unat ?a - unat pos"
      using c1 p al True o by (simp_all add: unat_sub word_le_nat_alt)
    let ?n = "min count (unat ?e - unat ?a - unat pos)"
    have "min (min count (unat (env_end - ?a - pos))) (unat (?e - (pos + ?a))) = ?n" using left o by auto
    then have "get_mm_cmdline env vm mm count pos
        = (if min count (unat (env_end - ?a - pos)) = 0 then (Inr 0, []) else cmdline_loop env vm ?n (pos + ?a) [])"
      unfolding e using c1 by (simp only: if_False de_Morgan_disj simp_thms)
    moreover have "min count (unat (env_end - ?a - pos)) = 0 \<longleftrightarrow> count = 0" using left True o by auto
    ultimately show ?thesis using cmdline_loop_exact [OF assms(1), of vm ?n "pos + ?a" "[]"] al
      by (simp add: Let_def add.commute)
  qed
qed

theorem cmdline_within_args_witness:
  "get_mm_cmdline demo_me demo_vm \<lparr>mm_flags = 0, mm_users = 1, mm_arg_start = 16, mm_arg_end = 24, mm_env_start = 24,
     mm_env_end = 32\<rparr> 100 4 = (Inr 4, ''xxx'' @ [NUL])"
proof -
  let ?mm = "\<lparr>mm_flags = 0, mm_users = 1, mm_arg_start = 16, mm_arg_end = 24, mm_env_start = 24, mm_env_end = 32\<rparr>"
  have "readable demo_vm 20 4 = ''xxx'' @ [NUL]" "readable demo_vm (mm_arg_end ?mm - 1) 1 = [NUL]"
    by (simp_all add: readable_numeral demo_vm_def)
  then show ?thesis using cmdline_within_args [OF demo_user_ok, of ?mm demo_vm 100 4] by simp
qed

text \<open>
  Reading \<^verbatim>\<open>/proc/<pid>/environ\<close> never goes past the end of the environment, and gives exactly the bytes asked for
  when they are all accessible.  When the accessible run ends early the bytes before the gap are delivered and the
  position moves behind them, but the result is 0, as at the end of the file.\<close>

theorem environ_read_exact:
  assumes "user_ok env" "mm_env_end mm \<noteq> 0" "unat pos \<le> unat (mm_env_end mm - mm_env_start mm)"
  shows "environ_read env (Some (vm, mm)) count pos =
     (let n = min count (unat (mm_env_end mm - mm_env_start mm) - unat pos); b = readable vm (mm_env_start mm + pos) n
      in (Inr (if length b = n then n else 0), b, pos + of_nat (length b)))"
  using environ_loop_exact [OF assms(1,3), of vm count 0 "[]"] assms(1,2)
  by (simp add: environ_read_def user_ok_def env_left_def Let_def)

theorem environ_read_exact_witness:
  "environ_read demo_me (Some (demo_vm, \<lparr>mm_flags = 0, mm_users = 1, mm_arg_start = 16, mm_arg_end = 24, mm_env_start = 24,
     mm_env_end = 40\<rparr>)) 12 0 = (Inr 0, ''xxxxxxxx'', 8)"
proof -
  let ?mm = "\<lparr>mm_flags = 0, mm_users = 1, mm_arg_start = 16, mm_arg_end = 24, mm_env_start = 24, mm_env_end = 40\<rparr>"
  have "readable demo_vm 24 12 = ''xxxxxxxx''" by (simp add: readable_numeral demo_vm_def)
  then show ?thesis using environ_read_exact [OF demo_user_ok, of ?mm 0 demo_vm 12] by simp
qed

end
