(* ===== verification/Proc_Info.thy ===== *)
theory Proc_Info
  imports Proc_Mem Mm_Life
begin

unbundle bit_operations_syntax

section \<open>The files of \<^verbatim>\<open>/proc/<pid>\<close> that show the state of a task\<close>

text \<open>
  \<^verbatim>\<open>fs/proc/base.c\<close>: the files behind \<^verbatim>\<open>proc_single_show\<close> (\<^verbatim>\<open>stack\<close>, \<^verbatim>\<open>syscall\<close>, \<^verbatim>\<open>personality\<close>, \<^verbatim>\<open>io\<close>, \<^verbatim>\<open>wchan\<close>, \<^verbatim>\<open>schedstat\<close>,
  \<^verbatim>\<open>oom_score\<close>, \<^verbatim>\<open>limits\<close>, \<^verbatim>\<open>patch_state\<close>, \<^verbatim>\<open>stack_depth\<close>).  A show function gives its error, the text it prints and the locks and
  references it takes; what it asks of the rest of the kernel is an argument.

  The locale \<open>guarded_show\<close> is what the files that reveal something of another process promise: without the right to
  look at it the result is the same whatever its state, and every lock taken is released.  It is interpreted on
  five of them; \<open>refusing_show\<close> adds that the refusal is an error, which four of them promise.
\<close>

subsection \<open>Tracing rights\<close>

datatype ires = I_exec_lock | I_entries | I_siglock | I_task tptr

type_synonym shown = "errno option \<times> string \<times> ires revent list"

record trace_env =
  tr_lock :: "errno option"
  tr_may_attach :: bool
  tr_may_read :: bool

definition lock_trace :: "trace_env \<Rightarrow> errno option \<times> ires revent list" where
  "lock_trace env =
     (case tr_lock env of
        Some err \<Rightarrow> (Some err, [])
      | None \<Rightarrow> if \<not> tr_may_attach env then (Some EPERM, [Acq I_exec_lock, Rel I_exec_lock]) else (None, [Acq I_exec_lock]))"

definition unlock_trace :: "ires revent list" where "unlock_trace = [Rel I_exec_lock]"

definition MAX_STACK_TRACE_DEPTH :: nat where "MAX_STACK_TRACE_DEPTH = 64"

text \<open>\<open>capable\<close> is \<^verbatim>\<open>file_ns_capable\<close> with \<^verbatim>\<open>CAP_SYS_ADMIN\<close>; \<open>unwind n\<close> are the at most \<open>n\<close> entries of \<^verbatim>\<open>stack_trace_save_tsk\<close>, printed by
  \<^verbatim>\<open>%pB\<close>.\<close>

definition proc_pid_stack :: "bool \<Rightarrow> bool \<Rightarrow> (nat \<Rightarrow> string list) \<Rightarrow> trace_env \<Rightarrow> shown" where
  "proc_pid_stack capable alloc unwind env =
     (if \<not> capable then (Some EACCES, [], [])
      else if \<not> alloc then (Some ENOMEM, [], [])
      else case lock_trace env of
        (None, ev) \<Rightarrow>
          (None, concat (map (\<lambda>s. ''[<0>] '' @ s @ [NL]) (unwind MAX_STACK_TRACE_DEPTH)),
           [Acq I_entries] @ ev @ unlock_trace @ [Rel I_entries])
      | (Some err, ev) \<Rightarrow> (Some err, [], [Acq I_entries] @ ev @ [Rel I_entries]))"

record syscall_info =
  si_nr :: int
  si_args :: "u64 list"
  si_sp :: u64
  si_ip :: u64

definition hex_0x :: "u64 \<Rightarrow> string" where
  "hex_0x w = ''0x'' @ hex_nat (unat w)"

text \<open>\<open>info\<close> is \<open>None\<close> when \<^verbatim>\<open>task_current_syscall\<close> finds the task running.\<close>

definition proc_pid_syscall :: "syscall_info option \<Rightarrow> trace_env \<Rightarrow> shown" where
  "proc_pid_syscall info env =
     (case lock_trace env of
        (Some res, ev) \<Rightarrow> (Some res, [], ev)
      | (None, ev) \<Rightarrow>
          (None,
           (case info of
              None \<Rightarrow> ''running'' @ [NL]
            | Some i \<Rightarrow>
                if si_nr i < 0 then dec_int (si_nr i) @ SPC # hex_0x (si_sp i) @ SPC # hex_0x (si_ip i) @ [NL]
                else dec_int (si_nr i) @ concat (map (\<lambda>a. SPC # hex_0x a) (take 6 (si_args i)))
                       @ SPC # hex_0x (si_sp i) @ SPC # hex_0x (si_ip i) @ [NL]),
           ev @ unlock_trace))"

definition proc_pid_personality :: "task_struct \<Rightarrow> trace_env \<Rightarrow> shown" where
  "proc_pid_personality task env =
     (case lock_trace env of
        (Some err, ev) \<Rightarrow> (Some err, [], ev)
      | (None, ev) \<Rightarrow> (None, hex8 (unat (t_personality task)) @ [NL], ev @ unlock_trace))"

text \<open>\<open>ps\<close> is the symbol \<^verbatim>\<open>%ps\<close> prints for an address.\<close>

definition proc_pid_wchan :: "(u64 \<Rightarrow> string) \<Rightarrow> u64 \<Rightarrow> trace_env \<Rightarrow> shown" where
  "proc_pid_wchan ps get_wchan env =
     (let wchan = (if tr_may_read env then get_wchan else 0)
      in (None, if wchan \<noteq> 0 then ps wchan else ''0'', []))"

subsection \<open>I/O accounting\<close>

text \<open>The seven counters in the order they are printed.  \<open>add\<close> is \<^verbatim>\<open>task_io_accounting_add\<close>; \<open>sig\<close> are the counters of the
  signal structure and \<open>others\<close> those of the other threads of the group; \<open>sighand\<close> is \<^verbatim>\<open>lock_task_sighand\<close>.\<close>

type_synonym ioac = "u64 list"

definition io_labels :: "string list" where
  "io_labels = [''rchar: '', ''wchar: '', ''syscr: '', ''syscw: '', ''read_bytes: '', ''write_bytes: '', ''cancelled_write_bytes: '']"

definition io_text :: "ioac \<Rightarrow> string" where
  "io_text acct = concat (map2 (\<lambda>l w. l @ dec_nat (unat w) @ [NL]) io_labels acct)"

definition do_io_accounting ::
  "(ioac \<Rightarrow> ioac \<Rightarrow> ioac) \<Rightarrow> bool \<Rightarrow> ioac \<Rightarrow> ioac \<Rightarrow> ioac list \<Rightarrow> bool \<Rightarrow> trace_env \<Rightarrow> shown" where
  "do_io_accounting add sighand acct sig others whole env =
     (case tr_lock env of
        Some result \<Rightarrow> (Some result, [], [])
      | None \<Rightarrow>
          if \<not> tr_may_read env then (Some EACCES, [], [Acq I_exec_lock, Rel I_exec_lock])
          else
            let (acct, ev) = (if whole \<and> sighand then (foldl add (add acct sig) others, [Acq I_siglock, Rel I_siglock]) else (acct, []))
            in (None, io_text acct, [Acq I_exec_lock] @ ev @ [Rel I_exec_lock]))"

definition proc_tid_io_accounting where "proc_tid_io_accounting add sighand acct sig others = do_io_accounting add sighand acct sig others False"
definition proc_tgid_io_accounting where "proc_tgid_io_accounting add sighand acct sig others = do_io_accounting add sighand acct sig others True"

subsection \<open>Files anyone may read\<close>

definition proc_pid_schedstat :: "bool \<Rightarrow> u64 \<Rightarrow> u64 \<Rightarrow> u64 \<Rightarrow> shown" where
  "proc_pid_schedstat sched_info_on runtime run_delay pcount =
     (None, if \<not> sched_info_on then ''0 0 0'' @ [NL]
            else dec_nat (unat runtime) @ SPC # dec_nat (unat run_delay) @ SPC # dec_nat (unat pcount) @ [NL], [])"

text \<open>\<open>badness\<close> is the result of \<^verbatim>\<open>oom_badness\<close>, a \<^verbatim>\<open>long\<close>; the product wraps at 64 bits and the quotients round towards
  zero.  \<open>points\<close> is printed as an \<^verbatim>\<open>unsigned long\<close>.\<close>

definition LONG_MIN :: int where "LONG_MIN = - (2 ^ 63)"

definition to_long :: "int \<Rightarrow> int" where "to_long i = signed_take_bit 63 i"

definition oom_points :: "u64 \<Rightarrow> int \<Rightarrow> u64" where
  "oom_points totalpages badness =
     (if badness \<noteq> LONG_MIN then
        word_of_int (to_long ((1000 + to_long (badness * 1000) sdiv sint totalpages) * 2) sdiv 3)
      else 0)"

definition proc_oom_score :: "u64 \<Rightarrow> (u64 \<Rightarrow> int) \<Rightarrow> shown" where
  "proc_oom_score totalpages oom_badness = (None, dec_nat (unat (oom_points totalpages (oom_badness totalpages))) @ [NL], [])"

definition RLIM_INFINITY :: u64 where "RLIM_INFINITY = - 1"

definition lnames :: "(string \<times> string option) list" where
  "lnames = [(''Max cpu time'', Some ''seconds''), (''Max file size'', Some ''bytes''), (''Max data size'', Some ''bytes''),
     (''Max stack size'', Some ''bytes''), (''Max core file size'', Some ''bytes''), (''Max resident set'', Some ''bytes''),
     (''Max processes'', Some ''processes''), (''Max open files'', Some ''files''), (''Max locked memory'', Some ''bytes''),
     (''Max address space'', Some ''bytes''), (''Max file locks'', Some ''locks''), (''Max pending signals'', Some ''signals''),
     (''Max msgqueue size'', Some ''bytes''), (''Max nice priority'', None), (''Max realtime priority'', None),
     (''Max realtime timeout'', Some ''us'')]"

text \<open>\<^verbatim>\<open>%-ns\<close>.\<close>

definition pad :: "nat \<Rightarrow> string \<Rightarrow> string" where
  "pad n s = s @ replicate (n - length s) SPC"

definition limit_value :: "u64 \<Rightarrow> string" where
  "limit_value w = (if w = RLIM_INFINITY then ''unlimited'' else dec_nat (unat w))"

definition limit_row :: "string \<times> string option \<Rightarrow> u64 \<times> u64 \<Rightarrow> string" where
  "limit_row ln lim =
     pad 25 (fst ln) @ SPC # pad 20 (limit_value (fst lim)) @ SPC # pad 20 (limit_value (snd lim)) @ SPC
       # (case snd ln of Some u \<Rightarrow> pad 10 u @ [NL] | None \<Rightarrow> [NL])"

definition proc_pid_limits :: "bool \<Rightarrow> signal_struct \<Rightarrow> shown" where
  "proc_pid_limits sighand sg =
     (if \<not> sighand then (None, [], [])
      else (None, pad 26 ''Limit'' @ pad 21 ''Soft Limit'' @ pad 21 ''Hard Limit'' @ pad 10 ''Units'' @ [NL]
                    @ concat (map2 limit_row lnames (sg_rlim sg)), [Acq I_siglock, Rel I_siglock]))"

text \<open>\<open>task\<close> is \<^verbatim>\<open>get_pid_task\<close>.\<close>

definition proc_single_show :: "(tptr \<Rightarrow> shown) \<Rightarrow> tptr option \<Rightarrow> shown" where
  "proc_single_show proc_show task =
     (case task of
        None \<Rightarrow> (Some ESRCH, [], [])
      | Some p \<Rightarrow> (case proc_show p of (ret, out, ev) \<Rightarrow> (ret, out, [Acq (I_task p)] @ ev @ [Rel (I_task p)])))"

definition proc_pid_patch_state :: "int \<Rightarrow> shown" where
  "proc_pid_patch_state patch_state = (None, dec_int patch_state @ [NL], [])"

text \<open>\<open>thread_size\<close> is \<^verbatim>\<open>THREAD_SIZE\<close>.\<close>

definition stack_used :: "u64 \<Rightarrow> u64 \<Rightarrow> u64" where
  "stack_used thread_size lowest = thread_size - (lowest AND (thread_size - 1))"

definition proc_stack_depth :: "u64 \<Rightarrow> u64 \<Rightarrow> u64 \<Rightarrow> shown" where
  "proc_stack_depth thread_size prev_lowest_stack lowest_stack =
     (None, ''previous stack depth: '' @ dec_nat (unat (stack_used thread_size prev_lowest_stack)) @ NL
        # ''stack depth: '' @ dec_nat (unat (stack_used thread_size lowest_stack)) @ [NL], [])"

subsection \<open>Nothing is shown without the right to look\<close>

locale guarded_show =
  fixes shw :: "'d \<Rightarrow> trace_env \<Rightarrow> shown"
    and right :: "trace_env \<Rightarrow> bool"
  assumes blind: "\<not> right env \<Longrightarrow> shw d env = shw d' env"
    and released: "unstack (snd (snd (shw d env))) [] = Some []"
begin

text \<open>Read through \<^verbatim>\<open>proc_single_show\<close>, for a task that may have gone.\<close>

lemma single_blind: "\<not> right env \<Longrightarrow> proc_single_show (\<lambda>p. shw (d p) env) task = proc_single_show (\<lambda>p. shw (d' p) env) task"
  using blind [of env] by (simp add: proc_single_show_def split: option.splits) metis

lemma single_released: "unstack (snd (snd (proc_single_show (\<lambda>p. shw (d p) env) task))) [] = Some []"
proof (cases task)
  case (Some p)
  obtain ret out ev where r: "shw (d p) env = (ret, out, ev)" by (cases "shw (d p) env")
  then have "unstack ev [I_task p] = Some [I_task p]" using unstack_above [OF released, of "d p" env "[I_task p]"] by simp
  then show ?thesis using Some r by (simp add: proc_single_show_def unstack_append)
qed (simp add: proc_single_show_def)

end

locale refusing_show = guarded_show +
  assumes refused: "\<not> right env \<Longrightarrow> fst (shw d env) \<noteq> None \<and> fst (snd (shw d env)) = []"
begin

lemma single_refused:
  "\<not> right env \<Longrightarrow> fst (proc_single_show (\<lambda>p. shw (d p) env) task) \<noteq> None \<and> fst (snd (proc_single_show (\<lambda>p. shw (d p) env) task)) = []"
  using refused [of env] by (simp add: proc_single_show_def split: option.splits prod.splits) (metis fst_conv snd_conv)

end

definition attach_right :: "trace_env \<Rightarrow> bool" where
  "attach_right env \<longleftrightarrow> tr_lock env = None \<and> tr_may_attach env"

definition read_right :: "trace_env \<Rightarrow> bool" where
  "read_right env \<longleftrightarrow> tr_lock env = None \<and> tr_may_read env"

lemmas trace_defs = lock_trace_def unlock_trace_def attach_right_def read_right_def

interpretation stack_file: refusing_show "proc_pid_stack capable alloc" "\<lambda>env. capable \<and> attach_right env" for capable alloc
  by unfold_locales (auto simp: proc_pid_stack_def trace_defs split: option.splits)

interpretation syscall_file: refusing_show proc_pid_syscall attach_right
  by unfold_locales (auto simp: proc_pid_syscall_def trace_defs split: option.splits)

interpretation personality_file: refusing_show proc_pid_personality attach_right
  by unfold_locales (auto simp: proc_pid_personality_def trace_defs split: option.splits)

interpretation io_file: refusing_show "\<lambda>(acct, sig, others). do_io_accounting add sighand acct sig others whole" read_right
  for add sighand whole
  by unfold_locales (auto simp: do_io_accounting_def trace_defs split: option.splits)

interpretation wchan_file: guarded_show "proc_pid_wchan ps" tr_may_read for ps
  by unfold_locales (auto simp: proc_pid_wchan_def)

text \<open>
  C32: the files of a process that reveal its execution are closed to a caller without the right to trace it.  The caller may not
  attach, or the lock of \<^verbatim>\<open>exec_update_lock\<close> was interrupted: then, read through \<^verbatim>\<open>proc_single_show\<close> for any task,
  \<^verbatim>\<open>stack\<close>, \<^verbatim>\<open>syscall\<close> and \<^verbatim>\<open>personality\<close> end with an error, print nothing, and give the same result for any two states of the task.
  Without the right to read, \<^verbatim>\<open>io\<close> does the same (for the thread and for the group), and \<^verbatim>\<open>wchan\<close> prints the same for every
  state.  Every lock and reference taken on any path, allowed or not, is released in reverse order.\<close>

theorem trace_files_protected:
  fixes capable alloc sighand whole :: bool and task :: "tptr option" and add :: "ioac \<Rightarrow> ioac \<Rightarrow> ioac" and ps :: "u64 \<Rightarrow> string"
  assumes "\<not> attach_right env" and "\<not> tr_may_read env"
  defines "stackf d e \<equiv> proc_single_show (\<lambda>p. proc_pid_stack capable alloc (d p) e) task"
    and "syscf d2 e \<equiv> proc_single_show (\<lambda>p. proc_pid_syscall (d2 p) e) task"
    and "persf d3 e \<equiv> proc_single_show (\<lambda>p. proc_pid_personality (d3 p) e) task"
    and "iof a b c e \<equiv> proc_single_show (\<lambda>p. do_io_accounting add sighand (a p) (b p) (c p) whole e) task"
    and "wchanf d4 e \<equiv> proc_single_show (\<lambda>p. proc_pid_wchan ps (d4 p) e) task"
  shows "stackf u env = stackf u' env \<and> fst (stackf u env) \<noteq> None \<and> fst (snd (stackf u env)) = []
    \<and> syscf s env = syscf s' env \<and> fst (syscf s env) \<noteq> None \<and> fst (snd (syscf s env)) = []
    \<and> persf t env = persf t' env \<and> fst (persf t env) \<noteq> None \<and> fst (snd (persf t env)) = []
    \<and> iof a b c env = iof a' b' c' env \<and> fst (iof a b c env) \<noteq> None \<and> fst (snd (iof a b c env)) = []
    \<and> wchanf w env = wchanf w' env
    \<and> unstack (snd (snd (stackf u env'))) [] = Some [] \<and> unstack (snd (snd (syscf s env'))) [] = Some []
    \<and> unstack (snd (snd (persf t env'))) [] = Some [] \<and> unstack (snd (snd (iof a b c env'))) [] = Some []"
proof -
  have r: "\<not> (capable \<and> attach_right env)" "\<not> read_right env" using assms(1,2) by (auto simp: read_right_def)
  note io = io_file.single_blind [OF r(2), of add sighand whole "\<lambda>p. (a p, b p, c p)" task "\<lambda>p. (a' p, b' p, c' p)"]
    io_file.single_refused [OF r(2), of add sighand whole "\<lambda>p. (a p, b p, c p)" task]
    io_file.single_released [of add sighand whole "\<lambda>p. (a p, b p, c p)" env' task]
  note blind = stack_file.single_blind [OF r(1)] syscall_file.single_blind [OF assms(1)] personality_file.single_blind [OF assms(1)]
    wchan_file.single_blind [OF assms(2)]
  note refused = stack_file.single_refused [OF r(1)] syscall_file.single_refused [OF assms(1)] personality_file.single_refused [OF assms(1)]
  show ?thesis
    unfolding assms(3-7)
  proof (intro conjI)
    show "proc_single_show (\<lambda>p. proc_pid_stack capable alloc (u p) env) task = proc_single_show (\<lambda>p. proc_pid_stack capable alloc (u' p) env) task"
      "proc_single_show (\<lambda>p. proc_pid_syscall (s p) env) task = proc_single_show (\<lambda>p. proc_pid_syscall (s' p) env) task"
      "proc_single_show (\<lambda>p. proc_pid_personality (t p) env) task = proc_single_show (\<lambda>p. proc_pid_personality (t' p) env) task"
      "proc_single_show (\<lambda>p. proc_pid_wchan ps (w p) env) task = proc_single_show (\<lambda>p. proc_pid_wchan ps (w' p) env) task"
      by (fact blind)+
  qed (use io refused in \<open>auto simp: stack_file.single_released syscall_file.single_released personality_file.single_released\<close>)
qed

theorem trace_files_protected_witness:
  "let env = \<lparr>tr_lock = None, tr_may_attach = False, tr_may_read = False\<rparr>;
       u = (\<lambda>n. take n [''do_wait+0x1'', ''schedule+0x2'']); v = (\<lambda>n. [])
   in proc_single_show (\<lambda>p. proc_pid_stack True True u env) (Some 3) = proc_single_show (\<lambda>p. proc_pid_stack True True v env) (Some 3)
      \<and> fst (proc_single_show (\<lambda>p. proc_pid_stack True True u env) (Some 3)) = Some EPERM
      \<and> proc_pid_stack True True u (env\<lparr>tr_may_attach := True\<rparr>) \<noteq> proc_pid_stack True True v (env\<lparr>tr_may_attach := True\<rparr>)"
  using trace_files_protected [of "\<lparr>tr_lock = None, tr_may_attach = False, tr_may_read = False\<rparr>" True True
      "\<lambda>_ n. take n [''do_wait+0x1'', ''schedule+0x2'']" "Some 3" "\<lambda>_ n. []"]
  by (simp add: attach_right_def Let_def proc_single_show_def proc_pid_stack_def lock_trace_def unlock_trace_def MAX_STACK_TRACE_DEPTH_def)

subsection \<open>What the counters and scores say\<close>

text \<open>\<^verbatim>\<open>task_io_accounting_add\<close> adds every counter to its counterpart.\<close>

definition io_add_doc :: "(ioac \<Rightarrow> ioac \<Rightarrow> ioac) \<Rightarrow> bool" where
  "io_add_doc add \<longleftrightarrow> (\<forall>x y. length x = 7 \<and> length y = 7 \<longrightarrow> add x y = map2 (+) x y)"

lemma io_fold:
  "io_add_doc add \<Longrightarrow> length x = 7 \<Longrightarrow> \<forall>y \<in> set ys. length y = 7 \<Longrightarrow>
   foldl add x ys = map (\<lambda>i. x ! i + sum_list (map (\<lambda>y. y ! i) ys)) [0..<7]"
proof (induction ys arbitrary: x)
  case Nil
  then show ?case by (auto intro: nth_equalityI)
next
  case (Cons y ys)
  then have "add x y = map2 (+) x y" by (simp add: io_add_doc_def)
  then show ?case using Cons.IH [of "map2 (+) x y"] Cons.prems by (auto simp: add.assoc)
qed

text \<open>
  \<^verbatim>\<open>/proc/<pid>/io\<close> of a group shows, counter by counter, the sum over the thread, the threads that have exited (the counters
  of the signal structure) and the other threads, modulo \<open>2 ^ 64\<close>; with the signal handlers gone, and in the file of a
  single thread, its own counters.  \<^verbatim>\<open>task_io_accounting_add\<close> is assumed to add the counters.\<close>

theorem io_accounting_sums:
  assumes "io_add_doc add" and "read_right env"
    and "length acct = 7" and "length sig = 7" and "\<forall>o' \<in> set others. length o' = 7"
  shows "fst (snd (proc_tgid_io_accounting add True acct sig others env))
      = io_text (map (\<lambda>i. acct ! i + sig ! i + sum_list (map (\<lambda>o'. o' ! i) others)) [0..<7])"
    and "fst (snd (proc_tgid_io_accounting add False acct sig others env)) = io_text acct"
    and "fst (snd (proc_tid_io_accounting add sighand acct sig others env)) = io_text acct"
proof -
  have "foldl add (add acct sig) others = foldl add acct (sig # others)" by simp
  also have "\<dots> = map (\<lambda>i. acct ! i + sig ! i + sum_list (map (\<lambda>o'. o' ! i) others)) [0..<7]"
    using io_fold [OF assms(1,3), of "sig # others"] assms(4,5) by (simp add: add.assoc)
  finally show "fst (snd (proc_tgid_io_accounting add True acct sig others env))
      = io_text (map (\<lambda>i. acct ! i + sig ! i + sum_list (map (\<lambda>o'. o' ! i) others)) [0..<7])"
    using assms(2) by (simp add: proc_tgid_io_accounting_def do_io_accounting_def read_right_def Let_def)
qed (use assms(2) in \<open>simp_all add: proc_tgid_io_accounting_def proc_tid_io_accounting_def do_io_accounting_def read_right_def Let_def\<close>)

theorem io_accounting_sums_witness:
  "fst (snd (proc_tgid_io_accounting (map2 (+)) True [1, 2, 3, 4, 5, 6, 7] (replicate 7 (- 1)) [replicate 7 1]
      \<lparr>tr_lock = None, tr_may_attach = False, tr_may_read = True\<rparr>)) = io_text [1, 2, 3, 4, 5, 6, 7]"
proof -
  have 7: "[0..<7] = [0, 1, 2, 3, 4, 5, 6::nat]" by (simp add: upt_rec)
  show ?thesis
    using io_accounting_sums(1) [of "map2 (+)" "\<lparr>tr_lock = None, tr_may_attach = False, tr_may_read = True\<rparr>" "[1, 2, 3, 4, 5, 6, 7]"
        "replicate 7 (- 1)" "[replicate 7 1]"]
    by (simp add: io_add_doc_def read_right_def 7)
qed

lemma to_long_id: "- (2 ^ 63) \<le> i \<Longrightarrow> i < 2 ^ 63 \<Longrightarrow> to_long i = i"
  by (simp add: to_long_def signed_take_bit_int_eq_self)

lemma sdiv_pos: "0 < t \<Longrightarrow> 0 \<le> x \<Longrightarrow> x sdiv t = x div (t :: int)"
  and sdiv_neg: "0 < t \<Longrightarrow> x \<le> 0 \<Longrightarrow> x sdiv t = - ((- x) div (t :: int))"
  by (auto simp: signed_divide_int_def sgn_if)

lemma sdiv_mono: "0 < t \<Longrightarrow> x \<le> y \<Longrightarrow> x sdiv t \<le> y sdiv (t :: int)"
proof -
  assume t: "0 < t" and le: "x \<le> y"
  note pos = sdiv_pos [OF t] and neg = sdiv_neg [OF t]
  consider "0 \<le> x" | "x \<le> 0" "0 \<le> y" | "y \<le> 0" using le by linarith
  then show ?thesis
  proof cases
    case 1
    then show ?thesis using le t by (simp add: pos zdiv_mono1)
  next
    case 2
    then have "0 \<le> (- x) div t" "0 \<le> y div t" using t by (auto simp: pos_imp_zdiv_nonneg_iff)
    then show ?thesis using 2 by (simp add: pos neg)
  next
    case 3
    then show ?thesis using le t neg [of x] neg [of y] zdiv_mono1 [of "- y" "- x" t] by simp
  qed
qed

lemma sdiv_mult [simp]: "0 < t \<Longrightarrow> (x * t) sdiv t = (x :: int)"
  by (cases "0 \<le> x") (simp_all add: sdiv_pos sdiv_neg mult_nonpos_nonneg flip: mult_minus_left)

lemma oom_points_exact:
  assumes t: "0 < sint tot" "sint tot < 2 ^ 52" and b: "- sint tot \<le> b" "b \<le> 2 * sint tot"
  defines "q \<equiv> (b * 1000) sdiv sint tot"
  shows "- 1000 \<le> q" and "q \<le> 2000" and "int (unat (oom_points tot b)) = (1000 + q) * 2 div 3"
    and "unat (oom_points tot b) \<le> 2000"
proof -
  have "(- 1000) * sint tot \<le> b * 1000" "b * 1000 \<le> 2000 * sint tot" using b by linarith+
  from this [THEN sdiv_mono [OF t(1)]] show q: "- 1000 \<le> q" "q \<le> 2000" using t(1) by (simp_all add: q_def)
  have "b * 1000 < 2 ^ 63" "- (2 ^ 63) \<le> b * 1000" "b \<noteq> LONG_MIN" using t b by (auto simp: LONG_MIN_def)
  then have "oom_points tot b = word_of_int (((1000 + q) * 2) sdiv 3)"
    using q by (simp add: oom_points_def to_long_id q_def)
  moreover have "((1000 + q) * 2) sdiv 3 = (1000 + q) * 2 div 3" using q by (intro sdiv_pos) auto
  moreover have "0 \<le> (1000 + q) * 2 div 3" "(1000 + q) * 2 div 3 \<le> 2000" using q by auto
  ultimately show e: "int (unat (oom_points tot b)) = (1000 + q) * 2 div 3"
    by (simp add: unsigned_of_int take_bit_int_eq_self)
  have "int (unat (oom_points tot b)) \<le> 2000" unfolding e using q by auto
  then show "unat (oom_points tot b) \<le> 2000" by linarith
qed

text \<open>
  the score lies where its comment says.  Where \<^verbatim>\<open>oom_badness\<close> keeps to \<open>[- total, 2 total]\<close> and the memory is small enough for the
  product, nothing overflows, the score is at most 2000, and it grows with the badness; a task that may not be killed
  (\<^verbatim>\<open>LONG_MIN\<close>) has the score 0.\<close>

theorem oom_score_bounds:
  assumes "0 < sint tot" and "sint tot < 2 ^ 52"
    and "- sint tot \<le> b" and "b \<le> c" and "c \<le> 2 * sint tot"
  shows "\<exists>n \<le> 2000. proc_oom_score tot (\<lambda>_. b) = (None, dec_nat n @ [NL], [])
      \<and> int n = (1000 + (b * 1000) sdiv sint tot) * 2 div 3"
    and "unat (oom_points tot b) \<le> unat (oom_points tot c)"
    and "proc_oom_score tot (\<lambda>_. LONG_MIN) = (None, ''0'' @ [NL], [])"
proof -
  have b: "b \<le> 2 * sint tot" and c: "- sint tot \<le> c" using assms by linarith+
  note eb = oom_points_exact [OF assms(1-3) b] and ec = oom_points_exact [OF assms(1,2) c assms(5)]
  show "\<exists>n \<le> 2000. proc_oom_score tot (\<lambda>_. b) = (None, dec_nat n @ [NL], [])
      \<and> int n = (1000 + (b * 1000) sdiv sint tot) * 2 div 3"
    using eb by (intro exI [of _ "unat (oom_points tot b)"]) (simp add: proc_oom_score_def)
  have "(b * 1000) sdiv sint tot \<le> (c * 1000) sdiv sint tot" using assms by (intro sdiv_mono) auto
  then have "int (unat (oom_points tot b)) \<le> int (unat (oom_points tot c))"
    unfolding eb(3) ec(3) by (intro zdiv_mono1) auto
  then show "unat (oom_points tot b) \<le> unat (oom_points tot c)" by linarith
  have "dec_nat 0 = ''0''" by code_simp
  then show "proc_oom_score tot (\<lambda>_. LONG_MIN) = (None, ''0'' @ [NL], [])"
    by (simp add: proc_oom_score_def oom_points_def)
qed

theorem oom_score_bounds_witness:
  "unat (oom_points 1000 (- 1000)) \<le> unat (oom_points 1000 2000)
   \<and> (\<exists>n \<le> 2000. proc_oom_score 1000 (\<lambda>_. - 1000) = (None, dec_nat n @ [NL], []))
   \<and> oom_points 1000 (- 1000) = 0 \<and> oom_points 1000 2000 = 2000"
  using oom_score_bounds [of 1000 "- 1000" 2000]
  by (auto simp: oom_points_def to_long_id LONG_MIN_def signed_divide_int_def)

end
