(* ===== verification/Proc_Settings.thy ===== *)
theory Proc_Settings
  imports Proc_Number Mm_Life Task_Stack
begin

unbundle bit_operations_syntax

section \<open>Audit ids, time namespaces, security attributes and user namespaces\<close>

text \<open>
  \<^verbatim>\<open>fs/proc/base.c\<close>: \<^verbatim>\<open>loginuid\<close> and \<^verbatim>\<open>sessionid\<close>, \<^verbatim>\<open>timens_offsets\<close>, \<^verbatim>\<open>attr/*\<close>, \<^verbatim>\<open>uid_map\<close>, \<^verbatim>\<open>gid_map\<close>, \<^verbatim>\<open>projid_map\<close> and \<^verbatim>\<open>setgroups\<close>, \<^verbatim>\<open>sched\<close> and
  \<^verbatim>\<open>autogroup\<close>, and \<^verbatim>\<open>latency\<close>.  The audit ids, the offsets of a time namespace, the attributes of a security module and the
  scheduling groups live in code outside: a handler is given what that code answers, and its trace has the calls it
  makes.  The trace also has the buffers, locks and references it takes and drops.

  The locale \<open>ns_file\<close> is the contract of the four files that hold a user namespace while they are open; it is
  interpreted on the maps and on \<^verbatim>\<open>setgroups\<close>.
\<close>

datatype sres = S_task tptr | S_buf | S_user_ns nat | S_guard_mutex | S_seq

datatype clockid = CLOCK_MONOTONIC | CLOCK_BOOTTIME

type_synonym timens_offset = "clockid \<times> int \<times> u64"

datatype sevent =
    S_ref "sres revent"
  | S_set_loginuid u32
  | S_set_offset tptr "timens_offset list"
  | S_setprocattr string string
  | S_set_nice tptr int
  | S_sched_reset tptr
  | S_latency_clear tptr

definition srefs :: "sevent list \<Rightarrow> sres revent list" where
  "srefs ev = List.map_filter (\<lambda>e. case e of S_ref r \<Rightarrow> Some r | _ \<Rightarrow> None) ev"

lemma srefs_simps [simp]:
  "srefs [] = []" "srefs (a @ b) = srefs a @ srefs b" "srefs (S_ref r # ev) = r # srefs ev"
  "srefs (S_set_loginuid u # ev) = srefs ev" "srefs (S_set_offset p os # ev) = srefs ev" "srefs (S_setprocattr n v # ev) = srefs ev"
  "srefs (S_set_nice p i # ev) = srefs ev" "srefs (S_sched_reset p # ev) = srefs ev" "srefs (S_latency_clear p # ev) = srefs ev"
  by (simp_all add: srefs_def List.map_filter_def)

abbreviation acq :: "sres \<Rightarrow> sevent" where "acq r \<equiv> S_ref (Acq r)"
abbreviation rel :: "sres \<Rightarrow> sevent" where "rel r \<equiv> S_ref (Rel r)"

subsection \<open>Audit ids\<close>

definition TMPBUFLEN :: nat where "TMPBUFLEN = 11"
definition AUDIT_UID_UNSET :: u32 where "AUDIT_UID_UNSET = - 1"
definition INVALID_UID :: u32 where "INVALID_UID = - 1"

text \<open>\<open>task\<close> is \<^verbatim>\<open>get_proc_task\<close>; \<open>from_kuid\<close> and \<open>make_kuid\<close> translate between the user namespace of the opener and the kernel;
  \<open>audit_get\<close> is \<^verbatim>\<open>audit_get_loginuid\<close> or \<^verbatim>\<open>audit_get_sessionid\<close>.  The text is what is handed to \<^verbatim>\<open>simple_read_from_buffer\<close>.\<close>

definition proc_loginuid_read :: "(u32 \<Rightarrow> u32) \<Rightarrow> (tptr \<Rightarrow> u32) \<Rightarrow> tptr option \<Rightarrow> string result \<times> sevent list" where
  "proc_loginuid_read from_kuid audit_get task =
     (case task of
        None \<Rightarrow> (Inl ESRCH, [])
      | Some p \<Rightarrow> (Inr (snprintf_trunc TMPBUFLEN (dec_nat (unat (from_kuid (audit_get p))))), [acq (S_task p), rel (S_task p)]))"

definition proc_sessionid_read :: "(tptr \<Rightarrow> u32) \<Rightarrow> tptr option \<Rightarrow> string result \<times> sevent list" where
  "proc_sessionid_read audit_get task =
     (case task of
        None \<Rightarrow> (Inl ESRCH, [])
      | Some p \<Rightarrow> (Inr (snprintf_trunc TMPBUFLEN (dec_nat (unat (audit_get p)))), [acq (S_task p), rel (S_task p)]))"

text \<open>\<open>to_u32\<close> is \<^verbatim>\<open>kstrtou32_from_user\<close> with base 10, \<open>cur\<close> the current task and \<open>target\<close> the task of the file; \<open>audit_set\<close> is the answer of
  \<^verbatim>\<open>audit_set_loginuid\<close>.\<close>

definition proc_loginuid_write ::
  "(string \<Rightarrow> u32 result) \<Rightarrow> (u32 \<Rightarrow> u32) \<Rightarrow> (u32 \<Rightarrow> errno option) \<Rightarrow> tptr \<times> task_struct \<Rightarrow> tptr option \<Rightarrow> string \<Rightarrow> nat \<Rightarrow> int
     \<Rightarrow> nat result \<times> sevent list" where
  "proc_loginuid_write to_u32 make_kuid audit_set cur target buf count ppos =
     (if t_flags (snd cur) AND PF_KTHREAD \<noteq> 0 then (Inl EPERM, [])
      else if Some (fst cur) \<noteq> target then (Inl EPERM, [])
      else if ppos \<noteq> 0 then (Inl EINVAL, [])
      else case to_u32 (take count buf) of
        Inl rv \<Rightarrow> (Inl rv, [])
      | Inr loginuid \<Rightarrow>
          let kloginuid = (if loginuid = AUDIT_UID_UNSET then INVALID_UID else make_kuid loginuid)
          in if loginuid \<noteq> AUDIT_UID_UNSET \<and> kloginuid = INVALID_UID then (Inl EINVAL, [])
             else case audit_set kloginuid of
               Some rv \<Rightarrow> (Inl rv, [S_set_loginuid kloginuid])
             | None \<Rightarrow> (Inr count, [S_set_loginuid kloginuid]))"

subsection \<open>Offsets of a time namespace\<close>

definition NSEC_PER_SEC :: int where "NSEC_PER_SEC = 1000000000"

definition clock_of :: "string \<Rightarrow> clockid option" where
  "clock_of clock =
     (if clock = ''monotonic'' \<or> clock = ''1'' then Some CLOCK_MONOTONIC
      else if clock = ''boottime'' \<or> clock = ''7'' then Some CLOCK_BOOTTIME
      else None)"

text \<open>\<open>scan\<close> is \<^verbatim>\<open>sscanf(pos, "%9s %lld %lu", ...)\<close>: the number of conversions and what they read.  The field \<^verbatim>\<open>tv_nsec\<close> is a \<^verbatim>\<open>long\<close>, so
  its comparison with \<^verbatim>\<open>NSEC_PER_SEC\<close> is signed.  \<open>s\<close> is the C string at \<open>pos\<close>; the result is the offsets and the count of bytes to
  report, which is cut when a line remains after the second offset.\<close>

function timens_loop ::
  "(string \<Rightarrow> nat \<times> string \<times> int \<times> u64) \<Rightarrow> nat \<Rightarrow> nat \<Rightarrow> string \<Rightarrow> timens_offset list \<Rightarrow> (timens_offset list \<times> nat) result" where
  "timens_loop scan count pos s offsets =
     (let line = takeWhile (\<lambda>c. c \<noteq> NL) s;
          rest = drop (Suc (length line)) s;
          next_line = (if NL \<in> set s \<and> rest \<noteq> [] then Some (pos + Suc (length line)) else None)
      in case scan line of
           (err, clock, tv_sec, tv_nsec) \<Rightarrow>
             if err \<noteq> 3 \<or> sint tv_nsec \<ge> NSEC_PER_SEC then Inl EINVAL
             else case clock_of clock of
               None \<Rightarrow> Inl EINVAL
             | Some c \<Rightarrow>
                 let offsets = offsets @ [(c, tv_sec, tv_nsec)]
                 in if length offsets = 2 then Inr (offsets, case next_line of Some n \<Rightarrow> n | None \<Rightarrow> count)
                    else case next_line of
                      None \<Rightarrow> Inr (offsets, count)
                    | Some n \<Rightarrow> timens_loop scan count n rest offsets)"
  by pat_completeness auto

termination
  by (relation "measure (\<lambda>(scan, count, pos, s, offsets). length s)") (auto split: if_splits)

declare timens_loop.simps [simp del]

text \<open>\<open>dup\<close> is the error of \<^verbatim>\<open>memdup_user_nul\<close>, \<open>set_offset\<close> the answer of \<^verbatim>\<open>proc_timens_set_offset\<close>.\<close>

definition timens_offsets_write ::
  "(string \<Rightarrow> nat \<times> string \<times> int \<times> u64) \<Rightarrow> errno option \<Rightarrow> (tptr \<Rightarrow> timens_offset list \<Rightarrow> errno option) \<Rightarrow> tptr option
     \<Rightarrow> string \<Rightarrow> nat \<Rightarrow> int \<Rightarrow> nat result \<times> sevent list" where
  "timens_offsets_write scan dup set_offset task buf count ppos =
     (if ppos \<noteq> 0 \<or> count \<ge> PAGE_SIZE then (Inl EINVAL, [])
      else case dup of
        Some e \<Rightarrow> (Inl e, [])
      | None \<Rightarrow>
          (case timens_loop scan count 0 (cstr (take count buf @ [NUL])) [] of
             Inl e \<Rightarrow> (Inl e, [acq S_buf, rel S_buf])
           | Inr (offsets, count) \<Rightarrow>
               (case task of
                  None \<Rightarrow> (Inl ESRCH, [acq S_buf, rel S_buf])
                | Some p \<Rightarrow>
                    let ev = [acq S_buf, acq (S_task p), S_set_offset p offsets, rel (S_task p), rel S_buf]
                    in case set_offset p offsets of Some e \<Rightarrow> (Inl e, ev) | None \<Rightarrow> (Inr count, ev))))"

definition timens_offsets_show :: "(tptr \<Rightarrow> string) \<Rightarrow> tptr option \<Rightarrow> string result \<times> sevent list" where
  "timens_offsets_show show_offsets task =
     (case task of None \<Rightarrow> (Inl ESRCH, []) | Some p \<Rightarrow> (Inr (show_offsets p), [acq (S_task p), rel (S_task p)]))"

subsection \<open>Security attributes\<close>

text \<open>The error of \<^verbatim>\<open>__mem_open\<close> is dropped: the file opens without an address space.\<close>

definition proc_pid_attr_open ::
  "errno option \<Rightarrow> mmptr option \<Rightarrow> bool \<Rightarrow> kernel \<Rightarrow> tptr option \<Rightarrow> mmptr option \<times> mmref revent list" where
  "proc_pid_attr_open lock curmm may k task =
     (case mem_open lock curmm may k task of (Inr m, ev) \<Rightarrow> (m, ev) | (Inl e, ev) \<Rightarrow> (None, ev))"

text \<open>\<open>getprocattr\<close> is \<^verbatim>\<open>security_getprocattr\<close>: an error, or the value in a buffer of its own.\<close>

definition proc_pid_attr_read :: "(tptr \<Rightarrow> string \<Rightarrow> string result) \<Rightarrow> tptr option \<Rightarrow> string \<Rightarrow> string result \<times> sevent list" where
  "proc_pid_attr_read getprocattr task name =
     (case task of
        None \<Rightarrow> (Inl ESRCH, [])
      | Some p \<Rightarrow>
          (case getprocattr p name of
             Inl e \<Rightarrow> (Inl e, [acq (S_task p), rel (S_task p)])
           | Inr v \<Rightarrow> (Inr v, [acq (S_task p), acq S_buf, rel (S_task p), rel S_buf])))"

text \<open>\<open>ae_cur\<close> is \<^verbatim>\<open>current\<close>, \<open>ae_cur_mm\<close> its address space, \<open>ae_overridden\<close> whether its credentials are overridden; \<open>ae_task\<close> is the task of the
  file and \<open>ae_private\<close> its \<^verbatim>\<open>private_data\<close>.\<close>

record attr_env =
  ae_private :: "mmptr option"
  ae_cur :: tptr
  ae_cur_mm :: "mmptr option"
  ae_overridden :: bool
  ae_task :: "tptr option"
  ae_dup :: "errno option"
  ae_mutex :: "errno option"
  ae_setprocattr :: "string \<Rightarrow> string \<Rightarrow> nat result"

definition proc_pid_attr_write :: "attr_env \<Rightarrow> string \<Rightarrow> string \<Rightarrow> nat \<Rightarrow> int \<Rightarrow> nat result \<times> sevent list" where
  "proc_pid_attr_write env name buf count ppos =
     (if ae_private env \<noteq> ae_cur_mm env then (Inl EPERM, [])
      else case ae_task env of
        None \<Rightarrow> (Inl ESRCH, [])
      | Some task \<Rightarrow>
          if ae_cur env \<noteq> task then (Inl EACCES, [])
          else if ae_overridden env then (Inl EBUSY, [])
          else
            let count = (if count > PAGE_SIZE then PAGE_SIZE else count)
            in if ppos \<noteq> 0 then (Inl EINVAL, [])
               else case ae_dup env of
                 Some rv \<Rightarrow> (Inl rv, [])
               | None \<Rightarrow>
                   (case ae_mutex env of
                      Some rv \<Rightarrow> (Inl rv, [acq S_buf, rel S_buf])
                    | None \<Rightarrow>
                        (ae_setprocattr env name (take count buf),
                         [acq S_buf, acq S_guard_mutex, S_setprocattr name (take count buf), rel S_guard_mutex, rel S_buf])))"

subsection \<open>Files of a user namespace\<close>

text \<open>\<open>nv_ns\<close> is the user namespace of the credentials of a task, \<open>nv_seq_open\<close> the result of \<^verbatim>\<open>seq_open\<close> with the given operations.
  A file that is open holds its namespace.\<close>

record ns_env =
  nv_task :: "tptr option"
  nv_ns :: "tptr \<Rightarrow> nat"
  nv_seq_open :: "string \<Rightarrow> errno option"
  nv_write :: bool
  nv_capable :: "nat \<Rightarrow> bool"

definition proc_id_map_open :: "string \<Rightarrow> ns_env \<Rightarrow> nat result \<times> sevent list" where
  "proc_id_map_open seq_ops env =
     (case nv_task env of
        None \<Rightarrow> (Inl EINVAL, [])
      | Some p \<Rightarrow>
          let ns = nv_ns env p;
              ev = [acq (S_task p), acq (S_user_ns ns), rel (S_task p)]
          in case nv_seq_open env seq_ops of
               Some ret \<Rightarrow> (Inl ret, ev @ [rel (S_user_ns ns)])
             | None \<Rightarrow> (Inr ns, ev @ [acq S_seq]))"

definition proc_id_map_release :: "nat \<Rightarrow> sevent list" where
  "proc_id_map_release ns = [rel (S_user_ns ns), rel S_seq]"

definition proc_uid_map_open where "proc_uid_map_open = proc_id_map_open ''proc_uid_seq_operations''"
definition proc_gid_map_open where "proc_gid_map_open = proc_id_map_open ''proc_gid_seq_operations''"
definition proc_projid_map_open where "proc_projid_map_open = proc_id_map_open ''proc_projid_seq_operations''"

definition proc_setgroups_open :: "ns_env \<Rightarrow> nat result \<times> sevent list" where
  "proc_setgroups_open env =
     (case nv_task env of
        None \<Rightarrow> (Inl ESRCH, [])
      | Some p \<Rightarrow>
          let ns = nv_ns env p;
              ev = [acq (S_task p), acq (S_user_ns ns), rel (S_task p)]
          in if nv_write env \<and> \<not> nv_capable env ns then (Inl EACCES, ev @ [rel (S_user_ns ns)])
             else case nv_seq_open env ''proc_setgroups_show'' of
               Some ret \<Rightarrow> (Inl ret, ev @ [rel (S_user_ns ns)])
             | None \<Rightarrow> (Inr ns, ev @ [acq S_seq]))"

definition proc_setgroups_release :: "nat \<Rightarrow> sevent list" where
  "proc_setgroups_release ns = [rel S_seq, rel (S_user_ns ns)]"

subsection \<open>Scheduling and latency\<close>

text \<open>\<open>show_task\<close> is \<^verbatim>\<open>proc_sched_show_task\<close> or \<^verbatim>\<open>proc_sched_autogroup_show_task\<close>.\<close>

definition sched_show :: "(tptr \<Rightarrow> string) \<Rightarrow> tptr option \<Rightarrow> string result \<times> sevent list" where
  "sched_show show_task task =
     (case task of None \<Rightarrow> (Inl ESRCH, []) | Some p \<Rightarrow> (Inr (show_task p), [acq (S_task p), rel (S_task p)]))"

definition sched_write :: "tptr option \<Rightarrow> nat \<Rightarrow> nat result \<times> sevent list" where
  "sched_write task count =
     (case task of None \<Rightarrow> (Inl ESRCH, []) | Some p \<Rightarrow> (Inr count, [acq (S_task p), S_sched_reset p, rel (S_task p)]))"

definition sched_autogroup_show :: "(tptr \<Rightarrow> string) \<Rightarrow> tptr option \<Rightarrow> string result \<times> sevent list" where
  "sched_autogroup_show show_task task =
     (case task of None \<Rightarrow> (Inl ESRCH, []) | Some p \<Rightarrow> (Inr (show_task p), [acq (S_task p), rel (S_task p)]))"

text \<open>\<open>set_nice\<close> is the answer of \<^verbatim>\<open>proc_sched_autogroup_set_nice\<close>.\<close>

definition sched_autogroup_write ::
  "num_env \<Rightarrow> (tptr \<Rightarrow> int \<Rightarrow> errno option) \<Rightarrow> tptr option \<Rightarrow> string \<Rightarrow> nat \<Rightarrow> nat result \<times> sevent list" where
  "sched_autogroup_write env set_nice task buf count =
     (case int_arg env buf count of
        (count, Inl err) \<Rightarrow> (Inl err, [])
      | (count, Inr nice) \<Rightarrow>
          (case task of
             None \<Rightarrow> (Inl ESRCH, [])
           | Some p \<Rightarrow> ((case set_nice p nice of Some err \<Rightarrow> Inl err | None \<Rightarrow> Inr count),
                        [acq (S_task p), S_set_nice p nice, rel (S_task p)])))"

record latency_record =
  lr_count :: int
  lr_time :: int
  lr_max :: int
  lr_backtrace :: "u64 list"

definition lstats_line :: "(u64 \<Rightarrow> string) \<Rightarrow> latency_record \<Rightarrow> string" where
  "lstats_line ps lr =
     (if lr_backtrace lr = [] \<or> hd (lr_backtrace lr) = 0 then []
      else dec_int (lr_count lr) @ SPC # dec_int (lr_time lr) @ SPC # dec_int (lr_max lr)
             @ concat (map (\<lambda>bt. SPC # ps bt) (takeWhile (\<lambda>bt. bt \<noteq> 0) (lr_backtrace lr))) @ [NL])"

definition lstats_show_proc :: "(u64 \<Rightarrow> string) \<Rightarrow> (tptr \<Rightarrow> latency_record list) \<Rightarrow> tptr option \<Rightarrow> string result \<times> sevent list" where
  "lstats_show_proc ps latency task =
     (case task of
        None \<Rightarrow> (Inl ESRCH, [])
      | Some p \<Rightarrow> (Inr (''Latency Top version : v0.1'' @ NL # concat (map (lstats_line ps) (latency p))), [acq (S_task p), rel (S_task p)]))"

definition lstats_write :: "tptr option \<Rightarrow> nat \<Rightarrow> nat result \<times> sevent list" where
  "lstats_write task count =
     (case task of None \<Rightarrow> (Inl ESRCH, []) | Some p \<Rightarrow> (Inr count, [acq (S_task p), S_latency_clear p, rel (S_task p)]))"

subsection \<open>Files that hold a namespace\<close>

locale ns_file =
  fixes open_file :: "'e \<Rightarrow> nat result \<times> sevent list"
    and close_file :: "nat \<Rightarrow> sevent list"
  assumes failed: "fst (open_file e) = Inl err \<Longrightarrow> net x (srefs (snd (open_file e))) = 0"
    and opened: "fst (open_file e) = Inr ns \<Longrightarrow>
      net x (srefs (snd (open_file e))) = (if x = S_user_ns ns \<or> x = S_seq then 1 else 0)"
    and closed: "net x (srefs (close_file ns)) = - (if x = S_user_ns ns \<or> x = S_seq then 1 else 0)"
begin

text \<open>The trace of opening a file many times, and the namespaces of the files that opened.\<close>

definition open_all :: "'e list \<Rightarrow> sevent list" where
  "open_all es = concat (map (\<lambda>e. snd (open_file e)) es)"

definition held :: "'e list \<Rightarrow> nat list" where
  "held es = List.map_filter (\<lambda>e. case fst (open_file e) of Inr ns \<Rightarrow> Some ns | Inl _ \<Rightarrow> None) es"

lemma held_counts: "net (S_user_ns ns) (srefs (open_all es)) = int (count_list (held es) ns)"
proof (induction es)
  case (Cons e es)
  then show ?case using failed [of e _ "S_user_ns ns"] opened [of e _ "S_user_ns ns"]
    by (cases "fst (open_file e)") (auto simp: open_all_def held_def List.map_filter_def)
qed (simp add: open_all_def held_def List.map_filter_def)

lemma all_closed: "net x (srefs (open_all es)) + net x (srefs (concat (map close_file (held es)))) = 0"
proof (induction es)
  case (Cons e es)
  then show ?case using failed [of e _ x] opened [of e _ x]
    by (cases "fst (open_file e)") (auto simp: open_all_def held_def List.map_filter_def closed)
qed (simp add: open_all_def held_def List.map_filter_def)

end

interpretation id_map: ns_file "proc_id_map_open ops" proc_id_map_release for ops
  by unfold_locales (auto simp: proc_id_map_open_def proc_id_map_release_def Let_def split: option.splits if_splits)

interpretation setgroups: ns_file proc_setgroups_open proc_setgroups_release
  by unfold_locales (auto simp: proc_setgroups_open_def proc_setgroups_release_def Let_def split: option.splits if_splits)

subsection \<open>Properties\<close>

text \<open>What \<^verbatim>\<open>sscanf\<close> reads from a line with a word of at most nine characters and two numbers.\<close>

definition scan_doc :: "(string \<Rightarrow> nat \<times> string \<times> int \<times> u64) \<Rightarrow> bool" where
  "scan_doc scan \<longleftrightarrow> (\<forall>w sec nsec. w \<noteq> [] \<and> length w \<le> 9 \<and> list_all (\<lambda>c. 33 \<le> (of_char c :: nat) \<and> (of_char c :: nat) < 127) w \<and> - (2 ^ 63) \<le> sec \<and> sec < 2 ^ 63 \<longrightarrow>
     scan (w @ SPC # dec_int sec @ SPC # dec_nat (unat nsec)) = (3, w, sec, nsec))"

definition clock_name :: "clockid \<Rightarrow> string" where
  "clock_name c = (case c of CLOCK_MONOTONIC \<Rightarrow> ''monotonic'' | CLOCK_BOOTTIME \<Rightarrow> ''boottime'')"

fun offset_line :: "timens_offset \<Rightarrow> string" where
  "offset_line (c, sec, nsec) = (clock_name c @ SPC # dec_int sec @ SPC # dec_nat (unat nsec)) @ [NL]"

fun offset_ok :: "timens_offset \<Rightarrow> bool" where
  "offset_ok (c, sec, nsec) \<longleftrightarrow> - (2 ^ 63) \<le> sec \<and> sec < 2 ^ 63 \<and> sint nsec < NSEC_PER_SEC"

lemma dec_int_not: "of_char c < (45::nat) \<or> (58::nat) \<le> of_char c \<Longrightarrow> c \<notin> set (dec_int i)"
  using dec_nat_not [of c "nat i"] dec_nat_not [of c "nat (- i)"] by (auto simp: dec_int_def)

lemma offset_line_chars: "NUL \<notin> set (offset_line x)" "NL \<notin> set (butlast (offset_line x))" "offset_line x \<noteq> []"
  by (cases x; simp add: butlast_append dec_int_not dec_nat_not clock_name_def split: clockid.splits)+

lemma clock_of_name [simp]: "clock_of (clock_name c) = Some c"
  by (cases c) (simp_all add: clock_name_def clock_of_def)

lemma clock_name_word:
  "clock_name c \<noteq> [] \<and> length (clock_name c) \<le> 9 \<and> list_all (\<lambda>c. 33 \<le> (of_char c :: nat) \<and> (of_char c :: nat) < 127) (clock_name c)"
  by (cases c) (simp_all add: clock_name_def)

lemma timens_line:
  fixes nsec :: u64 and c :: clockid
  assumes "scan_doc scan" "- (2 ^ 63) \<le> sec" "sec < 2 ^ 63"
  defines "x \<equiv> (c, sec, nsec)"
  shows "timens_loop scan count pos (offset_line x @ rest) offsets =
    (if NSEC_PER_SEC \<le> sint nsec then Inl EINVAL
     else if length offsets = 1 then Inr (offsets @ [x], if rest \<noteq> [] then pos + length (offset_line x) else count)
     else if rest = [] then Inr (offsets @ [x], count)
     else timens_loop scan count (pos + length (offset_line x)) rest (offsets @ [x]))"
proof -
  let ?b = "clock_name c @ SPC # dec_int sec @ SPC # dec_nat (unat nsec)"
  have nl: "NL \<notin> set ?b" using offset_line_chars(2) [of x] by (simp add: x_def butlast_append)
  have l: "offset_line x @ rest = ?b @ NL # rest" by (simp add: x_def)
  have t: "takeWhile (\<lambda>c. c \<noteq> NL) (?b @ NL # rest) = ?b" using nl by (subst takeWhile_append2) auto
  have s: "scan ?b = (3, clock_name c, sec, nsec)"
    using assms clock_name_word [of c] by (simp add: scan_doc_def)
  have "drop (Suc (length b)) (b @ NL # rest) = rest" for b by simp
  note d = this [of ?b]
  show ?thesis
    unfolding l by (subst timens_loop.simps) (simp only: t s d Let_def, simp add: x_def)
qed

lemma timens_step:
  assumes "scan_doc scan" "offset_ok x"
  shows "timens_loop scan count pos (offset_line x @ rest) offsets =
    (if length offsets = 1 then Inr (offsets @ [x], if rest \<noteq> [] then pos + length (offset_line x) else count)
     else if rest = [] then Inr (offsets @ [x], count)
     else timens_loop scan count (pos + length (offset_line x)) rest (offsets @ [x]))"
  using assms by (cases x) (simp add: timens_line del: offset_line.simps)

lemma length_offset_line:
  assumes "- (2 ^ 63) \<le> sec" "sec < 2 ^ 63"
  shows "length (offset_line (c, sec, n)) < PAGE_SIZE"
proof -
  have "length (dec_int sec) \<le> Suc 19" using assms length_dec_int [of 19 sec] by simp
  moreover have "length (dec_nat (unat n)) \<le> 20" using unat_less_64 [of n] length_dec_nat [of "unat n" 20] by simp
  ultimately show ?thesis using clock_name_word [of c] by (simp add: PAGE_SIZE_def)
qed

lemma sint_negative: "2 ^ 63 \<le> unat (n :: u64) \<Longrightarrow> sint n < 0"
proof -
  assume "2 ^ 63 \<le> unat n"
  then have "int (2 ^ 63) \<le> int (unat n)" by (simp only: of_nat_le_iff)
  then have "2 ^ 63 \<le> uint n" by simp
  moreover have lt: "uint n < 2 ^ 64" using uint_lt2p [of n] by simp
  ultimately have "uint n div 2 ^ 63 = 1" by simp
  then have "bit (uint n) 63" by (simp add: bit_iff_odd)
  then show ?thesis using lt by (simp add: sint_uint signed_take_bit_eq_take_bit_minus take_bit_int_eq_self)
qed

lemma timens_lines:
  assumes "scan_doc scan" "list_all offset_ok os" "os \<noteq> []"
  defines "buf \<equiv> concat (map offset_line os)"
  shows "timens_loop scan (length buf) 0 buf [] = Inr (take 2 os, length (concat (map offset_line (take 2 os))))"
proof -
  consider x where "os = [x]" | x y where "os = [x, y]" | x y z zs where "os = x # y # z # zs"
    using assms(3) by (metis neq_Nil_conv)
  then show ?thesis
  proof cases
    case 1
    then show ?thesis using assms(2) timens_step [OF assms(1), of x _ _ "[]"] by (simp add: buf_def)
  next
    case 2
    then show ?thesis using assms(2) timens_step [OF assms(1), of x _ _ "offset_line y"] timens_step [OF assms(1), of y _ _ "[]"]
      by (simp add: buf_def offset_line_chars(3))
  next
    case 3
    then show ?thesis
      using assms(2) timens_step [OF assms(1), of x _ _ "offset_line y @ offset_line z @ concat (map offset_line zs)"]
        timens_step [OF assms(1), of y _ _ "offset_line z @ concat (map offset_line zs)"]
      by (simp add: buf_def offset_line_chars(3))
  qed
qed

text \<open>
  offsets written to \<^verbatim>\<open>timens_offsets\<close> in the documented form, a line \<^verbatim>\<open><clock> <seconds> <nanoseconds>\<close> each, reach the time
  namespace exactly.  The first two lines are parsed, the namespace is given these offsets and no others, and the
  count returned is the length of the lines used, so that a writer with more lines writes the rest next.
  An error of the namespace is passed on, and the buffer and the task are released in every case.\<close>

theorem timens_offsets_write_exact:
  assumes "scan_doc scan" and "list_all offset_ok os" and "os \<noteq> []"
    and "length (concat (map offset_line os)) < PAGE_SIZE"
  shows "timens_offsets_write scan None set_offset (Some p) (concat (map offset_line os)) (length (concat (map offset_line os))) 0 =
    ((case set_offset p (take 2 os) of Some e \<Rightarrow> Inl e | None \<Rightarrow> Inr (length (concat (map offset_line (take 2 os))))),
     [acq S_buf, acq (S_task p), S_set_offset p (take 2 os), rel (S_task p), rel S_buf])"
proof -
  have "NUL \<notin> set (concat (map offset_line os))" using offset_line_chars(1) by auto
  then show ?thesis using assms(4) timens_lines [OF assms(1-3)] by (simp add: timens_offsets_write_def Let_def split: option.splits)
qed

text \<open>
  the check of the nanoseconds misses numbers from \<open>2 ^ 63\<close> on.  They are read by \<^verbatim>\<open>%lu\<close> but compared as a signed \<^verbatim>\<open>long\<close>: a line
  with such a number is accepted and the namespace is handed a negative number of nanoseconds.  Every other number
  that is not below \<^verbatim>\<open>NSEC_PER_SEC\<close> is refused with \<^verbatim>\<open>EINVAL\<close>, with nothing handed over.\<close>

theorem timens_nsec_unchecked:
  fixes n :: u64 and c :: clockid
  assumes "scan_doc scan" and "- (2 ^ 63) \<le> sec" and "sec < 2 ^ 63"
  defines "l \<equiv> offset_line (c, sec, n)"
  shows "(2 ^ 63 \<le> unat n \<longrightarrow> sint n < 0
      \<and> timens_offsets_write scan None (\<lambda>_ _. None) (Some p) l (length l) 0
        = (Inr (length l), [acq S_buf, acq (S_task p), S_set_offset p [(c, sec, n)], rel (S_task p), rel S_buf]))
    \<and> (NSEC_PER_SEC \<le> sint n \<longrightarrow> timens_offsets_write scan None set_offset task l (length l) 0 = (Inl EINVAL, [acq S_buf, rel S_buf]))"
proof (intro conjI [rotated] impI)
  note len = length_offset_line [OF assms(2,3), of c n]
  assume "NSEC_PER_SEC \<le> sint n"
  then show "timens_offsets_write scan None set_offset task l (length l) 0 = (Inl EINVAL, [acq S_buf, rel S_buf])"
    using len timens_line [OF assms(1-3), where rest = "[]" and offsets = "[]" and c = c and nsec = n]
    by (simp add: l_def timens_offsets_write_def offset_line_chars(1) del: offset_line.simps)
next
  note len = length_offset_line [OF assms(2,3), of c n]
  assume "2 ^ 63 \<le> unat n"
  then show neg: "sint n < 0" by (rule sint_negative)
  then have "offset_ok (c, sec, n)" using assms(2,3) by (simp add: NSEC_PER_SEC_def)
  then show "timens_offsets_write scan None (\<lambda>_ _. None) (Some p) l (length l) 0
      = (Inr (length l), [acq S_buf, acq (S_task p), S_set_offset p [(c, sec, n)], rel (S_task p), rel S_buf])"
    using len timens_lines [OF assms(1), of "[(c, sec, n)]"]
    by (simp add: l_def timens_offsets_write_def offset_line_chars(1) del: offset_line.simps)
qed

text \<open>A scanner that splits at the blanks.\<close>

definition demo_scan :: "string \<Rightarrow> nat \<times> string \<times> int \<times> u64" where
  "demo_scan l =
     (let w = takeWhile (\<lambda>c. c \<noteq> SPC) l;
          r = drop (Suc (length w)) l;
          a = takeWhile (\<lambda>c. c \<noteq> SPC) r;
          b = drop (Suc (length a)) r
      in (3, w, if a \<noteq> [] \<and> hd a = CHR ''-'' then - int (dec_val (tl a)) else int (dec_val a), of_nat (dec_val b)))"

lemma split_at_blank: "SPC \<notin> set a \<Longrightarrow> takeWhile (\<lambda>c. c \<noteq> SPC) (a @ SPC # b) = a \<and> drop (Suc (length a)) (a @ SPC # b) = b"
  by (induction a) auto

lemma demo_scan_doc: "scan_doc demo_scan"
proof -
  have v: "(if dec_int i \<noteq> [] \<and> hd (dec_int i) = CHR ''-'' then - int (dec_val (tl (dec_int i))) else int (dec_val (dec_int i))) = i" for i
  proof -
    have "CHR ''-'' \<notin> set (dec_nat (nat i))" by (rule dec_nat_not) simp
    then have "hd (dec_nat (nat i)) \<noteq> CHR ''-''" using hd_in_set [of "dec_nat (nat i)"] by (metis dec_nat_nonempty)
    then show ?thesis by (simp add: dec_int_def)
  qed
  have "demo_scan (w @ SPC # dec_int sec @ SPC # dec_nat (unat nsec)) = (3, w, sec, nsec)"
    if "list_all (\<lambda>c. 33 \<le> (of_char c :: nat) \<and> (of_char c :: nat) < 127) w" for w sec and nsec :: u64
  proof -
    have w: "SPC \<notin> set w" using that by (auto simp: list_all_iff)
    have d: "SPC \<notin> set (dec_int sec)" by (rule dec_int_not) simp
    note splits = split_at_blank [OF w, THEN conjunct1] split_at_blank [OF w, THEN conjunct2]
      split_at_blank [OF d, THEN conjunct1] split_at_blank [OF d, THEN conjunct2]
    show ?thesis by (simp only: demo_scan_def Let_def splits v) simp
  qed
  then show ?thesis by (simp add: scan_doc_def)
qed

theorem timens_offsets_write_exact_witness:
  "let os = [(CLOCK_MONOTONIC, - 5, 7), (CLOCK_BOOTTIME, 3, 999999999), (CLOCK_MONOTONIC, 1, 1)]; b = concat (map offset_line os)
   in timens_offsets_write demo_scan None (\<lambda>_ _. None) (Some 4) b (length b) 0 =
     (Inr (length (concat (map offset_line (take 2 os)))),
      [acq S_buf, acq (S_task 4), S_set_offset 4 (take 2 os), rel (S_task 4), rel S_buf])"
proof -
  let ?os = "[(CLOCK_MONOTONIC, - 5, 7), (CLOCK_BOOTTIME, 3, 999999999), (CLOCK_MONOTONIC, 1, 1)] :: timens_offset list"
  have l: "length (dec_int i) \<le> 11" if "\<bar>i\<bar> < 10 ^ 10" for i using length_dec_int [of 10 i] that by auto
  have n: "length (dec_nat m) \<le> 9" if "m < 10 ^ 9" for m using length_dec_nat [of m 9] that by simp
  have "length (concat (map offset_line ?os)) < PAGE_SIZE"
    using l [of "- 5"] l [of 3] l [of 1] n [of 7] n [of 999999999] n [of 1] clock_name_word [of CLOCK_MONOTONIC] clock_name_word [of CLOCK_BOOTTIME]
    by (simp add: PAGE_SIZE_def)
  moreover have "list_all offset_ok ?os" by (simp add: NSEC_PER_SEC_def)
  ultimately show ?thesis
    using timens_offsets_write_exact [OF demo_scan_doc, of ?os "\<lambda>_ _. None" 4] by (simp add: Let_def del: offset_line.simps)
qed

theorem timens_nsec_unchecked_witness:
  "timens_offsets_write demo_scan None (\<lambda>_ _. None) (Some 4) (offset_line (CLOCK_MONOTONIC, 0, - 1)) (length (offset_line (CLOCK_MONOTONIC, 0, - 1))) 0
     = (Inr (length (offset_line (CLOCK_MONOTONIC, 0, - 1))),
        [acq S_buf, acq (S_task 4), S_set_offset 4 [(CLOCK_MONOTONIC, 0, - 1)], rel (S_task 4), rel S_buf])
   \<and> sint (- 1 :: u64) = - 1
   \<and> timens_offsets_write demo_scan None (\<lambda>_ _. None) (Some 4) (offset_line (CLOCK_MONOTONIC, 0, 1000000000)) (length (offset_line (CLOCK_MONOTONIC, 0, 1000000000))) 0
     = (Inl EINVAL, [acq S_buf, rel S_buf])"
proof -
  have u: "2 ^ 63 \<le> unat (- 1 :: u64)" by (simp add: unsigned_minus_1_eq_mask mask_eq_exp_minus_1)
  have g: "NSEC_PER_SEC \<le> sint (1000000000 :: u64)" by (simp add: NSEC_PER_SEC_def)
  show ?thesis
    using timens_nsec_unchecked [OF demo_scan_doc, of 0 "- 1" 4 CLOCK_MONOTONIC] u
      timens_nsec_unchecked [OF demo_scan_doc, of 0 1000000000 4 CLOCK_MONOTONIC "\<lambda>_ _. None" "Some 4"] g
    by (simp del: offset_line.simps)
qed

text \<open>
  a task can change only its own security attributes.  The security module is called exactly when the writer is the task of
  the file, had the file opened with its own address space, runs with its own credentials and writes from the start; it
  gets at most a page, and the buffer and the mutex are released on every path.  For a writer with an address space the
  file must have been opened with access to that address space: by a process that runs in it or may read it.\<close>

theorem attr_write_own:
  assumes "proc_pid_attr_write env name buf count ppos = (r, ev)"
  shows "(S_setprocattr n v \<in> set ev \<longleftrightarrow>
      ae_private env = ae_cur_mm env \<and> ae_task env = Some (ae_cur env) \<and> \<not> ae_overridden env \<and> ppos = 0
      \<and> ae_dup env = None \<and> ae_mutex env = None \<and> n = name \<and> v = take (min count PAGE_SIZE) buf)
    \<and> unstack (srefs ev) [] = Some []
    \<and> (proc_pid_attr_open lock omm may k task = (ae_private env, oev) \<and> ae_cur_mm env = Some m \<and> S_setprocattr n v \<in> set ev \<longrightarrow>
      (\<exists>p t mm. task = Some p \<and> tasks k p = Some t \<and> get_task_mm k t = Some (m, mm)) \<and> (omm = Some m \<or> may))"
proof (intro conjI impI)
  show iff: "S_setprocattr n v \<in> set ev \<longleftrightarrow>
      ae_private env = ae_cur_mm env \<and> ae_task env = Some (ae_cur env) \<and> \<not> ae_overridden env \<and> ppos = 0
      \<and> ae_dup env = None \<and> ae_mutex env = None \<and> n = name \<and> v = take (min count PAGE_SIZE) buf"
    using assms by (auto simp: proc_pid_attr_write_def Let_def min_def split: option.splits if_splits)
  show "unstack (srefs ev) [] = Some []"
    using assms by (auto simp: proc_pid_attr_write_def Let_def split: option.splits if_splits)
  assume "proc_pid_attr_open lock omm may k task = (ae_private env, oev) \<and> ae_cur_mm env = Some m \<and> S_setprocattr n v \<in> set ev"
  then have o: "proc_pid_attr_open lock omm may k task = (Some m, oev)" using iff by simp
  then show "\<exists>p t mm. task = Some p \<and> tasks k p = Some t \<and> get_task_mm k t = Some (m, mm)" and "omm = Some m \<or> may"
    by (auto simp: proc_pid_attr_open_def mem_open_def proc_mem_open_def mm_access_def split: sum.splits option.splits prod.splits if_splits)
qed

definition demo_attr :: attr_env where
  "demo_attr = \<lparr>ae_private = Some 3, ae_cur = 4, ae_cur_mm = Some 3, ae_overridden = False, ae_task = Some 4, ae_dup = None, ae_mutex = None,
     ae_setprocattr = (\<lambda>n v. Inr (length v))\<rparr>"

theorem attr_write_own_witness:
  "S_setprocattr ''exec'' ''t1'' \<in> set (snd (proc_pid_attr_write demo_attr ''exec'' ''t1x'' 2 0))
   \<and> S_setprocattr ''exec'' ''t1'' \<notin> set (snd (proc_pid_attr_write (demo_attr\<lparr>ae_cur := 5\<rparr>) ''exec'' ''t1x'' 2 0))"
  using attr_write_own [of demo_attr "''exec''" "''t1x''" 2 0 _ _ "''exec''" "''t1''" None None True k0 None "[]" 3, OF surjective_pairing]
    attr_write_own [of "demo_attr\<lparr>ae_cur := 5\<rparr>" "''exec''" "''t1x''" 2 0 _ _ "''exec''" "''t1''" None None True k0 None "[]" 3, OF surjective_pairing]
  by (simp add: demo_attr_def PAGE_SIZE_def)

text \<open>
  the files \<^verbatim>\<open>uid_map\<close>, \<^verbatim>\<open>gid_map\<close>, \<^verbatim>\<open>projid_map\<close> and \<^verbatim>\<open>setgroups\<close> pin the user namespace they show for exactly as long as they are open:
  after any number of opens, failed ones included, a namespace is referenced once for each file that opened on it, and closing
  these files drops everything; \<^verbatim>\<open>setgroups\<close> opens for writing only with the capability over the namespace.\<close>

theorem ns_files_pin_namespace:
  "net (S_user_ns ns) (srefs (concat (map (\<lambda>e. snd (proc_id_map_open ops e)) es))) = int (count_list (id_map.held ops es) ns)
   \<and> net x (srefs (concat (map (\<lambda>e. snd (proc_id_map_open ops e)) es) @ concat (map proc_id_map_release (id_map.held ops es)))) = 0
   \<and> net (S_user_ns ns) (srefs (concat (map (\<lambda>e. snd (proc_setgroups_open e)) es))) = int (count_list (setgroups.held es) ns)
   \<and> net x (srefs (concat (map (\<lambda>e. snd (proc_setgroups_open e)) es) @ concat (map proc_setgroups_release (setgroups.held es)))) = 0
   \<and> (nv_write e \<and> fst (proc_setgroups_open e) = Inr m \<longrightarrow> nv_capable e m)"
  using id_map.held_counts [of ns ops es] id_map.all_closed [of x ops es] setgroups.held_counts [of ns es] setgroups.all_closed [of x es]
  by (auto simp: id_map.open_all_def setgroups.open_all_def proc_setgroups_open_def Let_def split: option.splits if_splits)

theorem ns_files_pin_namespace_witness:
  "let e = \<lparr>nv_task = Some 4, nv_ns = (\<lambda>_. 7), nv_seq_open = (\<lambda>_. None), nv_write = True, nv_capable = (\<lambda>_. True)\<rparr>
   in fst (proc_setgroups_open e) = Inr 7 \<and> nv_capable e 7
      \<and> net (S_user_ns 7) (srefs (concat (map (\<lambda>e. snd (proc_setgroups_open e)) [e, e\<lparr>nv_capable := (\<lambda>_. False)\<rparr>]))) = 1"
  using ns_files_pin_namespace [of 7 "[]" "[]" S_seq
      "\<lparr>nv_task = Some 4, nv_ns = (\<lambda>_. 7), nv_seq_open = (\<lambda>_. None), nv_write = True, nv_capable = (\<lambda>_. True)\<rparr>" 7]
  by (simp add: proc_setgroups_open_def Let_def)

text \<open>A login uid that the namespaces and the audit code accept is read back; a task can set only its own.\<close>

lemma loginuid_write_read:
  assumes "proc_loginuid_write to_u32 make_kuid audit_set cur target (dec_nat (unat u)) (length (dec_nat (unat u))) 0 = (Inr n, ev)"
    and "to_u32 (dec_nat (unat u)) = Inr u" "u \<noteq> AUDIT_UID_UNSET" "from_kuid (make_kuid u) = u" "audit_get (fst cur) = make_kuid u"
  shows "target = Some (fst cur) \<and> ev = [S_set_loginuid (make_kuid u)]
    \<and> fst (proc_loginuid_read from_kuid audit_get target) = Inr (dec_nat (unat u))"
proof -
  have "unat u < 2 ^ 32" using unsigned_less [of u] by simp
  then have "unat u < 10 ^ 10" by simp
  then have "length (dec_nat (unat u)) \<le> 10" by (rule length_dec_nat) simp
  then show ?thesis using assms
    by (auto simp: proc_loginuid_write_def proc_loginuid_read_def snprintf_trunc_def TMPBUFLEN_def Let_def split: if_splits option.splits)
qed

end
