(* ===== verification/Proc_Timers.thy ===== *)
theory Proc_Timers
  imports Proc_Number
begin

unbundle bit_operations_syntax

section \<open>The file \<^verbatim>\<open>timers\<close>\<close>

text \<open>
  \<^verbatim>\<open>fs/proc/base.c\<close>: \<^verbatim>\<open>/proc/<pid>/timers\<close> lists the POSIX timers of a process through a sequence file, whose iterator takes the task and
  the lock of its signal handlers in \<^verbatim>\<open>start\<close> and drops in \<^verbatim>\<open>stop\<close> what \<^verbatim>\<open>start\<close> got.  A timer in the list is named by its index.
  \<^verbatim>\<open>seq_list_start\<close> and \<^verbatim>\<open>seq_list_next\<close> are parameters.
\<close>

record k_itimer =
  it_id :: int
  it_signo :: int
  it_value :: u64
  it_sigev_notify :: u32
  it_pid :: int
  it_clock :: int

record timers_private =
  tp_task :: "tptr option"
  tp_sighand :: bool

text \<open>\<open>te_task\<close> is \<^verbatim>\<open>get_pid_task\<close>, \<open>te_sighand\<close> whether \<^verbatim>\<open>lock_task_sighand\<close> succeeds, \<open>te_timers\<close> the list \<^verbatim>\<open>signal->posix_timers\<close>.\<close>

record timers_env =
  te_task :: "tptr option"
  te_sighand :: bool
  te_timers :: "k_itimer list"
  te_list_start :: "k_itimer list \<Rightarrow> nat \<Rightarrow> nat option"
  te_list_next :: "k_itimer list \<Rightarrow> nat \<Rightarrow> nat \<Rightarrow> nat option \<times> nat"

datatype tres = T_task tptr | T_siglock tptr

definition timers_start :: "timers_env \<Rightarrow> nat \<Rightarrow> nat option result \<times> timers_private \<times> tres revent list" where
  "timers_start env pos =
     (case te_task env of
        None \<Rightarrow> (Inl ESRCH, \<lparr>tp_task = None, tp_sighand = False\<rparr>, [])
      | Some task \<Rightarrow>
          if \<not> te_sighand env then (Inl ESRCH, \<lparr>tp_task = Some task, tp_sighand = False\<rparr>, [Acq (T_task task)])
          else (Inr (te_list_start env (te_timers env) pos), \<lparr>tp_task = Some task, tp_sighand = True\<rparr>,
                [Acq (T_task task), Acq (T_siglock task)]))"

definition timers_next :: "timers_env \<Rightarrow> nat \<Rightarrow> nat \<Rightarrow> nat option \<times> nat" where
  "timers_next env v pos = te_list_next env (te_timers env) v pos"

definition timers_stop :: "timers_private \<Rightarrow> timers_private \<times> tres revent list" where
  "timers_stop tp =
     (let ev = (if tp_sighand tp then (case tp_task tp of Some t \<Rightarrow> [Rel (T_siglock t)] | None \<Rightarrow> []) else []);
          ev = ev @ (case tp_task tp of Some t \<Rightarrow> [Rel (T_task t)] | None \<Rightarrow> [])
      in (\<lparr>tp_task = None, tp_sighand = False\<rparr>, ev))"

definition SIGEV_THREAD_ID :: u32 where "SIGEV_THREAD_ID = 4"

definition nstr :: "string list" where "nstr = [''signal'', ''none'', ''thread'']"

definition hex16 :: "nat \<Rightarrow> string" where
  "hex16 n = replicate (16 - length (hex_nat n)) (CHR ''0'') @ hex_nat n"

text \<open>\<open>None\<close> is a read outside the table.\<close>

definition show_timer :: "k_itimer \<Rightarrow> string option" where
  "show_timer timer =
     (let notify = it_sigev_notify timer;
          i = unat (notify AND NOT SIGEV_THREAD_ID)
      in if i \<ge> length nstr then None
         else Some (''ID: '' @ dec_int (it_id timer) @ [NL]
           @ ''signal: '' @ dec_int (it_signo timer) @ CHR ''/'' # hex16 (unat (it_value timer)) @ [NL]
           @ ''notify: '' @ nstr ! i @ CHR ''/'' # (if notify AND SIGEV_THREAD_ID \<noteq> 0 then ''tid'' else ''pid'') @ CHR ''.'' # dec_int (it_pid timer) @ [NL]
           @ ''ClockID: '' @ dec_int (it_clock timer) @ [NL]))"

text \<open>\<open>alloc\<close> is the result of \<^verbatim>\<open>__seq_open_private\<close>, which clears the new structure.\<close>

definition proc_timers_open :: "bool \<Rightarrow> timers_private result" where
  "proc_timers_open alloc = (if \<not> alloc then Inl ENOMEM else Inr \<lparr>tp_task = None, tp_sighand = False\<rparr>)"

subsection \<open>Reading the file\<close>

text \<open>The calls of a sequence file for one read that has room for \<open>n\<close> records: \<^verbatim>\<open>start\<close>, then \<^verbatim>\<open>show\<close> and \<^verbatim>\<open>next\<close> for each record, and
  \<^verbatim>\<open>stop\<close>, which is called for a failed \<^verbatim>\<open>start\<close>, too.\<close>

fun timers_walk :: "timers_env \<Rightarrow> nat \<Rightarrow> nat option \<Rightarrow> nat \<Rightarrow> string option list \<times> nat" where
  "timers_walk env 0 v pos = ([], pos)"
| "timers_walk env (Suc n) None pos = ([], pos)"
| "timers_walk env (Suc n) (Some v) pos =
     (case timers_next env v pos of (v', pos') \<Rightarrow>
        (case timers_walk env n v' pos' of (out, pos'') \<Rightarrow> (show_timer (te_timers env ! v) # out, pos'')))"

definition timers_read :: "timers_env \<Rightarrow> nat \<Rightarrow> nat \<Rightarrow> (string option list \<times> nat) result \<times> tres revent list" where
  "timers_read env n pos =
     (case timers_start env pos of
        (Inl e, tp, ev) \<Rightarrow> (Inl e, ev @ snd (timers_stop tp))
      | (Inr v, tp, ev) \<Rightarrow> (Inr (timers_walk env n v pos), ev @ snd (timers_stop tp)))"

text \<open>What the list functions are documented to do: the position counts the entries before.\<close>

definition seq_list_doc :: "timers_env \<Rightarrow> bool" where
  "seq_list_doc env \<longleftrightarrow>
     (\<forall>l pos. te_list_start env l pos = (if pos < length l then Some pos else None))
     \<and> (\<forall>l v pos. te_list_next env l v pos = (if Suc v < length l then Some (Suc v) else None, Suc pos))"

lemma timers_walk_exact:
  assumes "seq_list_doc env"
  shows "timers_walk env n (if pos < length (te_timers env) then Some pos else None) pos
    = (map show_timer (take n (drop pos (te_timers env))), pos + min n (length (te_timers env) - pos))"
proof (induction n arbitrary: pos)
  case (Suc n)
  show ?case
  proof (cases "pos < length (te_timers env)")
    case True
    then have "drop pos (te_timers env) = te_timers env ! pos # drop (Suc pos) (te_timers env)" by (simp add: Cons_nth_drop_Suc)
    then show ?thesis using True Suc.IH [of "Suc pos"] assms by (auto simp: timers_next_def seq_list_doc_def split: prod.splits)
  qed simp
qed simp

lemma timers_read_released: "unstack (snd (timers_read env n pos)) [] = Some []"
  by (auto simp: timers_read_def timers_start_def timers_stop_def Let_def split: option.splits)

lemma show_timer_defined: "unat (it_sigev_notify t AND NOT SIGEV_THREAD_ID) < 3 \<Longrightarrow> show_timer t \<noteq> None"
  by (simp add: show_timer_def nstr_def Let_def)

text \<open>
  the listing of \<^verbatim>\<open>timers\<close> is complete and can be read in pieces.  For a live process a read at position \<open>pos\<close> with room for \<open>n\<close>
  records shows exactly the timers \<open>pos\<close> to \<open>pos + n - 1\<close> of the list and moves behind them, so that consecutive reads show
  each timer once and in order.  With a notification the kernel knows, every record is printed with its name read
  inside the table.  For a process that has exited the read fails with \<^verbatim>\<open>ESRCH\<close>.  In each case, also when only the lock could not be
  taken, \<^verbatim>\<open>stop\<close> gives back what \<^verbatim>\<open>start\<close> took, in reverse order.\<close>

theorem timers_read_in_pieces:
  assumes "seq_list_doc env" and "te_task env = Some p" and "te_sighand env"
    and "\<forall>t \<in> set (te_timers env). unat (it_sigev_notify t AND NOT SIGEV_THREAD_ID) < 3"
  defines "ts \<equiv> te_timers env"
  shows "fst (timers_read env n pos) = Inr (map show_timer (take n (drop pos ts)), pos + min n (length ts - pos))"
    and "length ts \<le> n \<Longrightarrow> fst (timers_read env n 0) = Inr (map show_timer ts, length ts)"
    and "fst (timers_read env n 0) = Inr (a, q) \<Longrightarrow> fst (timers_read env m q) = Inr (b, q') \<Longrightarrow> fst (timers_read env (n + m) 0) = Inr (a @ b, q')"
    and "fst (timers_read env n pos) = Inr (a, q) \<Longrightarrow> None \<notin> set a"
    and "unstack (snd (timers_read (env\<lparr>te_task := t, te_sighand := s\<rparr>) n pos)) [] = Some []"
    and "t = None \<or> \<not> s \<Longrightarrow> fst (timers_read (env\<lparr>te_task := t, te_sighand := s\<rparr>) n pos) = Inl ESRCH"
proof -
  have r: "fst (timers_read env n pos) = Inr (map show_timer (take n (drop pos ts)), pos + min n (length ts - pos))" for n pos
    using assms timers_walk_exact [OF assms(1)] by (simp add: timers_read_def timers_start_def seq_list_doc_def)
  show "fst (timers_read env n pos) = Inr (map show_timer (take n (drop pos ts)), pos + min n (length ts - pos))" by (rule r)
  show "length ts \<le> n \<Longrightarrow> fst (timers_read env n 0) = Inr (map show_timer ts, length ts)" by (simp add: r)
  show "fst (timers_read env n 0) = Inr (a, q) \<Longrightarrow> fst (timers_read env m q) = Inr (b, q') \<Longrightarrow> fst (timers_read env (n + m) 0) = Inr (a @ b, q')"
    by (cases "n \<le> length ts") (auto simp: r take_add min_def)
  show "fst (timers_read env n pos) = Inr (a, q) \<Longrightarrow> None \<notin> set a"
    using assms(4) show_timer_defined by (fastforce simp: r ts_def dest!: in_set_takeD in_set_dropD)
  show "unstack (snd (timers_read (env\<lparr>te_task := t, te_sighand := s\<rparr>) n pos)) [] = Some []" by (rule timers_read_released)
  show "t = None \<or> \<not> s \<Longrightarrow> fst (timers_read (env\<lparr>te_task := t, te_sighand := s\<rparr>) n pos) = Inl ESRCH"
    by (auto simp: timers_read_def timers_start_def split: option.splits)
qed

definition demo_timers :: timers_env where
  "demo_timers = \<lparr>te_task = Some 2, te_sighand = True,
     te_timers = map (\<lambda>i. \<lparr>it_id = int i, it_signo = 14, it_value = 0, it_sigev_notify = 4, it_pid = 2, it_clock = 1\<rparr>) [0, 1, 2],
     te_list_start = (\<lambda>l pos. if pos < length l then Some pos else None),
     te_list_next = (\<lambda>l v pos. (if Suc v < length l then Some (Suc v) else None, Suc pos))\<rparr>"

theorem timers_read_in_pieces_witness:
  "fst (timers_read demo_timers 2 0) = Inr (map show_timer (take 2 (te_timers demo_timers)), 2)
   \<and> fst (timers_read demo_timers 5 2) = Inr ([show_timer (te_timers demo_timers ! 2)], 3)"
proof -
  have d: "seq_list_doc demo_timers" "te_task demo_timers = Some 2" "te_sighand demo_timers"
    "\<forall>t \<in> set (te_timers demo_timers). unat (it_sigev_notify t AND NOT SIGEV_THREAD_ID) < 3"
    by (simp_all add: demo_timers_def seq_list_doc_def SIGEV_THREAD_ID_def)
  have "length (te_timers demo_timers) = 3" by (simp add: demo_timers_def)
  moreover have "drop 2 (te_timers demo_timers) = [te_timers demo_timers ! 2]" by (simp add: demo_timers_def)
  ultimately show ?thesis
    using timers_read_in_pieces(1) [OF d, of 2 0] timers_read_in_pieces(1) [OF d, of 5 2] by simp
qed

end
