(* ===== verification/Proc_Register.thy ===== *)
theory Proc_Register
  imports Proc_Inode Proc_Hide
begin

section \<open>Registering \<^verbatim>\<open>/proc/hide\<close> and \<^verbatim>\<open>/proc/hidden_process\<close>\<close>

text \<open>
  The operation tables of \<^verbatim>\<open>fs/proc/hide.c\<close> and \<^verbatim>\<open>fs/proc/hidden_process.c\<close> and the functions that create and remove the two
  entries.  \<^verbatim>\<open>proc_create\<close> and \<^verbatim>\<open>proc_remove\<close> are parameters over a directory \<open>'d\<close> that only they look into; \<open>proc_dir_doc\<close>
  says what is documented of them.
\<close>

record proc_ops =
  proc_read :: "((string \<Rightarrow> nat) \<Rightarrow> nat \<Rightarrow> int \<Rightarrow> kernel \<Rightarrow> (int \<times> string \<times> int) option \<times> kevent list) option"
  proc_write :: "((char list \<Rightarrow> int result) \<Rightarrow> bool \<Rightarrow> char list \<Rightarrow> char list \<Rightarrow> nat \<Rightarrow> kernel \<Rightarrow> nat result \<times> kernel \<times> kevent list) option"

record 'd proc_dir =
  proc_create :: "string \<Rightarrow> umode \<Rightarrow> proc_ops \<Rightarrow> 'd \<Rightarrow> nat option \<times> 'd"
  proc_remove :: "nat option \<Rightarrow> 'd \<Rightarrow> 'd"
  dir_lookup :: "'d \<Rightarrow> string \<Rightarrow> (umode \<times> proc_ops) option"

definition hide_proc_ops :: proc_ops where
  "hide_proc_ops = \<lparr>proc_read = Some (\<lambda>ctu count ppos k. case proc_read_hidden ctu count ppos k of (r, ev) \<Rightarrow> (Some r, ev)),
     proc_write = Some proc_write_hidden\<rparr>"

definition hidden_process_proc_ops :: proc_ops where
  "hidden_process_proc_ops = \<lparr>proc_read = Some proc_read_hidden_process, proc_write = None\<rparr>"

text \<open>The functions return 0 whatever \<^verbatim>\<open>proc_create\<close> gave; the pointer is kept for the removal.\<close>

definition proc_hide_init :: "'d proc_dir \<Rightarrow> 'd \<Rightarrow> int \<times> nat option \<times> 'd" where
  "proc_hide_init api d = (case proc_create api ''hide'' 0x1A4 hide_proc_ops d of (hide_entry, d) \<Rightarrow> (0, hide_entry, d))"

definition proc_hide_cleanup :: "'d proc_dir \<Rightarrow> nat option \<Rightarrow> 'd \<Rightarrow> 'd" where
  "proc_hide_cleanup api hide_entry d = proc_remove api hide_entry d"

definition proc_hidden_process_init :: "'d proc_dir \<Rightarrow> 'd \<Rightarrow> int \<times> nat option \<times> 'd" where
  "proc_hidden_process_init api d =
     (case proc_create api ''hidden_process'' 0x124 hidden_process_proc_ops d of (hidden_process_entry, d) \<Rightarrow> (0, hidden_process_entry, d))"

definition proc_hidden_process_cleanup :: "'d proc_dir \<Rightarrow> nat option \<Rightarrow> 'd \<Rightarrow> 'd" where
  "proc_hidden_process_cleanup api hidden_process_entry d = proc_remove api hidden_process_entry d"

text \<open>What is documented: \<^verbatim>\<open>proc_create\<close> adds an entry under a free name and gives a handle on it, or gives NULL and changes
  nothing; \<^verbatim>\<open>proc_remove\<close> of a handle just given takes that entry out again, and of NULL does nothing.\<close>

definition proc_dir_doc :: "'d proc_dir \<Rightarrow> bool" where
  "proc_dir_doc api \<longleftrightarrow>
     (\<forall>name mode ops d d' h. dir_lookup api d name = None \<longrightarrow> proc_create api name mode ops d = (Some h, d')
        \<longrightarrow> dir_lookup api d' = (dir_lookup api d)(name \<mapsto> (mode, ops))
          \<and> dir_lookup api (proc_remove api (Some h) d') = dir_lookup api d)
   \<and> (\<forall>name mode ops d d'. proc_create api name mode ops d = (None, d') \<longrightarrow> dir_lookup api d' = dir_lookup api d)
   \<and> (\<forall>d. dir_lookup api (proc_remove api None d) = dir_lookup api d)"

subsection \<open>What is registered\<close>

text \<open>Once both are registered, \<^verbatim>\<open>/proc/hide\<close> can be read by all and written by its owner, and \<^verbatim>\<open>/proc/hidden_process\<close> can only
  be read; no entry \<^verbatim>\<open>hidden\<close> is made.\<close>

lemma registered_entries:
  assumes "proc_dir_doc api" "dir_lookup api d ''hide'' = None" "dir_lookup api d ''hidden_process'' = None"
    and "proc_hide_init api d = (r1, Some h1, d1)" "proc_hidden_process_init api d1 = (r2, Some h2, d2)"
  shows "dir_lookup api d2 = (dir_lookup api d)(''hide'' \<mapsto> (0x1A4, hide_proc_ops), ''hidden_process'' \<mapsto> (0x124, hidden_process_proc_ops))"
    and "(0x1A4 :: umode) AND S_IWUGO = S_IWUSR" "(0x1A4 :: umode) AND S_IRUGO = S_IRUGO" "(0x124 :: umode) AND S_IWUGO = 0"
proof -
  have 1: "proc_create api ''hide'' 0x1A4 hide_proc_ops d = (Some h1, d1)"
    using assms(4) by (auto simp: proc_hide_init_def split: prod.splits)
  have 2: "proc_create api ''hidden_process'' 0x124 hidden_process_proc_ops d1 = (Some h2, d2)"
    using assms(5) by (auto simp: proc_hidden_process_init_def split: prod.splits)
  have l1: "dir_lookup api d1 = (dir_lookup api d)(''hide'' \<mapsto> (0x1A4, hide_proc_ops))"
    using assms(1,2) 1 unfolding proc_dir_doc_def by blast
  then have "dir_lookup api d1 ''hidden_process'' = None" using assms(3) by simp
  then have "dir_lookup api d2 = (dir_lookup api d1)(''hidden_process'' \<mapsto> (0x124, hidden_process_proc_ops))"
    using assms(1) 2 unfolding proc_dir_doc_def by blast
  then show "dir_lookup api d2 = (dir_lookup api d)(''hide'' \<mapsto> (0x1A4, hide_proc_ops), ''hidden_process'' \<mapsto> (0x124, hidden_process_proc_ops))"
    using l1 by simp
qed (simp_all add: mode_defs)

lemma cleanup_removes:
  assumes "proc_dir_doc api" "dir_lookup api d ''hide'' = None" "proc_hide_init api d = (r, h, d')"
  shows "dir_lookup api (proc_hide_cleanup api h d') = dir_lookup api d"
proof -
  have 1: "proc_create api ''hide'' 0x1A4 hide_proc_ops d = (h, d')"
    using assms(3) by (auto simp: proc_hide_init_def split: prod.splits)
  show ?thesis
  proof (cases h)
    case None
    then show ?thesis using assms(1) 1 by (simp add: proc_dir_doc_def proc_hide_cleanup_def)
  next
    case (Some h')
    then show ?thesis using assms(1,2) 1 unfolding proc_dir_doc_def proc_hide_cleanup_def by blast
  qed
qed

end
