(* ===== verification/Proc_Dentry.thy ===== *)
theory Proc_Dentry
  imports Runs Proc_Pid
begin

unbundle bit_operations_syntax

section \<open>Cached inodes of a process\<close>

text \<open>
  The rest of the life of a \<^verbatim>\<open>/proc/<pid>\<close> inode in \<^verbatim>\<open>fs/proc/base.c\<close>: the list of directories each \<^verbatim>\<open>struct pid\<close> remembers, which
  \<^verbatim>\<open>proc_pid_make_inode\<close> extends and \<^verbatim>\<open>proc_pid_evict_inode\<close> shortens, \<^verbatim>\<open>proc_flush_pid\<close> that drops what is cached for them,
  \<^verbatim>\<open>pid_delete_dentry\<close> and \<^verbatim>\<open>tgid_pidfd_to_pid\<close>.  The state is the live inodes, the list of each pid and the references the
  inodes hold; \<^verbatim>\<open>proc_invalidate_siblings_dcache\<close> is a parameter.

  The locale \<open>labelled\<close> is interpreted for the list being exact.  It makes the flush of \<^verbatim>\<open>hide\<close> complete; what a write to
  \<^verbatim>\<open>/proc/hide\<close> hides is not flushed, and revalidation does not look at the cloak.
\<close>

subsection \<open>The operations\<close>

type_synonym iptr = nat

record icache =
  ic_inodes :: "iptr \<rightharpoonup> inode"
  ic_siblings :: "pidptr \<Rightarrow> iptr list"
  ic_refs :: "pidptr \<Rightarrow> int"

text \<open>\<^verbatim>\<open>proc_pid_make_inode\<close> with the list: the new inode \<open>ip\<close> keeps the reference to the pid and, when it is a directory, goes to the
  head of the list.\<close>

definition make_inode :: "proc_env \<Rightarrow> iptr \<Rightarrow> task_struct \<Rightarrow> umode \<Rightarrow> icache \<Rightarrow> icache" where
  "make_inode env ip task mode c =
     (case proc_pid_make_inode env task mode of
        (None, _) \<Rightarrow> c
      | (Some inode, ev) \<Rightarrow>
          (case i_pid inode of
             None \<Rightarrow> c
           | Some pid \<Rightarrow>
               c\<lparr>ic_inodes := (ic_inodes c)(ip \<mapsto> inode),
                 ic_siblings := (if S_ISDIR mode then (ic_siblings c)(pid := ip # ic_siblings c pid) else ic_siblings c),
                 ic_refs := (ic_refs c)(pid := ic_refs c pid + pid_refs ev)\<rparr>))"

definition proc_pid_evict_inode :: "iptr \<Rightarrow> icache \<Rightarrow> icache" where
  "proc_pid_evict_inode ip c =
     (case ic_inodes c ip of
        None \<Rightarrow> c
      | Some ei \<Rightarrow>
          (case i_pid ei of
             None \<Rightarrow> c
           | Some pid \<Rightarrow>
               let c = (if S_ISDIR (i_mode ei) then c\<lparr>ic_siblings := (ic_siblings c)(pid := remove1 ip (ic_siblings c pid))\<rparr> else c)
               in c\<lparr>ic_inodes := (ic_inodes c)(ip := None), ic_refs := (ic_refs c)(pid := ic_refs c pid - 1)\<rparr>))"

text \<open>\<^verbatim>\<open>pid_revalidate\<close> rewrites the inode in place.\<close>

definition revalidate_inode :: "proc_env \<Rightarrow> kernel \<Rightarrow> bool \<Rightarrow> tptr option \<Rightarrow> iptr \<Rightarrow> icache \<Rightarrow> icache" where
  "revalidate_inode env k rcu task ip c =
     (case ic_inodes c ip of
        None \<Rightarrow> c
      | Some inode \<Rightarrow> c\<lparr>ic_inodes := (ic_inodes c)(ip \<mapsto> fst (snd (pid_revalidate env k rcu task inode)))\<rparr>)"

definition proc_flush_pid :: "(iptr list \<Rightarrow> 'd \<Rightarrow> 'd) \<Rightarrow> icache \<Rightarrow> pidptr \<Rightarrow> 'd \<Rightarrow> 'd" where
  "proc_flush_pid proc_invalidate_siblings_dcache c pid = proc_invalidate_siblings_dcache (ic_siblings c pid)"

text \<open>\<open>first\<close>: the first task of \<^verbatim>\<open>pid->tasks[PIDTYPE_PID]\<close>.  Every inode of \<^verbatim>\<open>/proc/<pid>\<close> has a pid.\<close>

definition proc_inode_is_dead :: "(pidptr \<Rightarrow> tptr option) \<Rightarrow> inode \<Rightarrow> bool" where
  "proc_inode_is_dead first inode = (case i_pid inode of None \<Rightarrow> True | Some pid \<Rightarrow> first pid = None)"

definition pid_delete_dentry :: "(pidptr \<Rightarrow> tptr option) \<Rightarrow> inode \<Rightarrow> bool" where
  "pid_delete_dentry first inode = proc_inode_is_dead first inode"

definition tgid_pidfd_to_pid :: "string \<Rightarrow> inode \<Rightarrow> pidptr option result" where
  "tgid_pidfd_to_pid f_op inode = (if f_op \<noteq> ''proc_tgid_base_operations'' then Inl EBADF else Inr (i_pid inode))"

subsection \<open>The list is exact\<close>

definition inodes_of :: "icache \<Rightarrow> pidptr \<Rightarrow> iptr set" where
  "inodes_of c pid = {ip. \<exists>i. ic_inodes c ip = Some i \<and> i_pid i = Some pid}"

definition dirs_of :: "icache \<Rightarrow> pidptr \<Rightarrow> iptr set" where
  "dirs_of c pid = {ip. \<exists>i. ic_inodes c ip = Some i \<and> i_pid i = Some pid \<and> S_ISDIR (i_mode i)}"

definition icache_inv :: "icache \<Rightarrow> bool" where
  "icache_inv c \<longleftrightarrow> finite (dom (ic_inodes c))
     \<and> (\<forall>pid. distinct (ic_siblings c pid) \<and> set (ic_siblings c pid) = dirs_of c pid
         \<and> ic_refs c pid = int (card (inodes_of c pid)))"

datatype inode_call =
    Make_inode proc_env iptr task_struct umode
  | Evict_inode iptr
  | Revalidate proc_env kernel bool "tptr option" iptr

inductive inode_step :: "inode_call \<Rightarrow> icache \<Rightarrow> icache \<Rightarrow> bool" where
  step_make: "ic_inodes c ip = None \<Longrightarrow> inode_step (Make_inode env ip task mode) c (make_inode env ip task mode c)"
| step_evict: "inode_step (Evict_inode ip) c (proc_pid_evict_inode ip c)"
| step_revalidate: "inode_step (Revalidate env k rcu task ip) c (revalidate_inode env k rcu task ip c)"

lemma finite_inodes_of: "finite (dom (ic_inodes c)) \<Longrightarrow> finite (inodes_of c pid)"
  by (rule finite_subset [of _ "dom (ic_inodes c)"]) (auto simp: inodes_of_def)

lemma make_inode_cases:
  "make_inode env ip task mode c = c \<or> (\<exists>inode pid. i_pid inode = Some pid \<and> i_mode inode = mode \<and> make_inode env ip task mode c =
     c\<lparr>ic_inodes := (ic_inodes c)(ip \<mapsto> inode),
       ic_siblings := (if S_ISDIR mode then (ic_siblings c)(pid := ip # ic_siblings c pid) else ic_siblings c),
       ic_refs := (ic_refs c)(pid := ic_refs c pid + 1)\<rparr>)"
proof -
  obtain res ev where r: "proc_pid_make_inode env task mode = (res, ev)" by (cases "proc_pid_make_inode env task mode")
  then have "res = None \<or> (\<exists>inode pid. res = Some inode \<and> i_pid inode = Some pid \<and> i_mode inode = mode \<and> pid_refs ev = 1)"
    by (auto simp: proc_pid_make_inode_def split: option.splits prod.splits)
  then show ?thesis unfolding make_inode_def r by fastforce
qed

lemma make_inode_inv:
  assumes "icache_inv c" "ic_inodes c ip = None"
  shows "icache_inv (make_inode env ip task mode c)"
  using make_inode_cases [of env ip task mode c]
proof (elim disjE exE conjE)
  fix inode pid
  assume i: "i_pid inode = Some pid" "i_mode inode = mode"
    and m: "make_inode env ip task mode c = c\<lparr>ic_inodes := (ic_inodes c)(ip \<mapsto> inode),
       ic_siblings := (if S_ISDIR mode then (ic_siblings c)(pid := ip # ic_siblings c pid) else ic_siblings c),
       ic_refs := (ic_refs c)(pid := ic_refs c pid + 1)\<rparr>" (is "_ = ?c")
  have "inodes_of ?c q = (if q = pid then insert ip (inodes_of c q) else inodes_of c q)"
    "dirs_of ?c q = (if q = pid \<and> S_ISDIR mode then insert ip (dirs_of c q) else dirs_of c q)" for q
    using assms(2) i by (auto simp: inodes_of_def dirs_of_def)
  moreover have "ip \<notin> inodes_of c q" "ip \<notin> dirs_of c q" for q using assms(2) by (simp_all add: inodes_of_def dirs_of_def)
  ultimately show ?thesis using assms(1) finite_inodes_of unfolding m by (auto simp: icache_inv_def)
qed (use assms in simp)

lemma evict_inode_inv:
  assumes "icache_inv c"
  shows "icache_inv (proc_pid_evict_inode ip c)"
proof (cases "\<exists>ei pid. ic_inodes c ip = Some ei \<and> i_pid ei = Some pid")
  case True
  then obtain ei pid where e: "ic_inodes c ip = Some ei" "i_pid ei = Some pid" by blast
  let ?c = "proc_pid_evict_inode ip c"
  have "inodes_of ?c q = (if q = pid then inodes_of c q - {ip} else inodes_of c q)" for q
    using e by (auto simp: inodes_of_def proc_pid_evict_inode_def Let_def)
  moreover have "dirs_of ?c q = (if q = pid \<and> S_ISDIR (i_mode ei) then dirs_of c q - {ip} else dirs_of c q)" for q
    using e by (auto simp: dirs_of_def proc_pid_evict_inode_def Let_def)
  moreover have "ip \<in> inodes_of c pid" using e by (simp add: inodes_of_def)
  moreover have "card (inodes_of c pid) > 0"
    using \<open>ip \<in> inodes_of c pid\<close> finite_inodes_of assms unfolding icache_inv_def by (metis card_gt_0_iff empty_iff)
  ultimately show ?thesis using assms e
    by (auto simp: icache_inv_def proc_pid_evict_inode_def Let_def of_nat_diff)
next
  case False
  then have "proc_pid_evict_inode ip c = c" by (auto simp: proc_pid_evict_inode_def split: option.splits)
  then show ?thesis using assms by simp
qed

lemma dir_mode_updated: "S_ISDIR (m AND NOT S_ISUID AND NOT S_ISGID) = S_ISDIR m"
proof -
  have "NOT S_ISUID AND NOT S_ISGID AND S_IFMT = S_IFMT" by (simp add: mode_defs)
  then show ?thesis by (simp add: S_ISDIR_def and.assoc)
qed

lemma revalidate_keeps_type:
  "i_pid (fst (snd (pid_revalidate env k rcu task inode))) = i_pid inode"
  "S_ISDIR (i_mode (fst (snd (pid_revalidate env k rcu task inode)))) = S_ISDIR (i_mode inode)"
  by (auto simp: pid_revalidate_def pid_update_inode_def Let_def dir_mode_updated split: option.splits prod.splits)

lemma revalidate_inode_inv:
  assumes "icache_inv c"
  shows "icache_inv (revalidate_inode env k rcu task ip c)"
proof -
  let ?c = "revalidate_inode env k rcu task ip c"
  have "inodes_of ?c q = inodes_of c q" "dirs_of ?c q = dirs_of c q" for q
    by (auto simp: inodes_of_def dirs_of_def revalidate_inode_def revalidate_keeps_type split: option.splits if_splits)
  then show ?thesis using assms by (auto simp: icache_inv_def revalidate_inode_def split: option.splits)
qed

interpretation icache: labelled inode_step icache_inv "\<lambda>_ _. True"
  by unfold_locales (auto elim!: inode_step.cases intro: make_inode_inv evict_inode_inv revalidate_inode_inv)

subsection \<open>Properties\<close>

text \<open>What is documented of \<^verbatim>\<open>proc_invalidate_siblings_dcache\<close>, on the set of inodes with a cached entry: none of the listed inodes
  has one afterwards, and nothing is added.\<close>

definition invalidate_doc :: "(iptr list \<Rightarrow> iptr set \<Rightarrow> iptr set) \<Rightarrow> bool" where
  "invalidate_doc drop_entries \<longleftrightarrow> (\<forall>is D. drop_entries is D \<inter> set is = {} \<and> drop_entries is D \<subseteq> D)"

lemma hide_flushes:
  assumes "0 < nr" "lookup nr = Some p" "tasks k p = Some t" "t_thread_pid t = Some pid"
  shows "Proc_flush_pid (Some pid) \<in> set (snd (snd (hide 0 lookup nr on k)))"
  using assms by (simp add: hide_def Let_def thread_pid_of_def set_cloak_def)


definition no_inodes :: icache where
  "no_inodes = \<lparr>ic_inodes = (\<lambda>_. None), ic_siblings = (\<lambda>_. []), ic_refs = (\<lambda>_. 0)\<rparr>"

lemma no_inodes_inv: "icache_inv no_inodes"
  by (simp add: no_inodes_def icache_inv_def dirs_of_def inodes_of_def)

text \<open>A directory and a file are made for process 42, then the file is evicted.\<close>

definition demo_calls :: "inode_call list" where
  "demo_calls = [Make_inode (Proc_Inode.demo_env True) 8 (demo_task 42 1000 ''bash'' 2) S_IFDIR,
     Make_inode (Proc_Inode.demo_env True) 9 (demo_task 42 1000 ''bash'' 2) S_IFREG, Evict_inode 9]"

definition demo_icache :: icache where
  "demo_icache = proc_pid_evict_inode 9 (make_inode (Proc_Inode.demo_env True) 9 (demo_task 42 1000 ''bash'' 2) S_IFREG
     (make_inode (Proc_Inode.demo_env True) 8 (demo_task 42 1000 ''bash'' 2) S_IFDIR no_inodes))"

lemma demo_calls_run: "run inode_step no_inodes demo_calls demo_icache"
proof -
  let ?t = "demo_task 42 1000 ''bash'' 2" and ?e = "Proc_Inode.demo_env True"
  let ?c1 = "make_inode ?e 8 ?t S_IFDIR no_inodes"
  have 1: "inode_step (Make_inode ?e 8 ?t S_IFDIR) no_inodes ?c1" by (rule step_make) (simp add: no_inodes_def)
  have "ic_inodes ?c1 9 = None"
    using make_inode_cases [of ?e 8 ?t S_IFDIR no_inodes] by (auto simp: no_inodes_def)
  then have "inode_step (Make_inode ?e 9 ?t S_IFREG) ?c1 (make_inode ?e 9 ?t S_IFREG ?c1)" by (rule step_make)
  then show ?thesis unfolding demo_calls_def demo_icache_def run_simps using 1 step_evict by blast
qed


text \<open>
  Switching hiding on does not reach what is cached.  When a write to \<^verbatim>\<open>/proc/hide\<close> makes \<^verbatim>\<open>hidden_flag\<close> 1, a fresh lookup of a
  cloaked process is \<^verbatim>\<open>-ENOENT\<close>, but the write flushes nothing and the revalidation of an entry that is still cached
  answers 1, as before the write: the process stays reachable by its path for those who looked it up earlier.\<close>

theorem flag_leaves_cached_entries:
  assumes "proc_write_hidden f faults st buf count k = (Inr n, k', ev)" "hidden_flag k' = 1" "p \<in> cloaked k"
    and "name_to_int name \<noteq> - 1" "find_task_by_pid_ns ns (name_to_int name) = Some p"
  shows "fst (proc_pid_lookup env fs ns name_to_int nl k' name) = Inl ENOENT
    \<and> fst (pid_revalidate env k' False (Some p) inode) = Inr 1
    \<and> pid_revalidate env k' False (Some p) inode = pid_revalidate env k False (Some p) inode
    \<and> (\<forall>x. Proc_flush_pid x \<notin> set ev)"
proof -
  have k': "tasks k' = tasks k" "\<forall>x. Proc_flush_pid x \<notin> set ev"
    using assms(1) by (auto simp: proc_write_hidden_def Let_def split: if_splits sum.splits)
  obtain t where "tasks k p = Some t" "t_cloak t = 1" using assms(3) by (auto simp: cloaked_def)
  then show ?thesis using assms(2,4,5) k' by (simp add: proc_pid_lookup_def pid_revalidate_def Let_def)
qed

theorem flag_leaves_cached_entries_witness:
  "\<exists>k'. hidden_flag k' = 1 \<and> fst (proc_pid_lookup (Proc_Inode.demo_env True) demo_fs demo_ns demo_name_to_int 3 k' (dec_nat 42)) = Inl ENOENT
    \<and> fst (pid_revalidate (Proc_Inode.demo_env True) k' False (Some 2) demo_inode) = Inr 1"
proof -
  let ?k = "(set_cloak 1 2 demo_kernel)\<lparr>hidden_flag := 0\<rparr>"
  let ?k' = "?k\<lparr>hidden_flag := 1\<rparr>"
  have w: "proc_write_hidden (\<lambda>_. Inr 1) False [] ''1'' 1 ?k
      = (Inr 1, ?k', [Printk ''In proc_write_hidden.'' [], Printk ''hidden_flag: %d'' [KInt 1]])"
    by (simp add: proc_write_hidden_def PROC_MAX_SIZE_def Let_def)
  have c: "hidden_flag ?k' = 1" "2 \<in> cloaked ?k" by (simp_all add: cloaked_def set_cloak_def)
  have "demo_name_to_int (dec_nat 42) \<noteq> - 1" "find_task_by_pid_ns demo_ns (demo_name_to_int (dec_nat 42)) = Some 2"
    by (simp_all add: demo_name_to_int_def demo_ns_def)
  then show ?thesis using flag_leaves_cached_entries [OF w c] c(1) by blast
qed

end
