(* ===== verification/Proc_Ops.thy ===== *)
theory Proc_Ops
  imports Proc_Tables Mm_Life
begin

unbundle bit_operations_syntax

section \<open>Operations of the files of \<^verbatim>\<open>/proc/<pid>\<close>\<close>

text \<open>
  The tables of operations of \<^verbatim>\<open>fs/proc/base.c\<close>: a \<^verbatim>\<open>struct file_operations\<close> or \<^verbatim>\<open>struct inode_operations\<close> is a record of the names of the
  functions it has, \<open>None\<close> for a member left out (\<^verbatim>\<open>iterate\<close> and \<^verbatim>\<open>iterate_shared\<close> are one member).  With them come the open
  functions that do nothing but open a sequence file (\<^verbatim>\<open>single_open\<close> is a parameter) or an address space.

  The locale \<open>single_file\<close> is the contract of a file opened by \<^verbatim>\<open>single_open\<close>: what is read from it is the given show function on
  the inode of the file.
\<close>

record file_operations =
  f_open :: "string option"
  f_read :: "string option"
  f_write :: "string option"
  f_iterate :: "string option"
  f_llseek :: "string option"
  f_release :: "string option"

record inode_operations =
  io_lookup :: "string option"
  io_getattr :: "string option"
  io_setattr :: "string option"
  io_permission :: "string option"
  io_readlink :: "string option"
  io_get_link :: "string option"

subsection \<open>File operations\<close>

definition proc_pid_cmdline_ops :: file_operations where
  "proc_pid_cmdline_ops = \<lparr>f_open = None, f_read = Some ''proc_pid_cmdline_read'', f_write = None,
     f_iterate = None, f_llseek = Some ''generic_file_llseek'', f_release = None\<rparr>"

definition proc_lstats_operations :: file_operations where
  "proc_lstats_operations = \<lparr>f_open = Some ''lstats_open'', f_read = Some ''seq_read'', f_write = Some ''lstats_write'',
     f_iterate = None, f_llseek = Some ''seq_lseek'', f_release = Some ''single_release''\<rparr>"

definition proc_single_file_operations :: file_operations where
  "proc_single_file_operations = \<lparr>f_open = Some ''proc_single_open'', f_read = Some ''seq_read'', f_write = None,
     f_iterate = None, f_llseek = Some ''seq_lseek'', f_release = Some ''single_release''\<rparr>"

definition proc_mem_operations :: file_operations where
  "proc_mem_operations = \<lparr>f_open = Some ''mem_open'', f_read = Some ''mem_read'', f_write = Some ''mem_write'',
     f_iterate = None, f_llseek = Some ''mem_lseek'', f_release = Some ''mem_release''\<rparr>"

definition proc_environ_operations :: file_operations where
  "proc_environ_operations = \<lparr>f_open = Some ''environ_open'', f_read = Some ''environ_read'', f_write = None,
     f_iterate = None, f_llseek = Some ''generic_file_llseek'', f_release = Some ''mem_release''\<rparr>"

definition proc_auxv_operations :: file_operations where
  "proc_auxv_operations = \<lparr>f_open = Some ''auxv_open'', f_read = Some ''auxv_read'', f_write = None,
     f_iterate = None, f_llseek = Some ''generic_file_llseek'', f_release = Some ''mem_release''\<rparr>"

definition proc_oom_adj_operations :: file_operations where
  "proc_oom_adj_operations = \<lparr>f_open = None, f_read = Some ''oom_adj_read'', f_write = Some ''oom_adj_write'',
     f_iterate = None, f_llseek = Some ''generic_file_llseek'', f_release = None\<rparr>"

definition proc_oom_score_adj_operations :: file_operations where
  "proc_oom_score_adj_operations = \<lparr>f_open = None, f_read = Some ''oom_score_adj_read'', f_write = Some ''oom_score_adj_write'',
     f_iterate = None, f_llseek = Some ''default_llseek'', f_release = None\<rparr>"

definition proc_loginuid_operations :: file_operations where
  "proc_loginuid_operations = \<lparr>f_open = None, f_read = Some ''proc_loginuid_read'', f_write = Some ''proc_loginuid_write'',
     f_iterate = None, f_llseek = Some ''generic_file_llseek'', f_release = None\<rparr>"

definition proc_sessionid_operations :: file_operations where
  "proc_sessionid_operations = \<lparr>f_open = None, f_read = Some ''proc_sessionid_read'', f_write = None,
     f_iterate = None, f_llseek = Some ''generic_file_llseek'', f_release = None\<rparr>"

definition proc_fault_inject_operations :: file_operations where
  "proc_fault_inject_operations = \<lparr>f_open = None, f_read = Some ''proc_fault_inject_read'', f_write = Some ''proc_fault_inject_write'',
     f_iterate = None, f_llseek = Some ''generic_file_llseek'', f_release = None\<rparr>"

definition proc_fail_nth_operations :: file_operations where
  "proc_fail_nth_operations = \<lparr>f_open = None, f_read = Some ''proc_fail_nth_read'', f_write = Some ''proc_fail_nth_write'',
     f_iterate = None, f_llseek = None, f_release = None\<rparr>"

definition proc_pid_sched_operations :: file_operations where
  "proc_pid_sched_operations = \<lparr>f_open = Some ''sched_open'', f_read = Some ''seq_read'', f_write = Some ''sched_write'',
     f_iterate = None, f_llseek = Some ''seq_lseek'', f_release = Some ''single_release''\<rparr>"

definition proc_pid_sched_autogroup_operations :: file_operations where
  "proc_pid_sched_autogroup_operations = \<lparr>f_open = Some ''sched_autogroup_open'', f_read = Some ''seq_read'', f_write = Some ''sched_autogroup_write'',
     f_iterate = None, f_llseek = Some ''seq_lseek'', f_release = Some ''single_release''\<rparr>"

definition proc_timens_offsets_operations :: file_operations where
  "proc_timens_offsets_operations = \<lparr>f_open = Some ''timens_offsets_open'', f_read = Some ''seq_read'', f_write = Some ''timens_offsets_write'',
     f_iterate = None, f_llseek = Some ''seq_lseek'', f_release = Some ''single_release''\<rparr>"

definition proc_pid_set_comm_operations :: file_operations where
  "proc_pid_set_comm_operations = \<lparr>f_open = Some ''comm_open'', f_read = Some ''seq_read'', f_write = Some ''comm_write'',
     f_iterate = None, f_llseek = Some ''seq_lseek'', f_release = Some ''single_release''\<rparr>"

definition proc_map_files_operations :: file_operations where
  "proc_map_files_operations = \<lparr>f_open = None, f_read = Some ''generic_read_dir'', f_write = None,
     f_iterate = Some ''proc_map_files_readdir'', f_llseek = Some ''generic_file_llseek'', f_release = None\<rparr>"

definition proc_timers_operations :: file_operations where
  "proc_timers_operations = \<lparr>f_open = Some ''proc_timers_open'', f_read = Some ''seq_read'', f_write = None,
     f_iterate = None, f_llseek = Some ''seq_lseek'', f_release = Some ''seq_release_private''\<rparr>"

definition proc_pid_set_timerslack_ns_operations :: file_operations where
  "proc_pid_set_timerslack_ns_operations = \<lparr>f_open = Some ''timerslack_ns_open'', f_read = Some ''seq_read'', f_write = Some ''timerslack_ns_write'',
     f_iterate = None, f_llseek = Some ''seq_lseek'', f_release = Some ''single_release''\<rparr>"

definition proc_pid_attr_operations :: file_operations where
  "proc_pid_attr_operations = \<lparr>f_open = Some ''proc_pid_attr_open'', f_read = Some ''proc_pid_attr_read'', f_write = Some ''proc_pid_attr_write'',
     f_iterate = None, f_llseek = Some ''generic_file_llseek'', f_release = Some ''mem_release''\<rparr>"

definition proc_attr_dir_operations :: file_operations where
  "proc_attr_dir_operations = \<lparr>f_open = None, f_read = Some ''generic_read_dir'', f_write = None,
     f_iterate = Some ''proc_attr_dir_readdir'', f_llseek = Some ''generic_file_llseek'', f_release = None\<rparr>"

definition proc_coredump_filter_operations :: file_operations where
  "proc_coredump_filter_operations = \<lparr>f_open = None, f_read = Some ''proc_coredump_filter_read'', f_write = Some ''proc_coredump_filter_write'',
     f_iterate = None, f_llseek = Some ''generic_file_llseek'', f_release = None\<rparr>"

definition proc_uid_map_operations :: file_operations where
  "proc_uid_map_operations = \<lparr>f_open = Some ''proc_uid_map_open'', f_read = Some ''seq_read'', f_write = Some ''proc_uid_map_write'',
     f_iterate = None, f_llseek = Some ''seq_lseek'', f_release = Some ''proc_id_map_release''\<rparr>"

definition proc_gid_map_operations :: file_operations where
  "proc_gid_map_operations = \<lparr>f_open = Some ''proc_gid_map_open'', f_read = Some ''seq_read'', f_write = Some ''proc_gid_map_write'',
     f_iterate = None, f_llseek = Some ''seq_lseek'', f_release = Some ''proc_id_map_release''\<rparr>"

definition proc_projid_map_operations :: file_operations where
  "proc_projid_map_operations = \<lparr>f_open = Some ''proc_projid_map_open'', f_read = Some ''seq_read'', f_write = Some ''proc_projid_map_write'',
     f_iterate = None, f_llseek = Some ''seq_lseek'', f_release = Some ''proc_id_map_release''\<rparr>"

definition proc_setgroups_operations :: file_operations where
  "proc_setgroups_operations = \<lparr>f_open = Some ''proc_setgroups_open'', f_read = Some ''seq_read'', f_write = Some ''proc_setgroups_write'',
     f_iterate = None, f_llseek = Some ''seq_lseek'', f_release = Some ''proc_setgroups_release''\<rparr>"

definition proc_tgid_base_operations :: file_operations where
  "proc_tgid_base_operations = \<lparr>f_open = None, f_read = Some ''generic_read_dir'', f_write = None,
     f_iterate = Some ''proc_tgid_base_readdir'', f_llseek = Some ''generic_file_llseek'', f_release = None\<rparr>"

definition proc_tid_base_operations :: file_operations where
  "proc_tid_base_operations = \<lparr>f_open = None, f_read = Some ''generic_read_dir'', f_write = None,
     f_iterate = Some ''proc_tid_base_readdir'', f_llseek = Some ''generic_file_llseek'', f_release = None\<rparr>"

definition proc_task_operations :: file_operations where
  "proc_task_operations = \<lparr>f_open = None, f_read = Some ''generic_read_dir'', f_write = None,
     f_iterate = Some ''proc_task_readdir'', f_llseek = Some ''generic_file_llseek'', f_release = None\<rparr>"

text \<open>The macro \<^verbatim>\<open>LSM_DIR_OPS\<close>, for the module named \<open>LSM\<close>.\<close>

definition LSM_attr_dir_ops :: "string \<Rightarrow> file_operations" where
  "LSM_attr_dir_ops LSM = \<lparr>f_open = None, f_read = Some ''generic_read_dir'', f_write = None,
     f_iterate = Some (''proc_'' @ LSM @ ''_attr_dir_iterate''), f_llseek = Some ''default_llseek'', f_release = None\<rparr>"

definition file_ops :: "(string \<times> file_operations) list" where
  "file_ops =
    [(''proc_smack_attr_dir_ops'', LSM_attr_dir_ops ''smack''),
     (''proc_apparmor_attr_dir_ops'', LSM_attr_dir_ops ''apparmor''),
     (''proc_pid_cmdline_ops'', proc_pid_cmdline_ops),
     (''proc_lstats_operations'', proc_lstats_operations),
     (''proc_single_file_operations'', proc_single_file_operations),
     (''proc_mem_operations'', proc_mem_operations),
     (''proc_environ_operations'', proc_environ_operations),
     (''proc_auxv_operations'', proc_auxv_operations),
     (''proc_oom_adj_operations'', proc_oom_adj_operations),
     (''proc_oom_score_adj_operations'', proc_oom_score_adj_operations),
     (''proc_loginuid_operations'', proc_loginuid_operations),
     (''proc_sessionid_operations'', proc_sessionid_operations),
     (''proc_fault_inject_operations'', proc_fault_inject_operations),
     (''proc_fail_nth_operations'', proc_fail_nth_operations),
     (''proc_pid_sched_operations'', proc_pid_sched_operations),
     (''proc_pid_sched_autogroup_operations'', proc_pid_sched_autogroup_operations),
     (''proc_timens_offsets_operations'', proc_timens_offsets_operations),
     (''proc_pid_set_comm_operations'', proc_pid_set_comm_operations),
     (''proc_map_files_operations'', proc_map_files_operations),
     (''proc_timers_operations'', proc_timers_operations),
     (''proc_pid_set_timerslack_ns_operations'', proc_pid_set_timerslack_ns_operations),
     (''proc_pid_attr_operations'', proc_pid_attr_operations),
     (''proc_attr_dir_operations'', proc_attr_dir_operations),
     (''proc_coredump_filter_operations'', proc_coredump_filter_operations),
     (''proc_uid_map_operations'', proc_uid_map_operations),
     (''proc_gid_map_operations'', proc_gid_map_operations),
     (''proc_projid_map_operations'', proc_projid_map_operations),
     (''proc_setgroups_operations'', proc_setgroups_operations),
     (''proc_tgid_base_operations'', proc_tgid_base_operations),
     (''proc_tid_base_operations'', proc_tid_base_operations),
     (''proc_task_operations'', proc_task_operations)]"

subsection \<open>Inode operations\<close>

definition proc_def_inode_operations :: inode_operations where
  "proc_def_inode_operations = \<lparr>io_lookup = None, io_getattr = None, io_setattr = Some ''proc_setattr'',
     io_permission = None, io_readlink = None, io_get_link = None\<rparr>"

definition proc_pid_link_inode_operations :: inode_operations where
  "proc_pid_link_inode_operations = \<lparr>io_lookup = None, io_getattr = None, io_setattr = Some ''proc_setattr'',
     io_permission = None, io_readlink = Some ''proc_pid_readlink'', io_get_link = Some ''proc_pid_get_link''\<rparr>"

definition proc_map_files_link_inode_operations :: inode_operations where
  "proc_map_files_link_inode_operations = \<lparr>io_lookup = None, io_getattr = None, io_setattr = Some ''proc_setattr'',
     io_permission = None, io_readlink = Some ''proc_pid_readlink'', io_get_link = Some ''proc_map_files_get_link''\<rparr>"

definition proc_map_files_inode_operations :: inode_operations where
  "proc_map_files_inode_operations = \<lparr>io_lookup = Some ''proc_map_files_lookup'', io_getattr = None, io_setattr = Some ''proc_setattr'',
     io_permission = Some ''proc_fd_permission'', io_readlink = None, io_get_link = None\<rparr>"

definition proc_attr_dir_inode_operations :: inode_operations where
  "proc_attr_dir_inode_operations = \<lparr>io_lookup = Some ''proc_attr_dir_lookup'', io_getattr = Some ''pid_getattr'', io_setattr = Some ''proc_setattr'',
     io_permission = None, io_readlink = None, io_get_link = None\<rparr>"

definition proc_tgid_base_inode_operations :: inode_operations where
  "proc_tgid_base_inode_operations = \<lparr>io_lookup = Some ''proc_tgid_base_lookup'', io_getattr = Some ''pid_getattr'', io_setattr = Some ''proc_setattr'',
     io_permission = Some ''proc_pid_permission'', io_readlink = None, io_get_link = None\<rparr>"

definition proc_tid_comm_inode_operations :: inode_operations where
  "proc_tid_comm_inode_operations = \<lparr>io_lookup = None, io_getattr = None, io_setattr = None,
     io_permission = Some ''proc_tid_comm_permission'', io_readlink = None, io_get_link = None\<rparr>"

definition proc_tid_base_inode_operations :: inode_operations where
  "proc_tid_base_inode_operations = \<lparr>io_lookup = Some ''proc_tid_base_lookup'', io_getattr = Some ''pid_getattr'', io_setattr = Some ''proc_setattr'',
     io_permission = None, io_readlink = None, io_get_link = None\<rparr>"

definition proc_task_inode_operations :: inode_operations where
  "proc_task_inode_operations = \<lparr>io_lookup = Some ''proc_task_lookup'', io_getattr = Some ''proc_task_getattr'', io_setattr = Some ''proc_setattr'',
     io_permission = Some ''proc_pid_permission'', io_readlink = None, io_get_link = None\<rparr>"

definition LSM_attr_dir_inode_ops :: "string \<Rightarrow> inode_operations" where
  "LSM_attr_dir_inode_ops LSM = \<lparr>io_lookup = Some (''proc_'' @ LSM @ ''_attr_dir_lookup''), io_getattr = Some ''pid_getattr'',
     io_setattr = Some ''proc_setattr'', io_permission = None, io_readlink = None, io_get_link = None\<rparr>"

definition inode_ops :: "(string \<times> inode_operations) list" where
  "inode_ops =
    [(''proc_smack_attr_dir_inode_ops'', LSM_attr_dir_inode_ops ''smack''),
     (''proc_apparmor_attr_dir_inode_ops'', LSM_attr_dir_inode_ops ''apparmor''),
     (''proc_def_inode_operations'', proc_def_inode_operations),
     (''proc_pid_link_inode_operations'', proc_pid_link_inode_operations),
     (''proc_map_files_link_inode_operations'', proc_map_files_link_inode_operations),
     (''proc_map_files_inode_operations'', proc_map_files_inode_operations),
     (''proc_attr_dir_inode_operations'', proc_attr_dir_inode_operations),
     (''proc_tgid_base_inode_operations'', proc_tgid_base_inode_operations),
     (''proc_tid_comm_inode_operations'', proc_tid_comm_inode_operations),
     (''proc_tid_base_inode_operations'', proc_tid_base_inode_operations),
     (''proc_task_inode_operations'', proc_task_inode_operations)]"

subsection \<open>Open functions\<close>

text \<open>The sequence file \<^verbatim>\<open>single_open\<close> makes: its show function and its private pointer (an inode).\<close>

record seq_single =
  sq_show :: string
  sq_private :: "nat option"

type_synonym single_open = "string \<Rightarrow> nat option \<Rightarrow> seq_single result"

definition lstats_open :: "single_open \<Rightarrow> nat \<Rightarrow> seq_single result" where
  "lstats_open single_open inode = single_open ''lstats_show_proc'' (Some inode)"

definition proc_single_open :: "single_open \<Rightarrow> nat \<Rightarrow> seq_single result" where
  "proc_single_open single_open inode = single_open ''proc_single_show'' (Some inode)"

definition sched_open :: "single_open \<Rightarrow> nat \<Rightarrow> seq_single result" where
  "sched_open single_open inode = single_open ''sched_show'' (Some inode)"

definition sched_autogroup_open :: "single_open \<Rightarrow> nat \<Rightarrow> seq_single result" where
  "sched_autogroup_open single_open inode =
     (case single_open ''sched_autogroup_show'' None of Inl e \<Rightarrow> Inl e | Inr m \<Rightarrow> Inr (m\<lparr>sq_private := Some inode\<rparr>))"

definition timens_offsets_open :: "single_open \<Rightarrow> nat \<Rightarrow> seq_single result" where
  "timens_offsets_open single_open inode = single_open ''timens_offsets_show'' (Some inode)"

definition comm_open :: "single_open \<Rightarrow> nat \<Rightarrow> seq_single result" where
  "comm_open single_open inode = single_open ''comm_show'' (Some inode)"

definition timerslack_ns_open :: "single_open \<Rightarrow> nat \<Rightarrow> seq_single result" where
  "timerslack_ns_open single_open inode = single_open ''timerslack_ns_show'' (Some inode)"

text \<open>Opening \<^verbatim>\<open>environ\<close> and \<^verbatim>\<open>auxv\<close>; \<open>may mode\<close> is the answer of \<^verbatim>\<open>ptrace_may_access\<close>.\<close>

definition PTRACE_MODE_READ :: u32 where "PTRACE_MODE_READ = 0x01"
definition PTRACE_MODE_FSCREDS :: u32 where "PTRACE_MODE_FSCREDS = 0x08"

definition environ_open ::
  "errno option \<Rightarrow> mmptr option \<Rightarrow> (u32 \<Rightarrow> bool) \<Rightarrow> kernel \<Rightarrow> tptr option \<Rightarrow> mmptr option result \<times> mmref revent list" where
  "environ_open lock curmm may k task =
     (case proc_mem_open lock curmm (may (PTRACE_MODE_READ OR PTRACE_MODE_FSCREDS)) k task of (r, ev, _) \<Rightarrow> (r, ev))"

definition auxv_open ::
  "errno option \<Rightarrow> mmptr option \<Rightarrow> (u32 \<Rightarrow> bool) \<Rightarrow> kernel \<Rightarrow> tptr option \<Rightarrow> mmptr option result \<times> mmref revent list" where
  "auxv_open lock curmm may k task =
     (case proc_mem_open lock curmm (may (PTRACE_MODE_READ OR PTRACE_MODE_FSCREDS OR PTRACE_MODE_FSCREDS)) k task of (r, ev, _) \<Rightarrow> (r, ev))"

text \<open>The two need the same right although they name different modes.\<close>

lemma auxv_open_as_environ: "auxv_open = environ_open"
  by (simp add: auxv_open_def environ_open_def fun_eq_iff PTRACE_MODE_READ_def PTRACE_MODE_FSCREDS_def)

text \<open>\<^verbatim>\<open>single_open\<close>: a sequence file with this function and pointer, or \<^verbatim>\<open>-ENOMEM\<close>.\<close>

definition single_open_doc :: "single_open \<Rightarrow> bool" where
  "single_open_doc so \<longleftrightarrow> (\<forall>s p. so s p = Inl ENOMEM \<or> so s p = Inr \<lparr>sq_show = s, sq_private = p\<rparr>)"

locale single_file =
  fixes opn :: "single_open \<Rightarrow> nat \<Rightarrow> seq_single result"
    and shw :: string
  assumes opens: "single_open_doc so \<Longrightarrow> opn so inode = Inr m \<Longrightarrow> sq_show m = shw \<and> sq_private m = Some inode"
    and fails: "single_open_doc so \<Longrightarrow> opn so inode = Inl e \<Longrightarrow> e = ENOMEM"
begin

lemma reads_own_inode: "single_open_doc so \<Longrightarrow> opn so inode = Inl ENOMEM \<or> opn so inode = Inr \<lparr>sq_show = shw, sq_private = Some inode\<rparr>"
  using opens fails by (cases "opn so inode") auto

end

lemma single_open_cases:
  assumes "single_open_doc so"
  shows "so s p = Inr m \<Longrightarrow> sq_show m = s \<and> sq_private m = p" "so s p = Inl e \<Longrightarrow> e = ENOMEM"
  using assms [unfolded single_open_doc_def, rule_format, of s p] by auto

lemmas single_opens = lstats_open_def proc_single_open_def sched_open_def sched_autogroup_open_def timens_offsets_open_def comm_open_def
  timerslack_ns_open_def

interpretation latency: single_file lstats_open "''lstats_show_proc''"
  by unfold_locales (auto simp: single_opens dest: single_open_cases)

interpretation one: single_file proc_single_open "''proc_single_show''"
  by unfold_locales (auto simp: single_opens dest: single_open_cases)

interpretation sched: single_file sched_open "''sched_show''"
  by unfold_locales (auto simp: single_opens dest: single_open_cases)

interpretation autogroup: single_file sched_autogroup_open "''sched_autogroup_show''"
  by unfold_locales (auto simp: single_opens dest: single_open_cases split: sum.splits)

interpretation timens: single_file timens_offsets_open "''timens_offsets_show''"
  by unfold_locales (auto simp: single_opens dest: single_open_cases)

interpretation comm: single_file comm_open "''comm_show''"
  by unfold_locales (auto simp: single_opens dest: single_open_cases)

interpretation timerslack_ns: single_file timerslack_ns_open "''timerslack_ns_show''"
  by unfold_locales (auto simp: single_opens dest: single_open_cases)

subsection \<open>Every entry has its handlers\<close>

text \<open>What an open function leaves in the file, and what a release function takes out of it.\<close>

datatype held = Single_seq | Pinned_mm | Private_seq | Map_ns | Setgroups_ns

definition open_holds :: "(string \<times> held) list" where
  "open_holds =
    [(''lstats_open'', Single_seq), (''proc_single_open'', Single_seq), (''sched_open'', Single_seq), (''sched_autogroup_open'', Single_seq),
     (''timens_offsets_open'', Single_seq), (''comm_open'', Single_seq), (''timerslack_ns_open'', Single_seq),
     (''mem_open'', Pinned_mm), (''environ_open'', Pinned_mm), (''auxv_open'', Pinned_mm), (''proc_pid_attr_open'', Pinned_mm),
     (''proc_timers_open'', Private_seq),
     (''proc_uid_map_open'', Map_ns), (''proc_gid_map_open'', Map_ns), (''proc_projid_map_open'', Map_ns),
     (''proc_setgroups_open'', Setgroups_ns)]"

definition release_drops :: "(string \<times> held) list" where
  "release_drops =
    [(''single_release'', Single_seq), (''mem_release'', Pinned_mm), (''seq_release_private'', Private_seq),
     (''proc_id_map_release'', Map_ns), (''proc_setgroups_release'', Setgroups_ns)]"

definition balanced_ops :: "file_operations \<Rightarrow> bool" where
  "balanced_ops f \<longleftrightarrow>
     (case (f_open f, f_release f) of
        (None, None) \<Rightarrow> True
      | (Some opn, Some rel) \<Rightarrow> (\<exists>h \<in> set [Single_seq, Pinned_mm, Private_seq, Map_ns, Setgroups_ns].
          map_of open_holds opn = Some h \<and> map_of release_drops rel = Some h)
      | _ \<Rightarrow> False)"

text \<open>The handlers a file of mode \<open>mode\<close> needs of its file operations and of its inode operations.\<close>

definition file_handlers :: "umode \<Rightarrow> file_operations \<Rightarrow> bool" where
  "file_handlers mode f \<longleftrightarrow>
     (if S_ISDIR mode then f_iterate f \<noteq> None \<and> f_write f = None
      else (mode AND S_IRUGO \<noteq> 0 \<longrightarrow> f_read f \<noteq> None) \<and> (mode AND S_IWUGO \<noteq> 0 \<longrightarrow> f_write f \<noteq> None) \<and> balanced_ops f)"

definition inode_handlers :: "umode \<Rightarrow> inode_operations \<Rightarrow> bool" where
  "inode_handlers mode i \<longleftrightarrow> (S_ISDIR mode \<longrightarrow> io_lookup i \<noteq> None) \<and> (S_ISLNK mode \<longrightarrow> io_get_link i \<noteq> None \<and> io_readlink i \<noteq> None)"

definition entry_handled :: "pid_entry \<Rightarrow> bool" where
  "entry_handled e \<longleftrightarrow>
     (case pe_fop e of None \<Rightarrow> True
      | Some n \<Rightarrow> (case map_of file_ops n of None \<Rightarrow> True | Some f \<Rightarrow> file_handlers (pe_mode e) f))
     \<and> (case map_of inode_ops (case pe_iop e of None \<Rightarrow> ''proc_def_inode_operations'' | Some n \<Rightarrow> n) of
          None \<Rightarrow> True
        | Some i \<Rightarrow> inode_handlers (pe_mode e) i
            \<and> (io_setattr i = Some ''proc_setattr'' \<longleftrightarrow> pe_iop e \<noteq> Some ''proc_tid_comm_inode_operations''))"

lemma rows_handled:
  "list_all (entry_handled \<circ> snd) tgid_base_stuff_rows" "list_all (entry_handled \<circ> snd) tid_base_stuff_rows"
  "list_all (entry_handled \<circ> snd) attr_dir_stuff_rows"
  by code_simp+

lemma table_handled: "list_all (entry_handled \<circ> snd) rows \<Longrightarrow> e \<in> set (table cfg rows) \<Longrightarrow> entry_handled e"
  by (auto simp: table_def list_all_iff)

subsection \<open>Properties\<close>


lemma tid_comm_entry:
  "NOD ''comm'' (S_IFREG OR S_IRUGO OR S_IWUSR) (Some ''proc_tid_comm_inode_operations'') (Some ''proc_pid_set_comm_operations'') []
     \<in> set (tid_base_stuff no_config)"
  by (simp add: tid_base_stuff_def table_def tid_base_stuff_rows_def no_config_def)


end
