(* ===== verification/System.thy ===== *)
theory System
  imports Runs Proc_Pid Proc_Number
begin

section \<open>The patched kernel as a whole\<close>

text \<open>
  The calls of the other theories that change the shared state, as the steps of one transition system: \<^verbatim>\<open>hide\<close>,
  \<^verbatim>\<open>hide_user_processes\<close>, a write to \<^verbatim>\<open>/proc/hide\<close>, \<^verbatim>\<open>copy_process\<close> and the writes to the files of \<^verbatim>\<open>/proc/<pid>\<close>.  They run
  in any order and on behalf of any task; a run is a list of calls.  (The waiting of \<^verbatim>\<open>vfork\<close> is not a
  step: while the parent waits, other calls run.)

  The locale \<open>labelled\<close> is interpreted for the invariant of the state and for a process staying hidden.
\<close>

subsection \<open>Calls\<close>

datatype number_file = Oom_adj | Oom_score_adj | Make_it_fail | Fail_nth | Timerslack_ns | Coredump_filter | Comm

fun number_write :: "number_file \<Rightarrow> num_env \<Rightarrow> char list \<Rightarrow> nat \<Rightarrow> kernel \<Rightarrow> nat result \<times> kernel \<times> kevent list" where
  "number_write Oom_adj = oom_adj_write"
| "number_write Oom_score_adj = oom_score_adj_write"
| "number_write Make_it_fail = proc_fault_inject_write"
| "number_write Fail_nth = proc_fail_nth_write"
| "number_write Timerslack_ns = timerslack_ns_write"
| "number_write Coredump_filter = proc_coredump_filter_write"
| "number_write Comm = comm_write"

datatype sys_call =
    Sys_hide u32 "int \<Rightarrow> tptr option" int int
  | Sys_hide_user u32 "task_struct \<Rightarrow> char list" "char list \<Rightarrow> uptr \<Rightarrow> nat \<Rightarrow> char list \<times> int" "char list" u32 "uptr option" int
  | Write_hide "char list \<Rightarrow> int result" bool "char list" "char list" nat
  | Copy_process fork_env kernel_clone_args bool tptr
  | Write_number number_file num_env "char list" nat

text \<open>A step carries what the calls rely on: \<^verbatim>\<open>__get_task_comm\<close> and \<^verbatim>\<open>__set_task_comm\<close> as documented, a new task with
  fresh structures, a number in its namespace and a valid exit signal.\<close>

inductive sys_step :: "sys_call \<Rightarrow> kernel \<Rightarrow> kernel \<Rightarrow> bool" where
  step_hide: "hide uid lookup nr on k = (r, k', ev) \<Longrightarrow> sys_step (Sys_hide uid lookup nr on) k k'"
| step_hide_user: "hide_user_processes cu g scpy st uid b recover k = (r, k', ev) \<Longrightarrow> copies_comm g
    \<Longrightarrow> sys_step (Sys_hide_user cu g scpy st uid b recover) k k'"
| step_write_hide: "proc_write_hidden f faults st buf count k = (r, k', ev) \<Longrightarrow> sys_step (Write_hide f faults st buf count) k k'"
| step_copy_process: "copy_process env args idle curp k = (r, k', ev) \<Longrightarrow> fresh_env env k \<Longrightarrow> fe_pid_nr env > 0
    \<Longrightarrow> 0 \<le> exit_signal args \<Longrightarrow> 0 \<le> fe_leader_exit_signal env \<Longrightarrow> sys_step (Copy_process env args idle curp) k k'"
| step_write_number: "number_write nf env buf count k = (r, k', ev) \<Longrightarrow> set_task_comm_doc env
    \<Longrightarrow> sys_step (Write_number nf env buf count) k k'"

inductive_cases sys_step_elims:
  "sys_step (Sys_hide uid lookup nr on) k k'"
  "sys_step (Sys_hide_user cu g scpy st uid b recover) k k'"
  "sys_step (Write_hide f faults st buf count) k k'"
  "sys_step (Copy_process env args idle curp) k k'"
  "sys_step (Write_number nf env buf count) k k'"

subsection \<open>What a call keeps\<close>

text \<open>The tasks are the same, in the same groups, with names of the same shape, and the groups are as large.\<close>

definition good_comm :: "task_struct \<Rightarrow> bool" where
  "good_comm t \<longleftrightarrow> length (t_comm t) = TASK_COMM_LEN \<and> NUL \<in> set (t_comm t)"

definition keeps_tasks :: "kernel \<Rightarrow> kernel \<Rightarrow> bool" where
  "keeps_tasks k k' \<longleftrightarrow> process_list k' = process_list k \<and> nr_of k' = nr_of k
     \<and> (\<forall>p. rel_option (\<lambda>t t'. t_signal t' = t_signal t \<and> (good_comm t \<longrightarrow> good_comm t')) (tasks k p) (tasks k' p))"

definition sys_inv :: "kernel \<Rightarrow> bool" where
  "sys_inv k \<longleftrightarrow> wf_kernel k \<and> wf_threads k \<and> oom_in_range k"

lemma wf_kernel_comm:
  "wf_kernel k \<longleftrightarrow> distinct (process_list k) \<and> set (process_list k) \<subseteq> dom (tasks k) \<and> (\<forall>p t. tasks k p = Some t \<longrightarrow> good_comm t)"
  by (auto simp: wf_kernel_def good_comm_def)

lemma keeps_tasks_refl [simp]: "keeps_tasks k k"
  by (simp add: keeps_tasks_def option.rel_refl)

lemma keeps_tasks_inv:
  assumes "keeps_tasks k k'" "wf_kernel k" "wf_threads k"
  shows "wf_kernel k'" "wf_threads k'"
proof -
  have r: "rel_option (\<lambda>t t'. t_signal t' = t_signal t \<and> (good_comm t \<longrightarrow> good_comm t')) (tasks k p) (tasks k' p)" for p
    using assms(1) by (simp add: keeps_tasks_def)
  have some: "\<exists>t. tasks k p = Some t \<and> t_signal t' = t_signal t \<and> (good_comm t \<longrightarrow> good_comm t')" if "tasks k' p = Some t'" for p t'
    using r [of p] that by (auto simp: option_rel_Some2)
  have some': "\<exists>t'. tasks k' p = Some t' \<and> t_signal t' = t_signal t" if "tasks k p = Some t" for p t
    using r [of p] that by (auto simp: option_rel_Some1)
  have dom: "dom (tasks k') = dom (tasks k)" using some some' by (auto simp: dom_def) metis+
  have "group_of k' s = group_of k s" for s using some some' by (fastforce simp: group_of_def)
  then show "wf_threads k'" using assms(1,3) dom by (simp add: wf_threads_def keeps_tasks_def)
  show "wf_kernel k'" using assms(1,2) dom some unfolding wf_kernel_comm keeps_tasks_def by metis
qed

lemma keeps_tasks_cloak: "same_but_cloak k k' \<Longrightarrow> keeps_tasks k k'"
  by (auto simp: same_but_cloak_def keeps_tasks_def nr_of_def good_comm_def fun_eq_iff intro: option.rel_mono_strong)

lemma keeps_tasks_update:
  "(\<And>t. t_signal (f t) = t_signal t \<and> (good_comm t \<longrightarrow> good_comm (f t))) \<Longrightarrow> keeps_tasks k (update_task p f k)"
  by (auto simp: keeps_tasks_def nr_of_def fun_eq_iff option.rel_refl option.rel_map intro!: option.rel_refl_strong)

lemma nr_of_put_oom [simp]: "nr_of (put_oom env v legacy s k) = nr_of k"
  by (auto simp: nr_of_def put_oom_def fun_eq_iff option.map_comp o_def)

lemma nr_of_oom_walk [simp]: "nr_of (oom_walk env v legacy tsig m ps k) = nr_of k"
  by (induction ps arbitrary: k) (auto split: option.splits)


lemma set_oom_adj_keeps:
  assumes "set_oom_adj env v legacy k = (r, k', ev)"
  shows "keeps_tasks k k'" "tasks k' = tasks k" "hidden_flag k' = hidden_flag k"
  using assms
  by (auto simp: set_oom_adj_def Let_def keeps_tasks_def option.rel_refl split: option.splits if_splits)

text \<open>The writes: all but the two oom files leave the scores alone, and those keep them in range.\<close>

lemma oom_write_keeps:
  assumes "number_write nf env buf count k = (r, k', ev)" "nf = Oom_adj \<or> nf = Oom_score_adj"
  shows "k' = k \<or> (\<exists>v legacy r' ev'. set_oom_adj env v legacy k = (r', k', ev') \<and> OOM_SCORE_ADJ_MIN \<le> v \<and> v \<le> OOM_SCORE_ADJ_MAX)"
  using assms(2)
proof
  assume f: "nf = Oom_adj"
  show ?thesis
  proof (cases "int_arg env buf count")
    case (Pair c res)
    show ?thesis
    proof (cases res)
      case (Inr v)
      let ?v = "if v = OOM_ADJUST_MAX then OOM_SCORE_ADJ_MAX else (v * OOM_SCORE_ADJ_MAX) sdiv (- OOM_DISABLE)"
      show ?thesis
      proof (cases "(v < OOM_ADJUST_MIN \<or> v > OOM_ADJUST_MAX) \<and> v \<noteq> OOM_DISABLE")
        case False
        then have "OOM_ADJUST_MIN \<le> v \<or> v = OOM_DISABLE" "v \<le> OOM_ADJUST_MAX" by (auto simp: oom_defs)
        from sdiv_17_bounds [OF this] have "OOM_SCORE_ADJ_MIN \<le> ?v \<and> ?v \<le> OOM_SCORE_ADJ_MAX" by (simp add: oom_defs)
        moreover have "\<exists>r' ev'. set_oom_adj env ?v True k = (r', k', ev')"
          using assms(1) f Pair Inr False
          by (cases "set_oom_adj env ?v True k") (auto simp: oom_adj_write_def Let_def split: option.splits prod.splits)
        ultimately show ?thesis by blast
      qed (use assms(1) f Pair Inr in \<open>simp add: oom_adj_write_def\<close>)
    qed (use assms(1) f Pair in \<open>simp add: oom_adj_write_def\<close>)
  qed
next
  assume f: "nf = Oom_score_adj"
  show ?thesis
  proof (cases "int_arg env buf count")
    case (Pair c res)
    then show ?thesis using assms(1) f
      by (cases res) (auto simp: oom_score_adj_write_def Let_def not_less split: if_splits prod.splits option.splits)
  qed
qed

text \<open>A change of one task that keeps its group, its cloak and the shape of its name.\<close>

definition harmless :: "(task_struct \<Rightarrow> task_struct) \<Rightarrow> bool" where
  "harmless f \<longleftrightarrow> (\<forall>t. t_signal (f t) = t_signal t \<and> t_cloak (f t) = t_cloak t \<and> (good_comm t \<longrightarrow> good_comm (f t)))"

lemma harmless_fields:
  "harmless (\<lambda>t. t\<lparr>t_make_it_fail := m\<rparr>)" "harmless (\<lambda>t. t\<lparr>t_fail_nth := n\<rparr>)" "harmless (\<lambda>t. t\<lparr>t_timer_slack_ns := g t\<rparr>)"
  "set_task_comm_doc env \<Longrightarrow> harmless (\<lambda>t. t\<lparr>t_comm := ne_set_task_comm env (t_comm t) b\<rparr>)"
  by (simp_all add: harmless_def good_comm_def set_task_comm_doc_def)

lemma other_write_keeps:
  assumes "number_write nf env buf count k = (r, k', ev)" "nf \<noteq> Oom_adj" "nf \<noteq> Oom_score_adj" "set_task_comm_doc env"
  shows "k' = k \<or> (\<exists>m f. k' = update_mm m f k) \<or> (\<exists>p f. k' = update_task p f k \<and> harmless f)"
proof (cases nf)
  case Make_it_fail
  then have "k' = k \<or> (\<exists>p m. k' = update_task p (\<lambda>t. t\<lparr>t_make_it_fail := m\<rparr>) k)" using assms(1)
    by (auto simp: proc_fault_inject_write_def split: prod.splits sum.splits option.splits if_splits)
  then show ?thesis using harmless_fields(1) by blast
next
  case Fail_nth
  then have "k' = k \<or> (\<exists>p m. k' = update_task p (\<lambda>t. t\<lparr>t_fail_nth := m\<rparr>) k)" using assms(1)
    by (auto simp: proc_fail_nth_write_def split: prod.splits sum.splits option.splits if_splits)
  then show ?thesis using harmless_fields(2) by blast
next
  case Timerslack_ns
  then have "k' = k \<or> (\<exists>p sl. k' = update_task p (\<lambda>t. t\<lparr>t_timer_slack_ns := if sl = 0 then t_default_timer_slack_ns t else sl\<rparr>) k)"
    using assms(1) by (auto simp: timerslack_ns_write_def split: prod.splits sum.splits option.splits if_splits)
  then show ?thesis using harmless_fields(3) [of "\<lambda>t. if _ = 0 then _ t else _"] by blast
next
  case Coredump_filter
  then show ?thesis using assms(1)
    by (auto simp: proc_coredump_filter_write_def split: prod.splits sum.splits option.splits if_splits)
next
  case Comm
  then have "k' = k \<or> (\<exists>p b. k' = update_task p (\<lambda>t. t\<lparr>t_comm := ne_set_task_comm env (t_comm t) b\<rparr>) k)" using assms(1)
    by (auto simp: comm_write_def Let_def split: prod.splits option.splits if_splits)
  then show ?thesis using harmless_fields(4) [OF assms(4)] by blast
qed (use assms(2,3) in simp_all)

lemma harmless_update:
  assumes "harmless f"
  shows "keeps_tasks k (update_task p f k)" "cloaked (update_task p f k) = cloaked k"
  using assms by (auto simp: harmless_def cloaked_def intro!: keeps_tasks_update)

lemma keeps_tasks_update_mm [simp]: "keeps_tasks k (update_mm m f k)"
  by (simp add: keeps_tasks_def option.rel_refl nr_of_def fun_eq_iff)

lemma oom_of_frame [simp]: "oom_of (update_mm m f k) = oom_of k" "oom_of (update_task p g k) = oom_of k"
  by (simp_all add: oom_of_def fun_eq_iff)

lemma number_write_keeps:
  assumes "number_write nf env buf count k = (r, k', ev)" "set_task_comm_doc env"
  shows "keeps_tasks k k'" "hidden_flag k' = hidden_flag k" "cloaked k' = cloaked k" "oom_in_range k \<Longrightarrow> oom_in_range k'"
proof -
  note w = oom_write_keeps [OF assms(1)] other_write_keeps [OF assms(1) _ _ assms(2)]
  show "keeps_tasks k k'"
    using w set_oom_adj_keeps(1) harmless_update(1) by (metis keeps_tasks_refl keeps_tasks_update_mm)
  show "hidden_flag k' = hidden_flag k"
    using w set_oom_adj_keeps(3) by (metis update_mm_simps(3) update_task_frame(2))
  have tasks: "tasks k' = tasks k \<Longrightarrow> cloaked k' = cloaked k" by (simp add: cloaked_def)
  show "cloaked k' = cloaked k"
    using w set_oom_adj_keeps(2) tasks harmless_update(2) by (metis update_mm_simps(1))
  show "oom_in_range k'" if "oom_in_range k"
    using w set_oom_adj_range that by (metis oom_in_range_def oom_of_frame)
qed

subsection \<open>What \<^verbatim>\<open>copy_process\<close> keeps\<close>

lemma copy_process_states:
  assumes "copy_process env args idle curp k = (r, k', ev)"
  shows "k' = k \<or> k' = clear_nproc_exceeded curp k
    \<or> (\<exists>cur sg k1. tasks k curp = Some cur \<and> signals k (t_signal cur) = Some sg \<and> (k1 = k \<or> k1 = clear_nproc_exceeded curp k)
        \<and> k' = new_child env args curp cur sg k1)"
  using assms
  by (auto simp: copy_process_def Let_def current_of_Some split: option.splits sum.splits prod.splits if_splits)

lemma clear_harmless: "clear_nproc_exceeded curp k = update_task curp (\<lambda>t. t\<lparr>t_flags := t_flags t AND NOT PF_NPROC_EXCEEDED\<rparr>) k"
  "harmless (\<lambda>t. t\<lparr>t_flags := t_flags t AND NOT PF_NPROC_EXCEEDED\<rparr>)"
  by (simp_all add: clear_nproc_exceeded_def harmless_def good_comm_def)

lemma hidden_flag_new_child [simp]: "hidden_flag (new_child env args curp cur sg k) = hidden_flag k"
  by (simp add: new_child_def add_shared_def link_child_def copy_oom_score_adj_def Let_def split: option.splits)

lemma wf_kernel_new_child:
  assumes "wf_kernel k" "tasks k (fe_task env) = None" "good_comm cur"
  shows "wf_kernel (new_child env args curp cur sg k)"
  using assms unfolding wf_kernel_comm
  by (auto simp: process_list_new_child tasks_new_child good_comm_def child_task_fields)

lemma oom_of_new_child:
  assumes "signals k (t_signal cur) = Some sg" "oom_of (new_child env args curp cur sg k) s = Some v"
  shows "oom_of k s = Some v \<or> oom_of k (t_signal cur) = Some v"
  using assms
  by (auto simp: new_child_def add_shared_def link_child_def copy_oom_score_adj_def Let_def oom_of_def new_signal_struct_def
      split: option.splits if_splits)

lemma copy_process_keeps:
  assumes "copy_process env args idle curp k = (r, k', ev)" "fresh_env env k"
  shows "hidden_flag k' = hidden_flag k" "cloaked k' = cloaked k" "oom_in_range k \<Longrightarrow> oom_in_range k'" "wf_kernel k \<Longrightarrow> wf_kernel k'"
proof -
  have f: "tasks k (fe_task env) = None" using assms(2) by (simp add: fresh_env_def)
  consider "k' = k" | "k' = clear_nproc_exceeded curp k"
    | cur sg k1 where "tasks k curp = Some cur" "signals k (t_signal cur) = Some sg" "k1 = k \<or> k1 = clear_nproc_exceeded curp k"
        "k' = new_child env args curp cur sg k1"
    using copy_process_states [OF assms(1)] by blast
  then have "hidden_flag k' = hidden_flag k \<and> cloaked k' = cloaked k \<and> (oom_in_range k \<longrightarrow> oom_in_range k') \<and> (wf_kernel k \<longrightarrow> wf_kernel k')"
  proof cases
    case 1
    then show ?thesis by simp
  next
    case 2
    then show ?thesis using wf_clear_nproc by (simp add: oom_in_range_def oom_of_def)
  next
    case 3
    then have k1: "tasks k1 (fe_task env) = None" "cloaked k1 = cloaked k" "oom_of k1 = oom_of k" "signals k1 (t_signal cur) = Some sg"
      "hidden_flag k1 = hidden_flag k" "wf_kernel k \<Longrightarrow> wf_kernel k1"
      using f fresh_env_clear [OF assms(2), of curp] wf_clear_nproc by (auto simp: fresh_env_def oom_of_def fun_eq_iff)
    have "good_comm cur" if "wf_kernel k" using 3(1) that by (auto simp: wf_kernel_comm)
    then have "wf_kernel k \<longrightarrow> wf_kernel k'" using wf_kernel_new_child [OF k1(6) k1(1)] 3(4) by blast
    moreover have "oom_in_range k \<longrightarrow> oom_in_range k'"
      using oom_of_new_child [OF k1(4)] unfolding 3(4) oom_in_range_def k1(3) by blast
    ultimately show ?thesis using k1 3(4) cloaked_new_child [OF k1(1)] by simp
  qed
  then show "hidden_flag k' = hidden_flag k" "cloaked k' = cloaked k" "oom_in_range k \<Longrightarrow> oom_in_range k'" "wf_kernel k \<Longrightarrow> wf_kernel k'"
    by simp_all
qed

subsection \<open>The invariant of the state\<close>

lemma oom_same_but_cloak: "same_but_cloak k k' \<Longrightarrow> oom_in_range k \<Longrightarrow> oom_in_range k'"
  by (simp add: same_but_cloak_def oom_in_range_def oom_of_def)

lemma sys_inv_cloak: "same_but_cloak k k' \<Longrightarrow> sys_inv k \<Longrightarrow> sys_inv k'"
  using keeps_tasks_inv [OF keeps_tasks_cloak] oom_same_but_cloak by (simp add: sys_inv_def)

lemma proc_write_hidden_state:
  "proc_write_hidden f faults st buf count k = (r, k', ev) \<Longrightarrow> \<exists>v. k' = k\<lparr>hidden_flag := v\<rparr>"
  by (auto simp: proc_write_hidden_def Let_def intro: exI [of _ "hidden_flag k"] split: if_splits sum.splits)

lemma sys_inv_flag: "sys_inv k \<Longrightarrow> sys_inv (k\<lparr>hidden_flag := v\<rparr>)"
  by (simp add: sys_inv_def wf_kernel_def wf_threads_def group_of_def nr_of_def oom_in_range_def oom_of_def)

lemma sys_step_inv: "sys_step c k k' \<Longrightarrow> sys_inv k \<Longrightarrow> sys_inv k'"
proof (induction rule: sys_step.induct)
  case (step_hide uid lookup nr on k r k' ev)
  then show ?case using sys_inv_cloak hide_frame by (metis fst_conv snd_conv)
next
  case (step_hide_user cu g scpy st uid b recover k r k' ev)
  then show ?case using sys_inv_cloak hide_user_processes_frame by (metis fst_conv snd_conv)
next
  case (step_write_hide f faults st buf count k r k' ev)
  then show ?case using proc_write_hidden_state sys_inv_flag by blast
next
  case (step_copy_process env args idle curp k r k' ev)
  then show ?case using copy_process_keeps(3,4) copy_process_counts_threads unfolding sys_inv_def by (metis fst_conv snd_conv)
next
  case (step_write_number nf env buf count k r k' ev)
  then show ?case using number_write_keeps keeps_tasks_inv unfolding sys_inv_def by metis
qed

interpretation sys: labelled sys_step sys_inv "\<lambda>_ _. True"
  by unfold_locales (rule sys_step_inv)

subsection \<open>Staying hidden\<close>

text \<open>The calls that can bring a hidden process back: root calls \<^verbatim>\<open>hide\<close> on it with another value than 1, root
  recovers all, or another number than 1 is written to \<^verbatim>\<open>/proc/hide\<close>.\<close>

fun shows_again :: "tptr \<Rightarrow> sys_call \<Rightarrow> bool" where
  "shows_again p (Sys_hide uid lookup nr on) \<longleftrightarrow> uid = 0 \<and> nr > 0 \<and> lookup nr = Some p \<and> (word_of_int on :: u32) \<noteq> 1"
| "shows_again p (Sys_hide_user cu g scpy st uid b recover) \<longleftrightarrow> cu = 0 \<and> recover \<noteq> 0"
| "shows_again p (Write_hide f faults st buf count) \<longleftrightarrow>
     (\<not> faults \<and> (case f (take (min count PROC_MAX_SIZE) buf @ drop (min count PROC_MAX_SIZE) st) of Inl _ \<Rightarrow> False | Inr v \<Rightarrow> v \<noteq> 1))"
| "shows_again p (Copy_process env args idle curp) \<longleftrightarrow> False"
| "shows_again p (Write_number nf env buf count) \<longleftrightarrow> False"

lemma hide_keeps_cloak:
  "hide uid lookup nr on k = (r, k', ev) \<Longrightarrow> \<not> shows_again p (Sys_hide uid lookup nr on) \<Longrightarrow> p \<in> cloaked k
   \<Longrightarrow> p \<in> cloaked k' \<and> hidden_flag k' = hidden_flag k"
  by (auto simp: hide_def Let_def cloaked_set_cloak set_cloak_def [of _ _ k] split: if_splits option.splits)
    (auto simp: cloaked_def split: if_splits)

lemma fold_cloak_mono: "p \<in> cloaked k \<Longrightarrow> p \<in> cloaked (fold (\<lambda>q s. if sel s q then set_cloak 1 q s else s) ps k)"
  by (induction ps arbitrary: k) (auto simp: cloaked_set_cloak)

lemma hide_user_keeps_cloak:
  assumes "hide_user_processes cu g scpy st uid b recover k = (r, k', ev)" "copies_comm g"
    and "\<not> shows_again p (Sys_hide_user cu g scpy st uid b recover)" "p \<in> cloaked k"
  shows "p \<in> cloaked k' \<and> hidden_flag k' = hidden_flag k"
proof -
  have "same_but_cloak k k'" using hide_user_processes_frame [OF assms(2)] assms(1) by (metis fst_conv snd_conv)
  moreover have "k' = k \<or> k' = fst (hide_by_uid uid (process_list k) k) \<or> (\<exists>n. k' = fst (hide_by_name g n uid (process_list k) k))"
    using assms(1,3) by (auto simp: hide_user_processes_def Let_def split: if_splits option.splits prod.splits)
      (metis fst_conv)+
  ultimately show ?thesis using assms(4) fold_cloak_mono
    by (auto simp: hide_by_uid_fold hide_by_name_fold [OF assms(2)] same_but_cloak_def)
qed

lemma write_hide_keeps_flag:
  "proc_write_hidden f faults st buf count k = (r, k', ev) \<Longrightarrow> \<not> shows_again p (Write_hide f faults st buf count)
   \<Longrightarrow> hidden_flag k = 1 \<Longrightarrow> hidden_flag k' = 1 \<and> cloaked k' = cloaked k"
  by (auto simp: proc_write_hidden_def Let_def min_def cloaked_def split: if_splits sum.splits)

lemma sys_step_stays_hidden:
  "sys_step c k k' \<Longrightarrow> hidden_flag k = 1 \<and> p \<in> cloaked k \<Longrightarrow> \<not> shows_again p c \<Longrightarrow> hidden_flag k' = 1 \<and> p \<in> cloaked k'"
proof (induction rule: sys_step.induct)
  case (step_hide uid lookup nr on k r k' ev)
  then show ?case using hide_keeps_cloak by metis
next
  case (step_hide_user cu g scpy st uid b recover k r k' ev)
  then show ?case using hide_user_keeps_cloak by metis
next
  case (step_write_hide f faults st buf count k r k' ev)
  then show ?case using write_hide_keeps_flag by metis
next
  case (step_copy_process env args idle curp k r k' ev)
  then show ?case using copy_process_keeps(1,2) by metis
next
  case (step_write_number nf env buf count k r k' ev)
  then show ?case using number_write_keeps(2,3) by metis
qed

interpretation hidden: labelled sys_step "\<lambda>k. hidden_flag k = 1 \<and> p \<in> cloaked k" "\<lambda>c _. \<not> shows_again p c" for p
  by unfold_locales (rule sys_step_stays_hidden)

lemma recover_not_cloaked:
  assumes "sys_step (Sys_hide_user 0 g scpy st uid b recover) k k'" "recover \<noteq> 0"
  shows "process_list k' = process_list k" "set (process_list k') \<inter> cloaked k' = {}"
proof -
  have k': "k' = recover_all (process_list k) k" using assms by (auto elim!: sys_step_elims simp: hide_user_processes_def)
  have "same_but_cloak k (fold (set_cloak 0) (process_list k) k)" by (rule same_but_cloak_fold) simp
  then show pl: "process_list k' = process_list k" by (simp add: k' recover_all_fold same_but_cloak_def)
  show "set (process_list k') \<inter> cloaked k' = {}" unfolding pl by (auto simp: k' recover_all_fold ks.walk_off)
qed

subsection \<open>Properties\<close>

text \<open>
  C5: The state stays consistent whatever calls are made in whatever order, failing calls included: each process on the
  list exists and is there once, every name is terminated, every signal structure counts the tasks of its
  group, and every oom score is between -1000 and 1000.\<close>

theorem system_invariant:
  assumes "run sys_step k cs k'" "sys_inv k"
  shows "sys_inv k'"
  using sys.invariant [OF assms] by simp

lemma demo_sys_inv: "sys_inv demo_kernel"
  using wf_demo_kernel wf_threads_demo
  by (auto simp: sys_inv_def oom_in_range_def oom_of_def demo_kernel_def demo_signal_def oom_defs split: if_splits)

lemma demo_step_hide: "sys_step (Sys_hide 0 (\<lambda>_. Some 2) 42 1) k (set_cloak 1 2 k)"
  by (rule step_hide) (simp add: hide_def Let_def)

lemma demo_step_fork:
  assumes "fresh_env Fork.demo_env k"
  shows "sys_step (Copy_process Fork.demo_env (demo_args fl) idle 2) k (fst (snd (copy_process Fork.demo_env (demo_args fl) idle 2 k)))"
  using step_copy_process [of Fork.demo_env "demo_args fl" idle 2 k] assms
  by (metis (no_types) Fork.demo_env_def demo_args_def fork_env.select_convs kernel_clone_args.select_convs prod.collapse zero_le_numeral zero_less_numeral)

text \<open>Hiding process 42 and then forking from it.\<close>

definition demo_run :: "sys_call list" where
  "demo_run = [Sys_hide 0 (\<lambda>_. Some 2) 42 1, Copy_process Fork.demo_env (demo_args 0) False 2]"

definition demo_end :: kernel where
  "demo_end = fst (snd (copy_process Fork.demo_env (demo_args 0) False 2 (set_cloak 1 2 demo_kernel)))"

lemma demo_run_end: "run sys_step demo_kernel demo_run demo_end"
proof -
  have "fresh_env Fork.demo_env (set_cloak 1 2 demo_kernel)"
    by (simp add: fresh_env_def Fork.demo_env_def demo_kernel_def set_cloak_def)
  then show ?thesis unfolding demo_run_def demo_end_def run_simps using demo_step_hide demo_step_fork by blast
qed

lemma demo_end_processes: "process_list demo_end = [1, 2, 3]"
  by (simp add: demo_end_def copy_process_def Let_def passed_limit_check_def demo_eval set_cloak_def process_list_new_child
      child_exit_signal_def)

theorem system_invariant_witness: "sys_inv demo_end"
  by (rule system_invariant [OF demo_run_end demo_sys_inv])

text \<open>
  C4: A hidden process stays hidden: as long as no call asks for the opposite (root's \<^verbatim>\<open>hide\<close> on it, root's recovery, or
  switching \<^verbatim>\<open>/proc/hide\<close> off), nothing that happens, forks, renames and failing calls included, makes it show up in a
  listing of \<^verbatim>\<open>/proc\<close> or be found by its name, for any reader.\<close>

theorem hidden_stays_hidden:
  assumes "run sys_step k cs k'" "hidden_flag k = 1" "p \<in> cloaked k" "\<forall>c \<in> set cs. \<not> shows_again p c" "pid_ns_ok ns pids"
  shows "((m, p) \<in> set (leaders ns pids) \<and> FIRST_PROCESS_ENTRY \<le> pos
        \<longrightarrow> dec_nat m \<notin> fst ` set (fst (pid_read env fs ns dcache si ti k' a pos)))
    \<and> (name_to_int name \<noteq> - 1 \<and> find_task_by_pid_ns ns (name_to_int name) = Some p
        \<longrightarrow> fst (proc_pid_lookup env fs ns name_to_int nl k' name) = Inl ENOENT)"
proof -
  have h: "is_hidden k' p" using hidden.invariant [OF assms(1), of p] assms(2-4) by (simp add: is_hidden_iff)
  then have "\<not> visible env fs k' p" by (simp add: visible_def)
  then have "(m, p) \<in> set (leaders ns pids) \<and> FIRST_PROCESS_ENTRY \<le> pos
      \<longrightarrow> dec_nat m \<notin> fst ` set (fst (pid_read env fs ns dcache si ti k' a pos))"
    using listed_visible [OF assms(5)] by blast
  moreover obtain t where "tasks k' p = Some t" using h by (auto simp: is_hidden_iff cloaked_def)
  ultimately show ?thesis using h by (simp add: proc_pid_lookup_def is_hidden_def Let_def)
qed

theorem hidden_stays_hidden_witness:
  "dec_nat 42 \<notin> fst ` set (fst (pid_read (Proc_Inode.demo_env True) demo_fs demo_ns (\<lambda>_. None) 5 6 demo_end greedy FIRST_PROCESS_ENTRY))
   \<and> fst (proc_pid_lookup (Proc_Inode.demo_env True) demo_fs demo_ns demo_name_to_int 3 demo_end (dec_nat 42)) = Inl ENOENT"
proof -
  have r: "run sys_step (set_cloak 1 2 demo_kernel) (tl demo_run) demo_end"
    using demo_run_end by (auto simp: demo_run_def run_simps hide_def Let_def elim!: sys_step_elims(1))
  have h: "hidden_flag (set_cloak 1 2 demo_kernel) = 1" "2 \<in> cloaked (set_cloak 1 2 demo_kernel)"
    "\<forall>c \<in> set (tl demo_run). \<not> shows_again 2 c"
    by (simp_all add: demo_run_def set_cloak_def cloaked_def)
  have "(42, 2) \<in> set (leaders demo_ns demo_pids)" by (simp add: demo_leaders)
  moreover have "demo_name_to_int (dec_nat 42) \<noteq> - 1" "find_task_by_pid_ns demo_ns (demo_name_to_int (dec_nat 42)) = Some 2"
    by (simp_all add: demo_name_to_int_def demo_ns_def)
  ultimately show ?thesis using hidden_stays_hidden [OF r h demo_ns_ok, of 42 FIRST_PROCESS_ENTRY] by blast
qed

text \<open>
  C6: Hiding can always be undone: whatever calls were made before, once root calls \<^verbatim>\<open>hide_user_processes\<close> with \<^verbatim>\<open>recover\<close> a
  full listing of \<^verbatim>\<open>/proc\<close> contains every process on the task list that the reader may see.\<close>

theorem recover_relists:
  assumes "run sys_step k (cs @ [Sys_hide_user 0 g scpy st uid b recover]) k'" "recover \<noteq> 0"
    and "pid_ns_ok ns pids" "(m, p) \<in> set (leaders ns pids)" "p \<in> set (process_list k')"
    and "has_pid_permissions env fs p HIDEPID_INVISIBLE"
  shows "dec_nat m \<in> fst ` set (fst (pid_read env fs ns dcache si ti k' greedy FIRST_PROCESS_ENTRY))"
proof -
  obtain k1 where "sys_step (Sys_hide_user 0 g scpy st uid b recover) k1 k'" using assms(1) by (auto simp: run_append run_simps)
  then have "p \<notin> cloaked k'" using recover_not_cloaked(2) assms(2,5) by blast
  then show ?thesis using assms(6) by (simp add: visible_listed [OF assms(3,4)] visible_def is_hidden_iff)
qed

theorem recover_relists_witness:
  "\<exists>k'. run sys_step demo_kernel (demo_run @ [Sys_hide_user 0 t_comm (\<lambda>b _ _. (b, 0)) [] 1000 None 1]) k'
     \<and> dec_nat 42 \<in> fst ` set (fst (pid_read (Proc_Inode.demo_env True) demo_fs demo_ns (\<lambda>_. None) 5 6 k' greedy FIRST_PROCESS_ENTRY))"
proof -
  let ?c = "Sys_hide_user 0 t_comm (\<lambda>b _ _. (b, 0)) [] 1000 None 1"
  let ?k = "recover_all (process_list demo_end) demo_end"
  have s: "sys_step ?c demo_end ?k"
    by (rule step_hide_user) (simp_all add: hide_user_processes_def copies_comm_def)
  then have r: "run sys_step demo_kernel (demo_run @ [?c]) ?k" using demo_run_end by (auto simp: run_append run_simps)
  have "2 \<in> set (process_list ?k)" using recover_not_cloaked(1) [OF s] demo_end_processes by simp
  then show ?thesis using recover_relists [OF r _ demo_ns_ok, of 42 2] r demo_perm by (auto simp: demo_leaders)
qed

end
