(* ===== verification/Requirements.thy ===== *)
theory Requirements
  imports System
begin

section \<open>What the patch is required to do\<close>

text \<open>
  The requirements of \<^verbatim>\<open>OSEXP-1.md\<close> as an abstract machine: its state is the set of processes, the set of those that
  were asked to be hidden and the flag that switches hiding on, and it serves one request at a time.  Each call of the
  patched kernel makes one request (\<open>request_of\<close>); \<open>requirement\<close> reads the state of the machine off the kernel.  The locale
  \<open>simulation\<close> is interpreted on the two: every call does what it asks for, no more, and what is listed follows from the
  state of the machine.
\<close>

subsection \<open>The abstract machine\<close>

record requirement =
  rq_processes :: "tptr set"
  rq_hidden :: "tptr set"
  rq_flag :: int

datatype request = Hide_processes "tptr set" | Show_processes "tptr set" | Set_flag int | New_process tptr | Nothing

fun serve :: "request \<Rightarrow> requirement \<Rightarrow> requirement" where
  "serve (Hide_processes S) q = q\<lparr>rq_hidden := rq_hidden q \<union> (S \<inter> rq_processes q)\<rparr>"
| "serve (Show_processes S) q = q\<lparr>rq_hidden := rq_hidden q - S\<rparr>"
| "serve (Set_flag v) q = q\<lparr>rq_flag := v\<rparr>"
| "serve (New_process p) q = q\<lparr>rq_processes := insert p (rq_processes q)\<rparr>"
| "serve Nothing q = q"

text \<open>Nobody is to see a process that was asked to be hidden while the flag is 1.\<close>

definition out_of_sight :: "requirement \<Rightarrow> tptr \<Rightarrow> bool" where
  "out_of_sight q p \<longleftrightarrow> rq_flag q = 1 \<and> p \<in> rq_hidden q"

definition requirement_of :: "kernel \<Rightarrow> requirement" where
  "requirement_of k = \<lparr>rq_processes = set (process_list k), rq_hidden = set (process_list k) \<inter> cloaked k, rq_flag = hidden_flag k\<rparr>"

text \<open>What a call asks for.  A call that is refused asks for nothing; \<^verbatim>\<open>copy_process\<close> asks for a new process when it
  succeeds and its flags do not ask for a thread.\<close>

fun request_of :: "sys_call \<Rightarrow> kernel \<Rightarrow> request" where
  "request_of (Sys_hide uid lookup nr on) k =
     (if uid = 0 \<and> nr > 0 then
        (case lookup nr of None \<Rightarrow> Nothing
         | Some p \<Rightarrow> if (word_of_int on :: u32) = 1 then Hide_processes {p} else Show_processes {p})
      else Nothing)"
| "request_of (Sys_hide_user cu g scpy st uid b recover) k =
     (if cu \<noteq> 0 then Nothing
      else if recover \<noteq> 0 then Show_processes (set (process_list k))
      else case b of
             None \<Rightarrow> Hide_processes {p. uid_is uid k p}
           | Some a \<Rightarrow> (case scpy (st[TASK_COMM_LEN - 1 := NUL]) a TASK_COMM_LEN of
                 (name, len) \<Rightarrow> if len < 0 then Nothing else Hide_processes {p. uid_is uid k p \<and> comm_is t_comm name k p}))"
| "request_of (Write_hide f faults st buf count) k =
     (if faults then Nothing
      else case f (take (min count PROC_MAX_SIZE) buf @ drop (min count PROC_MAX_SIZE) st) of Inl _ \<Rightarrow> Nothing | Inr v \<Rightarrow> Set_flag v)"
| "request_of (Copy_process env args idle curp) k =
     (case copy_process env args idle curp k of
        (Inl _, _) \<Rightarrow> Nothing
      | (Inr p, _) \<Rightarrow> if has (flags args) CLONE_THREAD then Nothing else New_process p)"
| "request_of (Write_number nf env buf count) k = Nothing"

subsection \<open>The kernel serves the requests\<close>

lemma requirement_cloak:
  "same_but_cloak k k' \<Longrightarrow> requirement_of k' = (requirement_of k)\<lparr>rq_hidden := set (process_list k) \<inter> cloaked k'\<rparr>"
  by (simp add: requirement_of_def same_but_cloak_def)

lemma requirement_set_cloak:
  assumes "wf_kernel k"
  shows "requirement_of (set_cloak v p k) = serve (if v = 1 then Hide_processes {p} else Show_processes {p}) (requirement_of k)"
proof -
  have "set (process_list k) \<inter> cloaked (set_cloak v p k) =
      (if v = 1 then set (process_list k) \<inter> cloaked k \<union> {p} \<inter> set (process_list k) else set (process_list k) \<inter> cloaked k - {p})"
    using process_list_present [OF assms] by (auto simp: cloaked_set_cloak)
  then show ?thesis by (simp add: requirement_of_def set_cloak_def)
qed

lemma hide_serves:
  "hide uid lookup nr on k = (r, k', ev) \<Longrightarrow> wf_kernel k
   \<Longrightarrow> requirement_of k' = serve (request_of (Sys_hide uid lookup nr on) k) (requirement_of k)"
  by (cases "lookup nr") (auto simp: hide_def Let_def requirement_set_cloak split: if_splits)

lemma hide_user_serves:
  assumes "copies_comm g" "wf_kernel k"
  shows "requirement_of (fst (snd (hide_user_processes cu g scpy st uid b recover k)))
    = serve (request_of (Sys_hide_user cu g scpy st uid b recover) k) (requirement_of k)"
proof -
  note q = requirement_cloak [OF hide_user_processes_frame [OF assms(1), of k cu scpy st uid b recover]]
  note walks = hide_by_uid_fold by_uid.walk_on hide_by_name_fold [OF assms(1)] by_comm.walk_on recover_all_fold ks.walk_off
    process_list_present [OF assms(2)]
  show ?thesis unfolding q
    by (auto simp: hide_user_processes_def split_beta Let_def requirement_of_def walks split: option.splits)
qed

lemma write_hide_serves:
  "proc_write_hidden f faults st buf count k = (r, k', ev)
   \<Longrightarrow> requirement_of k' = serve (request_of (Write_hide f faults st buf count) k) (requirement_of k)"
  by (auto simp: proc_write_hidden_def Let_def min_def requirement_of_def cloaked_def split: if_splits sum.splits)

lemma write_number_serves:
  assumes "number_write nf env buf count k = (r, k', ev)" "set_task_comm_doc env"
  shows "requirement_of k' = requirement_of k"
  using number_write_keeps [OF assms] by (simp add: requirement_of_def keeps_tasks_def)

lemma copy_process_serves:
  assumes "copy_process env args idle curp k = (r, k', ev)" "fresh_env env k" "fe_pid_nr env > 0"
    and "0 \<le> exit_signal args" "0 \<le> fe_leader_exit_signal env"
  shows "requirement_of k' = serve (request_of (Copy_process env args idle curp) k) (requirement_of k)"
proof -
  note kept = copy_process_keeps(1,2) [OF assms(1,2)]
  have "fe_task env \<notin> cloaked k" using assms(2) by (auto simp: fresh_env_def cloaked_def)
  moreover have "set (process_list k') = (case r of Inl _ \<Rightarrow> set (process_list k)
      | Inr p \<Rightarrow> if has (flags args) CLONE_THREAD then set (process_list k) else insert p (set (process_list k)))
    \<and> (case r of Inl _ \<Rightarrow> True | Inr p \<Rightarrow> p = fe_task env)"
    using assms(1,3) child_exit_signal_leader [OF assms(4,5)]
    by (auto simp: copy_process_def Let_def process_list_new_child split: option.splits sum.splits prod.splits if_splits)
  ultimately show ?thesis using assms(1) kept
    by (auto simp: requirement_of_def split: sum.splits)
qed

lemma sys_step_serves: "sys_step c k k' \<Longrightarrow> sys_inv k \<Longrightarrow> requirement_of k' = serve (request_of c k) (requirement_of k)"
proof (induction rule: sys_step.induct)
  case (step_hide uid lookup nr on k r k' ev)
  then show ?case using hide_serves unfolding sys_inv_def by blast
next
  case (step_hide_user cu g scpy st uid b recover k r k' ev)
  then show ?case using hide_user_serves unfolding sys_inv_def by (metis fst_conv snd_conv)
next
  case (step_write_hide f faults st buf count k r k' ev)
  then show ?case using write_hide_serves by blast
next
  case (step_copy_process env args idle curp k r k' ev)
  then show ?case using copy_process_serves by blast
next
  case (step_write_number nf env buf count k r k' ev)
  then show ?case using write_number_serves by simp
qed

interpretation req: simulation sys_step sys_inv requirement_of request_of serve
  by unfold_locales (rule sys_step_serves)

lemma visible_requirement:
  assumes "p \<in> set (process_list k)"
  shows "visible env fs k p \<longleftrightarrow> has_pid_permissions env fs p HIDEPID_INVISIBLE \<and> \<not> out_of_sight (requirement_of k) p"
  using assms by (auto simp: visible_def is_hidden_iff out_of_sight_def requirement_of_def)

subsection \<open>Calls without privilege\<close>

text \<open>The calls that anybody can make: those of a user other than root, and all that do not write to \<^verbatim>\<open>/proc/hide\<close>, whose mode
  lets only its owner write.\<close>

fun unprivileged :: "sys_call \<Rightarrow> bool" where
  "unprivileged (Sys_hide uid lookup nr on) \<longleftrightarrow> uid \<noteq> 0"
| "unprivileged (Sys_hide_user cu g scpy st uid b recover) \<longleftrightarrow> cu \<noteq> 0"
| "unprivileged (Write_hide f faults st buf count) \<longleftrightarrow> False"
| "unprivileged (Copy_process env args idle curp) \<longleftrightarrow> True"
| "unprivileged (Write_number nf env buf count) \<longleftrightarrow> True"

lemma unprivileged_request:
  assumes "unprivileged c"
  shows "rq_hidden (serve (request_of c k) q) = rq_hidden q" "rq_flag (serve (request_of c k) q) = rq_flag q"
  using assms by (cases c; auto split: prod.splits sum.splits)+

subsection \<open>Properties\<close>

text \<open>
  C1: The kernel meets the requirements: in a consistent state every call, whatever its arguments and its caller, does to the
  processes, to those asked to be hidden and to the flag exactly what it asks for, and a full listing of \<^verbatim>\<open>/proc\<close> then shows
  exactly the processes the reader is permitted to see and that are not both asked to be hidden and hidden by the flag.\<close>

theorem calls_meet_requirements:
  assumes "sys_step c k k'" "sys_inv k" "pid_ns_ok ns pids" "(m, p) \<in> set (leaders ns pids)" "p \<in> set (process_list k')"
  shows "requirement_of k' = serve (request_of c k) (requirement_of k)
    \<and> (dec_nat m \<in> fst ` set (fst (pid_read env fs ns dcache si ti k' greedy FIRST_PROCESS_ENTRY))
        \<longleftrightarrow> has_pid_permissions env fs p HIDEPID_INVISIBLE \<and> \<not> out_of_sight (serve (request_of c k) (requirement_of k)) p)"
proof -
  note s = req.simulates [OF assms(1,2)]
  show ?thesis using visible_listed [OF assms(3,4)] visible_requirement [OF assms(5)] s by simp
qed

theorem calls_meet_requirements_witness:
  "dec_nat 42 \<notin> fst ` set (fst (pid_read (Proc_Inode.demo_env True) demo_fs demo_ns (\<lambda>_. None) 5 6 (set_cloak 1 2 demo_kernel) greedy
      FIRST_PROCESS_ENTRY))"
proof -
  have "(42, 2) \<in> set (leaders demo_ns demo_pids)" "2 \<in> set (process_list (set_cloak 1 2 demo_kernel))"
    by (simp_all add: demo_leaders set_cloak_def)
  then show ?thesis
    using calls_meet_requirements [OF demo_step_hide demo_sys_inv demo_ns_ok] by (simp add: out_of_sight_def requirement_of_def)
qed

text \<open>
  C2: Without privilege nothing is hidden or brought back: through any sequence of calls by users other than root, forks, renames
  and refused calls included, the set of processes asked to be hidden and the flag stay what they are, and a process that
  was on the task list before and after is listed after them, for any reader, exactly if it was before.\<close>

theorem unprivileged_calls_harmless:
  assumes "run sys_step k cs k'" "sys_inv k" "\<forall>c \<in> set cs. unprivileged c" "pid_ns_ok ns pids" "(m, p) \<in> set (leaders ns pids)"
    and "p \<in> set (process_list k)" "p \<in> set (process_list k')"
  shows "rq_hidden (requirement_of k') = rq_hidden (requirement_of k) \<and> hidden_flag k' = hidden_flag k
    \<and> (dec_nat m \<in> fst ` set (fst (pid_read env fs ns dcache si ti k' greedy FIRST_PROCESS_ENTRY))
        \<longleftrightarrow> dec_nat m \<in> fst ` set (fst (pid_read env fs ns dcache si ti k greedy FIRST_PROCESS_ENTRY)))"
proof -
  have h: "rq_hidden (requirement_of k') = rq_hidden (requirement_of k)"
    by (rule req.untouched [OF assms(1,2)]) (use assms(3) unprivileged_request(1) in blast)
  have f: "rq_flag (requirement_of k') = rq_flag (requirement_of k)"
    by (rule req.untouched [OF assms(1,2)]) (use assms(3) unprivileged_request(2) in blast)
  then have "hidden_flag k' = hidden_flag k" by (simp add: requirement_of_def)
  then show ?thesis using h f visible_listed [OF assms(4,5)] visible_requirement [OF assms(6)] visible_requirement [OF assms(7)]
    by (simp add: out_of_sight_def)
qed

theorem unprivileged_calls_harmless_witness:
  "rq_hidden (requirement_of demo_end) = {2}"
proof -
  let ?k = "set_cloak 1 2 demo_kernel"
  have r: "run sys_step ?k (tl demo_run) demo_end"
    using demo_run_end by (auto simp: demo_run_def run_simps hide_def Let_def elim!: sys_step_elims(1))
  have i: "sys_inv ?k" using sys_step_inv [OF demo_step_hide demo_sys_inv] .
  have "rq_hidden (requirement_of demo_end) = rq_hidden (requirement_of ?k)"
    using unprivileged_calls_harmless [OF r i _ demo_ns_ok, of 42 2]
    by (auto simp: demo_run_def demo_leaders set_cloak_def demo_end_processes)
  also have "\<dots> = {2}"
    by (auto simp: requirement_of_def cloaked_def set_cloak_def demo_kernel_def demo_task_def split: if_splits)
  finally show ?thesis .
qed

end
