(* ===== verification/Syscall.thy ===== *)
theory Syscall
  imports System Proc_Info Task_Flags
begin

unbundle bit_operations_syntax

section \<open>Entering the system calls\<close>

text \<open>
  \<^verbatim>\<open>include/linux/syscalls.h\<close>: the macros behind \<^verbatim>\<open>SYSCALL_DEFINE2\<close> and \<^verbatim>\<open>SYSCALL_DEFINE3\<close>, which turn the registers of a caller into
  the arguments of a handler, the metadata they record for tracing, the halves of 64-bit arguments, and the inline functions
  of the header.  A register is a 64-bit word; the value of a C expression of any scalar type is an integer, and a cast
  takes it out of the register.  The stub is the generic one of the header.

  The two test programs (\<^verbatim>\<open>tests/hide_test.c\<close>, \<^verbatim>\<open>tests/hide_user_processes_test.c\<close>) make the calls by number.  The way from \<^verbatim>\<open>syscall\<close> to the
  stub is a parameter; \<open>dispatch_doc\<close> says that it follows \<^verbatim>\<open>arch/x86/entry/syscalls/syscall_64.tbl\<close>.
\<close>

subsection \<open>Arguments\<close>

datatype c_type = C_int | C_uint | C_long | C_ulong | C_llong | C_ullong | C_ptr | C_wide nat

text \<open>A parameter of a system call has the type as it is written and as it is.\<close>

type_synonym sc_type = "string \<times> c_type"

fun MAP :: "nat \<Rightarrow> ('t \<Rightarrow> 'a \<Rightarrow> 'r) \<Rightarrow> ('t \<times> 'a) list \<Rightarrow> 'r list" where
  "MAP (Suc n) m ((t, a) # ps) = m t a # MAP n m ps"
| "MAP n m ps = []"

lemma MAP_all: "MAP (length ps) m ps = map (\<lambda>(t, a). m t a) ps"
  by (induction ps) auto

fun sizeof_type :: "c_type \<Rightarrow> nat" where
  "sizeof_type C_int = 4"
| "sizeof_type C_uint = 4"
| "sizeof_type (C_wide n) = n"
| "sizeof_type _ = 8"

definition TYPE_IS_LL :: "sc_type \<Rightarrow> bool" where
  "TYPE_IS_LL t \<longleftrightarrow> snd t = C_llong \<or> snd t = C_ullong"

text \<open>\<^verbatim>\<open>__SC_CAST(t, a)\<close>: the value of \<^verbatim>\<open>(t) a\<close> for a register \<open>a\<close>.  A type wider than a register is refused at compile time by
  \<^verbatim>\<open>__SC_TEST\<close>.\<close>

fun cast_reg :: "c_type \<Rightarrow> u64 \<Rightarrow> int" where
  "cast_reg C_int a = sint (ucast a :: u32)"
| "cast_reg C_uint a = uint (ucast a :: u32)"
| "cast_reg C_long a = sint a"
| "cast_reg C_llong a = sint a"
| "cast_reg _ a = uint a"

definition SC_CAST :: "sc_type \<Rightarrow> u64 \<Rightarrow> int" where
  "SC_CAST t a = cast_reg (snd t) a"

definition SC_TEST :: "sc_type \<Rightarrow> bool" where
  "SC_TEST t \<longleftrightarrow> \<not> (\<not> TYPE_IS_LL t \<and> sizeof_type (snd t) > 8)"

text \<open>The stub \<^verbatim>\<open>__se_sys_*\<close>; \<open>do_sys\<close> is the function whose body follows the macro.\<close>

definition SYSCALL_DEFINEx :: "nat \<Rightarrow> (sc_type \<times> string) list \<Rightarrow> (int list \<Rightarrow> 'r) \<Rightarrow> u64 list \<Rightarrow> 'r" where
  "SYSCALL_DEFINEx x params do_sys regs = (let ret = do_sys (MAP x SC_CAST (zip (map fst params) regs)) in ret)"

subsection \<open>Metadata\<close>

text \<open>\<open>te_data\<close> and the events of the metadata point at each other; here the first is the name of the metadata.\<close>

datatype event_class = Event_class_syscall_enter | Event_class_syscall_exit | Event_class_other nat

record trace_event_call =
  te_class :: event_class
  te_name :: string
  te_funcs :: string
  te_data :: string
  te_flags :: string

record syscall_metadata =
  sm_name :: string
  sm_syscall_nr :: int
  sm_nb_args :: nat
  sm_types :: "string list option"
  sm_args :: "string list option"
  sm_enter_event :: trace_event_call
  sm_exit_event :: trace_event_call
  sm_enter_fields :: "string list"

definition SC_STR_ADECL :: "sc_type \<Rightarrow> string \<Rightarrow> string" where "SC_STR_ADECL t a = a"
definition SC_STR_TDECL :: "sc_type \<Rightarrow> string \<Rightarrow> string" where "SC_STR_TDECL t a = fst t"

definition SYSCALL_TRACE_ENTER_EVENT :: "string \<Rightarrow> trace_event_call" where
  "SYSCALL_TRACE_ENTER_EVENT sname =
     \<lparr>te_class = Event_class_syscall_enter, te_name = ''sys_enter'' @ sname, te_funcs = ''enter_syscall_print_funcs'',
      te_data = ''__syscall_meta_'' @ sname, te_flags = ''TRACE_EVENT_FL_CAP_ANY''\<rparr>"

definition SYSCALL_TRACE_EXIT_EVENT :: "string \<Rightarrow> trace_event_call" where
  "SYSCALL_TRACE_EXIT_EVENT sname =
     \<lparr>te_class = Event_class_syscall_exit, te_name = ''sys_exit'' @ sname, te_funcs = ''exit_syscall_print_funcs'',
      te_data = ''__syscall_meta_'' @ sname, te_flags = ''TRACE_EVENT_FL_CAP_ANY''\<rparr>"

definition SYSCALL_METADATA :: "string \<Rightarrow> nat \<Rightarrow> (sc_type \<times> string) list \<Rightarrow> syscall_metadata" where
  "SYSCALL_METADATA sname nb params =
     \<lparr>sm_name = ''sys'' @ sname, sm_syscall_nr = - 1, sm_nb_args = nb,
      sm_types = (if nb \<noteq> 0 then Some (MAP nb SC_STR_TDECL params) else None),
      sm_args = (if nb \<noteq> 0 then Some (MAP nb SC_STR_ADECL params) else None),
      sm_enter_event = SYSCALL_TRACE_ENTER_EVENT sname, sm_exit_event = SYSCALL_TRACE_EXIT_EVENT sname, sm_enter_fields = []\<rparr>"

definition is_syscall_trace_event :: "trace_event_call \<Rightarrow> bool" where
  "is_syscall_trace_event tp_event \<longleftrightarrow>
     te_class tp_event = Event_class_syscall_enter \<or> te_class tp_event = Event_class_syscall_exit"

text \<open>The metadata of a call with as many parameters as its macro says describe all of them.\<close>

lemma metadata_complete:
  assumes "params \<noteq> []"
  shows "sm_types (SYSCALL_METADATA sname (length params) params) = Some (map (fst \<circ> fst) params)"
    and "sm_args (SYSCALL_METADATA sname (length params) params) = Some (map snd params)"
    and "is_syscall_trace_event (sm_enter_event (SYSCALL_METADATA sname n ps))" "is_syscall_trace_event (sm_exit_event (SYSCALL_METADATA sname n ps))"
  using assms by (simp_all add: SYSCALL_METADATA_def MAP_all SC_STR_TDECL_def SC_STR_ADECL_def is_syscall_trace_event_def
      SYSCALL_TRACE_ENTER_EVENT_def SYSCALL_TRACE_EXIT_EVENT_def split_beta o_def)

subsection \<open>64-bit arguments in two halves\<close>

text \<open>\<^verbatim>\<open>SC_ARG64\<close> on a little-endian machine passes the low half first; the value is \<^verbatim>\<open>(type) hi << 32 | lo\<close>.\<close>

definition SC_ARG64 :: "u64 \<Rightarrow> u32 \<times> u32" where
  "SC_ARG64 v = (ucast v, ucast (drop_bit 32 v))"

definition SC_VAL64 :: "u32 \<times> u32 \<Rightarrow> u64" where
  "SC_VAL64 p = (case p of (lo, hi) \<Rightarrow> push_bit 32 (ucast hi) OR ucast lo)"

lemma SC_VAL64_ARG64: "SC_VAL64 (SC_ARG64 v) = v"
proof (rule bit_word_eqI)
  fix n
  assume "n < LENGTH(64)"
  then show "bit (SC_VAL64 (SC_ARG64 v)) n = bit v n"
    by (auto simp: SC_VAL64_def SC_ARG64_def bit_simps)
qed

lemma SC_ARG64_VAL64: "SC_ARG64 (SC_VAL64 (lo, hi)) = (lo, hi)"
  by (auto simp: SC_VAL64_def SC_ARG64_def intro!: bit_word_eqI) (auto simp: bit_simps dest: bit_imp_le_length)

subsection \<open>Inline functions\<close>

text \<open>\<open>fscheck\<close> is the number of \<^verbatim>\<open>TIF_FSCHECK\<close> where the architecture has it; \<open>corrupt\<close> is \<^verbatim>\<open>CHECK_DATA_CORRUPTION(uaccess_kernel(), ..)\<close>.  The
  result says whether \<^verbatim>\<open>SIGKILL\<close> was forced.\<close>

definition addr_limit_user_check :: "nat option \<Rightarrow> bool \<Rightarrow> task_ext \<Rightarrow> task_ext \<times> bool" where
  "addr_limit_user_check fscheck corrupt cur =
     (case fscheck of
        None \<Rightarrow> (cur, corrupt)
      | Some f \<Rightarrow> if \<not> test_tsk_thread_flag cur f then (cur, False) else (clear_tsk_thread_flag cur f, corrupt))"

definition AT_FDCWD :: int where "AT_FDCWD = - 100"
definition AT_SYMLINK_NOFOLLOW :: int where "AT_SYMLINK_NOFOLLOW = 0x100"

text \<open>Without \<^verbatim>\<open>CONFIG_ADVISE_SYSCALLS\<close>.\<close>

definition ksys_fadvise64_64 :: "int \<Rightarrow> int \<Rightarrow> int \<Rightarrow> int \<Rightarrow> unit result" where
  "ksys_fadvise64_64 fd offset len advice = Inl EINVAL"

definition ksys_chown :: "(int \<Rightarrow> uptr \<Rightarrow> u32 \<Rightarrow> u32 \<Rightarrow> int \<Rightarrow> 'r) \<Rightarrow> uptr \<Rightarrow> u32 \<Rightarrow> u32 \<Rightarrow> 'r" where
  "ksys_chown do_fchownat filename user grp = do_fchownat AT_FDCWD filename user grp 0"

definition ksys_lchown :: "(int \<Rightarrow> uptr \<Rightarrow> u32 \<Rightarrow> u32 \<Rightarrow> int \<Rightarrow> 'r) \<Rightarrow> uptr \<Rightarrow> u32 \<Rightarrow> u32 \<Rightarrow> 'r" where
  "ksys_lchown do_fchownat filename user grp = do_fchownat AT_FDCWD filename user grp AT_SYMLINK_NOFOLLOW"

definition ksys_ftruncate :: "(u32 \<Rightarrow> int \<Rightarrow> int \<Rightarrow> 'r) \<Rightarrow> u32 \<Rightarrow> int \<Rightarrow> 'r" where
  "ksys_ftruncate do_sys_ftruncate fd len = do_sys_ftruncate fd len 1"

definition ksys_truncate :: "(uptr \<Rightarrow> int \<Rightarrow> 'r) \<Rightarrow> uptr \<Rightarrow> int \<Rightarrow> 'r" where
  "ksys_truncate do_sys_truncate pathname len = do_sys_truncate pathname len"

text \<open>\<open>set_personality\<close> is a macro of another header; it sets the field of the current task.\<close>

definition ksys_personality :: "(u32 \<Rightarrow> task_struct \<Rightarrow> task_struct) \<Rightarrow> u32 \<Rightarrow> task_struct \<Rightarrow> u32 \<times> task_struct" where
  "ksys_personality set_personality personality cur =
     (let old = t_personality cur
      in (old, if personality \<noteq> 0xffffffff then set_personality personality cur else cur))"

definition set_personality_doc :: "(u32 \<Rightarrow> task_struct \<Rightarrow> task_struct) \<Rightarrow> bool" where
  "set_personality_doc f \<longleftrightarrow> (\<forall>p t. f p t = t\<lparr>t_personality := p\<rparr>)"

text \<open>A personality set this way is the one \<^verbatim>\<open>/proc/<pid>/personality\<close> shows; all ones only asks for it.\<close>

lemma personality_shown:
  assumes "set_personality_doc f" "attach_right env"
  shows "fst (snd (proc_pid_personality (snd (ksys_personality f p t)) env))
    = hex8 (unat (if p = 0xffffffff then t_personality t else p)) @ [NL]"
  using assms by (auto simp: ksys_personality_def set_personality_doc_def proc_pid_personality_def trace_defs Let_def)

subsection \<open>The patch's system calls\<close>

definition hide_params :: "(sc_type \<times> string) list" where
  "hide_params = [((''pid_t'', C_int), ''pid''), ((''int'', C_int), ''on'')]"

definition hide_user_processes_params :: "(sc_type \<times> string) list" where
  "hide_user_processes_params = [((''uid_t'', C_uint), ''uid''), ((''char *'', C_ptr), ''binname''), ((''int'', C_int), ''recover'')]"

definition user_ptr :: "int \<Rightarrow> uptr option" where
  "user_ptr a = (if a = 0 then None else Some (word_of_int a))"

definition sys_hide :: "u32 \<Rightarrow> (int \<Rightarrow> tptr option) \<Rightarrow> u64 list \<Rightarrow> kernel \<Rightarrow> int \<times> kernel \<times> kevent list" where
  "sys_hide current_uid find_pid_task regs k =
     SYSCALL_DEFINEx 2 hide_params (\<lambda>v. hide current_uid find_pid_task (v ! 0) (v ! 1) k) regs"

definition sys_hide_user_processes ::
  "u32 \<Rightarrow> (task_struct \<Rightarrow> char list) \<Rightarrow> (char list \<Rightarrow> uptr \<Rightarrow> nat \<Rightarrow> char list \<times> int) \<Rightarrow> char list \<Rightarrow> u64 list \<Rightarrow> kernel
   \<Rightarrow> int \<times> kernel \<times> kevent list" where
  "sys_hide_user_processes current_uid get_task_comm strncpy_from_user st regs k =
     SYSCALL_DEFINEx 3 hide_user_processes_params
       (\<lambda>v. hide_user_processes current_uid get_task_comm strncpy_from_user st (word_of_int (v ! 0)) (user_ptr (v ! 1)) (v ! 2) k) regs"

text \<open>The rows of \<^verbatim>\<open>syscall_64.tbl\<close> for the calls of the patch: number, entry point.\<close>

definition syscall_64_tbl :: "(nat \<times> string) list" where
  "syscall_64_tbl = [(447, ''sys_hide''), (448, ''sys_hide_user_processes'')]"

subsection \<open>The test programs\<close>

text \<open>An \<^verbatim>\<open>int\<close> in a register: only the low half is defined, \<open>junk\<close> is what the high half happens to hold.\<close>

definition reg_of :: "u32 \<Rightarrow> int \<Rightarrow> u64" where
  "reg_of junk i = push_bit 32 (ucast junk) OR ucast (word_of_int i :: u32)"

definition hide_test_main :: "(nat \<Rightarrow> u64 list \<Rightarrow> 's \<Rightarrow> int \<times> 's) \<Rightarrow> u32 \<Rightarrow> u32 \<Rightarrow> 's \<Rightarrow> int \<times> 's" where
  "hide_test_main syscall j1 j2 s =
     (let pid = 1; on = 1
      in case syscall 447 [reg_of j1 pid, reg_of j2 on] s of (_, s) \<Rightarrow> (0, s))"

text \<open>\<open>name\<close> is the address of the string \<^verbatim>\<open>"bash"\<close>.\<close>

definition hide_user_processes_test_main ::
  "(nat \<Rightarrow> u64 list \<Rightarrow> 's \<Rightarrow> int \<times> 's) \<Rightarrow> u32 \<Rightarrow> u32 \<Rightarrow> uptr \<Rightarrow> 's \<Rightarrow> int \<times> 's" where
  "hide_user_processes_test_main syscall j1 j2 name s =
     (let syscallNum = 448; uid = 1000; recover = 1
      in case syscall syscallNum [reg_of j1 uid, name, reg_of j2 recover] s of (_, s) \<Rightarrow> (0, s))"

definition dispatch_doc :: "(nat \<Rightarrow> u64 list \<Rightarrow> kernel \<Rightarrow> int \<times> kernel) \<Rightarrow> (string \<rightharpoonup> u64 list \<Rightarrow> kernel \<Rightarrow> int \<times> kernel \<times> kevent list) \<Rightarrow> bool" where
  "dispatch_doc syscall entries \<longleftrightarrow>
     (\<forall>(nr, entry) \<in> set syscall_64_tbl. \<forall>f regs k. entries entry = Some f
        \<longrightarrow> syscall nr regs k = (fst (f regs k), fst (snd (f regs k))))"

subsection \<open>Arguments survive the way through the registers\<close>

lemma ucast_reg_of: "(ucast (reg_of junk i) :: u32) = word_of_int i"
  by (rule bit_word_eqI) (auto simp: reg_of_def bit_simps)

lemma SC_CAST_int:
  assumes "- (2 ^ 31) \<le> i" "i < 2 ^ 31"
  shows "SC_CAST (n, C_int) (reg_of junk i) = i"
  using assms by (simp add: SC_CAST_def ucast_reg_of sint_sbintrunc' signed_take_bit_int_eq_self)

lemma SC_CAST_uint:
  assumes "0 \<le> i" "i < 2 ^ 32"
  shows "SC_CAST (n, C_uint) (reg_of junk i) = i"
  using assms by (simp add: SC_CAST_def ucast_reg_of uint_word_of_int mod_pos_pos_trivial)

lemma params_fit: "list_all (SC_TEST \<circ> fst) hide_params" "list_all (SC_TEST \<circ> fst) hide_user_processes_params"
  by code_simp+

lemma user_ptr_reg: "user_ptr (SC_CAST (n, C_ptr) b) = (if b = 0 then None else Some b)"
  by (simp add: user_ptr_def SC_CAST_def uint_0_iff)

lemma MAP_two: "MAP 2 m [p, q] = [case_prod m p, case_prod m q]"
  by (cases p; cases q) (simp add: numeral_2_eq_2)

lemma MAP_three: "MAP 3 m [p, q, r] = [case_prod m p, case_prod m q, case_prod m r]"
  by (cases p; cases q; cases r) (simp add: numeral_3_eq_3)

lemma sys_hide_regs:
  assumes "- (2 ^ 31) \<le> nr" "nr < 2 ^ 31" "- (2 ^ 31) \<le> on" "on < 2 ^ 31"
  shows "sys_hide u lookup [reg_of j1 nr, reg_of j2 on] k = hide u lookup nr on k"
  using assms by (simp add: sys_hide_def SYSCALL_DEFINEx_def hide_params_def MAP_two SC_CAST_int)

lemma sys_hide_user_processes_regs:
  assumes "0 \<le> uid" "uid < 2 ^ 32" "- (2 ^ 31) \<le> r" "r < 2 ^ 31"
  shows "sys_hide_user_processes u g f st [reg_of j1 uid, b, reg_of j2 r] k
    = hide_user_processes u g f st (word_of_int uid) (if b = 0 then None else Some b) r k"
  using assms
  by (simp add: sys_hide_user_processes_def SYSCALL_DEFINEx_def hide_user_processes_params_def MAP_three SC_CAST_int SC_CAST_uint user_ptr_reg
      del: One_nat_def)

subsection \<open>Properties\<close>

text \<open>
  C36: The arguments of the two calls survive the way through the registers: whatever the undefined upper halves hold, the stub
  gives the handler exactly the numbers the caller passed, negative ones included, and a NULL name exactly when the pointer
  is 0; conversely a register counts only by its lower half, so that two callers whose registers agree there make the same
  call.\<close>

theorem syscall_arguments_exact:
  assumes "- (2 ^ 31) \<le> nr" "nr < 2 ^ 31" "- (2 ^ 31) \<le> on" "on < 2 ^ 31" "0 \<le> uid" "uid < 2 ^ 32"
    and "(ucast r1 :: u32) = ucast r1'" "(ucast r2 :: u32) = ucast r2'"
  shows "sys_hide u lookup [reg_of j1 nr, reg_of j2 on] k = hide u lookup nr on k
    \<and> sys_hide_user_processes u g f st [reg_of j1 uid, b, reg_of j2 on] k
        = hide_user_processes u g f st (word_of_int uid) (if b = 0 then None else Some b) on k
    \<and> sys_hide u lookup [r1, r2] k = sys_hide u lookup [r1', r2'] k
    \<and> sys_hide_user_processes u g f st [r1, b, r2] k = sys_hide_user_processes u g f st [r1', b, r2'] k"
proof -
  have "SC_CAST (n, C_int) r1 = SC_CAST (n, C_int) r1'" "SC_CAST (n, C_uint) r1 = SC_CAST (n, C_uint) r1'"
    "SC_CAST (n, C_int) r2 = SC_CAST (n, C_int) r2'" for n
    using assms(7,8) by (simp_all add: SC_CAST_def)
  then have "sys_hide u lookup [r1, r2] k = sys_hide u lookup [r1', r2'] k"
    "sys_hide_user_processes u g f st [r1, b, r2] k = sys_hide_user_processes u g f st [r1', b, r2'] k"
    by (simp_all add: sys_hide_def sys_hide_user_processes_def SYSCALL_DEFINEx_def hide_params_def hide_user_processes_params_def MAP_two MAP_three)
  then show ?thesis using sys_hide_regs [OF assms(1-4)] sys_hide_user_processes_regs [OF assms(5,6,3,4)] by blast
qed

theorem syscall_arguments_exact_witness:
  "sys_hide 0 (\<lambda>_. Some 2) [reg_of 0xDEADBEEF 42, reg_of 7 1] demo_kernel = hide 0 (\<lambda>_. Some 2) 42 1 demo_kernel
   \<and> sys_hide 0 (\<lambda>_. Some 2) [0x10000002A, 1] demo_kernel = sys_hide 0 (\<lambda>_. Some 2) [42, 0xFFFFFFFF00000001] demo_kernel"
  using syscall_arguments_exact [of 42 1 1000 "0x10000002A" 42 1 "0xFFFFFFFF00000001" 0 "\<lambda>_. Some 2" "0xDEADBEEF" 7 demo_kernel] by simp

text \<open>
  C37: The two test programs, run by root one after the other on a consistent kernel that has hiding on, do what they are for:
  after \<^verbatim>\<open>hide_test\<close> the process with number 1 is missing in the listing of \<^verbatim>\<open>/proc\<close>, after \<^verbatim>\<open>hide_user_processes_test\<close>, which recovers
  all, it is listed again and no process is cloaked; both exit with 0, and the name given to the second does not matter.\<close>

theorem test_programs_hide_and_recover:
  assumes "dispatch_doc syscall [''sys_hide'' \<mapsto> sys_hide 0 lookup, ''sys_hide_user_processes'' \<mapsto> sys_hide_user_processes 0 g f st]"
    and "sys_inv k" "hidden_flag k = 1" "lookup 1 = Some p" "p \<in> set (process_list k)"
    and "pid_ns_ok ns pids" "(m, p) \<in> set (leaders ns pids)" "has_pid_permissions env fs p HIDEPID_INVISIBLE"
    and "hide_test_main syscall j1 j2 k = (r1, k1)" "hide_user_processes_test_main syscall j3 j4 name k1 = (r2, k2)"
  shows "r1 = 0 \<and> r2 = 0
    \<and> dec_nat m \<notin> fst ` set (fst (pid_read env fs ns dcache si ti k1 greedy FIRST_PROCESS_ENTRY))
    \<and> dec_nat m \<in> fst ` set (fst (pid_read env fs ns dcache si ti k2 greedy FIRST_PROCESS_ENTRY))
    \<and> set (process_list k2) \<inter> cloaked k2 = {}"
proof -
  have d: "syscall 447 regs s = (fst (sys_hide 0 lookup regs s), fst (snd (sys_hide 0 lookup regs s)))"
    "syscall 448 regs s = (fst (sys_hide_user_processes 0 g f st regs s), fst (snd (sys_hide_user_processes 0 g f st regs s)))" for regs s
    using assms(1) by (simp_all add: dispatch_doc_def syscall_64_tbl_def)
  have k1: "k1 = set_cloak 1 p k" "r1 = 0"
    using assms(4,9) by (simp_all add: hide_test_main_def Let_def d sys_hide_regs hide_def)
  have k2: "k2 = recover_all (process_list k1) k1" "r2 = 0"
    using assms(10) by (simp_all add: hide_user_processes_test_main_def Let_def d sys_hide_user_processes_regs hide_user_processes_def)
  have pr: "p \<in> present k" using assms(2,5) process_list_present by (auto simp: sys_inv_def)
  have pl: "process_list k1 = process_list k" by (simp add: k1 set_cloak_def)
  have "same_but_cloak k1 (fold (set_cloak 0) (process_list k1) k1)" by (rule same_but_cloak_fold) simp
  then have pl2: "process_list k2 = process_list k" by (simp add: k2 recover_all_fold same_but_cloak_def pl)
  have c2: "set (process_list k2) \<inter> cloaked k2 = {}" unfolding pl2 by (auto simp: k2 recover_all_fold ks.walk_off pl)
  have "p \<in> cloaked k1" "hidden_flag k1 = 1" using pr assms(3) by (simp_all add: k1 cloaked_set_cloak) (simp add: set_cloak_def)
  then have "\<not> visible env fs k1 p" by (simp add: visible_def is_hidden_iff)
  moreover have "visible env fs k2 p" using c2 assms(5,8) by (auto simp: pl2 visible_def is_hidden_iff)
  ultimately show ?thesis using visible_listed [OF assms(6,7)] c2 k1(2) k2(2) by blast
qed

definition demo_syscall :: "nat \<Rightarrow> u64 list \<Rightarrow> kernel \<Rightarrow> int \<times> kernel" where
  "demo_syscall nr regs k =
     (let res = (if nr = 447 then sys_hide 0 (\<lambda>_. Some 1) regs k
                 else sys_hide_user_processes 0 t_comm (\<lambda>b _ _. (b, 0)) [] regs k)
      in (fst res, fst (snd res)))"

theorem test_programs_hide_and_recover_witness:
  "\<exists>k1 k2. hide_test_main demo_syscall 7 8 demo_kernel = (0, k1) \<and> hide_user_processes_test_main demo_syscall 9 10 0x4000 k1 = (0, k2)
    \<and> dec_nat 1 \<notin> fst ` set (fst (pid_read (Proc_Inode.demo_env True) demo_fs demo_ns (\<lambda>_. None) 5 6 k1 greedy FIRST_PROCESS_ENTRY))
    \<and> dec_nat 1 \<in> fst ` set (fst (pid_read (Proc_Inode.demo_env True) demo_fs demo_ns (\<lambda>_. None) 5 6 k2 greedy FIRST_PROCESS_ENTRY))"
proof -
  let ?lookup = "\<lambda>_. Some 1" and ?f = "\<lambda>b _ _. (b, 0)"
  have d: "dispatch_doc demo_syscall [''sys_hide'' \<mapsto> sys_hide 0 ?lookup, ''sys_hide_user_processes'' \<mapsto> sys_hide_user_processes 0 t_comm ?f []]"
    by (simp add: dispatch_doc_def syscall_64_tbl_def demo_syscall_def Let_def)
  have m: "(1, 1) \<in> set (leaders demo_ns demo_pids)" by (simp add: demo_leaders)
  obtain r1 k1 r2 k2 where t: "hide_test_main demo_syscall 7 8 demo_kernel = (r1, k1)"
    "hide_user_processes_test_main demo_syscall 9 10 0x4000 k1 = (r2, k2)" by (metis surj_pair)
  from test_programs_hide_and_recover [OF d demo_sys_inv _ _ _ demo_ns_ok m demo_perm t] t show ?thesis by auto
qed

end
