(* ===== verification/Shell_Clean.thy ===== *)
theory Shell_Clean
  imports Osexp_Prelude
begin

section \<open>The shell's string utilities\<close>

text \<open>
  \<^verbatim>\<open>shell/utilities.c\<close>: \<^verbatim>\<open>clean\<close>, which squeezes the blanks of a line in place, and the two path
  functions.  \<^verbatim>\<open>clean\<close> is modelled on the buffer it rewrites (the bytes of the array with the
  terminating NUL), with the two indices of the source, and is proved equal to a reference on
  strings.  The path functions write into a buffer of \<^verbatim>\<open>MAX_PATH\<close> bytes; their model returns what
  they write, so that the size they need can be compared with the size they have.
\<close>

definition MAX_PATH :: nat where "MAX_PATH = 100"

definition is_blank :: "char \<Rightarrow> bool" where
  "is_blank c \<longleftrightarrow> c = SPC \<or> c = TAB"

lemma is_blank_simps [simp]: "is_blank SPC" "is_blank TAB" "\<not> is_blank NUL" "\<not> is_blank NL"
  by (simp_all add: is_blank_def)

text \<open>Reading a byte of the buffer.\<close>

definition rd :: "char list \<Rightarrow> nat \<Rightarrow> char" where
  "rd b i = (if i < length b then b ! i else NUL)"

subsection \<open>\<^verbatim>\<open>clean\<close>\<close>

text \<open>The inner loops: advance over blanks.\<close>

function skip_blanks :: "char list \<Rightarrow> nat \<Rightarrow> nat" where
  "skip_blanks b i = (if is_blank (rd b i) then skip_blanks b (i + 1) else i)"
  by auto
termination
  by (relation "measure (\<lambda>(b, i). length b - i)") (auto simp: rd_def split: if_splits)

declare skip_blanks.simps [simp del]

lemma skip_blanks_ge: "i \<le> skip_blanks b i"
proof (induction b i rule: skip_blanks.induct)
  case (1 b i)
  then show ?case by (subst skip_blanks.simps) fastforce
qed

lemma skip_blanks_gt: "is_blank (rd b i) \<Longrightarrow> i < skip_blanks b i"
  using skip_blanks_ge [of "i + 1" b] by (subst skip_blanks.simps) simp

lemma rd_update: "ch \<le> p \<Longrightarrow> rd (b[ch := rd b p]) p = rd b p"
  by (auto simp: rd_def nth_list_update)

text \<open>The main loop, over the write index \<^verbatim>\<open>character\<close> and the shift \<^verbatim>\<open>i\<close>; the result is the buffer and
  \<^verbatim>\<open>lastNonSpace\<close>.\<close>

function clean_loop :: "char list \<Rightarrow> nat \<Rightarrow> nat \<Rightarrow> int \<Rightarrow> char list \<times> int" where
  "clean_loop line character i lastNonSpace =
     (if rd line (character + i) = NUL \<or> rd line (character + i) = NL then (line, lastNonSpace)
      else
        let c = rd line (character + i);
            line = line[character := c]
        in if \<not> is_blank c then clean_loop line (character + 1) i (int character)
           else let i = skip_blanks line (character + i) - character
                in clean_loop line (character + 1) (i - 1) lastNonSpace)"
  by auto
termination
proof (relation "measure (\<lambda>(b, ch, i, l). length b - (ch + i))", goal_cases)
  case 1
  then show ?case by simp
next
  case (2 b ch i l c b')
  then show ?case by (auto simp: rd_def split: if_splits)
next
  case (3 b ch i l c b' i')
  have "is_blank (rd b' (ch + i))" using 3 rd_update [of ch "ch + i" b] by simp
  then have "ch + i < skip_blanks b' (ch + i)" by (rule skip_blanks_gt)
  moreover have "ch + i < length b" using 3 by (auto simp: rd_def split: if_splits)
  ultimately show ?case using 3 by auto
qed

declare clean_loop.simps [simp del]

definition clean_buf :: "char list \<Rightarrow> char list" where
  "clean_buf line =
     (let i = skip_blanks line 0;
          (line, lastNonSpace) = clean_loop line 0 i (- 1)
      in line[nat (lastNonSpace + 1) := NUL])"

text \<open>On strings: \<open>None\<close> is the NULL pointer.\<close>

definition clean :: "string \<Rightarrow> string" where
  "clean s = cstr (clean_buf (s @ [NUL]))"

subsection \<open>The reference\<close>

function squeeze :: "string \<Rightarrow> string" where
  "squeeze [] = []"
| "squeeze (c # cs) =
     (if c = NUL \<or> c = NL then []
      else if is_blank c then c # squeeze (dropWhile is_blank cs)
      else c # squeeze cs)"
  by pat_completeness auto
termination
  by (relation "measure length") (auto simp: less_Suc_eq_le length_dropWhile_le)

definition rstrip :: "string \<Rightarrow> string" where
  "rstrip s = rev (dropWhile is_blank (rev s))"

definition clean_ref :: "string \<Rightarrow> string" where
  "clean_ref s = rstrip (squeeze (dropWhile is_blank s))"

lemma length_squeeze: "length (squeeze s) \<le> length s"
proof (induction s rule: squeeze.induct)
  case (2 c cs)
  then show ?case using length_dropWhile_le [of is_blank cs] by auto
qed simp

lemma drop_skip_blanks: "drop (skip_blanks b i) b = dropWhile is_blank (drop i b)"
proof (induction b i rule: skip_blanks.induct)
  case (1 b i)
  show ?case
  proof (cases "is_blank (rd b i)")
    case True
    then have i: "i < length b" by (auto simp: rd_def split: if_splits)
    then have "drop i b = b ! i # drop (i + 1) b" by (simp add: Cons_nth_drop_Suc)
    then show ?thesis using 1 True i by (subst skip_blanks.simps) (simp add: rd_def)
  next
    case False
    then show ?thesis
      by (subst skip_blanks.simps) (cases "i < length b", simp_all add: rd_def Cons_nth_drop_Suc [symmetric])
  qed
qed

text \<open>The position of the last non-blank of a string that starts at \<open>ch\<close>, or \<open>l\<close>.\<close>

fun last_nonblank :: "string \<Rightarrow> nat \<Rightarrow> int \<Rightarrow> int" where
  "last_nonblank [] ch l = l"
| "last_nonblank (c # cs) ch l = last_nonblank cs (ch + 1) (if is_blank c then l else int ch)"

text \<open>The loop writes the squeezed text over the line, and nothing else.\<close>

lemma drop_upd_le: "ch \<le> p \<Longrightarrow> drop (Suc p) (b[ch := c]) = drop (Suc p) b"
  by (simp add: drop_update_cancel)

lemma clean_loop_spec:
  "clean_loop b ch i l
     = (take ch b @ squeeze (drop (ch + i) b) @ drop (ch + length (squeeze (drop (ch + i) b))) b,
        last_nonblank (squeeze (drop (ch + i) b)) ch l)"
proof (induction b ch i l rule: clean_loop.induct)
  case (1 b ch i l)
  let ?p = "ch + i" and ?c = "rd b (ch + i)"
  show ?case
  proof (cases "?c = NUL \<or> ?c = NL")
    case True
    then have "squeeze (drop ?p b) = []"
      by (cases "?p < length b") (auto simp: rd_def Cons_nth_drop_Suc [symmetric])
    then show ?thesis using True by (subst clean_loop.simps) simp
  next
    case False
    then have p: "?p < length b" and c: "?c = b ! ?p" by (auto simp: rd_def split: if_splits)
    have d: "drop ?p b = ?c # drop (Suc ?p) b" using p c by (simp add: Cons_nth_drop_Suc)
    let ?b = "b[ch := ?c]"
    have t: "take (ch + 1) ?b = take ch b @ [?c]"
      using p by (simp add: take_Suc_conv_app_nth)
    have dr: "drop (Suc (ch + k)) ?b = drop (Suc (ch + k)) b" for k by (simp add: drop_upd_le)
    show ?thesis
    proof (cases "is_blank ?c")
      case False
      note nb = False
      have "clean_loop b ch i l = clean_loop ?b (ch + 1) i (int ch)"
        using False \<open>\<not> (?c = NUL \<or> ?c = NL)\<close> by (subst clean_loop.simps) (simp add: Let_def)
      also have "\<dots> = (take (ch + 1) ?b @ squeeze (drop (ch + 1 + i) ?b)
            @ drop (ch + 1 + length (squeeze (drop (ch + 1 + i) ?b))) ?b,
          last_nonblank (squeeze (drop (ch + 1 + i) ?b)) (ch + 1) (int ch))"
        using 1(1) False \<open>\<not> (?c = NUL \<or> ?c = NL)\<close> by simp
      finally show ?thesis
        using d t dr [of i] dr nb \<open>\<not> (?c = NUL \<or> ?c = NL)\<close> by (simp add: add.commute)
    next
      case True
      let ?j = "skip_blanks ?b ?p"
      have gt: "?p < ?j" using True rd_update [of ch ?p b] by (intro skip_blanks_gt) simp
      have "clean_loop b ch i l = clean_loop ?b (ch + 1) (?j - ch - 1) l"
        using True \<open>\<not> (?c = NUL \<or> ?c = NL)\<close> by (subst clean_loop.simps) (simp add: Let_def)
      moreover have "ch + 1 + (?j - ch - 1) = ?j" using gt by simp
      ultimately have "clean_loop b ch i l = (take (ch + 1) ?b @ squeeze (drop ?j ?b)
            @ drop (ch + 1 + length (squeeze (drop ?j ?b))) ?b, last_nonblank (squeeze (drop ?j ?b)) (ch + 1) l)"
        using 1(2) True \<open>\<not> (?c = NUL \<or> ?c = NL)\<close> by simp
      moreover have "drop ?j ?b = dropWhile is_blank (drop (Suc ?p) b)"
      proof -
        have "drop ?p ?b = ?c # drop (Suc ?p) b"
          using p rd_update [of ch ?p b] dr [of i] by (simp add: Cons_nth_drop_Suc [symmetric] rd_def)
        then show ?thesis using True by (simp add: drop_skip_blanks)
      qed
      ultimately show ?thesis
        using d t dr True \<open>\<not> (?c = NUL \<or> ?c = NL)\<close> by simp
    qed
  qed
qed

subsection \<open>\<^verbatim>\<open>clean\<close> computes the reference\<close>

lemma dropWhile_blank_NUL: "dropWhile is_blank (s @ [NUL]) = dropWhile is_blank s @ [NUL]"
  by (induction s) auto

lemma squeeze_NUL: "squeeze (s @ [NUL]) = squeeze s"
  by (induction s rule: squeeze.induct) (auto simp: dropWhile_blank_NUL)

lemma set_squeeze: "set (squeeze s) \<subseteq> set s"
  by (induction s rule: squeeze.induct) (auto dest: set_dropWhileD)

lemma squeeze_no_NUL [simp]: "NUL \<notin> set (squeeze s)" "NL \<notin> set (squeeze s)"
  by (induction s rule: squeeze.induct) auto

lemma rstrip_Nil [simp]: "rstrip [] = []"
  by (simp add: rstrip_def)

lemma rstrip_Cons:
  "rstrip (c # cs) = (if rstrip cs = [] then (if is_blank c then [] else [c]) else c # rstrip cs)"
  by (auto simp: rstrip_def dropWhile_append)

lemma rstrip_snoc: "rstrip (s @ [c]) = (if is_blank c then rstrip s else s @ [c])"
  by (simp add: rstrip_def)

lemma rstrip_prefix: "\<exists>t. s = rstrip s @ t \<and> list_all is_blank t"
  unfolding rstrip_def
  by (rule exI [of _ "rev (takeWhile is_blank (rev s))"])
    (auto simp: list_all_iff rev_append [symmetric] dest: set_takeWhileD)

lemma last_nonblank_rstrip:
  "last_nonblank s ch l = (if rstrip s = [] then l else int ch + int (length (rstrip s)) - 1)"
  by (induction s arbitrary: ch l) (auto simp: rstrip_Cons)

lemma clean_buf_eq:
  "clean_buf b = (let sq = squeeze (dropWhile is_blank b)
     in (sq @ drop (length sq) b)[length (rstrip sq) := NUL])"
  by (simp add: clean_buf_def clean_loop_spec drop_skip_blanks [of b 0, simplified] last_nonblank_rstrip Let_def)

lemma cstr_terminated: "NUL \<notin> set a \<Longrightarrow> b \<noteq> [] \<Longrightarrow> cstr ((a @ b)[length a := NUL]) = a"
  by (cases b) (simp_all add: list_update_append)

lemma clean_eq_ref:
  assumes "NUL \<notin> set s"
  shows "clean s = clean_ref s"
proof -
  let ?sq = "squeeze (dropWhile is_blank s)"
  obtain t where t: "?sq = rstrip ?sq @ t" using rstrip_prefix by blast
  have "length ?sq \<le> length s"
    using length_squeeze [of "dropWhile is_blank s"] length_dropWhile_le [of is_blank s] by linarith
  then have "drop (length ?sq) (s @ [NUL]) \<noteq> []" by simp
  moreover have "NUL \<notin> set (rstrip ?sq)" using squeeze_no_NUL t by (metis Un_iff set_append)
  ultimately have "cstr ((rstrip ?sq @ (t @ drop (length ?sq) (s @ [NUL])))[length (rstrip ?sq) := NUL]) = rstrip ?sq"
    by (intro cstr_terminated) auto
  then have "cstr ((?sq @ drop (length ?sq) (s @ [NUL]))[length (rstrip ?sq) := NUL]) = rstrip ?sq"
    using t by (metis append.assoc)
  then show ?thesis
    by (simp add: clean_def clean_ref_def clean_buf_eq dropWhile_blank_NUL squeeze_NUL Let_def del: drop_append)
qed

text \<open>The buffer never grows and every write is inside it.\<close>

lemma length_clean_buf: "length (clean_buf b) = length b"
proof -
  have "length (squeeze (dropWhile is_blank b)) \<le> length b"
    using length_squeeze [of "dropWhile is_blank b"] length_dropWhile_le [of is_blank b] by linarith
  then show ?thesis by (simp add: clean_buf_eq Let_def)
qed

subsection \<open>\<^verbatim>\<open>strtok\<close>\<close>

text \<open>One call: the token and what is left after the delimiter that ended it.\<close>

definition strtok :: "(char \<Rightarrow> bool) \<Rightarrow> string \<Rightarrow> (string \<times> string) option" where
  "strtok delim s =
     (let t = dropWhile delim s
      in if t = [] then None
         else Some (takeWhile (\<lambda>c. \<not> delim c) t, drop 1 (dropWhile (\<lambda>c. \<not> delim c) t)))"

text \<open>The loop \<^verbatim>\<open>token = strtok(s, d); while (token != NULL) { ...; token = strtok(NULL, d); }\<close>.\<close>

lemma strtok_shorter: "strtok d s = Some (t, r) \<Longrightarrow> length r < length s"
proof -
  assume a: "strtok d s = Some (t, r)"
  then have r: "r = drop 1 (dropWhile (\<lambda>c. \<not> d c) (dropWhile d s))" and ne: "dropWhile d s \<noteq> []"
    by (auto simp: strtok_def Let_def split: if_splits)
  have "\<not> d (hd (dropWhile d s))" using ne by (rule hd_dropWhile)
  then have "length (dropWhile (\<lambda>c. \<not> d c) (dropWhile d s)) < length (dropWhile d s)"
    using ne by (cases "dropWhile d s") (auto simp: less_Suc_eq_le length_dropWhile_le)
  then show ?thesis using r length_dropWhile_le [of d s] by simp
qed

function tokens :: "(char \<Rightarrow> bool) \<Rightarrow> string \<Rightarrow> string list" where
  "tokens d s = (case strtok d s of None \<Rightarrow> [] | Some (t, r) \<Rightarrow> t # tokens d r)"
  by auto
termination
  by (relation "measure (\<lambda>(d, s). length s)") (auto dest: strtok_shorter)

declare tokens.simps [simp del]

text \<open>The same, one character at a time.\<close>

fun split_words :: "(char \<Rightarrow> bool) \<Rightarrow> string \<Rightarrow> string \<Rightarrow> string list" where
  "split_words d acc [] = (if acc = [] then [] else [acc])"
| "split_words d acc (c # cs) =
     (if d c then (if acc = [] then split_words d [] cs else acc # split_words d [] cs)
      else split_words d (acc @ [c]) cs)"

lemma split_words_skip: "split_words d [] (dropWhile d s) = split_words d [] s"
  by (induction s) auto

lemma split_words_acc:
  "acc \<noteq> [] \<Longrightarrow> split_words d acc s
     = (acc @ takeWhile (\<lambda>c. \<not> d c) s) # split_words d [] (drop 1 (dropWhile (\<lambda>c. \<not> d c) s))"
  by (induction s arbitrary: acc) auto

lemma tokens_split: "tokens d s = split_words d [] s"
proof (induction d s rule: tokens.induct)
  case (1 d s)
  show ?case
  proof (cases "dropWhile d s")
    case Nil
    then have "strtok d s = None" by (simp add: strtok_def)
    then show ?thesis using Nil split_words_skip [of d s]
      by (subst tokens.simps) (simp del: dropWhile_eq_Nil_conv)
  next
    case (Cons c cs)
    then have nd: "\<not> d c" by (metis hd_dropWhile list.distinct(1) list.sel(1))
    let ?r = "drop 1 (dropWhile (\<lambda>c. \<not> d c) cs)"
    have k: "strtok d s = Some (c # takeWhile (\<lambda>c. \<not> d c) cs, ?r)"
      using Cons nd by (simp add: strtok_def)
    then have "tokens d ?r = split_words d [] ?r" using 1 by blast
    then show ?thesis using k split_words_skip [of d s] Cons nd split_words_acc [of "[c]" d cs]
      by (subst tokens.simps) simp
  qed
qed

lemma split_words_snoc: "d c \<Longrightarrow> split_words d acc (s @ [c]) = split_words d acc s"
  by (induction s arbitrary: acc) auto

lemma split_words_rstrip: "split_words is_blank acc (rstrip s) = split_words is_blank acc s"
  by (induction s rule: rev_induct) (auto simp: rstrip_snoc split_words_snoc)

lemma takeWhile_dropWhile_NL:
  "takeWhile (\<lambda>c. c \<noteq> NL) (dropWhile is_blank s) = dropWhile is_blank (takeWhile (\<lambda>c. c \<noteq> NL) s)"
  by (induction s) auto

lemma split_words_squeeze:
  "NUL \<notin> set s \<Longrightarrow> split_words is_blank acc (squeeze s) = split_words is_blank acc (takeWhile (\<lambda>c. c \<noteq> NL) s)"
proof (induction s arbitrary: acc rule: squeeze.induct)
  case (2 c cs)
  show ?case
  proof (cases "is_blank c")
    case True
    moreover have "NUL \<notin> set (dropWhile is_blank cs)" using 2(3) by (auto dest: set_dropWhileD)
    moreover have "c \<noteq> NUL" "c \<noteq> NL" using True by auto
    ultimately show ?thesis
      using 2(1) [of "[]"] by (simp add: takeWhile_dropWhile_NL split_words_skip)
  next
    case False
    then show ?thesis using 2(2,3) by (cases "c = NL") auto
  qed
qed simp

lemma split_words_mem:
  "t \<in> set (split_words d acc s) \<Longrightarrow> list_all (\<lambda>c. \<not> d c) acc \<Longrightarrow> t \<noteq> [] \<and> list_all (\<lambda>c. \<not> d c) t"
proof (induction s arbitrary: acc)
  case (Cons c cs)
  show ?case
    using Cons.IH [of "[]"] Cons.IH [of "acc @ [c]"] Cons.prems by (auto split: if_splits)
qed (auto split: if_splits)

lemma tokens_nonempty: "t \<in> set (tokens d s) \<Longrightarrow> t \<noteq> [] \<and> list_all (\<lambda>c. \<not> d c) t"
  using split_words_mem [of t d "[]" s] by (simp add: tokens_split)

text \<open>No two blanks in a row.\<close>

fun single_blanks :: "string \<Rightarrow> bool" where
  "single_blanks (a # b # cs) = (\<not> (is_blank a \<and> is_blank b) \<and> single_blanks (b # cs))"
| "single_blanks _ = True"

lemma squeeze_hd: "squeeze (dropWhile is_blank s) = x # xs \<Longrightarrow> \<not> is_blank x"
  by (induction s) (auto split: if_splits)

lemma single_blanks_Cons: "single_blanks (c # cs) \<longleftrightarrow> (cs = [] \<or> \<not> (is_blank c \<and> is_blank (hd cs)) \<and> single_blanks cs)"
  by (cases cs) auto

lemma single_blanks_squeeze: "single_blanks (squeeze s)"
proof (induction s rule: squeeze.induct)
  case (2 c cs)
  then show ?case
    by (cases "squeeze (dropWhile is_blank cs)") (auto simp: single_blanks_Cons dest: squeeze_hd)
qed simp

lemma single_blanks_append: "single_blanks (s @ t) \<Longrightarrow> single_blanks s"
  by (induction s rule: single_blanks.induct) auto

lemma single_blanks_ref: "single_blanks (clean_ref s)"
  using rstrip_prefix [of "squeeze (dropWhile is_blank s)"] single_blanks_squeeze single_blanks_append
  by (metis clean_ref_def)

lemma clean_ref_ends:
  "clean_ref s \<noteq> [] \<Longrightarrow> \<not> is_blank (hd (clean_ref s)) \<and> \<not> is_blank (last (clean_ref s))"
proof -
  assume ne: "clean_ref s \<noteq> []"
  let ?sq = "squeeze (dropWhile is_blank s)"
  obtain t where "?sq = clean_ref s @ t" using rstrip_prefix [of ?sq] by (auto simp: clean_ref_def)
  then have "\<not> is_blank (hd (clean_ref s))" using ne squeeze_hd [of s]
    by (cases "clean_ref s") auto
  moreover have "\<not> is_blank (last (clean_ref s))"
    using ne hd_dropWhile [of is_blank "rev ?sq"] by (auto simp: clean_ref_def rstrip_def last_rev)
  ultimately show ?thesis ..
qed

lemma clean_ref_chars: "NUL \<notin> set (clean_ref s)" "NL \<notin> set (clean_ref s)"
  using rstrip_prefix [of "squeeze (dropWhile is_blank s)"] squeeze_no_NUL
  by (metis Un_iff clean_ref_def set_append)+

text \<open>A line in this form is left as it is.\<close>

lemma squeeze_id: "single_blanks s \<Longrightarrow> NUL \<notin> set s \<Longrightarrow> NL \<notin> set s \<Longrightarrow> squeeze s = s"
proof (induction s)
  case (Cons c cs)
  then have "is_blank c \<Longrightarrow> dropWhile is_blank cs = cs" by (cases cs) auto
  then show ?case using Cons by (auto simp: single_blanks_Cons)
qed simp

lemma clean_ref_id:
  assumes "single_blanks s" "NUL \<notin> set s" "NL \<notin> set s" "s \<noteq> [] \<longrightarrow> \<not> is_blank (hd s) \<and> \<not> is_blank (last s)"
  shows "clean_ref s = s"
proof (cases "s = []")
  case False
  then have "dropWhile is_blank s = s" using assms(4) by (cases s) auto
  moreover have "rstrip s = s" using False assms(4) by (metis append_butlast_last_id rstrip_snoc)
  ultimately show ?thesis using squeeze_id [OF assms(1-3)] by (simp add: clean_ref_def)
qed (simp add: clean_ref_def)

subsection \<open>Paths\<close>

datatype path_type = RELATIVE | ABSOLUTE | INVALID

text \<open>The returned string is what the function writes to \<^verbatim>\<open>results\<close>, without the terminating NUL; the
  buffer it writes to has \<^verbatim>\<open>MAX_PATH\<close> bytes.\<close>

definition strnlen :: "string \<Rightarrow> nat \<Rightarrow> nat" where
  "strnlen s n = min (length s) n"

definition handle_relative_path :: "string \<Rightarrow> string \<Rightarrow> path_type \<times> string" where
  "handle_relative_path path cwd =
     (if path = [] then (INVALID, [])
      else if rd path 0 = CHR ''.'' \<and> rd path 1 = CHR ''/''
      then (RELATIVE, cwd @ ''/'' @ take (MAX_PATH - strnlen cwd (MAX_PATH - 1) - 1) (drop 2 path))
      else (ABSOLUTE, take MAX_PATH path))"

text \<open>\<^verbatim>\<open>MAX_PATH - cwd_length - 1\<close> is \<^verbatim>\<open>-1\<close>, as a \<^verbatim>\<open>size_t\<close> no bound at all, when the working directory
  fills the buffer.\<close>

definition to_absolute_path :: "string \<Rightarrow> string \<Rightarrow> string" where
  "to_absolute_path path cwd =
     (case handle_relative_path path cwd of
        (ty, results) \<Rightarrow>
          if ty = RELATIVE \<and> rd path 0 \<noteq> CHR ''/'' then
            let cwd_length = strnlen cwd MAX_PATH;
                results = cwd @ ''/'' @ (if cwd_length = MAX_PATH then path else take (MAX_PATH - cwd_length - 1) path)
            in if rd results (strnlen results MAX_PATH) = CHR ''/'' then take (strnlen results MAX_PATH) results
               else results
          else results)"

subsection \<open>Properties\<close>

text \<open>
  C15: \<^verbatim>\<open>clean\<close> rewrites a line in place to its normal form: no newline, no blank at either end, no two
  blanks in a row, and the same blank-separated words as the first line of the input; cleaning
  again changes nothing, and the buffer keeps its length, so no write is outside it.\<close>

theorem clean_normalises:
  assumes "NUL \<notin> set s"
  shows "tokens is_blank (clean s) = tokens is_blank (takeWhile (\<lambda>c. c \<noteq> NL) s)
    \<and> single_blanks (clean s) \<and> NL \<notin> set (clean s)
    \<and> (clean s = [] \<or> \<not> is_blank (hd (clean s)) \<and> \<not> is_blank (last (clean s)))
    \<and> clean (clean s) = clean s \<and> length (clean_buf (s @ [NUL])) = length s + 1"
proof -
  have "NUL \<notin> set (dropWhile is_blank s)" using assms by (auto dest: set_dropWhileD)
  then have "tokens is_blank (clean s) = tokens is_blank (takeWhile (\<lambda>c. c \<noteq> NL) s)"
    by (simp add: tokens_split clean_eq_ref [OF assms] clean_ref_def split_words_rstrip split_words_squeeze
        takeWhile_dropWhile_NL split_words_skip)
  moreover have "clean (clean s) = clean s"
    using clean_ref_id [of "clean_ref s"] single_blanks_ref clean_ref_chars clean_ref_ends
    by (simp add: clean_eq_ref assms)
  ultimately show ?thesis
    using single_blanks_ref clean_ref_chars clean_ref_ends
    by (auto simp: clean_eq_ref [OF assms] length_clean_buf)
qed

theorem clean_normalises_witness:
  "clean ('' ls  -l '' @ [NL]) = ''ls -l'' \<and> tokens is_blank (clean ('' ls  -l '' @ [NL])) = [''ls'', ''-l'']
   \<and> clean (clean ('' ls  -l '' @ [NL])) = ''ls -l''"
proof -
  have c: "clean ('' ls  -l '' @ [NL]) = ''ls -l''"
    by (simp add: clean_eq_ref clean_ref_def rstrip_def is_blank_def)
  then show ?thesis
    using clean_normalises [of "'' ls  -l '' @ [NL]"] by (simp add: tokens_split is_blank_def)
qed

text \<open>
  The result of \<^verbatim>\<open>handle_relative_path\<close> has at most \<^verbatim>\<open>MAX_PATH\<close> characters when the working directory fits its
  field.  The bound is one too many for the buffer of \<^verbatim>\<open>MAX_PATH\<close> bytes that \<^verbatim>\<open>to_absolute_path\<close> passes: every
  long enough path fills it completely, and the terminating NUL is written one byte past its end.\<close>

theorem handle_relative_path_bound:
  assumes "length cwd < MAX_PATH"
  shows "length (snd (handle_relative_path path cwd)) \<le> MAX_PATH
    \<and> (MAX_PATH + 2 \<le> length path \<longrightarrow> length (snd (handle_relative_path path cwd)) = MAX_PATH)"
  using assms by (auto simp: handle_relative_path_def strnlen_def)

theorem handle_relative_path_bound_witness:
  "length (snd (handle_relative_path (''./'' @ replicate 120 CHR ''a'') ''/home'')) = 100"
  using handle_relative_path_bound [of "''/home''" "''./'' @ replicate 120 CHR ''a''"]
  by (simp add: MAX_PATH_def)

end
