(* ===== verification/Shell_Parse.thy ===== *)
theory Shell_Parse
  imports Shell_Clean
begin

unbundle bit_operations_syntax

section \<open>Parsing one command: redirections, arguments and the executable\<close>

text \<open>
  \<^verbatim>\<open>handle_redirection\<close> of \<^verbatim>\<open>shell/run_command.c\<close> with the \<^verbatim>\<open>Process\<close> structure of
  \<^verbatim>\<open>shell/structures.h\<close>.  The four \<^verbatim>\<open>sscanf\<close> calls are run by \<open>sscanf\<close>, an interpreter of the
  directives the formats use.  \<^verbatim>\<open>access\<close> and \<^verbatim>\<open>open\<close> are parameters (\<open>access\<close> says whether a file can be
  executed, \<open>os_open\<close> gives the descriptor or -1 and changes the state \<open>'os\<close> of the system).

  \<open>None\<close> stands for undefined behaviour: a string that does not fit the buffer it is scanned into, the
  use of \<^verbatim>\<open>command_noredi\<close> before anything was written to it, more arguments than \<^verbatim>\<open>argv\<close> holds, and a
  NULL \<^verbatim>\<open>argv[0]\<close> given to \<^verbatim>\<open>strcat\<close>.
\<close>

definition MAX_ARGUMENTS_NUM :: nat where "MAX_ARGUMENTS_NUM = 100"
definition MAX_COMMAND_NOREDI :: nat where "MAX_COMMAND_NOREDI = 200"
definition MAX_REDIFILE :: nat where "MAX_REDIFILE = 200"
definition MAX_EXEC_FILENAME :: nat where "MAX_EXEC_FILENAME = 300"

definition REDI_IN_MASK :: nat where "REDI_IN_MASK = 1"
definition REDI_OUT_MASK :: nat where "REDI_OUT_MASK = 2"
definition REDI_PIPE_MASK :: nat where "REDI_PIPE_MASK = 8"

datatype redirection_type = NO_REDI | REDI_IN | REDI_OUT | REDI_OUT_IN | REDI_IN_OUT

fun redi_val :: "redirection_type \<Rightarrow> nat" where
  "redi_val NO_REDI = 0"
| "redi_val REDI_IN = 1"
| "redi_val REDI_OUT = 2"
| "redi_val REDI_OUT_IN = 3"
| "redi_val REDI_IN_OUT = 7"

definition has_mask :: "redirection_type \<Rightarrow> nat \<Rightarrow> bool" where
  "has_mask t m \<longleftrightarrow> redi_val t AND m \<noteq> 0"

record process =
  p_argv :: "string list"
  p_exec_path :: "string option"
  p_redirected :: redirection_type
  p_infd :: int
  p_outfd :: int

definition process_init :: process where
  "process_init = \<lparr>p_argv = [], p_exec_path = None, p_redirected = NO_REDI, p_infd = - 1, p_outfd = - 1\<rparr>"

subsection \<open>\<^verbatim>\<open>sscanf\<close>\<close>

datatype directive = Ws | Lit char | Scanset

definition isspace :: "char \<Rightarrow> bool" where
  "isspace c \<longleftrightarrow> c = SPC \<or> (9 \<le> (of_char c :: nat) \<and> (of_char c :: nat) \<le> 13)"

text \<open>The characters \<^verbatim>\<open>%[^\t\n<>]\<close> takes.\<close>

definition scan_ok :: "char \<Rightarrow> bool" where
  "scan_ok c \<longleftrightarrow> c \<noteq> TAB \<and> c \<noteq> NL \<and> c \<noteq> CHR ''<'' \<and> c \<noteq> CHR ''>''"

fun sscanf :: "directive list \<Rightarrow> string \<Rightarrow> string list" where
  "sscanf [] s = []"
| "sscanf (Ws # ds) s = sscanf ds (dropWhile isspace s)"
| "sscanf (Lit c # ds) [] = []"
| "sscanf (Lit c # ds) (x # xs) = (if x = c then sscanf ds xs else [])"
| "sscanf (Scanset # ds) s =
     (if takeWhile scan_ok s = [] then []
      else takeWhile scan_ok s # sscanf ds (dropWhile scan_ok s))"

definition FMT_OUT_IN :: "directive list" where
  "FMT_OUT_IN = [Scanset, Ws, Lit CHR ''>'', Ws, Scanset, Ws, Lit CHR ''<'', Ws, Scanset]"
definition FMT_IN_OUT :: "directive list" where
  "FMT_IN_OUT = [Scanset, Ws, Lit CHR ''<'', Ws, Scanset, Ws, Lit CHR ''>'', Ws, Scanset]"
definition FMT_IN :: "directive list" where
  "FMT_IN = [Scanset, Ws, Lit CHR ''<'', Ws, Scanset]"
definition FMT_OUT :: "directive list" where
  "FMT_OUT = [Scanset, Ws, Lit CHR ''>'', Ws, Scanset]"

lemmas fmt_defs = FMT_OUT_IN_def FMT_IN_OUT_def FMT_IN_def FMT_OUT_def

text \<open>Each scanned string and its NUL fit a buffer of 200 bytes.\<close>

definition fits :: "string list \<Rightarrow> bool" where
  "fits rs \<longleftrightarrow> list_all (\<lambda>t. length t < MAX_COMMAND_NOREDI \<and> length t < MAX_REDIFILE) rs"

text \<open>The type, \<^verbatim>\<open>command_noredi\<close>, \<^verbatim>\<open>redi_outfile\<close> and \<^verbatim>\<open>redi_infile\<close> after the chain of calls.\<close>

definition scan_command :: "string \<Rightarrow> (redirection_type \<times> string \<times> string \<times> string) option" where
  "scan_command line =
     (let r = sscanf FMT_OUT_IN line
      in if \<not> fits r then None
      else if length r = 3 then Some (REDI_OUT_IN, r ! 0, r ! 1, r ! 2)
      else let r = sscanf FMT_IN_OUT line
      in if \<not> fits r then None
      else if length r = 3 then Some (REDI_IN_OUT, r ! 0, r ! 2, r ! 1)
      else let r = sscanf FMT_IN line
      in if \<not> fits r then None
      else if length r = 2 then Some (REDI_IN, r ! 0, [], r ! 1)
      else let r = sscanf FMT_OUT line
      in if \<not> fits r then None
      else if length r = 2 then Some (REDI_OUT, r ! 0, r ! 1, [])
      else if r = [] then None
      else Some (NO_REDI, r ! 0, [], []))"

subsection \<open>Finding the executable\<close>

definition join_path :: "string \<Rightarrow> string \<Rightarrow> string" where
  "join_path p cmd = (if last p \<noteq> CHR ''/'' then p @ ''/'' else p) @ cmd"

fun find_exec :: "(string \<Rightarrow> bool) \<Rightarrow> string list \<Rightarrow> string \<Rightarrow> string option" where
  "find_exec access [] cmd = None"
| "find_exec access (p # ps) cmd =
     (if access (join_path p cmd) then Some (join_path p cmd) else find_exec access ps cmd)"

definition lookup_exec :: "(string \<Rightarrow> bool) \<Rightarrow> string list \<Rightarrow> string list \<Rightarrow> string option option" where
  "lookup_exec access paths argv =
     (case argv of
        [] \<Rightarrow> (if paths = [] then Some None else None)
      | cmd # _ \<Rightarrow> Some (if access cmd then Some cmd else find_exec access paths cmd))"

subsection \<open>\<^verbatim>\<open>handle_redirection\<close>\<close>

datatype open_mode = O_WRONLY_CREAT | O_RDONLY

definition handle_redirection ::
  "(string \<Rightarrow> bool) \<Rightarrow> (open_mode \<Rightarrow> string \<Rightarrow> 'os \<Rightarrow> int \<times> 'os) \<Rightarrow> string list \<Rightarrow> process \<Rightarrow> string \<Rightarrow> 'os
   \<Rightarrow> (process \<times> 'os) option" where
  "handle_redirection access os_open paths process line os =
     (case scan_command line of
        None \<Rightarrow> None
      | Some (redi_type, command_noredi, redi_outfile, redi_infile) \<Rightarrow>
          let process = process\<lparr>p_redirected := redi_type\<rparr>;
              (process, os) =
                (if has_mask redi_type REDI_OUT_MASK \<and> p_outfd process = - 1
                 then (case os_open O_WRONLY_CREAT redi_outfile os of (fd, os) \<Rightarrow> (process\<lparr>p_outfd := fd\<rparr>, os))
                 else (process, os));
              (process, os) =
                (if has_mask redi_type REDI_IN_MASK \<and> p_infd process = - 1
                 then (case os_open O_RDONLY redi_infile os of (fd, os) \<Rightarrow> (process\<lparr>p_infd := fd\<rparr>, os))
                 else (process, os));
              argv = tokens (\<lambda>c. c = SPC) (clean command_noredi)
          in if length argv > MAX_ARGUMENTS_NUM then None
             else case lookup_exec access paths argv of
                    None \<Rightarrow> None
                  | Some exec_path \<Rightarrow> Some (process\<lparr>p_argv := argv, p_exec_path := exec_path\<rparr>, os))"

lemma has_mask_simps [simp]:
  "\<not> has_mask NO_REDI REDI_OUT_MASK" "\<not> has_mask NO_REDI REDI_IN_MASK"
  "\<not> has_mask REDI_IN REDI_OUT_MASK" "has_mask REDI_IN REDI_IN_MASK"
  "has_mask REDI_OUT REDI_OUT_MASK" "\<not> has_mask REDI_OUT REDI_IN_MASK"
  "has_mask REDI_OUT_IN REDI_OUT_MASK" "has_mask REDI_OUT_IN REDI_IN_MASK"
  "has_mask REDI_IN_OUT REDI_OUT_MASK" "has_mask REDI_IN_OUT REDI_IN_MASK"
  "\<not> has_mask t REDI_PIPE_MASK"
  by (simp_all add: has_mask_def REDI_IN_MASK_def REDI_OUT_MASK_def) (cases t; simp add: REDI_PIPE_MASK_def)

subsection \<open>What is scanned\<close>

lemma sscanf_head:
  "sscanf (Scanset # ds) s = r \<Longrightarrow> r \<noteq> [] \<Longrightarrow> r ! 0 = takeWhile scan_ok s \<and> takeWhile scan_ok s \<noteq> []"
  by (auto split: if_splits)

lemma fmt_head: "f \<in> {FMT_OUT_IN, FMT_IN_OUT, FMT_IN, FMT_OUT} \<Longrightarrow> \<exists>ds. f = Scanset # ds"
  by (auto simp: fmt_defs)

lemma scan_command_head:
  assumes "scan_command line = Some (ty, cmd, outfile, infile)"
  shows "cmd = takeWhile scan_ok line \<and> cmd \<noteq> [] \<and> length cmd < MAX_COMMAND_NOREDI"
proof -
  obtain f r where r: "r = sscanf f line" "f \<in> {FMT_OUT_IN, FMT_IN_OUT, FMT_IN, FMT_OUT}" "r \<noteq> []" "fits r" "cmd = r ! 0"
    using assms by (fastforce simp: scan_command_def Let_def split: if_splits)
  obtain ds where "f = Scanset # ds" using fmt_head r(2) by blast
  then have "cmd = takeWhile scan_ok line \<and> cmd \<noteq> []"
    using sscanf_head [of ds line r] r by simp
  moreover have "length cmd < MAX_COMMAND_NOREDI" using r(3-5) by (cases r) (auto simp: fits_def)
  ultimately show ?thesis by blast
qed

lemma set_clean: "NUL \<notin> set s \<Longrightarrow> set (clean s) \<subseteq> set s"
proof -
  assume "NUL \<notin> set s"
  then have "clean s = rstrip (squeeze (dropWhile is_blank s))" by (simp add: clean_eq_ref clean_ref_def)
  moreover have "set (rstrip t) \<subseteq> set t" for t by (auto simp: rstrip_def dest: set_dropWhileD)
  moreover have "set (squeeze (dropWhile is_blank s)) \<subseteq> set s"
    using set_squeeze by (auto dest!: set_squeeze [THEN subsetD] set_dropWhileD)
  ultimately show "set (clean s) \<subseteq> set s" by auto
qed

lemma split_words_cong: "\<forall>c \<in> set s. d c = e c \<Longrightarrow> split_words d acc s = split_words e acc s"
  by (induction s arbitrary: acc) auto

text \<open>The arguments are the words of the command up to the first \<^verbatim>\<open><\<close>, \<^verbatim>\<open>>\<close>, tab or newline.\<close>

lemma argv_words:
  assumes "NUL \<notin> set line"
  shows "tokens (\<lambda>c. c = SPC) (clean (takeWhile scan_ok line)) = tokens is_blank (takeWhile scan_ok line)"
proof -
  let ?cmd = "takeWhile scan_ok line"
  have n: "NUL \<notin> set ?cmd" using assms by (auto dest: set_takeWhileD)
  have ok: "c \<noteq> TAB \<and> c \<noteq> NL" if "c \<in> set ?cmd" for c
    using set_takeWhileD [OF that] by (auto simp: scan_ok_def)
  have "split_words (\<lambda>c. c = SPC) [] (clean ?cmd) = split_words is_blank [] (clean ?cmd)"
    using ok set_clean [OF n] by (intro split_words_cong) (auto simp: is_blank_def)
  moreover have "takeWhile (\<lambda>c. c \<noteq> NL) ?cmd = ?cmd" using ok by (auto simp: takeWhile_eq_all_conv)
  moreover have "split_words is_blank [] (clean ?cmd) = split_words is_blank [] (takeWhile (\<lambda>c. c \<noteq> NL) ?cmd)"
  proof -
    have "NUL \<notin> set (dropWhile is_blank ?cmd)" using n by (auto dest: set_dropWhileD)
    then show ?thesis
      by (simp add: clean_eq_ref [OF n] clean_ref_def split_words_rstrip split_words_squeeze
          takeWhile_dropWhile_NL split_words_skip)
  qed
  ultimately show ?thesis by (simp add: tokens_split)
qed

lemma tokens_ne: "c \<in> set s \<Longrightarrow> \<not> d c \<Longrightarrow> tokens d s \<noteq> []"
proof -
  have "acc \<noteq> [] \<or> (\<exists>c \<in> set s. \<not> d c) \<Longrightarrow> split_words d acc s \<noteq> []" for acc
    by (induction s arbitrary: acc) auto
  then show "c \<in> set s \<Longrightarrow> \<not> d c \<Longrightarrow> tokens d s \<noteq> []" by (auto simp: tokens_split)
qed

subsection \<open>Printing a command\<close>

text \<open>A plain word: non-empty, no blank, redirection, newline or NUL.\<close>

definition plain :: "string \<Rightarrow> bool" where
  "plain w \<longleftrightarrow> w \<noteq> [] \<and> list_all (\<lambda>c. scan_ok c \<and> \<not> isspace c \<and> c \<noteq> NUL) w"

fun unwords :: "string list \<Rightarrow> string" where
  "unwords [] = []"
| "unwords [w] = w"
| "unwords (w # ws) = w @ SPC # unwords ws"

lemma isspace_SPC [simp]: "isspace SPC"
  by (simp add: isspace_def)

lemma not_isspace_redir [simp]: "\<not> isspace CHR ''<''" "\<not> isspace CHR ''>''"
  by (simp_all add: isspace_def)

lemma scan_ok_simps [simp]: "scan_ok SPC" "\<not> scan_ok CHR ''<''" "\<not> scan_ok CHR ''>''"
  by (simp_all add: scan_ok_def)

lemma plainD: "plain w \<Longrightarrow> list_all scan_ok w" "plain w \<Longrightarrow> list_all (\<lambda>c. \<not> isspace c) w"
  "plain w \<Longrightarrow> NUL \<notin> set w" "plain w \<Longrightarrow> w \<noteq> []"
  by (auto simp: plain_def list_all_iff)

lemma unwords_ok: "list_all plain ws \<Longrightarrow> list_all scan_ok (unwords ws) \<and> NUL \<notin> set (unwords ws)"
  by (induction ws rule: unwords.induct) (auto dest: plainD)

lemma unwords_ne: "list_all plain ws \<Longrightarrow> ws \<noteq> [] \<Longrightarrow> unwords ws \<noteq> []"
  by (cases ws rule: unwords.cases) (auto dest: plainD)

lemma plain_not_blank: "plain w \<Longrightarrow> c \<in> set w \<Longrightarrow> \<not> is_blank c"
proof -
  assume "plain w" "c \<in> set w"
  then have "\<not> isspace c" by (simp add: plain_def list_all_iff)
  moreover have "is_blank c \<Longrightarrow> isspace c" unfolding is_blank_def by (elim disjE) (simp_all add: isspace_def)
  ultimately show "\<not> is_blank c" by blast
qed

lemma split_words_plain:
  "\<forall>c \<in> set w. \<not> d c \<Longrightarrow> split_words d acc (w @ s) = split_words d (acc @ w) s"
  by (induction w arbitrary: acc) auto

lemma tokens_unwords:
  "list_all plain ws \<Longrightarrow> split_words is_blank [] (unwords ws) = ws"
proof (induction ws rule: unwords.induct)
  case (2 w)
  then have w: "\<forall>c \<in> set w. \<not> is_blank c" "w \<noteq> []" using plain_not_blank plainD(4) [of w] by auto
  then show ?case using split_words_plain [of w is_blank "[]" "[]"] by simp
next
  case (3 w v ws)
  then have w: "\<forall>c \<in> set w. \<not> is_blank c" "w \<noteq> []" using plain_not_blank plainD(4) [of w] by auto
  then show ?case
    using 3 split_words_plain [of w is_blank "[]" "SPC # unwords (v # ws)"] by simp
qed simp

lemma takeWhile_plain: "list_all P w \<Longrightarrow> \<not> P c \<Longrightarrow> takeWhile P (w @ c # s) = w \<and> dropWhile P (w @ c # s) = c # s"
  by (induction w) auto

lemma takeWhile_all: "list_all P w \<Longrightarrow> takeWhile P w = w \<and> dropWhile P w = []"
  by (induction w) auto

lemma dropWhile_plain: "plain w \<Longrightarrow> dropWhile isspace (w @ s) = w @ s"
  by (cases w) (auto simp: plain_def)

lemmas scan_simps = takeWhile_plain takeWhile_all dropWhile_plain dropWhile_plain [of _ "[]", simplified] plainD

lemma scan_no_redir:
  assumes "list_all plain ws" "ws \<noteq> []" "length (unwords ws) < 200"
  shows "scan_command (unwords ws) = Some (NO_REDI, unwords ws, [], [])"
  using assms unwords_ok [OF assms(1)] unwords_ne [OF assms(1,2)]
  by (simp add: scan_command_def fmt_defs scan_simps fits_def MAX_COMMAND_NOREDI_def MAX_REDIFILE_def)

lemma scan_one_redir:
  assumes "list_all plain ws" "ws \<noteq> []" "length (unwords ws) < 200" "plain f" "length f < 200"
  shows "scan_command (unwords ws @ ''<'' @ f) = Some (REDI_IN, unwords ws, [], f)"
    and "scan_command (unwords ws @ ''>'' @ f) = Some (REDI_OUT, unwords ws, f, [])"
  using assms unwords_ok [OF assms(1)] unwords_ne [OF assms(1,2)]
  by (simp_all add: scan_command_def fmt_defs scan_simps fits_def MAX_COMMAND_NOREDI_def MAX_REDIFILE_def)

lemma scan_two_redirs:
  assumes "list_all plain ws" "ws \<noteq> []" "length (unwords ws) < 200"
    and "plain f" "length f < 200" "plain g" "length g < 200"
  shows "scan_command (unwords ws @ ''<'' @ f @ ''>'' @ g) = Some (REDI_IN_OUT, unwords ws, g, f)"
    and "scan_command (unwords ws @ ''>'' @ f @ ''<'' @ g) = Some (REDI_OUT_IN, unwords ws, f, g)"
  using assms unwords_ok [OF assms(1)] unwords_ne [OF assms(1,2)]
  by (simp_all add: scan_command_def fmt_defs scan_simps fits_def MAX_COMMAND_NOREDI_def MAX_REDIFILE_def)

subsection \<open>Properties\<close>

fun render :: "string list \<Rightarrow> redirection_type \<Rightarrow> string \<Rightarrow> string \<Rightarrow> string" where
  "render ws NO_REDI outfile infile = unwords ws"
| "render ws REDI_IN outfile infile = unwords ws @ ''<'' @ infile"
| "render ws REDI_OUT outfile infile = unwords ws @ ''>'' @ outfile"
| "render ws REDI_OUT_IN outfile infile = unwords ws @ ''>'' @ outfile @ ''<'' @ infile"
| "render ws REDI_IN_OUT outfile infile = unwords ws @ ''<'' @ infile @ ''>'' @ outfile"

definition open_if :: "(open_mode \<Rightarrow> string \<Rightarrow> 'os \<Rightarrow> int \<times> 'os) \<Rightarrow> bool \<Rightarrow> open_mode \<Rightarrow> string \<Rightarrow> 'os \<Rightarrow> int \<times> 'os" where
  "open_if os_open b mode name os = (if b then os_open mode name os else (- 1, os))"

lemma argv_of_render:
  assumes "list_all plain ws"
  shows "tokens (\<lambda>c. c = SPC) (clean (unwords ws)) = ws"
  using argv_words [of "unwords ws"] unwords_ok [OF assms] tokens_unwords [OF assms]
  by (simp add: takeWhile_all tokens_split)

text \<open>
  C13: Parsing inverts printing: for plain words and file names that fit the buffers, each of the five forms
  (no redirection, one of either kind, both in either order) is parsed back to exactly the words
  as \<^verbatim>\<open>argv\<close>, the redirection type and the files, which are opened output first.  The executable is
  \<^verbatim>\<open>argv[0]\<close> itself if it can be executed, or the first hit in the search path.\<close>

theorem redirection_roundtrip:
  assumes "list_all plain ws" "ws \<noteq> []" "length (unwords ws) < 200" "length ws \<le> MAX_ARGUMENTS_NUM"
    and "plain f" "length f < 200" "plain g" "length g < 200"
  shows "handle_redirection access os_open paths process_init (render ws ty f g) os
    = (let (outfd, os1) = open_if os_open (has_mask ty REDI_OUT_MASK) O_WRONLY_CREAT f os;
           (infd, os2) = open_if os_open (has_mask ty REDI_IN_MASK) O_RDONLY g os1
       in Some (\<lparr>p_argv = ws,
                 p_exec_path = (if access (hd ws) then Some (hd ws) else find_exec access paths (hd ws)),
                 p_redirected = ty, p_infd = infd, p_outfd = outfd\<rparr>, os2))"
proof -
  have scan: "scan_command (render ws ty f g) = Some (ty, unwords ws,
      if has_mask ty REDI_OUT_MASK then f else [], if has_mask ty REDI_IN_MASK then g else [])"
    using assms by (cases ty) (simp_all add: scan_no_redir scan_one_redir [simplified] scan_two_redirs [simplified])
  have "lookup_exec access paths ws = Some (if access (hd ws) then Some (hd ws) else find_exec access paths (hd ws))"
    using assms(2) by (cases ws) (simp_all add: lookup_exec_def)
  then show ?thesis using assms(4)
    by (simp add: handle_redirection_def scan argv_of_render [OF assms(1)] process_init_def open_if_def
        split: prod.splits)
qed

theorem redirection_roundtrip_witness:
  "handle_redirection (\<lambda>f. f = ''/bin/sort'') (\<lambda>m f os. (int (length os), os @ [f])) [''/usr'', ''/bin''] process_init ''sort -r<a>b'' [[], [], []]
   = Some (\<lparr>p_argv = [''sort'', ''-r''], p_exec_path = Some ''/bin/sort'', p_redirected = REDI_IN_OUT, p_infd = 4, p_outfd = 3\<rparr>,
       [[], [], [], ''b'', ''a''])"
  using redirection_roundtrip [of "[''sort'', ''-r'']" "''b''" "''a''" "\<lambda>f. f = ''/bin/sort''"
      "\<lambda>m f os. (int (length os), os @ [f])" "[''/usr'', ''/bin'']" REDI_IN_OUT "[[], [], []]"]
  by (simp add: plain_def scan_ok_def isspace_def MAX_ARGUMENTS_NUM_def join_path_def open_if_def)

text \<open>
  The search path is tried in order: the executable is the first directory's hit, no earlier directory has
  one, and nothing is found exactly when no directory has one.  The buffer allocated for the full
  name is long enough for every command that fits \<^verbatim>\<open>command_noredi\<close>.\<close>

theorem find_exec_first:
  "(find_exec access paths cmd = Some f \<longleftrightarrow>
     (\<exists>i < length paths. f = join_path (paths ! i) cmd \<and> access f \<and> (\<forall>j < i. \<not> access (join_path (paths ! j) cmd))))
   \<and> (find_exec access paths cmd = None \<longleftrightarrow> \<not> (\<exists>p \<in> set paths. access (join_path p cmd)))
   \<and> (length cmd < MAX_COMMAND_NOREDI \<longrightarrow> length (join_path p cmd) < length p + MAX_EXEC_FILENAME)"
proof (intro conjI)
  show "find_exec access paths cmd = None \<longleftrightarrow> \<not> (\<exists>p \<in> set paths. access (join_path p cmd))"
    by (induction paths) auto
  show "length cmd < MAX_COMMAND_NOREDI \<longrightarrow> length (join_path p cmd) < length p + MAX_EXEC_FILENAME"
    by (simp add: join_path_def MAX_COMMAND_NOREDI_def MAX_EXEC_FILENAME_def)
  show "find_exec access paths cmd = Some f \<longleftrightarrow>
     (\<exists>i < length paths. f = join_path (paths ! i) cmd \<and> access f \<and> (\<forall>j < i. \<not> access (join_path (paths ! j) cmd)))"
  proof (induction paths)
    case (Cons p ps)
    then show ?case
      by (cases "access (join_path p cmd)") (auto simp: Ex_less_Suc2 All_less_Suc2)
  qed simp
qed

theorem find_exec_first_witness:
  "find_exec (\<lambda>f. f = ''/bin/ls'') [''/usr/'', ''/bin''] ''ls'' = Some ''/bin/ls''
   \<and> \<not> (find_exec (\<lambda>f. f = ''/bin/ls'') [''/usr/'', ''/bin''] ''ls'' = None)"
  using find_exec_first [of "\<lambda>f. f = ''/bin/ls''" "[''/usr/'', ''/bin'']" "''ls''" "''/bin/ls''" "[]"]
  by (simp add: join_path_def)

text \<open>
  A blank before the second redirection operator becomes part of the first file's name: \<^verbatim>\<open>cmd < f > g\<close> opens
  \<^verbatim>\<open>"f "\<close> for reading, whatever \<^verbatim>\<open>f\<close> and \<^verbatim>\<open>g\<close>.  And a command that starts with a redirection reads
  \<^verbatim>\<open>command_noredi\<close> before anything was stored in it.\<close>

theorem redirection_blank_in_name:
  assumes "list_all plain ws" "ws \<noteq> []" "length (unwords ws) < 199" "plain f" "length f < 199" "plain g" "length g < 200"
  shows "(\<exists>outfile. scan_command (unwords ws @ '' < '' @ f @ '' > '' @ g) = Some (REDI_IN_OUT, unwords ws @ '' '', outfile, f @ '' ''))
    \<and> handle_redirection access os_open paths p (CHR ''>'' # s) os = None"
proof
  have u: "list_all scan_ok (unwords ws @ '' '')" "unwords ws @ '' '' \<noteq> []" "list_all scan_ok (f @ '' '')"
    "takeWhile scan_ok (unwords ws @ SPC # CHR ''<'' # t) = unwords ws @ '' ''"
    "dropWhile scan_ok (unwords ws @ SPC # CHR ''<'' # t) = CHR ''<'' # t"
    "takeWhile scan_ok (f @ SPC # CHR ''>'' # t) = f @ '' ''"
    "dropWhile scan_ok (f @ SPC # CHR ''>'' # t) = CHR ''>'' # t" for t
    using unwords_ok [OF assms(1)] plainD(1) [OF assms(4)] takeWhile_plain [of scan_ok "unwords ws @ '' ''" "CHR ''<''" t]
      takeWhile_plain [of scan_ok "f @ '' ''" "CHR ''>''" t] by simp_all
  then show "\<exists>outfile. scan_command (unwords ws @ '' < '' @ f @ '' > '' @ g) = Some (REDI_IN_OUT, unwords ws @ '' '', outfile, f @ '' '')"
    using assms by (simp add: scan_command_def fmt_defs scan_simps fits_def MAX_COMMAND_NOREDI_def MAX_REDIFILE_def)
  show "handle_redirection access os_open paths p (CHR ''>'' # s) os = None"
    by (simp add: handle_redirection_def scan_command_def fmt_defs fits_def)
qed

theorem redirection_blank_in_name_witness:
  "\<exists>outfile. scan_command ''sort < a > b'' = Some (REDI_IN_OUT, ''sort '', outfile, ''a '')"
  using redirection_blank_in_name [of "[''sort'']" "''a''" "''b''" "\<lambda>_. False" "\<lambda>m f os. (0, os)" "[]"
      process_init "[]" "0 :: nat"]
  by (simp add: plain_def scan_ok_def isspace_def)

end
