(* ===== verification/Shell_Exec.thy ===== *)
theory Shell_Exec
  imports Shell_Parse
begin

section \<open>File descriptors, children and pipelines\<close>

text \<open>
  \<^verbatim>\<open>handle_pipe\<close>, \<^verbatim>\<open>handle_redirection_exec\<close>, \<^verbatim>\<open>run_process\<close> and \<^verbatim>\<open>run_processes\<close> of \<^verbatim>\<open>shell/run_command.c\<close>.

  The state of the shell process is its descriptor table and working directory; a forked child is
  an entry of the log: the command it was given, the table it started with, and what becomes of it
  (\<open>Exec\<close> with the final table, an exit code, or undefined behaviour).  The POSIX calls
  \<^verbatim>\<open>dup\<close>, \<^verbatim>\<open>dup2\<close>, \<^verbatim>\<open>close\<close>, \<^verbatim>\<open>pipe\<close> and \<^verbatim>\<open>open\<close> are defined on the table, with the lowest free descriptor
  below \<open>nofile\<close>; what the system decides (which files can be opened or executed, whether the \<open>n\<close>-th
  \<^verbatim>\<open>fork\<close> succeeds, where \<^verbatim>\<open>chdir\<close> leads) is the parameter \<open>sys_env\<close>.  Waiting for children changes
  neither.

  The locale \<open>fd_table\<close> is what the pipeline code relies on of the descriptor calls.
\<close>

datatype ofile = Inherited nat | Named open_mode string | Pipe_read nat | Pipe_write nat

type_synonym fdtab = "nat \<rightharpoonup> ofile"
type_synonym dir = "string list"

record sys_env =
  e_access :: "dir \<Rightarrow> string \<Rightarrow> bool"
  e_can_open :: "dir \<Rightarrow> open_mode \<Rightarrow> string \<Rightarrow> bool"
  e_exec_ok :: "dir \<Rightarrow> string \<Rightarrow> bool"
  e_fork_ok :: "nat \<Rightarrow> bool"
  e_chdir :: "dir \<Rightarrow> string \<Rightarrow> dir option"
  e_nofile :: nat

datatype child_outcome = Exec string "string list" fdtab | Exit nat | Undefined

record child =
  c_line :: string
  c_fds :: fdtab
  c_outcome :: child_outcome

record system =
  fds :: fdtab
  pipes :: nat
  forks :: nat
  wd :: dir
  log :: "child list"

definition STDIN_FILENO :: nat where "STDIN_FILENO = 0"
definition STDOUT_FILENO :: nat where "STDOUT_FILENO = 1"
definition STDERR_FILENO :: nat where "STDERR_FILENO = 2"
definition EXIT_EXEC :: nat where "EXIT_EXEC = 2"

lemmas fileno_defs = STDIN_FILENO_def STDOUT_FILENO_def STDERR_FILENO_def

subsection \<open>The descriptor calls\<close>

definition free_fd :: "nat \<Rightarrow> fdtab \<Rightarrow> nat option" where
  "free_fd n t = find (\<lambda>i. t i = None) [0..<n]"

definition sys_close :: "nat \<Rightarrow> fdtab \<Rightarrow> fdtab" where
  "sys_close fd t = t(fd := None)"

definition sys_dup :: "nat \<Rightarrow> nat \<Rightarrow> fdtab \<Rightarrow> int \<times> fdtab" where
  "sys_dup n fd t =
     (case t fd of
        None \<Rightarrow> (- 1, t)
      | Some f \<Rightarrow> (case free_fd n t of None \<Rightarrow> (- 1, t) | Some i \<Rightarrow> (int i, t(i \<mapsto> f))))"

definition sys_dup2 :: "int \<Rightarrow> nat \<Rightarrow> fdtab \<Rightarrow> int \<times> fdtab" where
  "sys_dup2 old new t =
     (if old < 0 then (- 1, t)
      else case t (nat old) of None \<Rightarrow> (- 1, t) | Some f \<Rightarrow> (int new, t(new \<mapsto> f)))"

text \<open>\<^verbatim>\<open>pipe\<close>: the read and write descriptors, \<open>None\<close> when it fails.\<close>

definition sys_pipe :: "nat \<Rightarrow> nat \<Rightarrow> fdtab \<Rightarrow> (nat \<times> nat \<times> fdtab) option" where
  "sys_pipe n k t =
     (case free_fd n t of
        None \<Rightarrow> None
      | Some r \<Rightarrow>
          (case free_fd n (t(r \<mapsto> Pipe_read k)) of
             None \<Rightarrow> None
           | Some w \<Rightarrow> Some (r, w, t(r \<mapsto> Pipe_read k, w \<mapsto> Pipe_write k))))"

definition sys_open :: "sys_env \<Rightarrow> dir \<Rightarrow> open_mode \<Rightarrow> string \<Rightarrow> fdtab \<Rightarrow> int \<times> fdtab" where
  "sys_open env d mode name t =
     (if \<not> e_can_open env d mode name then (- 1, t)
      else case free_fd (e_nofile env) t of None \<Rightarrow> (- 1, t) | Some i \<Rightarrow> (int i, t(i \<mapsto> Named mode name)))"

definition sys_chdir :: "sys_env \<Rightarrow> string \<Rightarrow> dir \<Rightarrow> dir" where
  "sys_chdir env path d = (case e_chdir env d path of None \<Rightarrow> d | Some d' \<Rightarrow> d')"

subsection \<open>Running a process\<close>

definition run_process :: "sys_env \<Rightarrow> dir \<Rightarrow> process \<Rightarrow> fdtab \<Rightarrow> child_outcome" where
  "run_process env d process t =
     (let out_redirected = has_mask (p_redirected process) REDI_OUT_MASK;
          (r2, t) = (if out_redirected \<and> \<not> has_mask (p_redirected process) REDI_PIPE_MASK
                     then sys_dup2 (p_outfd process) STDERR_FILENO t else (0, t))
      in if r2 = - 1 then Exit 1
      else let (r1, t) = (if out_redirected then sys_dup2 (p_outfd process) STDOUT_FILENO t else (0, t))
      in if r1 = - 1 then Exit 1
      else let (r0, t) = (if has_mask (p_redirected process) REDI_IN_MASK
                          then sys_dup2 (p_infd process) STDIN_FILENO t else (0, t))
      in if r0 = - 1 then Exit 1
      else case p_exec_path process of
             None \<Rightarrow> Exit EXIT_EXEC
           | Some path \<Rightarrow>
               if length (p_argv process) \<ge> MAX_ARGUMENTS_NUM then Undefined
               else if e_exec_ok env d path then Exec path (p_argv process) t
               else Exit EXIT_EXEC)"

definition handle_redirection_exec ::
  "sys_env \<Rightarrow> string list \<Rightarrow> string \<Rightarrow> dir \<Rightarrow> string \<Rightarrow> fdtab \<Rightarrow> child_outcome" where
  "handle_redirection_exec env paths cwd d line t =
     (case handle_redirection (e_access env d) (sys_open env d) paths process_init line t of
        None \<Rightarrow> Undefined
      | Some (process, t) \<Rightarrow> run_process env (sys_chdir env cwd d) process t)"

text \<open>The children of \<^verbatim>\<open>run_processes\<close>; \<open>False\<close>: the shell exits with code 1 at a failing \<^verbatim>\<open>fork\<close>.\<close>

fun run_processes :: "sys_env \<Rightarrow> process list \<Rightarrow> system \<Rightarrow> bool \<times> system" where
  "run_processes env [] s = (True, s)"
| "run_processes env (p # ps) s =
     (let ok = e_fork_ok env (forks s);
          s = s\<lparr>forks := forks s + 1\<rparr>
      in if \<not> ok then (False, s)
         else let ch = \<lparr>c_line = unwords (p_argv p), c_fds = fds s,
                        c_outcome = run_process env (wd s) p (fds s)\<rparr>
              in run_processes env ps (s\<lparr>log := log s @ [ch]\<rparr>))"

subsection \<open>Pipelines\<close>

lemma length_clean: "length (clean s) \<le> length s"
proof -
  let ?b = "s @ [NUL]"
  have len: "length (clean_buf ?b) = length s + 1" by (simp add: length_clean_buf)
  obtain t where "squeeze (dropWhile is_blank ?b) = rstrip (squeeze (dropWhile is_blank ?b)) @ t"
    using rstrip_prefix by blast
  then have "length (rstrip (squeeze (dropWhile is_blank ?b))) \<le> length (squeeze (dropWhile is_blank s))"
    by (metis dropWhile_blank_NUL le_add1 length_append squeeze_NUL)
  also have "\<dots> \<le> length s"
    using length_squeeze [of "dropWhile is_blank s"] length_dropWhile_le [of is_blank s] by linarith
  finally have "rd (clean_buf ?b) (length (rstrip (squeeze (dropWhile is_blank ?b)))) = NUL"
    using len by (simp add: clean_buf_eq Let_def rd_def)
  moreover have "length (rstrip (squeeze (dropWhile is_blank ?b))) < length (clean_buf ?b)"
    using len \<open>length (rstrip (squeeze (dropWhile is_blank ?b))) \<le> _\<close> \<open>_ \<le> length s\<close> by linarith
  ultimately have "NUL \<in> set (clean_buf ?b)" by (metis nth_mem rd_def)
  then show ?thesis using length_cstr_less [of "clean_buf ?b"] len by (simp add: clean_def)
qed

datatype pipe_ret = Command string | Null | No_return

text \<open>\<open>rest\<close> is what \<^verbatim>\<open>strtok(NULL, "")\<close> returns: the rest of the line, or NULL when nothing is left.\<close>

definition fork_child ::
  "sys_env \<Rightarrow> string list \<Rightarrow> string \<Rightarrow> string \<Rightarrow> fdtab \<Rightarrow> system \<Rightarrow> system" where
  "fork_child env paths cwd line t s =
     s\<lparr>log := log s @ [\<lparr>c_line = line, c_fds = t,
         c_outcome = handle_redirection_exec env paths cwd (wd s) line t\<rparr>]\<rparr>"

function handle_pipe ::
  "sys_env \<Rightarrow> string list \<Rightarrow> string \<Rightarrow> int \<Rightarrow> string \<Rightarrow> bool \<Rightarrow> system \<Rightarrow> pipe_ret \<times> system" where
  "handle_pipe env paths cwd save_in line leader s =
     (case strtok (\<lambda>c. c = CHR ''|'') line of
        None \<Rightarrow> (Null, s)
      | Some (tok, rest) \<Rightarrow>
          let first_command = clean tok
          in if rest = [] then
               if leader then (Command first_command, s)
               else (case sys_pipe (e_nofile env) (pipes s) (fds s) of
                       None \<Rightarrow> (Null, s)
                     | Some (r, w, t) \<Rightarrow>
                         let ok = e_fork_ok env (forks s);
                             s = s\<lparr>fds := t, pipes := pipes s + 1, forks := forks s + 1\<rparr>
                         in if \<not> ok then (Null, s)
                            else let s = fork_child env paths cwd first_command t s
                                 in (Null, s\<lparr>fds := snd (sys_dup2 save_in STDIN_FILENO (fds s))\<rparr>))
             else
               (case sys_pipe (e_nofile env) (pipes s) (fds s) of
                  None \<Rightarrow> (Null, s)
                | Some (r, w, t) \<Rightarrow>
                    let ok = e_fork_ok env (forks s);
                        s = s\<lparr>fds := t, pipes := pipes s + 1, forks := forks s + 1\<rparr>
                    in if \<not> ok then (No_return, s)
                       else
                         let child = sys_close w (snd (sys_dup (e_nofile env) w
                                       (sys_close STDOUT_FILENO (sys_close r t))));
                             s = fork_child env paths cwd first_command child s;
                             parent = sys_close r (snd (sys_dup (e_nofile env) r
                                        (sys_close STDIN_FILENO (sys_close w t))))
                         in handle_pipe env paths cwd save_in (clean rest) False (s\<lparr>fds := parent\<rparr>)))"
  by pat_completeness auto
termination
proof (relation "measure (\<lambda>(env, paths, cwd, sv, line, l, s). length line)", goal_cases)
  case 1
  then show ?case by simp
next
  case (2 env paths cwd save_in line leader s a tok rest)
  have "length rest < length line" using 2 strtok_shorter by metis
  then show ?case using length_clean [of rest] by simp
qed

declare handle_pipe.simps [simp del]

subsection \<open>The interface of the descriptor table\<close>

locale fd_table =
  fixes get :: "'t \<Rightarrow> nat \<Rightarrow> 'f option"
    and close :: "nat \<Rightarrow> 't \<Rightarrow> 't"
    and dup :: "nat \<Rightarrow> 't \<Rightarrow> 't"
    and limit :: nat
  assumes get_close: "get (close i t) j = (if j = i then None else get t j)"
    and get_dup: "get t fd = Some f \<Longrightarrow> get t i = None \<Longrightarrow> \<forall>j<i. get t j \<noteq> None \<Longrightarrow> i < limit \<Longrightarrow>
      get (dup fd t) j = (if j = i then Some f else get t j)"
begin

text \<open>The idiom \<^verbatim>\<open>close(i); dup(fd); close(fd)\<close> moves descriptor \<open>fd\<close> to \<open>i\<close> when everything below \<open>i\<close> is open.\<close>

lemma move:
  assumes "get t fd = Some f" "fd \<noteq> i" "\<forall>j<i. get t j \<noteq> None" "i < limit"
  shows "get (close fd (dup fd (close i t))) j
    = (if j = fd then None else if j = i then Some f else get t j)"
proof -
  have "get (dup fd (close i t)) j = (if j = i then Some f else get (close i t) j)"
    by (rule get_dup) (use assms in \<open>auto simp: get_close\<close>)
  then show ?thesis by (simp add: get_close)
qed

end

lemma find_upt_SomeI: "P i \<Longrightarrow> \<forall>j<i. \<not> P j \<Longrightarrow> i < n \<Longrightarrow> find P [0..<n] = Some i"
  by (auto simp: find_Some_iff)

interpretation fdt: fd_table "\<lambda>t. t" sys_close "\<lambda>fd t. snd (sys_dup n fd t)" n for n
proof unfold_locales
  fix t :: fdtab and fd i j f
  assume a: "t fd = Some f" "t i = None" "\<forall>j<i. t j \<noteq> None" "i < n"
  have "free_fd n t = Some i" unfolding free_fd_def by (rule find_upt_SomeI) (use a in auto)
  then show "snd (sys_dup n fd t) j = (if j = i then Some f else t j)" using a by (simp add: sys_dup_def)
qed (simp add: sys_close_def)

lemma free_fd_cong: "dom t = dom t' \<Longrightarrow> free_fd n t = free_fd n t'"
proof -
  assume "dom t = dom t'"
  then have "(\<lambda>i. t i = None) = (\<lambda>i. t' i = None)" by (metis domIff)
  then show ?thesis by (simp add: free_fd_def)
qed

lemma free_fd_Some: "free_fd n t = Some i \<Longrightarrow> t i = None \<and> i < n \<and> (\<forall>j<i. t j \<noteq> None)"
  by (auto simp: free_fd_def find_Some_iff)

text \<open>Room for a pipe: two free descriptors.\<close>

definition pipe_room :: "nat \<Rightarrow> fdtab \<Rightarrow> bool" where
  "pipe_room n t \<longleftrightarrow> sys_pipe n 0 t \<noteq> None"

lemma sys_pipe_cong:
  assumes "dom t = dom t'"
  shows "sys_pipe n k t = None \<longleftrightarrow> sys_pipe n k' t' = None"
proof -
  have "free_fd n (t(r \<mapsto> Pipe_read k)) = free_fd n (t'(r \<mapsto> Pipe_read k'))" for r
    using assms by (intro free_fd_cong) auto
  then show ?thesis using free_fd_cong [OF assms, of n] by (simp add: sys_pipe_def split: option.splits)
qed

lemma pipe_room_cong: "dom t = dom t' \<Longrightarrow> pipe_room n t = pipe_room n t'"
  unfolding pipe_room_def using sys_pipe_cong [of t t' n 0 0] by simp

lemma pipe_roomD:
  assumes "pipe_room n t"
  obtains r w where "sys_pipe n k t = Some (r, w, t(r \<mapsto> Pipe_read k, w \<mapsto> Pipe_write k))"
    "t r = None" "t w = None" "r \<noteq> w" "r < n" "w < n"
proof -
  have "sys_pipe n k t \<noteq> None" using assms sys_pipe_cong [of t t n k 0] by (auto simp: pipe_room_def)
  then obtain r w where f: "free_fd n t = Some r" "free_fd n (t(r \<mapsto> Pipe_read k)) = Some w"
    by (auto simp: sys_pipe_def split: option.splits)
  show ?thesis
    using that [of r w] f free_fd_Some [OF f(1)] free_fd_Some [OF f(2)]
    by (auto simp: sys_pipe_def split: if_splits)
qed

text \<open>What one stage of a pipeline does to the tables of the child and of the shell.\<close>

lemma stage_tables:
  assumes "t r = None" "t w = None" "r \<noteq> w" "r < n" "w < n" "t 0 \<noteq> None" "t 1 \<noteq> None"
    and "t' = t(r \<mapsto> Pipe_read k, w \<mapsto> Pipe_write k)"
  shows "sys_close w (snd (sys_dup n w (sys_close STDOUT_FILENO (sys_close r t')))) = t(1 \<mapsto> Pipe_write k)"
    and "sys_close r (snd (sys_dup n r (sys_close STDIN_FILENO (sys_close w t')))) = t(0 \<mapsto> Pipe_read k)"
proof -
  have rw: "r \<noteq> 0" "r \<noteq> 1" "w \<noteq> 0" "w \<noteq> 1" using assms by metis+
  then have n: "1 < n" using assms(4) by linarith
  have c: "sys_close r t' w = Some (Pipe_write k)" "sys_close w t' r = Some (Pipe_read k)"
    "\<forall>j<1. sys_close r t' j \<noteq> None"
    using assms rw by (auto simp: sys_close_def)
  show "sys_close w (snd (sys_dup n w (sys_close STDOUT_FILENO (sys_close r t')))) = t(1 \<mapsto> Pipe_write k)"
    unfolding STDOUT_FILENO_def
    by (rule ext, subst fdt.move [where i = 1 and t = "sys_close r t'" and fd = w, OF c(1) rw(4) c(3) n]) (use assms rw in \<open>auto simp: sys_close_def\<close>)
  show "sys_close r (snd (sys_dup n r (sys_close STDIN_FILENO (sys_close w t')))) = t(0 \<mapsto> Pipe_read k)"
    unfolding STDIN_FILENO_def
    by (rule ext, subst fdt.move [where i = 0 and n = n and t = "sys_close w t'" and fd = r, OF c(2) rw(1)]) (use assms rw n in \<open>auto simp: sys_close_def\<close>)
qed

subsection \<open>Pipelines against their specification\<close>

text \<open>What a pipeline should be: each command reads the pipe its predecessor writes.\<close>

fun pipeline :: "nat \<Rightarrow> ofile option \<Rightarrow> ofile option \<Rightarrow> string list \<Rightarrow> (string \<times> ofile option \<times> ofile option) list" where
  "pipeline k inp outp [] = []"
| "pipeline k inp outp [c] = [(c, inp, outp)]"
| "pipeline k inp outp (c # d # cs) =
     (c, inp, Some (Pipe_write k)) # pipeline (k + 1) (Some (Pipe_read k)) outp (d # cs)"

fun join_with :: "char \<Rightarrow> string list \<Rightarrow> string" where
  "join_with b [] = []"
| "join_with b [c] = c"
| "join_with b (c # cs) = c @ b # join_with b cs"

abbreviation join_bar :: "string list \<Rightarrow> string" where
  "join_bar \<equiv> join_with CHR ''|''"

text \<open>A command in normal form that does not contain the separator \<open>b\<close>.\<close>

definition normal_without :: "char \<Rightarrow> string \<Rightarrow> bool" where
  "normal_without b c \<longleftrightarrow> c \<noteq> [] \<and> single_blanks c \<and> NUL \<notin> set c \<and> NL \<notin> set c \<and> b \<notin> set c
     \<and> \<not> is_blank (hd c) \<and> \<not> is_blank (last c)"

abbreviation stage :: "string \<Rightarrow> bool" where
  "stage \<equiv> normal_without CHR ''|''"

lemmas stage_def = normal_without_def

lemma not_blank_bar [simp]: "\<not> is_blank CHR ''|''" "\<not> is_blank CHR ''&''"
  by (simp_all add: is_blank_def)

lemma single_blanks_join:
  "single_blanks a \<Longrightarrow> single_blanks b \<Longrightarrow> \<not> is_blank x \<Longrightarrow> single_blanks (a @ x # b)"
  by (induction a rule: single_blanks.induct) (auto simp: single_blanks_Cons)

lemma join_normal:
  "list_all (normal_without b) cs \<Longrightarrow> cs \<noteq> [] \<Longrightarrow> \<not> is_blank b \<Longrightarrow> b \<noteq> NUL \<Longrightarrow> b \<noteq> NL \<Longrightarrow>
     single_blanks (join_with b cs) \<and> NUL \<notin> set (join_with b cs) \<and> NL \<notin> set (join_with b cs)
     \<and> join_with b cs \<noteq> [] \<and> \<not> is_blank (hd (join_with b cs)) \<and> \<not> is_blank (last (join_with b cs))"
  by (induction b cs rule: join_with.induct) (auto simp: normal_without_def single_blanks_join)

lemma clean_join:
  "list_all (normal_without b) cs \<Longrightarrow> cs \<noteq> [] \<Longrightarrow> \<not> is_blank b \<Longrightarrow> b \<noteq> NUL \<Longrightarrow> b \<noteq> NL \<Longrightarrow>
   clean (join_with b cs) = join_with b cs"
  using join_normal [of b cs] by (simp add: clean_eq_ref clean_ref_id)

lemmas join_bar_normal = join_normal [of "CHR ''|''", simplified]
lemmas clean_join_bar = clean_join [of "CHR ''|''", simplified]

lemma clean_stage: "stage c \<Longrightarrow> clean c = c"
  using clean_join_bar [of "[c]"] by simp

lemma strtok_stage: "stage c \<Longrightarrow> strtok (\<lambda>x. x = CHR ''|'') c = Some (c, [])"
proof -
  assume c: "stage c"
  then have "list_all (\<lambda>x. x \<noteq> CHR ''|'') c" by (auto simp: stage_def list_all_iff)
  moreover have "dropWhile (\<lambda>x. x = CHR ''|'') c = c" using c by (cases c) (auto simp: stage_def)
  moreover have "takeWhile (\<lambda>x. x \<noteq> CHR ''|'') c = c" "dropWhile (\<lambda>x. x \<noteq> CHR ''|'') c = []"
    using takeWhile_all calculation(1) by blast+
  ultimately show ?thesis using c
    by (simp add: strtok_def stage_def del: dropWhile_eq_Nil_conv takeWhile_eq_all_conv)
qed

lemma strtok_bar:
  assumes "stage c"
  shows "strtok (\<lambda>x. x = CHR ''|'') (c @ CHR ''|'' # s) = Some (c, s)"
proof -
  have a: "list_all (\<lambda>x. x \<noteq> CHR ''|'') c" using assms by (auto simp: stage_def list_all_iff)
  have "dropWhile (\<lambda>x. x = CHR ''|'') (c @ CHR ''|'' # s) = c @ CHR ''|'' # s"
    using assms a by (cases c) (auto simp: stage_def)
  then show ?thesis using takeWhile_plain [OF a, of "CHR ''|''" s] assms
    by (auto simp: strtok_def stage_def)
qed

definition stdio :: "child \<Rightarrow> string \<times> ofile option \<times> ofile option" where
  "stdio c = (c_line c, c_fds c STDIN_FILENO, c_fds c STDOUT_FILENO)"

text \<open>The last stage.\<close>

lemma handle_pipe_last:
  assumes "stage c" "pipe_room (e_nofile env) (fds s)" "e_fork_ok env (forks s)"
    and "fds s 0 \<noteq> None" "fds s 1 \<noteq> None" "0 \<le> sv" "fds s (nat sv) = Some f0"
  shows "\<exists>s'. handle_pipe env paths cwd sv c False s = (Null, s')
    \<and> map stdio (log s') = map stdio (log s) @ [(c, fds s 0, fds s 1)]
    \<and> fds s' 0 = Some f0 \<and> fds s' 1 = fds s 1 \<and> card (dom (fds s') - dom (fds s)) = 2 \<and> dom (fds s) \<subseteq> dom (fds s')
    \<and> wd s' = wd s"
proof -
  obtain r w where p: "sys_pipe (e_nofile env) (pipes s) (fds s)
      = Some (r, w, (fds s)(r \<mapsto> Pipe_read (pipes s), w \<mapsto> Pipe_write (pipes s)))"
    and n: "fds s r = None" "fds s w = None" "r \<noteq> w"
    using pipe_roomD [OF assms(2)] by metis
  let ?t = "(fds s)(r \<mapsto> Pipe_read (pipes s), w \<mapsto> Pipe_write (pipes s))"
  have ne: "r \<noteq> 0" "r \<noteq> 1" "w \<noteq> 0" "w \<noteq> 1" "nat sv \<noteq> r" "nat sv \<noteq> w"
    using n assms(4,5,7) by (metis option.distinct(1))+
  have "dom (?t(0 \<mapsto> f0)) - dom (fds s) = {r, w}" using n assms(4) by auto
  moreover have "dom (fds s) \<subseteq> dom (?t(0 \<mapsto> f0))" by auto
  ultimately show ?thesis
    using assms ne n by (subst handle_pipe.simps)
      (auto simp: strtok_stage p Let_def fork_child_def clean_stage sys_dup2_def fileno_defs stdio_def)
qed

text \<open>A middle stage hands the rest of the line on, with standard input replaced.\<close>

lemma handle_pipe_stage:
  assumes "list_all stage (c # d # cs)" "pipe_room (e_nofile env) (fds s)" "e_fork_ok env (forks s)"
    and "fds s 0 \<noteq> None" "fds s 1 \<noteq> None"
  shows "handle_pipe env paths cwd sv (join_bar (c # d # cs)) leader s
    = handle_pipe env paths cwd sv (join_bar (d # cs)) False
        ((fork_child env paths cwd c ((fds s)(1 \<mapsto> Pipe_write (pipes s)))
            (s\<lparr>pipes := pipes s + 1, forks := forks s + 1\<rparr>))\<lparr>fds := (fds s)(0 \<mapsto> Pipe_read (pipes s))\<rparr>)"
proof -
  obtain r w where p: "sys_pipe (e_nofile env) (pipes s) (fds s)
      = Some (r, w, (fds s)(r \<mapsto> Pipe_read (pipes s), w \<mapsto> Pipe_write (pipes s)))"
    and n: "fds s r = None" "fds s w = None" "r \<noteq> w" "r < e_nofile env" "w < e_nofile env"
    using pipe_roomD [OF assms(2)] by metis
  have ne: "join_bar (d # cs) \<noteq> []" "clean (join_bar (d # cs)) = join_bar (d # cs)"
    using join_bar_normal [of "d # cs"] clean_join_bar [of "d # cs"] assms(1) by simp_all
  note tabs = stage_tables [OF n assms(4,5) refl, of "pipes s"]
  show ?thesis
    using assms(1,3) ne by (subst handle_pipe.simps)
      (simp add: strtok_bar clean_stage p Let_def tabs fork_child_def)
qed

lemma handle_pipe_refines:
  assumes "list_all stage cs" "cs \<noteq> []" "leader \<longrightarrow> 2 \<le> length cs"
    and "pipe_room (e_nofile env) (fds s)" "\<forall>n. e_fork_ok env n"
    and "fds s 0 \<noteq> None" "fds s 1 \<noteq> None" "0 < sv" "fds s (nat sv) = Some f0"
  shows "\<exists>s'. handle_pipe env paths cwd sv (join_bar cs) leader s = (Null, s')
    \<and> map stdio (log s') = map stdio (log s) @ pipeline (pipes s) (fds s 0) (fds s 1) cs
    \<and> fds s' 0 = Some f0 \<and> fds s' 1 = fds s 1 \<and> card (dom (fds s') - dom (fds s)) = 2 \<and> dom (fds s) \<subseteq> dom (fds s')
    \<and> wd s' = wd s"
  using assms(1-4,6,7,9)
proof (induction "CHR ''|''" cs arbitrary: s leader rule: join_with.induct)
  case (2 c)
  then show ?case using handle_pipe_last [of c env s sv f0 paths cwd] assms(5,8) by simp
next
  case (3 c d cs)
  define t where "t = (fork_child env paths cwd c ((fds s)(1 \<mapsto> Pipe_write (pipes s)))
            (s\<lparr>pipes := pipes s + 1, forks := forks s + 1\<rparr>))\<lparr>fds := (fds s)(0 \<mapsto> Pipe_read (pipes s))\<rparr>"
  have t: "fds t = (fds s)(0 \<mapsto> Pipe_read (pipes s))" "pipes t = pipes s + 1" "wd t = wd s"
    "map stdio (log t) = map stdio (log s) @ [(c, fds s 0, Some (Pipe_write (pipes s)))]"
    by (simp_all add: t_def fork_child_def stdio_def fileno_defs)
  have d: "dom (fds t) = dom (fds s)" using "3.prems"(5) t(1) by auto
  have "\<exists>s'. handle_pipe env paths cwd sv (join_bar (d # cs)) False t = (Null, s')
    \<and> map stdio (log s') = map stdio (log t) @ pipeline (pipes t) (fds t 0) (fds t 1) (d # cs)
    \<and> fds s' 0 = Some f0 \<and> fds s' 1 = fds t 1 \<and> card (dom (fds s') - dom (fds t)) = 2 \<and> dom (fds t) \<subseteq> dom (fds s')
    \<and> wd s' = wd t"
  proof (rule "3.hyps"(1))
    show "pipe_room (e_nofile env) (fds t)" using "3.prems"(4) pipe_room_cong [OF d] by blast
    show "fds t (nat sv) = Some f0" using "3.prems"(7) assms(8) t(1) by simp
  qed (use "3.prems" t in auto)
  moreover have "handle_pipe env paths cwd sv (join_bar (c # d # cs)) leader s
      = handle_pipe env paths cwd sv (join_bar (d # cs)) False t"
    unfolding t_def using "3.prems" assms(5) by (intro handle_pipe_stage) auto
  ultimately show ?case unfolding d t(2-4) by (simp add: t(1))
qed simp

subsection \<open>Properties\<close>


definition demo_sys_env :: sys_env where
  "demo_sys_env = \<lparr>e_access = (\<lambda>_ f. f = ''/bin/ls'' \<or> f = ''/bin/wc''), e_can_open = (\<lambda>_ _ _. True),
     e_exec_ok = (\<lambda>_ _. True), e_fork_ok = (\<lambda>_. True), e_chdir = (\<lambda>_ p. Some [p]), e_nofile = 16\<rparr>"

definition demo_system :: system where
  "demo_system = \<lparr>fds = [0 \<mapsto> Inherited 0, 1 \<mapsto> Inherited 1, 2 \<mapsto> Inherited 2, 3 \<mapsto> Inherited 0],
     pipes = 0, forks = 0, wd = [], log = []\<rparr>"

lemma demo_room: "pipe_room 16 (fds demo_system)"
  by (simp add: pipe_room_def sys_pipe_def free_fd_def demo_system_def upt_rec)


text \<open>
  A bar followed only by blanks costs the shell its standard input: the command before the bar is started, the
  empty rest returns before standard input is restored, and descriptor 0 of the shell stays the
  read end of the pipe.\<close>

theorem blank_after_bar_loses_stdin:
  assumes "stage c" "pipe_room (e_nofile env) (fds s)" "e_fork_ok env (forks s)"
    and "fds s 0 \<noteq> None" "fds s 1 \<noteq> None"
  shows "fst (handle_pipe env paths cwd save_in (c @ ''| '') True s) = Null
    \<and> fds (snd (handle_pipe env paths cwd save_in (c @ ''| '') True s)) 0 = Some (Pipe_read (pipes s))"
proof -
  obtain r w where p: "sys_pipe (e_nofile env) (pipes s) (fds s)
      = Some (r, w, (fds s)(r \<mapsto> Pipe_read (pipes s), w \<mapsto> Pipe_write (pipes s)))"
    and n: "fds s r = None" "fds s w = None" "r \<noteq> w" "r < e_nofile env" "w < e_nofile env"
    using pipe_roomD [OF assms(2)] by metis
  note tabs = stage_tables [OF n assms(4,5) refl, of "pipes s"]
  have e: "clean '' '' = []" by (simp add: clean_eq_ref clean_ref_def)
  have nul: "handle_pipe env paths cwd save_in [] False q = (Null, q)" for q
    by (subst handle_pipe.simps) (simp add: strtok_def)
  show ?thesis
    using assms(1,3) by (subst (1 2) handle_pipe.simps)
      (simp add: strtok_bar p Let_def tabs fork_child_def e nul)
qed

theorem blank_after_bar_loses_stdin_witness:
  "fds (snd (handle_pipe demo_sys_env [''/bin''] ''/'' 3 (''ls'' @ ''| '') True demo_system)) 0 = Some (Pipe_read 0)"
proof -
  have "stage ''ls''" by (simp add: stage_def is_blank_def)
  moreover have "fds demo_system 0 \<noteq> None" "fds demo_system 1 \<noteq> None" "pipes demo_system = 0"
    by (simp_all add: demo_system_def)
  ultimately show ?thesis
    using blank_after_bar_loses_stdin [of "''ls''" demo_sys_env demo_system "[''/bin'']" "''/''" 3] demo_room
    by (simp add: demo_sys_env_def)
qed

text \<open>
  What \<^verbatim>\<open>run_process\<close> does to the descriptors of the child: with an output redirection both standard output and
  standard error are the output file, with an input redirection standard input is the input file,
  every other descriptor is as before; a file that could not be opened makes the child exit with 1
  before it runs anything, and a command that was not found exits with 2.\<close>

theorem run_process_redirects:
  assumes "p_redirected p = ty" "p_exec_path p = Some path" "length (p_argv p) < MAX_ARGUMENTS_NUM" "e_exec_ok env d path"
    and "has_mask ty REDI_OUT_MASK \<longrightarrow> 2 < p_outfd p \<and> t (nat (p_outfd p)) = Some fo"
    and "has_mask ty REDI_IN_MASK \<longrightarrow> 2 < p_infd p \<and> t (nat (p_infd p)) = Some fi"
  shows "\<exists>t'. run_process env d p t = Exec path (p_argv p) t'
      \<and> t' 0 = (if has_mask ty REDI_IN_MASK then Some fi else t 0)
      \<and> t' 1 = (if has_mask ty REDI_OUT_MASK then Some fo else t 1)
      \<and> t' 2 = (if has_mask ty REDI_OUT_MASK then Some fo else t 2)
      \<and> (\<forall>i > 2. t' i = t i)
      \<and> run_process env d (p\<lparr>p_exec_path := None\<rparr>) t = Exit EXIT_EXEC
      \<and> (has_mask ty REDI_OUT_MASK \<longrightarrow> run_process env d (p\<lparr>p_outfd := - 1\<rparr>) t = Exit 1)"
proof -
  have "2 < x \<Longrightarrow> nat x \<noteq> 0 \<and> nat x \<noteq> 1 \<and> nat x \<noteq> 2 \<and> \<not> x < 0" for x :: int by auto
  then show ?thesis using assms
    by (cases "has_mask ty REDI_OUT_MASK"; cases "has_mask ty REDI_IN_MASK")
      (auto simp: run_process_def sys_dup2_def fileno_defs Let_def)
qed

theorem run_process_redirects_witness:
  "\<exists>t'. run_process demo_sys_env [] \<lparr>p_argv = [''ls''], p_exec_path = Some ''/bin/ls'', p_redirected = REDI_OUT, p_infd = - 1, p_outfd = 3\<rparr>
       (fds demo_system) = Exec ''/bin/ls'' [''ls''] t' \<and> t' 1 = Some (Inherited 0) \<and> t' 2 = Some (Inherited 0)"
proof -
  have "fds demo_system (nat 3) = Some (Inherited 0)" by (simp add: demo_system_def)
  then show ?thesis
    using run_process_redirects [of "\<lparr>p_argv = [''ls''], p_exec_path = Some ''/bin/ls'', p_redirected = REDI_OUT, p_infd = - 1, p_outfd = 3\<rparr>"
        REDI_OUT "''/bin/ls''" demo_sys_env "[]" "fds demo_system" "Inherited 0" "Inherited 0"]
    by (auto simp: demo_sys_env_def MAX_ARGUMENTS_NUM_def)
qed

end
