(* ===== verification/Shell_Loop.thy ===== *)
theory Shell_Loop
  imports Shell_Exec
begin

section \<open>The command loop of the shell\<close>

text \<open>
  \<^verbatim>\<open>parse_command\<close> of \<^verbatim>\<open>shell/run_command.c\<close> and \<^verbatim>\<open>shell/loop.c\<close>: the prompt, the built-in commands and
  \<^verbatim>\<open>run_shell\<close>.  The \<^verbatim>\<open>Environment\<close> is a record with the search path (the strings before the empty
  terminator of \<^verbatim>\<open>paths\<close>), the \<^verbatim>\<open>cwd\<close> array with all its bytes, and \<^verbatim>\<open>path_set_by_user\<close>.  Input is a list of
  lines: in batch mode its end stops the shell, in interactive mode the shell waits forever
  (\<open>Waits\<close>).  \<open>Undef\<close> is undefined behaviour (an overflowing array, an unterminated \<^verbatim>\<open>cwd\<close>, the missing
  return value of \<^verbatim>\<open>handle_pipe\<close>).
\<close>

definition MAX_STRCMP_N :: nat where "MAX_STRCMP_N = 1000"
definition MAX_PATH_NUM :: nat where "MAX_PATH_NUM = 100"
definition MAX_CWD :: nat where "MAX_CWD = 300"
definition DEFAULT_PATHS :: string where "DEFAULT_PATHS = ''/bin''"
definition EXIT_SUCCESS :: nat where "EXIT_SUCCESS = 0"
definition EXIT_BATCH_READ_ERROR :: nat where "EXIT_BATCH_READ_ERROR = 1"

record environment =
  paths :: "string list"
  cwd :: "char list"
  path_set_by_user :: bool

record shell =
  environ :: environment
  sys :: system
  printed :: "string list"

datatype 'a flow = Cont 'a | Shell_exit nat 'a | Undef | Waits 'a

subsection \<open>\<^verbatim>\<open>parse_command\<close>\<close>

text \<open>The loop over the commands separated by \<^verbatim>\<open>&\<close>: pipelines run at once, the others are collected.\<close>

fun command_loop ::
  "sys_env \<Rightarrow> environment \<Rightarrow> string list \<Rightarrow> process list \<Rightarrow> system \<Rightarrow> (process list \<times> system) option" where
  "command_loop env e [] procs s = Some (procs, s)"
| "command_loop env e (c # cs) procs s =
     (if clean c = [] then command_loop env e cs procs s
      else
        let (save_in, t) = sys_dup (e_nofile env) STDIN_FILENO (fds s);
            (save_out, t) = sys_dup (e_nofile env) STDOUT_FILENO t;
            s = s\<lparr>fds := t\<rparr>
        in case handle_pipe env (paths e) (cstr (cwd e)) save_in c True s of
             (No_return, s) \<Rightarrow> None
           | (Null, s) \<Rightarrow> command_loop env e cs procs s
           | (Command pipe_res, s) \<Rightarrow>
               (case handle_redirection (e_access env (wd s)) (sys_open env (wd s)) (paths e) process_init pipe_res (fds s) of
                  None \<Rightarrow> None
                | Some (p, t) \<Rightarrow> command_loop env e cs (procs @ [p]) (s\<lparr>fds := t\<rparr>)))"

definition parse_command :: "sys_env \<Rightarrow> environment \<Rightarrow> string \<Rightarrow> system \<Rightarrow> system flow" where
  "parse_command env e line s =
     (let line = clean line;
          single_commands = tokens (\<lambda>c. c = CHR ''&'') line
      in if length single_commands \<ge> MAX_ARGUMENTS_NUM then Undef
         else case command_loop env e single_commands [] s of
                None \<Rightarrow> Undef
              | Some (procs, s) \<Rightarrow>
                  if NUL \<notin> set (cwd e) then Undef
                  else case run_processes env procs (s\<lparr>wd := sys_chdir env (cstr (cwd e)) (wd s)\<rparr>) of
                         (True, s) \<Rightarrow> Cont s
                       | (False, s) \<Rightarrow> Shell_exit 1 s)"

definition run_command :: "sys_env \<Rightarrow> environment \<Rightarrow> string \<Rightarrow> system \<Rightarrow> system flow" where
  "run_command env e line s = parse_command env e line s"

subsection \<open>Built-in commands\<close>

definition error_message :: string where "error_message = ''An error has occurred''"

text \<open>\<^verbatim>\<open>strncpy(dst, src, n)\<close> fills the rest with NUL and writes no NUL when the source is as long.\<close>

definition strncpy :: "string \<Rightarrow> nat \<Rightarrow> char list" where
  "strncpy src n = take n src @ replicate (n - length src) NUL"

definition builtin_path :: "string \<Rightarrow> environment \<Rightarrow> environment option" where
  "builtin_path line e =
     (let toks = tokens (\<lambda>c. c = SPC) (drop 4 line)
      in if length toks \<ge> MAX_PATH_NUM then None
         else Some (e\<lparr>paths := toks, path_set_by_user := True\<rparr>))"

text \<open>\<open>opendir\<close> says whether the directory can be opened from the current one.\<close>

definition builtin_cd :: "sys_env \<Rightarrow> (dir \<Rightarrow> string \<Rightarrow> bool) \<Rightarrow> string \<Rightarrow> shell \<Rightarrow> shell" where
  "builtin_cd env opendir line sh =
     (let new_dir = drop 3 line
      in if opendir (wd (sys sh)) new_dir then
           sh\<lparr>environ := (environ sh)\<lparr>cwd := strncpy new_dir MAX_PATH\<rparr>,
              sys := (sys sh)\<lparr>wd := sys_chdir env new_dir (wd (sys sh))\<rparr>\<rparr>
         else sh\<lparr>printed := printed sh @ [error_message]\<rparr>)"

definition is_path_line :: "string \<Rightarrow> bool" where
  "is_path_line line \<longleftrightarrow> length line = 4 \<and> strncmp_eq line ''path'' 4 \<or> strncmp_eq line ''path '' 5"

text \<open>One round of the main loop on a line that was read.\<close>

definition shell_step :: "sys_env \<Rightarrow> (dir \<Rightarrow> string \<Rightarrow> bool) \<Rightarrow> string \<Rightarrow> shell \<Rightarrow> shell flow" where
  "shell_step env opendir line sh =
     (let line = clean line
      in if strncmp_eq line ''exit'' MAX_STRCMP_N then Shell_exit EXIT_SUCCESS sh
         else if strncmp_eq line ''help'' MAX_STRCMP_N then Cont (sh\<lparr>printed := printed sh @ [''A simple shell.'']\<rparr>)
         else if is_path_line line then
           (case builtin_path line (environ sh) of None \<Rightarrow> Undef | Some e \<Rightarrow> Cont (sh\<lparr>environ := e\<rparr>))
         else if strncmp_eq line ''cd '' 3 then Cont (builtin_cd env opendir line sh)
         else case run_command env (environ sh) line (sys sh) of
                Cont s \<Rightarrow> Cont (sh\<lparr>sys := s\<rparr>)
              | Shell_exit c s \<Rightarrow> Shell_exit c (sh\<lparr>sys := s\<rparr>)
              | Undef \<Rightarrow> Undef
              | Waits s \<Rightarrow> Waits (sh\<lparr>sys := s\<rparr>))"

fun shell_loop :: "sys_env \<Rightarrow> (dir \<Rightarrow> string \<Rightarrow> bool) \<Rightarrow> bool \<Rightarrow> string list \<Rightarrow> shell \<Rightarrow> shell flow" where
  "shell_loop env opendir batch [] sh = (if batch then Cont sh else Waits sh)"
| "shell_loop env opendir batch (line # lines) sh =
     (if line = [] then
        (if batch then Cont sh else shell_loop env opendir batch lines sh)
      else case shell_step env opendir line sh of
             Cont sh \<Rightarrow> shell_loop env opendir batch lines sh
           | r \<Rightarrow> r)"

text \<open>\<^verbatim>\<open>run_shell\<close>: \<open>getcwd\<close> is the result of \<^verbatim>\<open>getcwd(environment.cwd, MAX_CWD)\<close>, which has \<^verbatim>\<open>MAX_PATH\<close> bytes to
  go to (the bytes after its NUL, left as they were, are modelled as NUL: nothing reads them); \<open>batch\<close> is \<open>None\<close> without an argument, \<open>Some None\<close> when the file cannot be opened.\<close>

definition run_shell ::
  "sys_env \<Rightarrow> (dir \<Rightarrow> string \<Rightarrow> bool) \<Rightarrow> string \<Rightarrow> string list option option \<Rightarrow> string list \<Rightarrow> system \<Rightarrow> shell flow" where
  "run_shell env opendir getcwd batch stdin_lines s =
     (if length getcwd \<ge> MAX_PATH then Undef
      else
        let e = \<lparr>paths = [DEFAULT_PATHS], cwd = strncpy getcwd MAX_PATH, path_set_by_user = False\<rparr>;
            sh = \<lparr>environ = e, sys = s, printed = []\<rparr>
        in case batch of
             None \<Rightarrow> shell_loop env opendir False stdin_lines sh
           | Some None \<Rightarrow> Shell_exit EXIT_BATCH_READ_ERROR (sh\<lparr>printed := [error_message]\<rparr>)
           | Some (Some lines) \<Rightarrow> shell_loop env opendir True lines sh)"

definition seush_main ::
  "sys_env \<Rightarrow> (dir \<Rightarrow> string \<Rightarrow> bool) \<Rightarrow> string \<Rightarrow> (string \<Rightarrow> string list option) \<Rightarrow> string list \<Rightarrow> string list \<Rightarrow> system \<Rightarrow> shell flow" where
  "seush_main env opendir getcwd fopen argv stdin_lines s =
     (if length argv \<ge> 3 then
        Shell_exit 1 \<lparr>environ = \<lparr>paths = [], cwd = [], path_set_by_user = False\<rparr>, sys = s, printed = [error_message]\<rparr>
      else if length argv = 2 then run_shell env opendir getcwd (Some (fopen (argv ! 1))) stdin_lines s
      else run_shell env opendir getcwd None stdin_lines s)"

subsection \<open>The prompt\<close>

definition ESC :: char where "ESC = CHR 0x1B"

definition print_prompt :: "string \<Rightarrow> string \<Rightarrow> bool \<Rightarrow> environment \<Rightarrow> string" where
  "print_prompt login host is_root e =
     [ESC] @ ''[32;40m'' @ login @ ''@'' @ host @ [ESC] @ ''[0m:'' @ [ESC] @ ''[0;31m''
     @ take MAX_PATH (cstr (cwd e)) @ [ESC] @ (if is_root then ''[0m# '' else ''[0m$ '')"

subsection \<open>Lemmas on the command loop\<close>

definition free_count :: "nat \<Rightarrow> fdtab \<Rightarrow> nat" where
  "free_count n t = card {i. i < n \<and> t i = None}"

text \<open>\<^verbatim>\<open>dup\<close> of an open descriptor uses up one free descriptor, if there is one, and touches no open one.\<close>

lemma sys_dup_count:
  assumes "t fd \<noteq> None"
  shows "free_count n (snd (sys_dup n fd t)) = free_count n t - 1"
    and "t j \<noteq> None \<Longrightarrow> snd (sys_dup n fd t) j = t j"
proof -
  obtain f where f: "t fd = Some f" using assms by blast
  show "free_count n (snd (sys_dup n fd t)) = free_count n t - 1"
  proof (cases "free_fd n t")
    case None
    then have "{i. i < n \<and> t i = None} = {}" by (auto simp: free_fd_def find_None_iff)
    then have "free_count n t = 0" unfolding free_count_def by (simp only: card.empty)
    then show ?thesis using None f by (simp add: sys_dup_def)
  next
    case (Some i)
    then have i: "t i = None" "i < n" using free_fd_Some by blast+
    have "{x. x < n \<and> (t(i \<mapsto> f)) x = None} = {x. x < n \<and> t x = None} - {i}" by auto
    then show ?thesis using Some f i by (simp add: sys_dup_def free_count_def card_Diff_singleton)
  qed
  show "t j \<noteq> None \<Longrightarrow> snd (sys_dup n fd t) j = t j"
    using f free_fd_Some by (fastforce simp: sys_dup_def split: option.splits)
qed

lemma tokens_join:
  "list_all (\<lambda>c. c \<noteq> [] \<and> b \<notin> set c) cs \<Longrightarrow> split_words (\<lambda>x. x = b) [] (join_with b cs) = cs"
proof (induction b cs rule: join_with.induct)
  case (2 b c)
  then show ?case using split_words_plain [of c "\<lambda>x. x = b" "[]" "[]"] by auto
next
  case (3 b c d cs)
  then show ?case using split_words_plain [of c "\<lambda>x. x = b" "[]" "b # join_with b (d # cs)"] by auto
qed simp

text \<open>A simple command: plain words without the two separators.\<close>

definition simple :: "string list \<Rightarrow> bool" where
  "simple ws \<longleftrightarrow> ws \<noteq> [] \<and> list_all plain ws \<and> list_all (\<lambda>w. CHR ''|'' \<notin> set w \<and> CHR ''&'' \<notin> set w) ws
     \<and> length (unwords ws) < 200 \<and> length ws < MAX_ARGUMENTS_NUM"

lemma single_blanks_plain: "\<forall>c \<in> set w. \<not> is_blank c \<Longrightarrow> single_blanks w"
  by (induction w rule: single_blanks.induct) auto

lemma single_blanks_word:
  "\<forall>c \<in> set w. \<not> is_blank c \<Longrightarrow> w \<noteq> [] \<Longrightarrow> single_blanks s \<Longrightarrow> s \<noteq> [] \<Longrightarrow> \<not> is_blank (hd s) \<Longrightarrow> single_blanks (w @ SPC # s)"
  by (induction w rule: single_blanks.induct) (auto simp: single_blanks_Cons)

lemma hd_plain: "plain w \<Longrightarrow> \<not> is_blank (hd w) \<and> \<not> is_blank (last w)"
  using plain_not_blank plainD(4) by (metis hd_in_set last_in_set)

lemma unwords_normal:
  "list_all plain ws \<Longrightarrow> ws \<noteq> [] \<Longrightarrow> single_blanks (unwords ws) \<and> \<not> is_blank (hd (unwords ws)) \<and> \<not> is_blank (last (unwords ws))"
proof (induction ws rule: unwords.induct)
  case (2 w)
  then show ?case using single_blanks_plain plain_not_blank hd_plain by auto
next
  case (3 w v ws)
  then have w: "\<forall>c \<in> set w. \<not> is_blank c" "w \<noteq> []" "\<not> is_blank (hd w)"
    using plain_not_blank plainD(4) [of w] hd_plain [of w] by auto
  moreover have "unwords (v # ws) \<noteq> []" using "3.prems" unwords_ne [of "v # ws"] by simp
  ultimately show ?case using 3 single_blanks_word by auto
qed simp

lemma unwords_no_NL: "list_all plain ws \<Longrightarrow> NL \<notin> set (unwords ws)"
  using unwords_ok [of ws] by (auto simp: list_all_iff scan_ok_def)

lemma unwords_char:
  "list_all (\<lambda>w. c \<notin> set w) ws \<Longrightarrow> c \<noteq> SPC \<Longrightarrow> c \<notin> set (unwords ws)"
  by (induction ws rule: unwords.induct) auto

lemma simple_normal:
  assumes "simple ws" "b = CHR ''|'' \<or> b = CHR ''&''"
  shows "normal_without b (unwords ws)"
proof -
  have p: "list_all plain ws" "ws \<noteq> []" and b: "list_all (\<lambda>w. b \<notin> set w) ws"
    using assms by (auto simp: simple_def list_all_iff)
  have "b \<notin> set (unwords ws)" using unwords_char [OF b] assms(2) by auto
  then show ?thesis
    using unwords_normal [OF p] unwords_ok [OF p(1)] unwords_no_NL [OF p(1)] unwords_ne [OF p]
    by (simp add: normal_without_def)
qed

definition resolve :: "sys_env \<Rightarrow> dir \<Rightarrow> string list \<Rightarrow> string \<Rightarrow> string option" where
  "resolve env d ps cmd = (if e_access env d cmd then Some cmd else find_exec (e_access env d) ps cmd)"

definition simple_process :: "sys_env \<Rightarrow> dir \<Rightarrow> string list \<Rightarrow> string list \<Rightarrow> process" where
  "simple_process env d ps ws = process_init\<lparr>p_argv := ws, p_exec_path := resolve env d ps (hd ws)\<rparr>"

lemma handle_redirection_simple:
  assumes "simple ws"
  shows "handle_redirection (e_access env d) op ps process_init (unwords ws) t = Some (simple_process env d ps ws, t)"
proof -
  have s: "scan_command (unwords ws) = Some (NO_REDI, unwords ws, [], [])"
    using assms by (intro scan_no_redir) (simp_all add: simple_def)
  have a: "tokens (\<lambda>c. c = SPC) (clean (unwords ws)) = ws" using assms argv_of_render by (simp add: simple_def)
  have l: "lookup_exec (e_access env d) ps ws = Some (resolve env d ps (hd ws))"
    using assms by (cases ws) (simp_all add: lookup_exec_def simple_def resolve_def)
  show ?thesis using assms
    by (simp add: handle_redirection_def s a l simple_def simple_process_def process_init_def)
qed

text \<open>The loop on simple commands: it collects one process per command and keeps what was open.\<close>

lemma command_loop_simple:
  assumes "list_all simple cs" "fds s 0 \<noteq> None" "fds s 1 \<noteq> None"
  shows "\<exists>t. command_loop env e (map unwords cs) procs s
      = Some (procs @ map (simple_process env (wd s) (paths e)) cs, s\<lparr>fds := t\<rparr>)
    \<and> free_count (e_nofile env) t = free_count (e_nofile env) (fds s) - 2 * length cs
    \<and> (\<forall>j. fds s j \<noteq> None \<longrightarrow> t j = fds s j)"
  using assms
proof (induction cs arbitrary: procs s)
  case Nil
  then show ?case by (intro exI [of _ "fds s"]) simp
next
  case (Cons ws cs)
  have sm: "simple ws" using Cons.prems by simp
  let ?n = "e_nofile env"
  let ?t1 = "snd (sys_dup ?n STDIN_FILENO (fds s))"
  let ?t2 = "snd (sys_dup ?n STDOUT_FILENO ?t1)"
  have keep1: "fds s j \<noteq> None \<Longrightarrow> ?t1 j = fds s j" for j
    using sys_dup_count(2) [of "fds s" STDIN_FILENO j ?n] Cons.prems by (simp add: fileno_defs)
  have open1: "?t1 STDOUT_FILENO \<noteq> None" using keep1 [of 1] Cons.prems by (simp add: fileno_defs)
  have keep2: "fds s j \<noteq> None \<Longrightarrow> ?t2 j = fds s j" for j
    using sys_dup_count(2) [of ?t1 STDOUT_FILENO j ?n] open1 keep1 [of j] by simp
  have count: "free_count ?n ?t2 = free_count ?n (fds s) - 2"
    using sys_dup_count(1) [of "fds s" STDIN_FILENO ?n] sys_dup_count(1) [of ?t1 STDOUT_FILENO ?n] open1 Cons.prems
    by (simp add: fileno_defs)
  have n: "stage (unwords ws)" using simple_normal [OF sm] by simp
  have p: "handle_pipe env (paths e) w sv (unwords ws) True u = (Command (unwords ws), u)" for w sv u
    using n by (subst handle_pipe.simps) (simp add: strtok_stage clean_stage)
  obtain t where "command_loop env e (map unwords cs) (procs @ [simple_process env (wd s) (paths e) ws]) (s\<lparr>fds := ?t2\<rparr>)
      = Some ((procs @ [simple_process env (wd s) (paths e) ws]) @ map (simple_process env (wd s) (paths e)) cs,
          s\<lparr>fds := t\<rparr>)"
    and "free_count ?n t = free_count ?n ?t2 - 2 * length cs" "\<forall>j. ?t2 j \<noteq> None \<longrightarrow> t j = ?t2 j"
    using Cons.IH [of "s\<lparr>fds := ?t2\<rparr>" "procs @ [simple_process env (wd s) (paths e) ws]"] Cons.prems keep2 by auto
  moreover have "clean (unwords ws) \<noteq> []" using clean_stage [OF n] n by (simp add: normal_without_def)
  ultimately show ?case
    using keep2 count by (intro exI [of _ t])
      (auto simp: p handle_redirection_simple [OF sm] Let_def split_beta)
qed

lemma run_processes_all:
  assumes "\<forall>n. e_fork_ok env n"
  shows "\<exists>n. run_processes env ps s = (True, s\<lparr>forks := n, log := log s
      @ map (\<lambda>p. \<lparr>c_line = unwords (p_argv p), c_fds = fds s, c_outcome = run_process env (wd s) p (fds s)\<rparr>) ps\<rparr>)"
proof (induction ps arbitrary: s)
  case Nil
  then show ?case by (intro exI [of _ "forks s"]) simp
next
  case (Cons p ps)
  show ?case using Cons [of "s\<lparr>forks := forks s + 1, log := log s @ [\<lparr>c_line = unwords (p_argv p), c_fds = fds s,
        c_outcome = run_process env (wd s) p (fds s)\<rparr>]\<rparr>"] assms
    by (auto simp: Let_def)
qed

lemma parse_command_simple:
  assumes "list_all simple cs" "cs \<noteq> []" "length cs < MAX_ARGUMENTS_NUM" "\<forall>n. e_fork_ok env n"
    and "NUL \<in> set (cwd e)" "fds s 0 \<noteq> None" "fds s 1 \<noteq> None"
  shows "\<exists>s'. parse_command env e (join_with CHR ''&'' (map unwords cs)) s = Cont s'
    \<and> log s' = log s @ map (\<lambda>ws. \<lparr>c_line = unwords ws, c_fds = fds s',
        c_outcome = run_process env (wd s') (simple_process env (wd s) (paths e) ws) (fds s')\<rparr>) cs
    \<and> wd s' = sys_chdir env (cstr (cwd e)) (wd s)
    \<and> free_count (e_nofile env) (fds s') = free_count (e_nofile env) (fds s) - 2 * length cs
    \<and> (\<forall>j. fds s j \<noteq> None \<longrightarrow> fds s' j = fds s j)"
proof -
  let ?line = "join_with CHR ''&'' (map unwords cs)"
  have n: "list_all (normal_without CHR ''&'') (map unwords cs)"
    using assms(1) simple_normal by (simp add: list_all_iff)
  then have "clean ?line = ?line" using assms(2) by (intro clean_join) auto
  moreover have "tokens (\<lambda>c. c = CHR ''&'') ?line = map unwords cs"
    unfolding tokens_split using n by (intro tokens_join) (auto simp: list_all_iff normal_without_def)
  moreover obtain t where t: "command_loop env e (map unwords cs) [] s
      = Some (map (simple_process env (wd s) (paths e)) cs, s\<lparr>fds := t\<rparr>)"
    "free_count (e_nofile env) t = free_count (e_nofile env) (fds s) - 2 * length cs"
    "\<forall>j. fds s j \<noteq> None \<longrightarrow> t j = fds s j"
    using command_loop_simple [OF assms(1,6,7), of env e "[]"] by auto
  let ?d = "sys_chdir env (cstr (cwd e)) (wd s)"
  obtain k where "run_processes env (map (simple_process env (wd s) (paths e)) cs) (s\<lparr>fds := t, wd := ?d\<rparr>)
      = (True, s\<lparr>fds := t, wd := ?d, forks := k, log := log s @ map (\<lambda>p. \<lparr>c_line = unwords (p_argv p), c_fds = t,
          c_outcome = run_process env ?d p t\<rparr>) (map (simple_process env (wd s) (paths e)) cs)\<rparr>)"
    using run_processes_all [OF assms(4), of "map (simple_process env (wd s) (paths e)) cs" "s\<lparr>fds := t, wd := ?d\<rparr>"]
    by auto
  ultimately show ?thesis using assms(3,5) t
    by (simp add: parse_command_def o_def simple_process_def)
qed

subsection \<open>Lines that are and are not built-in\<close>

lemma strncpy_terminated: "length d < n \<Longrightarrow> strncpy d n = d @ NUL # replicate (n - length d - 1) NUL"
  by (simp add: strncpy_def Suc_diff_Suc flip: replicate_Suc)

lemma clean_line: "normal_without b c \<Longrightarrow> clean (c @ [NL]) = c"
proof -
  assume n: "normal_without b c"
  have sq: "single_blanks s \<Longrightarrow> NUL \<notin> set s \<Longrightarrow> NL \<notin> set s \<Longrightarrow> squeeze (s @ [NL]) = s" for s
  proof (induction s)
    case (Cons x xs)
    then have "is_blank x \<Longrightarrow> dropWhile is_blank (xs @ [NL]) = xs @ [NL]" by (cases xs) auto
    then show ?case using Cons by (auto simp: single_blanks_Cons)
  qed simp
  have "dropWhile is_blank (c @ [NL]) = c @ [NL]" using n by (cases c) (auto simp: normal_without_def)
  moreover have "rstrip c = c"
    using n by (metis append_butlast_last_id normal_without_def rstrip_snoc)
  ultimately show "clean (c @ [NL]) = c"
    using n sq [of c] by (simp add: clean_eq_ref clean_ref_def normal_without_def)
qed

lemma strncmp_eq_word:
  assumes "strncmp_eq line w n" "NUL \<notin> set line" "NUL \<notin> set w" "length w < n"
  shows "line = w"
proof -
  have "take n line = w" using assms by (simp add: strncmp_eq_iff)
  moreover then have "length line < n" using assms(4) by auto
  ultimately show ?thesis by simp
qed

lemma strncmp_eq_blank:
  assumes "strncmp_eq line (w @ '' '') (Suc (length w))" "NUL \<notin> set line" "NUL \<notin> set w"
  shows "\<exists>r. line = w @ SPC # r"
proof -
  have "NUL \<notin> set (w @ '' '')" using assms(3) by simp
  then have "take (Suc (length w)) line = w @ '' ''"
    using assms(1,2) by (simp only: strncmp_eq_iff cstr_id) simp
  then have "line = (w @ '' '') @ drop (Suc (length w)) line" by (metis append_take_drop_id)
  then show ?thesis by auto
qed

lemma first_word:
  assumes "list_all plain ws" "unwords ws = w @ SPC # r" "plain w"
  shows "hd ws = w"
proof -
  have "ws = split_words is_blank [] (w @ SPC # r)" using tokens_unwords [OF assms(1)] assms(2) by simp
  also have "\<dots> = w # split_words is_blank [] r"
    using split_words_plain [of w is_blank "[]"] plain_not_blank [OF assms(3)] plainD(4) [OF assms(3)] by simp
  finally show ?thesis by simp
qed

lemma only_word: "list_all plain ws \<Longrightarrow> unwords ws = w \<Longrightarrow> plain w \<Longrightarrow> ws = [w]"
  using tokens_unwords [of ws] tokens_unwords [of "[w]"] by simp

lemma plain_builtins: "plain ''exit''" "plain ''help''" "plain ''path''" "plain ''cd''"
  by (simp_all add: plain_def scan_ok_def isspace_def)

lemma shell_step_command:
  assumes "simple ws" "hd ws \<notin> {''exit'', ''help'', ''path'', ''cd''}"
  shows "shell_step env opendir (unwords ws @ [NL]) sh =
     (case run_command env (environ sh) (unwords ws) (sys sh) of
        Cont s \<Rightarrow> Cont (sh\<lparr>sys := s\<rparr>)
      | Shell_exit c s \<Rightarrow> Shell_exit c (sh\<lparr>sys := s\<rparr>)
      | Undef \<Rightarrow> Undef
      | Waits s \<Rightarrow> Waits (sh\<lparr>sys := s\<rparr>))"
proof -
  have p: "list_all plain ws" using assms(1) by (simp add: simple_def)
  have nul: "NUL \<notin> set (unwords ws)" using unwords_ok [OF p] by simp
  have c: "clean (unwords ws @ [NL]) = unwords ws"
    using simple_normal [OF assms(1)] clean_line by blast
  have word: "unwords ws \<noteq> w" if "w \<in> {''exit'', ''help'', ''path''}" for w
    using only_word [OF p, of w] that plain_builtins assms(2) by auto
  have "\<not> strncmp_eq (unwords ws) w MAX_STRCMP_N" if "w \<in> {''exit'', ''help''}" for w
  proof
    assume "strncmp_eq (unwords ws) w MAX_STRCMP_N"
    moreover have "NUL \<notin> set w" "length w < MAX_STRCMP_N" using that by (auto simp: MAX_STRCMP_N_def)
    ultimately have "unwords ws = w" using strncmp_eq_word nul by blast
    then show False using word [of w] that by blast
  qed
  moreover have "\<not> is_path_line (unwords ws)"
    unfolding is_path_line_def
    using strncmp_eq_blank [of "unwords ws" "''path''"] first_word [OF p _ plain_builtins(3)] nul assms(2) word
    by (auto simp: numeral_eq_Suc strncmp_eq_iff simp del: strncmp_eq.simps)
  moreover have "\<not> strncmp_eq (unwords ws) ''cd '' 3"
    using strncmp_eq_blank [of "unwords ws" "''cd''"] first_word [OF p _ plain_builtins(4)] nul assms(2)
    by (auto simp: numeral_eq_Suc)
  ultimately show ?thesis by (simp add: shell_step_def c)
qed

lemma builtin_normal:
  assumes "list_all plain ws" "ws \<noteq> []"
  shows "clean (unwords ws @ [NL]) = unwords ws" "NUL \<notin> set (unwords ws)"
proof -
  have "NUL \<notin> set (unwords ws)" using unwords_ok [OF assms(1)] by simp
  then have "normal_without NUL (unwords ws)"
    using unwords_normal [OF assms] unwords_no_NL [OF assms(1)] unwords_ne [OF assms] by (simp add: normal_without_def)
  then show "clean (unwords ws @ [NL]) = unwords ws" by (rule clean_line)
  show "NUL \<notin> set (unwords ws)" by fact
qed

lemma shell_step_path:
  assumes "list_all plain ds" "length ds < MAX_PATH_NUM"
  shows "shell_step env opendir (unwords (''path'' # ds) @ [NL]) sh
     = Cont (sh\<lparr>environ := (environ sh)\<lparr>paths := ds, path_set_by_user := True\<rparr>\<rparr>)"
proof -
  have p: "list_all plain (''path'' # ds)" using assms(1) plain_builtins by simp
  note c = builtin_normal [OF p]
  have u: "unwords (''path'' # ds) = ''path'' @ (if ds = [] then [] else SPC # unwords ds)" by (cases ds) auto
  have "tokens (\<lambda>c. c = SPC) (drop 4 (unwords (''path'' # ds))) = ds"
  proof -
    have "\<forall>x \<in> set (unwords ds). (x = SPC) = is_blank x"
      using unwords_ok [OF assms(1)] by (auto simp: list_all_iff is_blank_def scan_ok_def)
    then have "split_words (\<lambda>c. c = SPC) [] (unwords ds) = ds"
      using split_words_cong [of "unwords ds" "\<lambda>c. c = SPC" is_blank "[]"] tokens_unwords [OF assms(1)] by simp
    then show ?thesis by (simp add: u tokens_split)
  qed
  moreover have "is_path_line (unwords (''path'' # ds))"
    using c(2) by (auto simp: is_path_line_def u strncmp_eq_iff cstr_Cons)
  moreover have "\<not> strncmp_eq (unwords (''path'' # ds)) ''exit'' MAX_STRCMP_N" "\<not> strncmp_eq (unwords (''path'' # ds)) ''help'' MAX_STRCMP_N"
    by (auto simp: u strncmp_eq_iff cstr_Cons MAX_STRCMP_N_def)
  ultimately show ?thesis using assms(2) c(1) by (simp add: shell_step_def builtin_path_def)
qed

lemma sys_chdir_idem:
  "\<forall>d1 d2. e_chdir env d1 d = e_chdir env d2 d \<Longrightarrow> sys_chdir env d (sys_chdir env d w) = sys_chdir env d w"
  unfolding sys_chdir_def by (metis option.case_eq_if)

lemma shell_step_cd:
  assumes "plain d" "opendir (wd (sys sh)) d"
  shows "shell_step env opendir (''cd '' @ d @ [NL]) sh
     = Cont (sh\<lparr>environ := (environ sh)\<lparr>cwd := strncpy d MAX_PATH\<rparr>,
                sys := (sys sh)\<lparr>wd := sys_chdir env d (wd (sys sh))\<rparr>\<rparr>)"
proof -
  have p: "list_all plain [''cd'', d]" using assms(1) plain_builtins by simp
  note c = builtin_normal [OF p, simplified]
  show ?thesis using c assms(2)
    by (simp add: shell_step_def is_path_line_def strncmp_eq_iff cstr_Cons MAX_STRCMP_N_def builtin_cd_def)
qed

subsection \<open>Properties\<close>

text \<open>
  C14: Commands separated by \<^verbatim>\<open>&\<close> all run: \<^verbatim>\<open>parse_command\<close> starts one child per command, in order, with
  exactly the words of the command as \<^verbatim>\<open>argv\<close>, the executable found through the search path (a child
  whose command is not found exits with 2), and the shell's own standard input and output; then
  the shell goes on.  It does so with fewer descriptors: two per command are duplicated and never
  closed.\<close>

theorem parse_command_runs_all:
  assumes "list_all simple cs" "cs \<noteq> []" "length cs < MAX_ARGUMENTS_NUM" "\<forall>n. e_fork_ok env n"
    and "NUL \<in> set (cwd e)" "fds s 0 \<noteq> None" "fds s 1 \<noteq> None"
  shows "\<exists>s'. parse_command env e (join_with CHR ''&'' (map unwords cs)) s = Cont s'
    \<and> log s' = log s @ map (\<lambda>ws. \<lparr>c_line = unwords ws, c_fds = fds s', c_outcome =
        (case resolve env (wd s) (paths e) (hd ws) of
           None \<Rightarrow> Exit EXIT_EXEC
         | Some path \<Rightarrow> if e_exec_ok env (wd s') path then Exec path ws (fds s') else Exit EXIT_EXEC)\<rparr>) cs
    \<and> fds s' 0 = fds s 0 \<and> fds s' 1 = fds s 1
    \<and> free_count (e_nofile env) (fds s') = free_count (e_nofile env) (fds s) - 2 * length cs"
proof -
  have r: "run_process env d (simple_process env d' ps ws) t =
      (case resolve env d' ps (hd ws) of None \<Rightarrow> Exit EXIT_EXEC
       | Some path \<Rightarrow> if e_exec_ok env d path then Exec path ws t else Exit EXIT_EXEC)" if "ws \<in> set cs" for ws d d' ps t
  proof -
    have "length ws < MAX_ARGUMENTS_NUM" using that assms(1) by (auto simp: list_all_iff simple_def)
    then show ?thesis by (simp add: run_process_def simple_process_def process_init_def split: option.splits)
  qed
  show ?thesis
    using parse_command_simple [OF assms] assms(6,7) by (auto simp: r cong: map_cong)
qed

theorem parse_command_runs_all_witness:
  "\<exists>s'. parse_command demo_sys_env \<lparr>paths = [''/bin''], cwd = [NUL], path_set_by_user = False\<rparr> ''ls -l&wc'' demo_system = Cont s'
     \<and> map c_line (log s') = [''ls -l'', ''wc''] \<and> fds s' 0 = Some (Inherited 0)"
proof -
  have "list_all simple [[''ls'', ''-l''], [''wc'']]"
    by (simp add: simple_def plain_def scan_ok_def isspace_def MAX_ARGUMENTS_NUM_def)
  moreover have "fds demo_system 0 = Some (Inherited 0)" "fds demo_system 1 = Some (Inherited 1)" "log demo_system = []"
    by (simp_all add: demo_system_def)
  moreover have "e_fork_ok demo_sys_env n" for n by (simp add: demo_sys_env_def)
  ultimately show ?thesis
    using parse_command_runs_all [of "[[''ls'', ''-l''], [''wc'']]" demo_sys_env
        "\<lparr>paths = [''/bin''], cwd = [NUL], path_set_by_user = False\<rparr>" demo_system]
    by (auto simp: MAX_ARGUMENTS_NUM_def)
qed

text \<open>
  \<^verbatim>\<open>path d1 ... dn\<close> replaces the search path by exactly those directories, in that order, and \<^verbatim>\<open>path\<close> alone empties it,
  so that only commands given with their own path are found; nothing else of the shell changes.\<close>

theorem path_builtin_sets_path:
  assumes "list_all plain ds" "length ds < MAX_PATH_NUM"
  shows "\<exists>sh'. shell_step env opendir (unwords (''path'' # ds) @ [NL]) sh = Cont sh'
    \<and> paths (environ sh') = ds \<and> sys sh' = sys sh \<and> cwd (environ sh') = cwd (environ sh)
    \<and> (ds = [] \<longrightarrow> resolve env d (paths (environ sh')) cmd = (if e_access env d cmd then Some cmd else None))"
  using shell_step_path [OF assms] by (auto simp: resolve_def)

definition demo_shell :: shell where
  "demo_shell = \<lparr>environ = \<lparr>paths = [DEFAULT_PATHS], cwd = strncpy ''/'' MAX_PATH, path_set_by_user = False\<rparr>,
     sys = demo_system\<lparr>wd := [''a'', ''b'', ''c'']\<rparr>, printed = []\<rparr>"

theorem path_builtin_sets_path_witness:
  "\<exists>sh'. shell_step demo_sys_env (\<lambda>_ _. True) (''path /bin /usr/bin'' @ [NL]) demo_shell = Cont sh'
     \<and> paths (environ sh') = [''/bin'', ''/usr/bin'']"
proof -
  have "list_all plain [''/bin'', ''/usr/bin'']" by (simp add: plain_def scan_ok_def isspace_def)
  then show ?thesis
    using path_builtin_sets_path [of "[''/bin'', ''/usr/bin'']" demo_sys_env "\<lambda>_ _. True" demo_shell "[]" "[]"]
    by (auto simp: MAX_PATH_NUM_def)
qed

text \<open>
  \<^verbatim>\<open>cd d\<close> changes to \<open>d\<close>, and every command after it changes to \<open>d\<close> once more, starting from
  where the shell already is: the command runs in the right directory if \<open>d\<close> is absolute, but after
  \<^verbatim>\<open>cd ..\<close> each command climbs one directory further.\<close>

theorem cd_repeated_by_commands:
  assumes "plain d" "length d < MAX_PATH" "opendir (wd (sys sh)) d"
    and "simple ws" "hd ws \<notin> {''exit'', ''help'', ''path'', ''cd''}" "\<forall>n. e_fork_ok env n"
    and "fds (sys sh) 0 \<noteq> None" "fds (sys sh) 1 \<noteq> None"
  shows "\<exists>sh'. shell_loop env opendir True [''cd '' @ d @ [NL], unwords ws @ [NL]] sh = Cont sh'
    \<and> wd (sys sh') = sys_chdir env d (sys_chdir env d (wd (sys sh)))
    \<and> ((\<forall>d1 d2. e_chdir env d1 d = e_chdir env d2 d) \<longrightarrow> wd (sys sh') = sys_chdir env d (wd (sys sh)))"
proof -
  let ?s = "(sys sh)\<lparr>wd := sys_chdir env d (wd (sys sh))\<rparr>"
  let ?sh = "sh\<lparr>environ := (environ sh)\<lparr>cwd := strncpy d MAX_PATH\<rparr>, sys := ?s\<rparr>"
  have d: "cstr (strncpy d MAX_PATH) = d" "NUL \<in> set (strncpy d MAX_PATH)"
    using strncpy_terminated [OF assms(2)] plainD(3) [OF assms(1)] by simp_all
  have "length [ws] < MAX_ARGUMENTS_NUM" by (simp add: MAX_ARGUMENTS_NUM_def)
  then obtain s' where "parse_command env (environ ?sh) (unwords ws) ?s = Cont s'" "wd s' = sys_chdir env d (wd ?s)"
    using parse_command_simple [of "[ws]" env "environ ?sh" ?s] assms(4,6,7,8) d by auto
  then show ?thesis
    using shell_step_cd [of d opendir sh env, OF assms(1,3)] shell_step_command [OF assms(4,5), of env opendir ?sh]
    by (auto simp: run_command_def sys_chdir_idem)
qed

definition climb_env :: sys_env where
  "climb_env = demo_sys_env\<lparr>e_chdir := (\<lambda>d p. if p = ''..'' then Some (butlast d) else None)\<rparr>"

theorem cd_repeated_by_commands_witness:
  "\<exists>sh'. shell_loop climb_env (\<lambda>_ _. True) True [''cd '' @ ''..'' @ [NL], unwords [''ls''] @ [NL]] demo_shell = Cont sh'
     \<and> wd (sys sh') = [''a'']"
proof -
  have "plain ''..''" "simple [''ls'']"
    by (simp_all add: plain_def scan_ok_def isspace_def simple_def MAX_ARGUMENTS_NUM_def)
  then show ?thesis
    using cd_repeated_by_commands [of "''..''" "\<lambda>_ _. True" demo_shell "[''ls'']" climb_env]
    by (auto simp: climb_env_def demo_sys_env_def demo_shell_def demo_system_def sys_chdir_def MAX_PATH_def)
qed

end
