(* ===== verification/Spec2Isabelle.thy ===== *)
theory Spec2Isabelle
  imports Osexp_Prelude Runs Task Hide Proc_Hide Dir_Walk Proc_Inode Proc_Pid Proc_Tables Proc_Task
    Unwind Fork Task_Flags Wait_Loop Resched Clone Unshare Task_Stack Mm_Life Mm_Start Task_Life Fork_Fields Process_Tree Proc_Number Proc_Mem Proc_Info Proc_Link Proc_Map_Files
    Proc_Settings Proc_Timers Proc_Register Proc_Dentry Proc_Ops System Requirements Syscall Shell_Clean Shell_Parse Shell_Exec Shell_Loop
begin

text \<open>
  The repository holds two programs.  The larger is a patch of Linux 5.13.10 (\<^verbatim>\<open>src/hide_processes_system_call/patch\<close>) that lets
  root hide processes: a field \<^verbatim>\<open>cloak\<close> of \<^verbatim>\<open>task_struct\<close>, a global \<^verbatim>\<open>hidden_flag\<close>, two system calls that set the field, two files in \<^verbatim>\<open>/proc\<close>,
  and a test of both in the lookup and in the listing of \<^verbatim>\<open>/proc\<close>.  The patched files come whole, so the code that \<^verbatim>\<open>cloak\<close> passes through
  (\<^verbatim>\<open>kernel/fork.c\<close>, \<^verbatim>\<open>fs/proc/base.c\<close>, \<^verbatim>\<open>include/linux/sched.h\<close>) is part of the program.  The smaller is a shell (\<^verbatim>\<open>src/shell\<close>) with
  redirections, pipelines, background commands and four built-in commands.

  \<^bold>\<open>Parts and theories.\<close>  Paths of the kernel are below \<^verbatim>\<open>src/hide_processes_system_call/patch\<close>.

  \<^item> \<^verbatim>\<open>Osexp_Prelude\<close>: error numbers, C strings and buffers, printing of numbers, list and word lemmas.  \<^verbatim>\<open>Runs\<close>: runs of labelled steps, with the
    locales \<^verbatim>\<open>labelled\<close> (invariants along runs) and \<^verbatim>\<open>simulation\<close> (an abstract machine serves the requests of a run).  \<^verbatim>\<open>Unwind\<close>: functions that
    acquire step by step and clean up through a ladder of labels, locale \<^verbatim>\<open>goto_unwind\<close>.  \<^verbatim>\<open>Dir_Walk\<close>: reading a directory through an
    actor, locales \<^verbatim>\<open>resumable_dir\<close> and \<^verbatim>\<open>positional_dir\<close>.
  \<^item> \<^verbatim>\<open>Task\<close>, \<^verbatim>\<open>Task_Flags\<close> (\<^verbatim>\<open>include/linux/sched.h\<close>): the record of a task with the fields the modelled code uses, the store \<^verbatim>\<open>kernel\<close>, task
    states, flags and the inline helpers; locales \<^verbatim>\<open>sticky_flag\<close> and \<^verbatim>\<open>task_flag\<close> for the atomic flags.  \<^verbatim>\<open>Wait_Loop\<close>: the macros that change the state of
    the running task, run against a wakeup on a memory with store buffers.  \<^verbatim>\<open>Resched\<close>: \<^verbatim>\<open>cond_resched\<close> and its variants.
  \<^item> \<^verbatim>\<open>Hide\<close> (\<^verbatim>\<open>kernel/hide.c\<close>, \<^verbatim>\<open>kernel/hide_user_processes.c\<close>): the two system calls.  Locales \<^verbatim>\<open>cloak_store\<close> and \<^verbatim>\<open>cloak_walk\<close>.
  \<^item> \<^verbatim>\<open>Proc_Hide\<close>, \<^verbatim>\<open>Proc_Register\<close> (\<^verbatim>\<open>fs/proc/hide.c\<close>, \<^verbatim>\<open>fs/proc/hidden_process.c\<close>): the handlers of \<^verbatim>\<open>/proc/hide\<close> and \<^verbatim>\<open>/proc/hidden_process\<close>, and their
    registration.
  \<^item> \<^verbatim>\<open>fs/proc/base.c\<close>: \<^verbatim>\<open>Proc_Inode\<close> (rights, owners and inodes), \<^verbatim>\<open>Proc_Pid\<close> (lookup and listing of \<^verbatim>\<open>/proc\<close>), \<^verbatim>\<open>Proc_Dentry\<close> (cached inodes and
    flushing), \<^verbatim>\<open>Proc_Tables\<close> (the tables behind \<^verbatim>\<open>/proc/<pid>\<close>, their lookup and listing; locale \<^verbatim>\<open>table_dir\<close>), \<^verbatim>\<open>Proc_Task\<close> (threads), \<^verbatim>\<open>Proc_Number\<close>
    (numbers and names; locale \<^verbatim>\<open>proc_file\<close>), \<^verbatim>\<open>Proc_Mem\<close> (memory; locale \<^verbatim>\<open>chunked\<close>), \<^verbatim>\<open>Proc_Info\<close> (status files; locales \<^verbatim>\<open>guarded_show\<close>
    and \<^verbatim>\<open>refusing_show\<close>), \<^verbatim>\<open>Proc_Link\<close> (locale \<^verbatim>\<open>link_target\<close>), \<^verbatim>\<open>Proc_Map_Files\<close>, \<^verbatim>\<open>Proc_Settings\<close> (audit ids, time namespace, attributes, id
    maps, scheduling; locale \<^verbatim>\<open>ns_file\<close>), \<^verbatim>\<open>Proc_Timers\<close>, \<^verbatim>\<open>Proc_Ops\<close>
    (operation tables and open functions; locale \<^verbatim>\<open>single_file\<close>).
  \<^item> \<^verbatim>\<open>kernel/fork.c\<close>: \<^verbatim>\<open>Fork\<close> (\<^verbatim>\<open>copy_process\<close>), \<^verbatim>\<open>Fork_Fields\<close> (the other fields of a new task), \<^verbatim>\<open>Clone\<close> (\<^verbatim>\<open>kernel_clone\<close> and its callers, vfork), \<^verbatim>\<open>Unshare\<close> (\<^verbatim>\<open>ksys_unshare\<close>, limits on threads), \<^verbatim>\<open>Task_Stack\<close> (kernel
    stacks), \<^verbatim>\<open>Mm_Life\<close> and \<^verbatim>\<open>Mm_Start\<close> (address spaces, the boot parameter for core dumps), \<^verbatim>\<open>Task_Life\<close> (release of tasks, counts, pidfds, idle tasks), \<^verbatim>\<open>Process_Tree\<close> (\<^verbatim>\<open>walk_process_tree\<close>).
  \<^item> \<^verbatim>\<open>System\<close>: the state-changing calls of the kernel part as one transition system.  \<^verbatim>\<open>Requirements\<close>: what \<^verbatim>\<open>OSEXP-1.md\<close> demands, as an abstract
    machine that the transition system refines.  \<^verbatim>\<open>Syscall\<close> (\<^verbatim>\<open>include/linux/syscalls.h\<close>, the table of system calls, \<^verbatim>\<open>tests\<close>): the macros that
    define a system call, the stubs of the two new calls, and the two test programs.
  \<^item> \<^verbatim>\<open>src/shell\<close>: \<^verbatim>\<open>Shell_Clean\<close> (\<^verbatim>\<open>utilities.c\<close>), \<^verbatim>\<open>Shell_Parse\<close> (\<^verbatim>\<open>handle_redirection\<close>, search path), \<^verbatim>\<open>Shell_Exec\<close> (pipelines and processes, locale
    \<^verbatim>\<open>fd_table\<close>), \<^verbatim>\<open>Shell_Loop\<close> (\<^verbatim>\<open>parse_command\<close>, built-in commands, \<^verbatim>\<open>run_shell\<close>).

  \<^bold>\<open>State and operations.\<close>  The kernel state is the record \<^verbatim>\<open>kernel\<close>: the tasks by pointer, the list that \<^verbatim>\<open>for_each_process\<close> walks, \<^verbatim>\<open>hidden_flag\<close>, the signal
  structures and the address spaces.  A C function is a HOL function of the same name from its arguments and the state to its result
  (\<^verbatim>\<open>Inl\<close> an error number, \<^verbatim>\<open>Inr\<close> a value), the new state and a trace of what it does outside the state (references and locks taken and
  dropped, calls into other subsystems, messages).  Unsigned integers are words of their width; \<^verbatim>\<open>int\<close> and \<^verbatim>\<open>pid_t\<close> are integers, with the
  range as a hypothesis where it matters.  Undefined behaviour (a write past an array, an unterminated string) is the value \<^verbatim>\<open>None\<close> or a constructor of
  its own.  Tasks, signal structures and areas acquired by a modelled allocator are fresh pointers given by the environment.

  \<^bold>\<open>What the theorems show.\<close>
  \<^item> Hiding: the calls do exactly what they are asked for and only root can ask; a full listing of \<^verbatim>\<open>/proc\<close> shows exactly the permitted processes
    that are not hidden, in any number of pieces; a hidden process stays hidden through every sequence of calls that does not ask for the
    opposite, and a recovery brings all back; a new process is never hidden; lookup agrees with listing; \<^verbatim>\<open>hide\<close> drops every cached
    directory.  The same definitions show where hiding leaks: references that are never dropped, a 1000-byte buffer that overflows, the
    thread directories, entries cached before the flag is set.
  \<^item> Forking: every failing step releases exactly what was acquired, newest first; a successful call shares what the flags say and counts
    threads exactly; a child inherits a fixed list of fields and nothing else; stacks, address spaces and signal structures are
    neither leaked nor freed early in any sequence of calls.
  \<^item> Waiting: the wait loop of \<^verbatim>\<open>sched.h\<close> loses no wakeup in any interleaving, and would without its barrier.
  \<^item> System calls: the stubs hand over exactly the arguments of the caller, whatever else the registers hold.
  \<^item> \<^verbatim>\<open>/proc/<pid>\<close>: what is written is read back, page-wise and buffered loops compute the single transfer they stand for, files that reveal
    something of another process are constant without the right to look, and everything taken is dropped.
  \<^item> Shell: the in-place \<^verbatim>\<open>clean\<close> equals its reference, printed commands parse back, a pipeline is wired in order and the descriptors of the
    shell are restored, with the cases in which they are not.

  \<^bold>\<open>Parameters.\<close>  Code outside \<^verbatim>\<open>src\<close> is an argument: the pid namespace and the pid table, \<^verbatim>\<open>copy_to_user\<close> and \<^verbatim>\<open>copy_from_user\<close>, \<^verbatim>\<open>kstrtoint\<close>, the allocators,
  security hooks, \<^verbatim>\<open>ptrace_may_access\<close>, the dentry cache, POSIX calls of the shell.  What the code relies on is stated in predicates whose names end
  in \<^verbatim>\<open>_doc\<close> or \<^verbatim>\<open>_ok\<close>, and each theorem that uses one has a witness with a concrete function in its place.

  \<^bold>\<open>Bounds.\<close>  The retry loop of \<^verbatim>\<open>next_tgid\<close> and the loop of \<^verbatim>\<open>proc_pid_readdir\<close> take \<^verbatim>\<open>PID_MAX_LIMIT\<close> as fuel; both move to a larger number below that limit with
  every turn, so it is enough (\<^verbatim>\<open>readdir_loop_refines\<close>).  The machine of \<^verbatim>\<open>walk_process_tree\<close> takes fuel, and enough of it exists for every finite
  tree.  The loops over buffers end because what is left to copy shrinks.

  \<^bold>\<open>Configuration.\<close>  \<^verbatim>\<open>CONFIG_MMU\<close>, \<^verbatim>\<open>CONFIG_NUMA\<close>, \<^verbatim>\<open>CONFIG_BLOCK\<close>, \<^verbatim>\<open>CONFIG_VMAP_STACK\<close>, \<^verbatim>\<open>CONFIG_THREAD_INFO_IN_TASK\<close>, \<^verbatim>\<open>CONFIG_FAULT_INJECTION\<close>, a stack that grows down.  The tables of
  \<^verbatim>\<open>/proc/<pid>\<close> are modelled for every configuration.

  \<^bold>\<open>Not modelled.\<close>  Interleaving inside a call, apart from the wait loop: a call is one step, and the locks it takes are events of its trace.  The creation of slab caches
  and start-up code of \<^verbatim>\<open>fork.c\<close> (calls into the allocator only), variants of functions for other configurations, scheduler, statistics
  and debugging fields of \<^verbatim>\<open>task_struct\<close> and the declarations of \<^verbatim>\<open>sched.h\<close>, the prototypes of \<^verbatim>\<open>include/linux/syscalls.h\<close>, the files CMake
  generated, and make files.
\<close>

end
